(* ===== verification/Idb_Prelude.thy ===== *)
theory Idb_Prelude
  imports Main "HOL-Library.Word" "HOL-Library.Multiset"
begin

text \<open>
  What the components share: the Go values the program passes around (nullable columns, byte
  strings, points in time), the outcome of a Go call that may return an error or panic, the parts
  of the standard library that convert numbers to and from decimal strings, and generic lemmas on
  lists, maps and multisets that several component proofs use.
\<close>

section \<open>Lemma collections\<close>

named_theorems map_update_simps \<open>lookup and domain of updated maps\<close>
named_theorems time_simps \<open>arithmetic of durations and instants\<close>

section \<open>Outcome of a Go call\<close>

text \<open>
  A Go function ends by returning a value, by returning a non-nil error, or by a panic (an explicit
  \<open>panic\<close>, a nil dereference, a send on or second close of a closed channel).
\<close>

datatype ('e, 'a) outcome = Ok 'a | Err 'e | Panic string

fun bind_outcome :: "('e, 'a) outcome \<Rightarrow> ('a \<Rightarrow> ('e, 'b) outcome) \<Rightarrow> ('e, 'b) outcome" where
  "bind_outcome (Ok a) f = f a"
| "bind_outcome (Err e) f = Err e"
| "bind_outcome (Panic p) f = Panic p"

fun is_ok :: "('e, 'a) outcome \<Rightarrow> bool" where
  "is_ok (Ok a) = True"
| "is_ok (Err e) = False"
| "is_ok (Panic p) = False"

fun is_panic :: "('e, 'a) outcome \<Rightarrow> bool" where
  "is_panic (Panic p) = True"
| "is_panic (Ok a) = False"
| "is_panic (Err e) = False"

lemma bind_outcome_Ok_iff:
  "bind_outcome m f = Ok b \<longleftrightarrow> (\<exists>a. m = Ok a \<and> f a = Ok b)"
  by (cases m) auto

section \<open>Nullable values\<close>

text \<open>
  The structs \<open>types.Bool\<close>, \<open>types.String\<close> and \<open>types.Int\<close> embed the \<open>sql.Null*\<close> structs: a value and a
  flag that says whether it is there. The value is kept even where the flag is false, since Go's
  struct comparison looks at both. A \<open>types.Binary\<close> is a byte slice, which may be nil.
\<close>

record go_bool =
  bool_val :: bool
  bool_valid :: bool

record go_string =
  str_val :: string
  str_valid :: bool

record go_int =
  int_val :: int
  int_valid :: bool

definition MakeBool :: "bool \<Rightarrow> go_bool" where
  "MakeBool b = \<lparr>bool_val = b, bool_valid = True\<rparr>"

definition null_bool :: go_bool where
  "null_bool = \<lparr>bool_val = False, bool_valid = False\<rparr>"

definition MakeString :: "string \<Rightarrow> go_string" where
  "MakeString s = \<lparr>str_val = s, str_valid = True\<rparr>"

definition null_string :: go_string where
  "null_string = \<lparr>str_val = [], str_valid = False\<rparr>"

definition bool_true :: "go_bool \<Rightarrow> bool" where
  "bool_true b \<longleftrightarrow> bool_valid b \<and> bool_val b"

lemma bool_true_MakeBool [simp]: "bool_true (MakeBool b) = b"
  by (simp add: bool_true_def MakeBool_def)

lemma bool_true_null [simp]: "\<not> bool_true null_bool"
  by (simp add: bool_true_def null_bool_def)

type_synonym bytes = "8 word list"

type_synonym binary = "bytes option"

text \<open>\<open>bytes.Equal\<close>: a nil slice and an empty one are equal.\<close>

definition bytes_of :: "binary \<Rightarrow> bytes" where
  "bytes_of b = (case b of None \<Rightarrow> [] | Some xs \<Rightarrow> xs)"

definition bytes_equal :: "binary \<Rightarrow> binary \<Rightarrow> bool" where
  "bytes_equal a b \<longleftrightarrow> bytes_of a = bytes_of b"

lemma bytes_equal_refl [simp]: "bytes_equal a a"
  by (simp add: bytes_equal_def)

lemma bytes_equal_sym: "bytes_equal a b \<longleftrightarrow> bytes_equal b a"
  by (auto simp: bytes_equal_def)

section \<open>Redis stream messages\<close>

text \<open>
  A \<open>redis.XMessage\<close> has an ID and a map of values of type \<open>any\<close>: strings in all but malformed
  messages, for which the code reports the dynamic type.
\<close>

datatype any = AString string | AOther string

record xmessage =
  msg_ID :: string
  msg_Values :: "string \<rightharpoonup> any"

section \<open>Instants and durations\<close>

text \<open>
  A \<open>time.Time\<close> is the number of nanoseconds since the Unix epoch, a \<open>time.Duration\<close> a number of
  nanoseconds. The zero \<open>time.Time\<close> is 1 January of the year 1, not the epoch.
\<close>

type_synonym time = int
type_synonym duration = int

definition nanos_per_milli :: int where
  "nanos_per_milli = 1000000"

definition second :: duration where
  "second = 1000000000"

definition millisecond :: duration where
  "millisecond = 1000000"

definition zero_time :: time where
  "zero_time = -62135596800 * 1000000000"

definition time_is_zero :: "time \<Rightarrow> bool" where
  "time_is_zero t \<longleftrightarrow> t = zero_time"

definition unix_milli :: "time \<Rightarrow> int" where
  "unix_milli t = t div nanos_per_milli"

definition from_unix_milli :: "int \<Rightarrow> time" where
  "from_unix_milli ms = ms * nanos_per_milli"

lemma unix_milli_from [simp]: "unix_milli (from_unix_milli ms) = ms"
  by (simp add: unix_milli_def from_unix_milli_def nanos_per_milli_def)

lemmas duration_defs [time_simps] = second_def millisecond_def nanos_per_milli_def

lemma zero_time_not_zero [simp]: "time_is_zero zero_time"
  by (simp add: time_is_zero_def)

section \<open>Maps, lists and multisets\<close>

lemma map_upd_neq [map_update_simps]: "k \<noteq> k' \<Longrightarrow> (m(k \<mapsto> v)) k' = m k'"
  by simp

lemma ran_map_upd_subset: "ran (m(k \<mapsto> v)) \<subseteq> insert v (ran m)"
  by (auto simp: ran_def)

lemma count_filter_mset_add:
  "size (filter_mset P (add_mset x M)) = (if P x then 1 else 0) + size (filter_mset P M)"
  by simp

lemma nth_swap:
  assumes "i < length xs" and "j < length xs" and "k < length xs"
  shows "(xs[i := xs ! j, j := xs ! i]) ! k =
    (if k = j then xs ! i else if k = i then xs ! j else xs ! k)"
  using assms by (auto simp: nth_list_update)

lemma mset_swap_nth:
  assumes "i < length xs" and "j < length xs"
  shows "mset (xs[i := xs ! j, j := xs ! i]) = mset xs"
  using assms by (simp add: mset_swap)

end
