(* ===== verification/Stream_Id.thy ===== *)
theory Stream_Id
  imports Idb_Prelude
begin

text \<open>
  Decimal numbers (\<open>strconv.ParseInt\<close>, \<open>strconv.ParseUint\<close>, \<open>strconv.FormatInt\<close>) and the Redis Stream
  ID parser of \<open>pkg/notifications/sorter.go\<close>.
\<close>

section \<open>Characters and suffixes\<close>

text \<open>The characters that the regular expression \<open>\w\<close> matches, and \<open>strings.HasSuffix\<close>.\<close>

definition is_word :: "char \<Rightarrow> bool" where
  "is_word c \<longleftrightarrow> c = CHR ''_'' \<or> 48 \<le> (of_char c :: nat) \<and> (of_char c :: nat) \<le> 57 \<or>
     65 \<le> (of_char c :: nat) \<and> (of_char c :: nat) \<le> 90 \<or> 97 \<le> (of_char c :: nat) \<and> (of_char c :: nat) \<le> 122"

definition has_suffix :: "string \<Rightarrow> string \<Rightarrow> bool" where
  "has_suffix s suffix \<longleftrightarrow> length suffix \<le> length s \<and> drop (length s - length suffix) s = suffix"

section \<open>Decimal strings\<close>

definition is_digit :: "char \<Rightarrow> bool" where
  "is_digit c \<longleftrightarrow> 48 \<le> (of_char c :: nat) \<and> (of_char c :: nat) \<le> 57"

text \<open>Hexadecimal digits, of either case; they are printed in lower case.\<close>

definition hex_value :: "char \<Rightarrow> nat option" where
  "hex_value c =
     (let n = (of_char c :: nat)
      in if 48 \<le> n \<and> n \<le> 57 then Some (n - 48)
         else if 97 \<le> n \<and> n \<le> 102 then Some (n - 87)
         else if 65 \<le> n \<and> n \<le> 70 then Some (n - 55) else None)"

definition hex_digit :: "nat \<Rightarrow> char" where
  "hex_digit n = char_of (if n < 10 then 48 + n else 87 + n)"

definition hex_EncodeToString :: "bytes \<Rightarrow> string" where
  "hex_EncodeToString bs = concat (map (\<lambda>b. [hex_digit (unat b div 16), hex_digit (unat b mod 16)]) bs)"

definition digit_val :: "char \<Rightarrow> nat" where
  "digit_val c = of_char c - 48"

definition digit_char :: "nat \<Rightarrow> char" where
  "digit_char d = char_of (48 + d)"

datatype num_error = ErrSyntax | ErrRange

text \<open>
  \<open>ParseUint\<close> in base 10 reads the digits from the left and stops at the first problem it meets: a
  character that is no digit, or a value above the largest one of the requested width.
\<close>

fun parse_digits :: "nat \<Rightarrow> nat \<Rightarrow> string \<Rightarrow> num_error + nat" where
  "parse_digits mx n [] = Inr n"
| "parse_digits mx n (c # cs) =
     (if \<not> is_digit c then Inl ErrSyntax
      else if 10 * n + digit_val c > mx then Inl ErrRange
      else parse_digits mx (10 * n + digit_val c) cs)"

definition ParseUint :: "nat \<Rightarrow> string \<Rightarrow> num_error + nat" where
  "ParseUint bits s = (if s = [] then Inl ErrSyntax else parse_digits (2 ^ bits - 1) 0 s)"

definition ParseInt64 :: "string \<Rightarrow> num_error + int" where
  "ParseInt64 s =
     (if s = [] then Inl ErrSyntax
      else
        let neg = (hd s = CHR ''-'');
            body = (if hd s = CHR ''-'' \<or> hd s = CHR ''+'' then tl s else s)
        in case ParseUint 64 body of
             Inl e \<Rightarrow> Inl e
           | Inr un \<Rightarrow>
               if \<not> neg \<and> un \<ge> 2 ^ 63 then Inl ErrRange
               else if neg \<and> un > 2 ^ 63 then Inl ErrRange
               else Inr (if neg then - int un else int un))"

fun format_nat :: "nat \<Rightarrow> string" where
  "format_nat n =
     (if n < 10 then [digit_char n] else format_nat (n div 10) @ [digit_char (n mod 10)])"

declare format_nat.simps [simp del]

definition FormatInt :: "int \<Rightarrow> string" where
  "FormatInt i = (if i < 0 then CHR ''-'' # format_nat (nat (- i)) else format_nat (nat i))"

lemma is_digit_char [simp]: "d < 10 \<Longrightarrow> is_digit (digit_char d)"
  by (simp add: is_digit_def digit_char_def)

lemma digit_val_char [simp]: "d < 10 \<Longrightarrow> digit_val (digit_char d) = d"
  by (simp add: digit_val_def digit_char_def)

lemma parse_digits_snoc:
  "parse_digits mx m (xs @ [c]) =
     (case parse_digits mx m xs of Inl e \<Rightarrow> Inl e | Inr n \<Rightarrow> parse_digits mx n [c])"
  by (induction mx m xs rule: parse_digits.induct) auto

lemma format_nat_nonempty [simp]: "format_nat n \<noteq> []"
  by (subst format_nat.simps) simp

lemma format_nat_digits: "c \<in> set (format_nat n) \<Longrightarrow> is_digit c"
proof (induction n rule: format_nat.induct)
  case (1 n)
  show ?case
  proof (cases "n < 10")
    case True
    with "1.prems" show ?thesis by (simp add: format_nat.simps [of n])
  next
    case False
    with "1.prems" "1.IH" show ?thesis by (auto simp: format_nat.simps [of n])
  qed
qed

lemma parse_digits_format: "n \<le> mx \<Longrightarrow> parse_digits mx 0 (format_nat n) = Inr n"
proof (induction n rule: format_nat.induct)
  case (1 n)
  show ?case
  proof (cases "n < 10")
    case True
    with "1.prems" show ?thesis by (simp add: format_nat.simps [of n])
  next
    case False
    with "1.prems" have "n div 10 \<le> mx" by linarith
    with False "1.IH" have "parse_digits mx 0 (format_nat (n div 10)) = Inr (n div 10)"
      by simp
    moreover have "10 * (n div 10) + n mod 10 = n" by simp
    ultimately show ?thesis
      using False "1.prems" by (simp add: format_nat.simps [of n] parse_digits_snoc)
  qed
qed

lemma ParseUint_format: "n < 2 ^ bits \<Longrightarrow> ParseUint bits (format_nat n) = Inr n"
  by (simp add: ParseUint_def parse_digits_format)

lemma parse_digits_bound: "parse_digits mx n s = Inr r \<Longrightarrow> n \<le> mx \<Longrightarrow> r \<le> mx"
  by (induction mx n s rule: parse_digits.induct) (auto split: if_splits)

lemma ParseUint_bound: "ParseUint bits s = Inr r \<Longrightarrow> r < 2 ^ bits"
proof -
  assume "ParseUint bits s = Inr r"
  then have "r \<le> 2 ^ bits - 1"
    by (auto simp: ParseUint_def split: if_splits intro: parse_digits_bound)
  moreover have "0 < (2::nat) ^ bits" by simp
  ultimately show ?thesis by linarith
qed

lemma digit_not_sign: "is_digit c \<Longrightarrow> c \<noteq> CHR ''-'' \<and> c \<noteq> CHR ''+''"
  by (auto simp: is_digit_def)

lemma hd_format_nat: "hd (format_nat n) \<noteq> CHR ''-'' \<and> hd (format_nat n) \<noteq> CHR ''+''"
  using format_nat_digits [of "hd (format_nat n)" n] digit_not_sign by simp

lemma hex_value_digit: "n < 16 \<Longrightarrow> hex_value (hex_digit n) = Some n"
  by (auto simp: hex_value_def hex_digit_def Let_def)

lemma format_nat_inj: "format_nat m = format_nat n \<Longrightarrow> m = n"
  by (metis max.cobounded1 max.cobounded2 parse_digits_format sum.inject(2))

lemma FormatInt_nonempty [simp]: "FormatInt i \<noteq> []"
  by (simp add: FormatInt_def)

lemma ParseInt64_FormatInt:
  assumes "- (2 ^ 63) \<le> i" and "i < 2 ^ 63"
  shows "ParseInt64 (FormatInt i) = Inr i"
proof (cases "i < 0")
  case True
  then have "nat (- i) < 2 ^ 64" and "nat (- i) \<le> 2 ^ 63"
    using assms(1) by auto
  with True show ?thesis
    by (simp add: FormatInt_def ParseInt64_def ParseUint_format)
next
  case False
  then have "nat i < 2 ^ 64" and "nat i < 2 ^ 63"
    using assms(2) by auto
  with False show ?thesis
    using hd_format_nat [of "nat i"]
    by (simp add: FormatInt_def ParseInt64_def ParseUint_format)
qed

lemma ParseInt64_bounds: "ParseInt64 s = Inr i \<Longrightarrow> - (2 ^ 63) \<le> i \<and> i < 2 ^ 63"
  by (auto simp: ParseInt64_def Let_def split: if_splits sum.splits)

lemma ParseInt64_nonneg:
  "ParseInt64 s = Inr i \<Longrightarrow> CHR ''-'' \<notin> set s \<Longrightarrow> 0 \<le> i"
  by (cases s) (auto simp: ParseInt64_def Let_def split: if_splits sum.splits)

section \<open>Redis Stream IDs\<close>

datatype id_error = BadPattern | BadTimestamp num_error | BadSequence num_error

text \<open>\<open>strings.IndexRune\<close>: the position of the first occurrence, or -1.\<close>

fun IndexRune :: "string \<Rightarrow> char \<Rightarrow> int" where
  "IndexRune [] r = -1"
| "IndexRune (c # cs) r =
     (if c = r then 0 else let i = IndexRune cs r in if i < 0 then -1 else i + 1)"

definition parseRedisStreamId :: "string \<Rightarrow> id_error + (int \<times> int)" where
  "parseRedisStreamId redisStreamId =
     (let dashPos = IndexRune redisStreamId (CHR ''-'') in
      if dashPos \<le> 0 then Inl BadPattern
      else
        case ParseInt64 (take (nat dashPos) redisStreamId) of
          Inl e \<Rightarrow> Inl (BadTimestamp e)
        | Inr ms \<Rightarrow>
            (case ParseInt64 (drop (nat dashPos + 1) redisStreamId) of
               Inl e \<Rightarrow> Inl (BadSequence e)
             | Inr seq \<Rightarrow> Inr (ms, seq)))"

lemma IndexRune_append: "r \<notin> set xs \<Longrightarrow> IndexRune (xs @ r # ys) r = int (length xs)"
  by (induction xs) (auto simp: Let_def)

lemma IndexRune_take: "CHR ''-'' \<notin> set (take (nat (IndexRune s (CHR ''-''))) s)"
proof (induction s)
  case Nil
  then show ?case by simp
next
  case (Cons c s)
  show ?case
  proof (cases "c = CHR ''-''")
    case True
    then show ?thesis by simp
  next
    case False
    then show ?thesis
      using Cons by (auto simp: Let_def nat_add_distrib)
  qed
qed

lemma dash_not_in_format: "CHR ''-'' \<notin> set (format_nat n)"
  using format_nat_digits digit_not_sign by blast

text \<open>A Redis Stream ID written as \<open><milliseconds>-<sequence>\<close> is parsed back to the two numbers
  it was written from, for every pair of non-negative 64-bit signed numbers.\<close>

theorem parseRedisStreamId_roundtrip:
  assumes "0 \<le> ms" and "ms < 2 ^ 63" and "0 \<le> seq" and "seq < 2 ^ 63"
  shows "parseRedisStreamId (FormatInt ms @ CHR ''-'' # FormatInt seq) = Inr (ms, seq)"
proof -
  have "IndexRune (FormatInt ms @ CHR ''-'' # FormatInt seq) (CHR ''-'') = int (length (FormatInt ms))"
    using assms(1) by (intro IndexRune_append) (simp add: FormatInt_def dash_not_in_format)
  moreover have "0 < length (FormatInt ms)"
    by (simp add: FormatInt_def)
  ultimately show ?thesis
    using assms by (simp add: parseRedisStreamId_def ParseInt64_FormatInt)
qed

theorem parseRedisStreamId_roundtrip_witness:
  "parseRedisStreamId (FormatInt 1700000000123 @ CHR ''-'' # FormatInt 7) = Inr (1700000000123, 7)"
  by (rule parseRedisStreamId_roundtrip) simp_all

text \<open>Whatever string is accepted as a Redis Stream ID, the timestamp it yields is never negative
  and both numbers fit the 64-bit signed integers the sorter compares.\<close>

theorem parseRedisStreamId_bounds:
  assumes "parseRedisStreamId s = Inr (ms, seq)"
  shows "0 \<le> ms \<and> ms < 2 ^ 63 \<and> - (2 ^ 63) \<le> seq \<and> seq < 2 ^ 63"
proof -
  from assms have ms: "ParseInt64 (take (nat (IndexRune s (CHR ''-''))) s) = Inr ms"
    and seq: "ParseInt64 (drop (nat (IndexRune s (CHR ''-'')) + 1) s) = Inr seq"
    by (auto simp: parseRedisStreamId_def Let_def split: if_splits sum.splits)
  show ?thesis
    using ParseInt64_nonneg [OF ms IndexRune_take] ParseInt64_bounds [OF ms] ParseInt64_bounds [OF seq]
    by simp
qed

theorem parseRedisStreamId_bounds_witness:
  "parseRedisStreamId ''15--3'' = Inr (15, -3) \<and> (0::int) \<le> 15 \<and> - (2 ^ 63) \<le> (-3 :: int)"
proof -
  have h: "parseRedisStreamId ''15--3'' = Inr (15, -3)"
    by (simp add: parseRedisStreamId_def ParseInt64_def ParseUint_def is_digit_def digit_val_def)
  show ?thesis using h parseRedisStreamId_bounds [OF h] by simp
qed

end
