(* ===== verification/Go_Heap.thy ===== *)
theory Go_Heap
  imports Idb_Prelude
begin

text \<open>
  The binary heap of Go's \<open>container/heap\<close>, which the stream sorter uses as its priority queue, on
  slices as lists. The contract of \<open>sort.Interface.Less\<close> (a strict weak order) and the contract of a
  priority queue are locales; the first gives the second.
\<close>

section \<open>The operations\<close>

definition swap_at :: "'a list \<Rightarrow> nat \<Rightarrow> nat \<Rightarrow> 'a list" where
  "swap_at xs i j = xs[i := xs ! j, j := xs ! i]"

text \<open>Go's \<open>(j - 1) / 2\<close> truncates towards zero, so the parent of 0 is 0, as on natural numbers.\<close>

abbreviation parent :: "nat \<Rightarrow> nat" where
  "parent j \<equiv> (j - 1) div 2"

function heap_up :: "('a \<Rightarrow> 'a \<Rightarrow> bool) \<Rightarrow> 'a list \<Rightarrow> nat \<Rightarrow> 'a list" where
  "heap_up lt xs j =
     (if parent j = j \<or> \<not> lt (xs ! j) (xs ! parent j) then xs
      else heap_up lt (swap_at xs (parent j) j) (parent j))"
  by pat_completeness auto
termination
  by (relation "measure (\<lambda>(lt, xs, j). j)") auto

definition smaller_child :: "('a \<Rightarrow> 'a \<Rightarrow> bool) \<Rightarrow> 'a list \<Rightarrow> nat \<Rightarrow> nat \<Rightarrow> nat" where
  "smaller_child lt xs i n =
     (let j1 = 2 * i + 1; j2 = j1 + 1
      in if j2 < n \<and> lt (xs ! j2) (xs ! j1) then j2 else j1)"

lemma smaller_child_cases:
  "smaller_child lt xs i n = 2 * i + 1 \<or>
   (smaller_child lt xs i n = 2 * i + 2 \<and> 2 * i + 2 < n)"
  by (simp add: smaller_child_def Let_def)

function heap_down :: "('a \<Rightarrow> 'a \<Rightarrow> bool) \<Rightarrow> 'a list \<Rightarrow> nat \<Rightarrow> nat \<Rightarrow> 'a list" where
  "heap_down lt xs i n =
     (if 2 * i + 1 \<ge> n \<or> \<not> lt (xs ! smaller_child lt xs i n) (xs ! i) then xs
      else heap_down lt (swap_at xs i (smaller_child lt xs i n)) (smaller_child lt xs i n) n)"
  by pat_completeness auto
termination
proof (relation "measure (\<lambda>(lt, xs, i, n). n - i)", goal_cases)
  case 1
  show ?case by simp
next
  case (2 lt xs i n)
  then show ?case using smaller_child_cases [of lt xs i n] by auto
qed

declare heap_up.simps [simp del] heap_down.simps [simp del]

definition heap_push :: "('a \<Rightarrow> 'a \<Rightarrow> bool) \<Rightarrow> 'a \<Rightarrow> 'a list \<Rightarrow> 'a list" where
  "heap_push lt x h = heap_up lt (h @ [x]) (length h)"

text \<open>\<open>None\<close>: on an empty heap \<open>heap.Pop\<close> indexes the slice out of range and panics.\<close>

definition heap_pop :: "('a \<Rightarrow> 'a \<Rightarrow> bool) \<Rightarrow> 'a list \<Rightarrow> ('a \<times> 'a list) option" where
  "heap_pop lt h =
     (if h = [] then None
      else
        let n = length h - 1; h' = heap_down lt (swap_at h 0 n) 0 n
        in Some (last h', butlast h'))"

definition heap_peek :: "'a list \<Rightarrow> 'a option" where
  "heap_peek h = (if 0 < length h then Some (h ! 0) else None)"

section \<open>Swapping\<close>

lemma length_swap_at [simp]: "length (swap_at xs i j) = length xs"
  by (simp add: swap_at_def)

lemma mset_swap_at [simp]: "i < length xs \<Longrightarrow> j < length xs \<Longrightarrow> mset (swap_at xs i j) = mset xs"
  by (simp add: swap_at_def mset_swap_nth)

lemma nth_swap_at:
  "i < length xs \<Longrightarrow> j < length xs \<Longrightarrow> k < length xs \<Longrightarrow>
   swap_at xs i j ! k = (if k = j then xs ! i else if k = i then xs ! j else xs ! k)"
  by (simp add: swap_at_def nth_swap)

lemma length_heap_up [simp]: "length (heap_up lt xs j) = length xs"
  by (induction lt xs j rule: heap_up.induct) (subst heap_up.simps, simp)

lemma mset_heap_up [simp]: "j < length xs \<Longrightarrow> mset (heap_up lt xs j) = mset xs"
proof (induction lt xs j rule: heap_up.induct)
  case (1 lt xs j)
  have "parent j < length xs" using "1.prems" by auto
  with 1 show ?case by (subst heap_up.simps) auto
qed

lemma length_heap_down [simp]: "length (heap_down lt xs i n) = length xs"
  by (induction lt xs i n rule: heap_down.induct) (subst heap_down.simps, simp)

lemma smaller_child_less: "2 * i + 1 < n \<Longrightarrow> smaller_child lt xs i n < n"
  using smaller_child_cases [of lt xs i n] by auto

lemma mset_heap_down [simp]: "n \<le> length xs \<Longrightarrow> mset (heap_down lt xs i n) = mset xs"
proof (induction lt xs i n rule: heap_down.induct)
  case (1 lt xs i n)
  show ?case
  proof (cases "2 * i + 1 \<ge> n \<or> \<not> lt (xs ! smaller_child lt xs i n) (xs ! i)")
    case True
    then show ?thesis by (subst heap_down.simps) simp
  next
    case False
    then have "smaller_child lt xs i n < length xs"
      using smaller_child_less [of i n lt xs] "1.prems" by auto
    with False 1 show ?thesis by (subst heap_down.simps) simp
  qed
qed

lemma heap_down_beyond: "n \<le> k \<Longrightarrow> k < length xs \<Longrightarrow> n \<le> length xs \<Longrightarrow> heap_down lt xs i n ! k = xs ! k"
proof (induction lt xs i n rule: heap_down.induct)
  case (1 lt xs i n)
  show ?case
  proof (cases "2 * i + 1 \<ge> n \<or> \<not> lt (xs ! smaller_child lt xs i n) (xs ! i)")
    case True
    then show ?thesis by (subst heap_down.simps) simp
  next
    case False
    then have "smaller_child lt xs i n < n"
      using smaller_child_less [of i n lt xs] by auto
    with False 1 show ?thesis by (subst heap_down.simps) (auto simp: nth_swap_at)
  qed
qed

section \<open>Heaps\<close>

definition is_heap :: "('a \<Rightarrow> 'a \<Rightarrow> bool) \<Rightarrow> 'a list \<Rightarrow> bool" where
  "is_heap lt xs \<longleftrightarrow> (\<forall>c. 0 < c \<and> c < length xs \<longrightarrow> \<not> lt (xs ! c) (xs ! parent c))"

text \<open>A heap but for position \<open>j\<close>, which may be smaller than its ancestors (while moving up) ...\<close>

definition heap_up_at :: "('a \<Rightarrow> 'a \<Rightarrow> bool) \<Rightarrow> 'a list \<Rightarrow> nat \<Rightarrow> bool" where
  "heap_up_at lt xs j \<longleftrightarrow>
     (\<forall>c. 0 < c \<and> c < length xs \<and> c \<noteq> j \<longrightarrow> \<not> lt (xs ! c) (xs ! parent c)) \<and>
     (\<forall>c. 0 < c \<and> c < length xs \<and> parent c = j \<and> 0 < j \<longrightarrow> \<not> lt (xs ! c) (xs ! parent j))"

text \<open>... or larger than its descendants below \<open>n\<close> (while moving down).\<close>

definition heap_down_at :: "('a \<Rightarrow> 'a \<Rightarrow> bool) \<Rightarrow> 'a list \<Rightarrow> nat \<Rightarrow> nat \<Rightarrow> bool" where
  "heap_down_at lt xs i n \<longleftrightarrow>
     (\<forall>c. 0 < c \<and> c < n \<and> parent c \<noteq> i \<longrightarrow> \<not> lt (xs ! c) (xs ! parent c)) \<and>
     (\<forall>c. 0 < c \<and> c < n \<and> parent c = i \<and> 0 < i \<longrightarrow> \<not> lt (xs ! c) (xs ! parent i))"

lemma parent_children: "0 < c \<Longrightarrow> parent c = i \<longleftrightarrow> c = 2 * i + 1 \<or> c = 2 * i + 2"
  by presburger

lemma parent_less: "0 < c \<Longrightarrow> parent c < c"
  by presburger

section \<open>The contract of Less, and what it gives\<close>

locale strict_weak_order =
  fixes lt :: "'a \<Rightarrow> 'a \<Rightarrow> bool"
  assumes irrefl: "\<not> lt a a"
    and trans: "lt a b \<Longrightarrow> lt b c \<Longrightarrow> lt a c"
    and negtrans: "\<not> lt a b \<Longrightarrow> \<not> lt b c \<Longrightarrow> \<not> lt a c"
begin

lemma asym: "lt a b \<Longrightarrow> \<not> lt b a"
  using irrefl trans by blast

lemma heap_up_step:
  assumes at: "heap_up_at lt xs j" and j: "j < length xs" "parent j \<noteq> j"
    and less: "lt (xs ! j) (xs ! parent j)"
  shows "heap_up_at lt (swap_at xs (parent j) j) (parent j)"
proof -
  let ?i = "parent j" and ?ys = "swap_at xs (parent j) j"
  have j0: "0 < j" using j(2) by (cases j) auto
  have ij: "?i < j" using j0 by (rule parent_less)
  have i: "?i < length xs" using ij j(1) by simp
  have up: "\<not> lt (xs ! c) (xs ! parent c)" if "0 < c" "c < length xs" "c \<noteq> j" for c
    using at that by (simp add: heap_up_at_def)
  have grand: "\<not> lt (xs ! c) (xs ! ?i)" if "0 < c" "c < length xs" "parent c = j" for c
    using at that j0 by (simp add: heap_up_at_def)
  have ys: "?ys ! k = (if k = j then xs ! ?i else if k = ?i then xs ! j else xs ! k)"
    if "k < length xs" for k
    using that i j(1) by (simp add: nth_swap_at)
  have "\<not> lt (?ys ! c) (?ys ! parent c)" if c: "0 < c" "c < length xs" "c \<noteq> ?i" for c
  proof -
    have pc: "parent c < c" "parent c < length xs" using parent_less [OF c(1)] c(2) by auto
    consider "c = j" | "c \<noteq> j" "parent c = j" | "c \<noteq> j" "parent c = ?i" | "c \<noteq> j" "parent c \<noteq> j" "parent c \<noteq> ?i"
      by blast
    then show ?thesis
    proof cases
      case 1
      then show ?thesis using ys i j(1) ij asym [OF less] by simp
    next
      case 2
      then show ?thesis using ys c pc grand [of c] by simp
    next
      case 3
      then show ?thesis using ys c pc up [of c] less trans ij by metis
    next
      case 4
      then show ?thesis using ys [OF c(2)] ys [OF pc(2)] up [of c] c by simp
    qed
  qed
  moreover have "\<not> lt (?ys ! c) (?ys ! parent ?i)"
    if c: "0 < c" "c < length xs" "parent c = ?i" "0 < ?i" for c
  proof -
    have pi: "parent ?i < ?i" using parent_less [OF c(4)] .
    have cz: "c \<noteq> ?i" using parent_less [OF c(1)] c(3) by linarith
    have top: "\<not> lt (xs ! ?i) (xs ! parent ?i)" using up [of ?i] c(4) i ij by simp
    show ?thesis
    proof (cases "c = j")
      case True
      then show ?thesis using ys [OF c(2)] ys [of "parent ?i"] pi i ij top by simp
    next
      case False
      then have "\<not> lt (xs ! c) (xs ! ?i)" using up [of c] c by metis
      then have "\<not> lt (xs ! c) (xs ! parent ?i)" using top negtrans by blast
      then show ?thesis using ys [OF c(2)] ys [of "parent ?i"] pi i ij False cz by simp
    qed
  qed
  ultimately show ?thesis by (simp add: heap_up_at_def)
qed

lemma heap_up_heap: "heap_up_at lt xs j \<Longrightarrow> j < length xs \<Longrightarrow> is_heap lt (heap_up lt xs j)"
proof (induction j arbitrary: xs rule: less_induct)
  case (less j)
  show ?case
  proof (cases "parent j = j \<or> \<not> lt (xs ! j) (xs ! parent j)")
    case True
    have "is_heap lt xs"
      unfolding is_heap_def
    proof (intro allI impI)
      fix c assume c: "0 < c \<and> c < length xs"
      show "\<not> lt (xs ! c) (xs ! parent c)"
      proof (cases "c = j")
        case True': True
        then show ?thesis using True c parent_less [of j] by auto
      next
        case False
        then show ?thesis using less.prems(1) c by (simp add: heap_up_at_def)
      qed
    qed
    with True show ?thesis by (subst heap_up.simps) simp
  next
    case False
    then have pj: "parent j < j" using parent_less [of j] by (cases j) auto
    have "heap_up_at lt (swap_at xs (parent j) j) (parent j)"
      using heap_up_step less.prems False by blast
    with less.IH [OF pj this] pj less.prems False show ?thesis by (subst heap_up.simps) simp
  qed
qed

lemma smaller_child_least:
  assumes "0 < c" and "c < n" and "parent c = i"
  shows "\<not> lt (xs ! c) (xs ! smaller_child lt xs i n)"
  using assms parent_children [OF assms(1), of i] asym irrefl
  by (auto simp: smaller_child_def Let_def)

lemma heap_down_step:
  assumes at: "heap_down_at lt xs i n" and n: "2 * i + 1 < n" "n \<le> length xs"
    and less: "lt (xs ! smaller_child lt xs i n) (xs ! i)"
  shows "heap_down_at lt (swap_at xs i (smaller_child lt xs i n)) (smaller_child lt xs i n) n"
proof -
  let ?j = "smaller_child lt xs i n"
  let ?ys = "swap_at xs i ?j"
  have j: "?j < n" "0 < ?j" "parent ?j = i" "i < ?j"
    using smaller_child_cases [of lt xs i n] n(1) by auto
  have dn: "\<not> lt (xs ! c) (xs ! parent c)" if "0 < c" "c < n" "parent c \<noteq> i" for c
    using at that by (simp add: heap_down_at_def)
  have grand: "\<not> lt (xs ! c) (xs ! parent i)" if "0 < c" "c < n" "parent c = i" "0 < i" for c
    using at that by (simp add: heap_down_at_def)
  have ys: "?ys ! k = (if k = ?j then xs ! i else if k = i then xs ! ?j else xs ! k)"
    if "k < n" for k
    using that j n by (simp add: nth_swap_at)
  have "\<not> lt (?ys ! c) (?ys ! parent c)" if c: "0 < c" "c < n" "parent c \<noteq> ?j" for c
  proof -
    have pc: "parent c < c" "parent c < n" using parent_less [OF c(1)] c(2) by auto
    consider "c = ?j" | "c \<noteq> ?j" "parent c = i" | "c = i" | "c \<noteq> ?j" "parent c \<noteq> i" "c \<noteq> i"
      by blast
    then show ?thesis
    proof cases
      case 1
      then show ?thesis using ys j asym [OF less] by simp
    next
      case 2
      then show ?thesis using ys c pc smaller_child_least [of c n i xs] by simp
    next
      case 3
      then have "\<not> lt (xs ! ?j) (xs ! parent i)" using grand [OF j(2) j(1) j(3)] c by simp
      then show ?thesis using 3 ys [OF c(2)] ys [OF pc(2)] c(3) j pc by simp
    next
      case 4
      then show ?thesis using ys [OF c(2)] ys [OF pc(2)] dn [of c] c by simp
    qed
  qed
  moreover have "\<not> lt (?ys ! c) (?ys ! parent ?j)" if c: "0 < c" "c < n" "parent c = ?j" for c
  proof -
    have "\<not> lt (xs ! c) (xs ! ?j)" using dn [of c] c j by auto
    moreover have "c \<noteq> ?j" "c \<noteq> i" using parent_less [OF c(1)] c(3) j by auto
    ultimately show ?thesis using ys [OF c(2)] ys [of i] j by simp
  qed
  ultimately show ?thesis by (simp add: heap_down_at_def)
qed

lemma heap_down_heap:
  assumes "heap_down_at lt xs i n" and "n \<le> length xs"
    and "0 < c" and "c < n"
  shows "\<not> lt (heap_down lt xs i n ! c) (heap_down lt xs i n ! parent c)"
  using assms
proof (induction "n - i" arbitrary: xs i rule: less_induct)
  case less
  show ?case
  proof (cases "2 * i + 1 \<ge> n \<or> \<not> lt (xs ! smaller_child lt xs i n) (xs ! i)")
    case True
    have "\<not> lt (xs ! c) (xs ! parent c)"
    proof (cases "parent c = i")
      case False
      then show ?thesis using less.prems by (simp add: heap_down_at_def)
    next
      case pc: True
      then have "2 * i + 1 < n" using parent_children [of c i] less.prems by auto
      with True have "\<not> lt (xs ! smaller_child lt xs i n) (xs ! i)" by simp
      then show ?thesis
        using smaller_child_least [OF less.prems(3,4) pc, of xs] negtrans pc by blast
    qed
    with True show ?thesis by (subst (1 2) heap_down.simps) simp
  next
    case False
    let ?j = "smaller_child lt xs i n"
    have j: "i < ?j" "?j < n" using smaller_child_cases [of lt xs i n] False by auto
    have "heap_down_at lt (swap_at xs i ?j) ?j n"
      using heap_down_step less.prems False by simp
    moreover have "n - ?j < n - i" using j by simp
    ultimately show ?thesis
      using less.hyps [of ?j "swap_at xs i ?j"] less.prems False
      by (subst (1 2) heap_down.simps) simp
  qed
qed

lemma heap_root_least: "is_heap lt xs \<Longrightarrow> c < length xs \<Longrightarrow> \<not> lt (xs ! c) (xs ! 0)"
proof (induction c rule: less_induct)
  case (less c)
  show ?case
  proof (cases "c = 0")
    case True
    then show ?thesis using irrefl by simp
  next
    case False
    then have "parent c < c" using parent_less by simp
    with less have "\<not> lt (xs ! parent c) (xs ! 0)" by simp
    moreover have "\<not> lt (xs ! c) (xs ! parent c)"
      using less.prems False by (simp add: is_heap_def)
    ultimately show ?thesis using negtrans by blast
  qed
qed

lemma heap_push_heap: "is_heap lt h \<Longrightarrow> is_heap lt (heap_push lt x h)"
proof -
  assume h: "is_heap lt h"
  have "heap_up_at lt (h @ [x]) (length h)"
    unfolding heap_up_at_def
  proof (intro conjI allI impI)
    fix c
    assume c: "0 < c \<and> c < length (h @ [x]) \<and> c \<noteq> length h"
    then have "parent c < length h" "c < length h" using parent_less [of c] by auto
    with h c show "\<not> lt ((h @ [x]) ! c) ((h @ [x]) ! parent c)"
      by (simp add: is_heap_def nth_append)
  next
    fix c
    assume c: "0 < c \<and> c < length (h @ [x]) \<and> parent c = length h \<and> 0 < length h"
    then show "\<not> lt ((h @ [x]) ! c) ((h @ [x]) ! parent (length h))"
      using parent_less [of c] by simp
  qed
  then show ?thesis by (simp add: heap_push_def heap_up_heap)
qed

lemma heap_pop_spec:
  assumes h: "is_heap lt h" and "h \<noteq> []"
  shows "\<exists>h'. heap_pop lt h = Some (h ! 0, h') \<and> is_heap lt h' \<and> mset h = add_mset (h ! 0) (mset h')"
proof -
  let ?n = "length h - 1"
  let ?d = "heap_down lt (swap_at h 0 ?n) 0 ?n"
  have n: "?n < length h" using assms(2) by (simp add: Suc_le_eq)
  have at: "heap_down_at lt (swap_at h 0 ?n) 0 ?n"
    unfolding heap_down_at_def
  proof (intro conjI allI impI)
    fix c
    assume c: "0 < c \<and> c < ?n \<and> parent c \<noteq> 0"
    then have pc: "parent c < ?n" using parent_less [of c] by linarith
    have "swap_at h 0 ?n ! c = h ! c" and "swap_at h 0 ?n ! parent c = h ! parent c"
      using c pc n assms(2) by (auto simp: nth_swap_at)
    with h c n show "\<not> lt (swap_at h 0 ?n ! c) (swap_at h 0 ?n ! parent c)"
      by (simp add: is_heap_def)
  qed simp
  have "length ?d = length h" by simp
  with assms(2) have ne: "?d \<noteq> []" by (metis length_0_conv)
  have last: "last ?d = h ! 0"
    using n ne assms(2) by (simp add: last_conv_nth heap_down_beyond nth_swap_at)
  have "is_heap lt (butlast ?d)"
    unfolding is_heap_def
  proof (intro allI impI)
    fix c
    assume c: "0 < c \<and> c < length (butlast ?d)"
    then have "parent c < ?n" using parent_less [of c] by simp
    with c show "\<not> lt (butlast ?d ! c) (butlast ?d ! parent c)"
      using heap_down_heap [OF at, of c] by (simp add: nth_butlast)
  qed
  moreover have "mset h = add_mset (h ! 0) (mset (butlast ?d))"
  proof -
    have "mset h = mset ?d" using n assms(2) by simp
    also have "\<dots> = mset (butlast ?d @ [last ?d])" using ne by simp
    finally show ?thesis using last by simp
  qed
  ultimately show ?thesis using assms(2) last by (simp add: heap_pop_def Let_def)
qed

end

section \<open>The contract of a priority queue\<close>

locale priority_queue =
  fixes lt :: "'a \<Rightarrow> 'a \<Rightarrow> bool"
    and empty :: "'q"
    and push :: "'a \<Rightarrow> 'q \<Rightarrow> 'q"
    and pop :: "'q \<Rightarrow> ('a \<times> 'q) option"
    and peek :: "'q \<Rightarrow> 'a option"
    and inv :: "'q \<Rightarrow> bool"
    and elems :: "'q \<Rightarrow> 'a multiset"
  assumes inv_empty: "inv empty"
    and elems_empty: "elems empty = {#}"
    and inv_push: "inv q \<Longrightarrow> inv (push x q)"
    and elems_push: "inv q \<Longrightarrow> elems (push x q) = add_mset x (elems q)"
    and peek_None: "inv q \<Longrightarrow> peek q = None \<longleftrightarrow> elems q = {#}"
    and peek_least: "inv q \<Longrightarrow> peek q = Some x \<Longrightarrow> y \<in># elems q \<Longrightarrow> \<not> lt y x"
    and pop_peek: "inv q \<Longrightarrow> peek q = Some x \<Longrightarrow>
      \<exists>q'. pop q = Some (x, q') \<and> inv q' \<and> elems q = add_mset x (elems q')"
begin

lemma pop_Some:
  assumes "inv q" and "peek q = Some x" and "pop q = Some (y, q')"
  shows "y = x \<and> inv q' \<and> elems q = add_mset x (elems q')"
  using pop_peek [OF assms(1,2)] assms(3) by auto

lemma peek_in: "inv q \<Longrightarrow> peek q = Some x \<Longrightarrow> x \<in># elems q"
  using pop_peek by fastforce

text \<open>Emptying the queue yields its elements in order.\<close>

lemma pop_least_of_rest:
  assumes "inv q" and "peek q = Some x" and "pop q = Some (y, q')" and "z \<in># elems q'"
  shows "\<not> lt z y"
proof -
  have "y = x" and "z \<in># elems q"
    using pop_Some [OF assms(1,2,3)] assms(4) by simp_all
  then show ?thesis using peek_least [OF assms(1,2)] by simp
qed

end

sublocale strict_weak_order \<subseteq> hq: priority_queue lt "[]" "heap_push lt" "heap_pop lt"
  heap_peek "is_heap lt" mset
proof (unfold_locales, goal_cases)
  case 1
  show ?case by (simp add: is_heap_def)
next
  case 2
  show ?case by simp
next
  case (3 q x)
  then show ?case by (rule heap_push_heap)
next
  case (4 q x)
  show ?case by (simp add: heap_push_def)
next
  case (5 q)
  show ?case by (auto simp: heap_peek_def)
next
  case (6 q x y)
  then obtain c where "c < length q" "q ! c = y" by (metis in_set_conv_nth set_mset_mset)
  with 6 show ?case using heap_root_least [of q c] by (auto simp: heap_peek_def split: if_splits)
next
  case (7 q x)
  then show ?case using heap_pop_spec [of q] by (auto simp: heap_peek_def split: if_splits)
qed

end
