(* ===== verification/Stream_Sorter.thy ===== *)
theory Stream_Sorter
  imports Stream_Id Go_Heap
begin

text \<open>
  The stream sorter of \<open>pkg/notifications/sorter.go\<close>: submissions and their order, the worker
  goroutine as a two-phase loop (the code before \<open>select\<close>, then one case of the \<open>select\<close>), the
  callback goroutine with its backoff, and the pipeline stages that feed the worker.
\<close>

section \<open>Submissions\<close>

record submission =
  sub_msg :: xmessage
  sub_key :: string
  sub_out :: nat
  streamIdMs :: int
  streamIdSeq :: int
  submitTime :: time

definition sub_less :: "submission \<Rightarrow> submission \<Rightarrow> bool" where
  "sub_less a b =
     (if streamIdMs a \<noteq> streamIdMs b then streamIdMs a < streamIdMs b
      else if streamIdSeq a \<noteq> streamIdSeq b then streamIdSeq a < streamIdSeq b
      else submitTime a < submitTime b)"

text \<open>The order compares a triple lexicographically; the triples are a linear order.\<close>

datatype sort_key = SortKey (key_ms: int) (key_seq: int) (key_time: time)

instantiation sort_key :: linorder
begin

definition less_sort_key :: "sort_key \<Rightarrow> sort_key \<Rightarrow> bool" where
  "less_sort_key a b \<longleftrightarrow> key_ms a < key_ms b \<or>
     key_ms a = key_ms b \<and> (key_seq a < key_seq b \<or> key_seq a = key_seq b \<and> key_time a < key_time b)"

definition less_eq_sort_key :: "sort_key \<Rightarrow> sort_key \<Rightarrow> bool" where
  "less_eq_sort_key a b \<longleftrightarrow> a = b \<or> a < b"

instance
proof
  fix a b c :: sort_key
  show "a < b \<longleftrightarrow> a \<le> b \<and> \<not> b \<le> a"
    by (auto simp: less_sort_key_def less_eq_sort_key_def)
  show "a \<le> a"
    by (simp add: less_eq_sort_key_def)
  show "a \<le> b \<Longrightarrow> b \<le> c \<Longrightarrow> a \<le> c"
    by (auto simp: less_sort_key_def less_eq_sort_key_def)
  show "a \<le> b \<Longrightarrow> b \<le> a \<Longrightarrow> a = b"
    by (auto simp: less_sort_key_def less_eq_sort_key_def)
  show "a \<le> b \<or> b \<le> a"
    by (cases a; cases b) (auto simp: less_sort_key_def less_eq_sort_key_def)
qed

end

definition key_of :: "submission \<Rightarrow> sort_key" where
  "key_of s = SortKey (streamIdMs s) (streamIdSeq s) (submitTime s)"

lemma sub_less_key: "sub_less a b \<longleftrightarrow> key_of a < key_of b"
  by (auto simp: sub_less_def key_of_def less_sort_key_def)

interpretation sub_order: strict_weak_order sub_less
proof (unfold_locales, goal_cases)
  case (1 a)
  show ?case by (simp add: sub_less_key)
next
  case (2 a b c)
  then show ?case by (auto simp: sub_less_key)
next
  case (3 a b c)
  then show ?case by (auto simp: sub_less_key)
qed

section \<open>The worker\<close>

record output_state =
  pending :: int
  closing :: bool

text \<open>
  \<open>AtTop\<close>: about to run the code before \<open>select\<close>; \<open>InSelect d\<close>: waiting in \<open>select\<close>, with the timer
  of the next submission set for the instant \<open>d\<close>, if it is set; \<open>Exited\<close>: returned.
\<close>

datatype phase = AtTop | InSelect "time option" | Exited

text \<open>
  The last three fields record what the worker has done to the world: the callbacks it started, the
  messages it sent to their output channels, and the channels closed.
\<close>

record worker =
  submissionHeap :: "submission list"
  registeredOutputs :: "nat \<rightharpoonup> output_state"
  runningSubmission :: "submission option"
  runningCallback :: bool
  phase :: phase
  started :: "submission list"
  delivered :: "submission list"
  closedOuts :: "nat set"

definition new_worker :: worker where
  "new_worker = \<lparr>submissionHeap = [], registeredOutputs = Map.empty, runningSubmission = None,
     runningCallback = False, phase = AtTop, started = [], delivered = [], closedOuts = {}\<rparr>"

definition worker_top :: "duration \<Rightarrow> time \<Rightarrow> worker \<Rightarrow> (unit, worker) outcome" where
  "worker_top submissionMinAge now w =
     (if (runningSubmission w = None) \<noteq> (\<not> runningCallback w) then Panic ''inconsistent state''
      else if \<not> runningCallback w then
        (case heap_peek (submissionHeap w) of
           None \<Rightarrow> Ok (w\<lparr>phase := InSelect None\<rparr>)
         | Some nxt \<Rightarrow>
             let submissionAge = now - submitTime nxt in
             if submissionAge \<ge> submissionMinAge then
               (case heap_pop sub_less (submissionHeap w) of
                  None \<Rightarrow> Panic ''index out of range''
                | Some (_, h) \<Rightarrow>
                    Ok (w\<lparr>submissionHeap := h, runningSubmission := Some nxt, runningCallback := True,
                          phase := InSelect None, started := started w @ [nxt]\<rparr>))
             else Ok (w\<lparr>phase := InSelect (Some (now + (submissionMinAge - submissionAge)))\<rparr>))
      else Ok (w\<lparr>phase := InSelect None\<rparr>))"

datatype sorter_event =
    RegisterOut nat
  | CloseOut nat
  | Submit submission
  | SubmissionDue
  | CallbackDone
  | SorterCtxDone

text \<open>\<open>close(out); delete(registeredOutputs, out)\<close>\<close>

definition close_out :: "nat \<Rightarrow> worker \<Rightarrow> (unit, worker) outcome" where
  "close_out out w =
     (if out \<in> closedOuts w then Panic ''close of closed channel''
      else Ok (w\<lparr>registeredOutputs := (registeredOutputs w)(out := None),
                 closedOuts := insert out (closedOuts w)\<rparr>))"

definition worker_register :: "nat \<Rightarrow> worker \<Rightarrow> (unit, worker) outcome" where
  "worker_register out w =
     (case registeredOutputs w out of
        Some _ \<Rightarrow> Panic ''attempting to register the same output channel twice''
      | None \<Rightarrow> Ok (w\<lparr>registeredOutputs := (registeredOutputs w)(out \<mapsto> \<lparr>pending = 0, closing = False\<rparr>)\<rparr>))"

definition worker_close :: "nat \<Rightarrow> worker \<Rightarrow> (unit, worker) outcome" where
  "worker_close out w =
     (case registeredOutputs w out of
        None \<Rightarrow> Panic ''requested to close unknown output channel''
      | Some st \<Rightarrow>
          if pending st > 0
          then Ok (w\<lparr>registeredOutputs := (registeredOutputs w)(out \<mapsto> st\<lparr>closing := True\<rparr>)\<rparr>)
          else close_out out w)"

definition worker_submit :: "submission \<Rightarrow> worker \<Rightarrow> (unit, worker) outcome" where
  "worker_submit sub w =
     (case registeredOutputs w (sub_out sub) of
        None \<Rightarrow> Panic ''submission for an unknown output channel''
      | Some st \<Rightarrow>
          Ok (w\<lparr>registeredOutputs := (registeredOutputs w)(sub_out sub \<mapsto> st\<lparr>pending := pending st + 1\<rparr>),
                submissionHeap := heap_push sub_less sub (submissionHeap w)\<rparr>))"

definition worker_callback_done :: "worker \<Rightarrow> (unit, worker) outcome" where
  "worker_callback_done w =
     (case runningSubmission w of
        None \<Rightarrow> Panic ''nil pointer dereference''
      | Some sub \<Rightarrow>
          let out = sub_out sub in
          if out \<in> closedOuts w then Panic ''send on closed channel''
          else
            (case registeredOutputs w out of
              None \<Rightarrow> Panic ''nil pointer dereference''
            | Some st \<Rightarrow>
                let st' = st\<lparr>pending := pending st - 1\<rparr>;
                    w' = w\<lparr>delivered := delivered w @ [sub],
                           registeredOutputs := (registeredOutputs w)(out \<mapsto> st'),
                           runningSubmission := None, runningCallback := False\<rparr>
                in if closing st' \<and> pending st' = 0 then close_out out w' else Ok w'))"

text \<open>The deferred function: close every registered output.\<close>

definition worker_exit :: "worker \<Rightarrow> (unit, worker) outcome" where
  "worker_exit w =
     (if dom (registeredOutputs w) \<inter> closedOuts w \<noteq> {} then Panic ''close of closed channel''
      else Ok (w\<lparr>closedOuts := closedOuts w \<union> dom (registeredOutputs w), phase := Exited\<rparr>))"

definition to_top :: "(unit, worker) outcome \<Rightarrow> (unit, worker) outcome" where
  "to_top r = bind_outcome r (\<lambda>w. Ok (w\<lparr>phase := AtTop\<rparr>))"

fun worker_select :: "sorter_event \<Rightarrow> worker \<Rightarrow> (unit, worker) outcome" where
  "worker_select (RegisterOut out) w = to_top (worker_register out w)"
| "worker_select (CloseOut out) w = to_top (worker_close out w)"
| "worker_select (Submit sub) w = to_top (worker_submit sub w)"
| "worker_select SubmissionDue w = to_top (Ok w)"
| "worker_select CallbackDone w = to_top (worker_callback_done w)"
| "worker_select SorterCtxDone w = worker_exit w"

section \<open>The callback goroutine\<close>

text \<open>\<open>callbackDelay\<close> before each try: it starts at 0 and is doubled after every failure.\<close>

definition next_delay :: "duration \<Rightarrow> duration \<Rightarrow> duration" where
  "next_delay callbackMaxDelay callbackDelay =
     min (max millisecond (2 * callbackDelay)) callbackMaxDelay"

fun callback_delay :: "duration \<Rightarrow> nat \<Rightarrow> duration" where
  "callback_delay mx 0 = 0"
| "callback_delay mx (Suc try) = next_delay mx (callback_delay mx try)"

text \<open>
  One run of the goroutine against what it observes in turn: that the context ended while it waited,
  or the result of the callback. \<open>None\<close>: it still runs after these observations. \<open>Some success\<close>: it
  returned, which closes the callback channel in either case.
\<close>

datatype callback_obs = CtxEnded | CallbackResult bool

fun startCallback :: "duration \<Rightarrow> duration \<Rightarrow> callback_obs list \<Rightarrow> (bool \<times> duration list) option" where
  "startCallback mx d [] = None"
| "startCallback mx d (CtxEnded # os) = Some (False, [d])"
| "startCallback mx d (CallbackResult ok # os) =
     (if ok then Some (True, [d])
      else map_option (\<lambda>(r, ds). (r, d # ds)) (startCallback mx (next_delay mx d) os))"

section \<open>Submitting, and the pipeline stage\<close>

definition submit_entry :: "time \<Rightarrow> xmessage \<Rightarrow> string \<Rightarrow> nat \<Rightarrow> id_error + submission" where
  "submit_entry now msg key out =
     (case parseRedisStreamId (msg_ID msg) of
        Inl e \<Rightarrow> Inl e
      | Inr (ms, seq) \<Rightarrow>
          Inr \<lparr>sub_msg = msg, sub_key = key, sub_out = out, streamIdMs = ms, streamIdSeq = seq,
               submitTime = now\<rparr>)"

definition submit_timeout :: duration where
  "submit_timeout = second"

text \<open>
  \<open>PipelineFunc\<close>: not yet registered, reading from \<open>in\<close>, offering a submission to the worker, about
  to announce the end, and finished.
\<close>

datatype pipe_state = PInit | PReading | POffering submission | PEnding | PDone

text \<open>
  The sorter with its pipeline stages, one per output channel. \<open>callback\<close> is the state of the callback
  goroutine (running, or returned with or without success). \<open>accepted\<close> and \<open>confirmed\<close> record the
  submissions the worker received and those whose callback reported success.
\<close>

datatype callback_state = CbNone | CbRunning | CbReturned bool

record sorter_sys =
  wk :: worker
  clock :: time
  pipes :: "nat \<Rightarrow> pipe_state"
  callback :: callback_state
  ctxDone :: bool
  accepted :: "submission list"
  confirmed :: "submission list"

definition init_sorter :: "time \<Rightarrow> sorter_sys" where
  "init_sorter t0 = \<lparr>wk = new_worker, clock = t0, pipes = (\<lambda>_. PInit), callback = CbNone,
     ctxDone = False, accepted = [], confirmed = []\<rparr>"

definition waiting :: "sorter_sys \<Rightarrow> bool" where
  "waiting s \<longleftrightarrow> (\<exists>d. phase (wk s) = InSelect d)"

inductive sorter_step :: "duration \<Rightarrow> sorter_sys \<Rightarrow> (unit, sorter_sys) outcome \<Rightarrow> bool" for minAge where
  tick: "clock s \<le> t \<Longrightarrow> sorter_step minAge s (Ok (s\<lparr>clock := t\<rparr>))"
| top: "phase (wk s) = AtTop \<Longrightarrow>
    sorter_step minAge s
      (bind_outcome (worker_top minAge (clock s) (wk s))
        (\<lambda>w. Ok (s\<lparr>wk := w,
           callback := (if runningCallback w \<and> \<not> runningCallback (wk s) then CbRunning else callback s)\<rparr>)))"
| register: "waiting s \<Longrightarrow> pipes s i = PInit \<Longrightarrow>
    sorter_step minAge s
      (bind_outcome (worker_select (RegisterOut i) (wk s))
        (\<lambda>w. Ok (s\<lparr>wk := w, pipes := (pipes s)(i := PReading)\<rparr>)))"
| abort: "pipes s i = PInit \<Longrightarrow>
    sorter_step minAge s
      (if i \<in> closedOuts (wk s) then Panic ''close of closed channel''
       else Ok (s\<lparr>wk := (wk s)\<lparr>closedOuts := insert i (closedOuts (wk s))\<rparr>, pipes := (pipes s)(i := PDone)\<rparr>))"
| offer: "pipes s i = PReading \<Longrightarrow> submit_entry (clock s) msg key i = Inr sub \<Longrightarrow>
    sorter_step minAge s (Ok (s\<lparr>pipes := (pipes s)(i := POffering sub)\<rparr>))"
| submit: "waiting s \<Longrightarrow> pipes s i = POffering sub \<Longrightarrow> clock s - submitTime sub \<le> submit_timeout \<Longrightarrow>
    sorter_step minAge s
      (bind_outcome (worker_select (Submit sub) (wk s))
        (\<lambda>w. Ok (s\<lparr>wk := w, pipes := (pipes s)(i := PReading), accepted := accepted s @ [sub]\<rparr>)))"
| submit_failed: "pipes s i = POffering sub \<Longrightarrow> submit_timeout \<le> clock s - submitTime sub \<or> ctxDone s \<Longrightarrow>
    sorter_step minAge s (Ok (s\<lparr>pipes := (pipes s)(i := PReading)\<rparr>))"
| input_end: "pipes s i = PReading \<Longrightarrow> sorter_step minAge s (Ok (s\<lparr>pipes := (pipes s)(i := PEnding)\<rparr>))"
| close: "waiting s \<Longrightarrow> pipes s i = PEnding \<Longrightarrow>
    sorter_step minAge s
      (bind_outcome (worker_select (CloseOut i) (wk s))
        (\<lambda>w. Ok (s\<lparr>wk := w, pipes := (pipes s)(i := PDone)\<rparr>)))"
| close_skipped: "pipes s i = PEnding \<Longrightarrow> ctxDone s \<Longrightarrow>
    sorter_step minAge s (Ok (s\<lparr>pipes := (pipes s)(i := PDone)\<rparr>))"
| due: "phase (wk s) = InSelect (Some t) \<Longrightarrow> t \<le> clock s \<Longrightarrow>
    sorter_step minAge s
      (bind_outcome (worker_select SubmissionDue (wk s)) (\<lambda>w. Ok (s\<lparr>wk := w\<rparr>)))"
| callback_success: "callback s = CbRunning \<Longrightarrow> runningSubmission (wk s) = Some sub \<Longrightarrow>
    sorter_step minAge s (Ok (s\<lparr>callback := CbReturned True, confirmed := confirmed s @ [sub]\<rparr>))"
| callback_cancelled: "callback s = CbRunning \<Longrightarrow> ctxDone s \<Longrightarrow>
    sorter_step minAge s (Ok (s\<lparr>callback := CbReturned False\<rparr>))"
| callback_done: "waiting s \<Longrightarrow> callback s = CbReturned ok \<Longrightarrow>
    sorter_step minAge s
      (bind_outcome (worker_select CallbackDone (wk s)) (\<lambda>w. Ok (s\<lparr>wk := w, callback := CbNone\<rparr>)))"
| cancel: "sorter_step minAge s (Ok (s\<lparr>ctxDone := True\<rparr>))"
| worker_return: "waiting s \<Longrightarrow> ctxDone s \<Longrightarrow>
    sorter_step minAge s
      (bind_outcome (worker_select SorterCtxDone (wk s)) (\<lambda>w. Ok (s\<lparr>wk := w\<rparr>)))"

inductive sorter_reach :: "duration \<Rightarrow> sorter_sys \<Rightarrow> bool" for minAge where
  start: "sorter_reach minAge (init_sorter t0)"
| step: "sorter_reach minAge s \<Longrightarrow> sorter_step minAge s (Ok s') \<Longrightarrow> sorter_reach minAge s'"

section \<open>Worker invariant\<close>

text \<open>The submissions the worker is responsible for: those in the heap and the running one.\<close>

definition in_flight :: "worker \<Rightarrow> submission multiset" where
  "in_flight w = mset (submissionHeap w) +
     (case runningSubmission w of None \<Rightarrow> {#} | Some s \<Rightarrow> {#s#})"

definition flight_to :: "worker \<Rightarrow> nat \<Rightarrow> submission multiset" where
  "flight_to w out = filter_mset (\<lambda>s. sub_out s = out) (in_flight w)"

definition worker_inv :: "worker \<Rightarrow> bool" where
  "worker_inv w \<longleftrightarrow>
     is_heap sub_less (submissionHeap w) \<and>
     (runningSubmission w = None) = (\<not> runningCallback w) \<and>
     (\<forall>out st. registeredOutputs w out = Some st \<longrightarrow>
        pending st = int (size (flight_to w out)) \<and> out \<notin> closedOuts w \<and>
        (closing st \<longrightarrow> flight_to w out \<noteq> {#})) \<and>
     (\<forall>s. s \<in># in_flight w \<longrightarrow> sub_out s \<in> dom (registeredOutputs w)) \<and>
     (\<exists>rest. started w = delivered w @ rest \<and> mset rest =
        (case runningSubmission w of None \<Rightarrow> {#} | Some s \<Rightarrow> {#s#}))"

lemma worker_inv_new: "worker_inv new_worker"
  by (simp add: worker_inv_def new_worker_def in_flight_def is_heap_def)

lemma worker_inv_reg:
  "worker_inv w \<Longrightarrow> registeredOutputs w out = Some st \<Longrightarrow>
   pending st = int (size (flight_to w out)) \<and> out \<notin> closedOuts w \<and> (closing st \<longrightarrow> flight_to w out \<noteq> {#})"
  unfolding worker_inv_def by blast

lemma worker_inv_dom: "worker_inv w \<Longrightarrow> s \<in># in_flight w \<Longrightarrow> \<exists>st. registeredOutputs w (sub_out s) = Some st"
  unfolding worker_inv_def dom_def by blast

lemma worker_inv_phase [simp]: "worker_inv (w\<lparr>phase := p\<rparr>) = worker_inv w"
  by (simp add: worker_inv_def in_flight_def flight_to_def)

text \<open>The code before \<open>select\<close> either only sets the timer or starts the callback of the least submission.\<close>

lemma worker_top_cases:
  assumes inv: "worker_inv w"
  obtains (wait) d where "worker_top minAge now w = Ok (w\<lparr>phase := InSelect d\<rparr>)"
  | (start) nxt h where "worker_top minAge now w =
        Ok (w\<lparr>submissionHeap := h, runningSubmission := Some nxt, runningCallback := True,
              phase := InSelect None, started := started w @ [nxt]\<rparr>)"
      and "runningSubmission w = None" and "\<not> runningCallback w"
      and "submitTime nxt + minAge \<le> now" and "is_heap sub_less h"
      and "mset (submissionHeap w) = add_mset nxt (mset h)"
      and "\<And>b. b \<in># mset h \<Longrightarrow> \<not> sub_less b nxt"
proof (cases "runningCallback w")
  case True
  with inv have "worker_top minAge now w = Ok (w\<lparr>phase := InSelect None\<rparr>)"
    by (auto simp: worker_top_def worker_inv_def)
  then show thesis by (rule wait)
next
  case idle: False
  with inv have rn: "runningSubmission w = None" and hp: "is_heap sub_less (submissionHeap w)"
    by (auto simp: worker_inv_def)
  show thesis
  proof (cases "heap_peek (submissionHeap w)")
    case None
    with idle rn have "worker_top minAge now w = Ok (w\<lparr>phase := InSelect None\<rparr>)"
      by (simp add: worker_top_def)
    then show thesis by (rule wait)
  next
    case (Some nxt)
    from sub_order.hq.pop_peek [OF hp Some] obtain h
      where h: "heap_pop sub_less (submissionHeap w) = Some (nxt, h)" "is_heap sub_less h"
        "mset (submissionHeap w) = add_mset nxt (mset h)" by blast
    show thesis
    proof (cases "now - submitTime nxt \<ge> minAge")
      case True
      show thesis
      proof (rule start [OF _ rn idle _ h(2,3)])
        show "worker_top minAge now w =
            Ok (w\<lparr>submissionHeap := h, runningSubmission := Some nxt, runningCallback := True,
                  phase := InSelect None, started := started w @ [nxt]\<rparr>)"
          using idle rn Some h True by (simp add: worker_top_def Let_def)
        show "submitTime nxt + minAge \<le> now" using True by simp
        show "\<not> sub_less b nxt" if "b \<in># mset h" for b
          using sub_order.hq.peek_least [OF hp Some, of b] h(3) that by simp
      qed
    next
      case False
      then have "worker_top minAge now w =
          Ok (w\<lparr>phase := InSelect (Some (now + (minAge - (now - submitTime nxt))))\<rparr>)"
        using idle rn Some by (simp add: worker_top_def Let_def)
      then show thesis by (rule wait)
    qed
  qed
qed

lemma worker_top_inv:
  assumes inv: "worker_inv w"
  obtains w' where "worker_top minAge now w = Ok w'" and "worker_inv w'"
    and "in_flight w' = in_flight w" and "registeredOutputs w' = registeredOutputs w"
    and "closedOuts w' = closedOuts w" and "delivered w' = delivered w"
  using inv
proof (cases rule: worker_top_cases [where minAge = minAge and now = now])
  case (wait d)
  then show thesis using inv by (intro that [of "w\<lparr>phase := InSelect d\<rparr>"]) (auto simp: in_flight_def)
next
  case (start nxt h)
  let ?w = "w\<lparr>submissionHeap := h, runningSubmission := Some nxt, runningCallback := True,
              phase := InSelect None, started := started w @ [nxt]\<rparr>"
  have fl: "in_flight ?w = in_flight w" using start by (simp add: in_flight_def)
  moreover have "worker_inv ?w"
    using inv start fl by (auto simp: worker_inv_def flight_to_def)
  ultimately show thesis using start(1) by (intro that [of ?w]) auto
qed


end
