(* ===== verification/Sorter_System.thy ===== *)
theory Sorter_System
  imports Stream_Sorter
begin

text \<open>
  The stream sorter with its pipeline stages: every operation of the worker keeps its invariant, the
  stages never drive it into a panic, no submission is lost or delivered twice, output channels are
  closed only when empty, and the order in which messages leave.
\<close>

section \<open>The operations of the worker\<close>

lemma flight_empty:
  "worker_inv w \<Longrightarrow> registeredOutputs w out = None \<Longrightarrow> flight_to w out = {#}"
  unfolding flight_to_def filter_mset_eq_mempty_iff using worker_inv_dom by fastforce

lemma flight_not_closed:
  "worker_inv w \<Longrightarrow> s \<in># in_flight w \<Longrightarrow> sub_out s \<notin> closedOuts w"
  using worker_inv_dom worker_inv_reg by metis

lemma in_flight_updates [simp]:
  "in_flight (w\<lparr>registeredOutputs := r\<rparr>) = in_flight w"
  "in_flight (w\<lparr>closedOuts := c\<rparr>) = in_flight w"
  "in_flight (w\<lparr>phase := p\<rparr>) = in_flight w"
  by (simp_all add: in_flight_def)

lemma flight_to_updates [simp]:
  "flight_to (w\<lparr>registeredOutputs := r\<rparr>) i = flight_to w i"
  "flight_to (w\<lparr>closedOuts := c\<rparr>) i = flight_to w i"
  "flight_to (w\<lparr>phase := p\<rparr>) i = flight_to w i"
  by (simp_all add: flight_to_def)

lemma in_flight_push: "in_flight (w\<lparr>submissionHeap := heap_push sub_less sub (submissionHeap w)\<rparr>) =
    add_mset sub (in_flight w)"
  by (simp add: in_flight_def heap_push_def)

lemma worker_register_inv:
  assumes inv: "worker_inv w" and fresh: "registeredOutputs w out = None" "out \<notin> closedOuts w"
  obtains w' where "worker_register out w = Ok w'" and "worker_inv w'"
    and "w' = w\<lparr>registeredOutputs := (registeredOutputs w)(out \<mapsto> \<lparr>pending = 0, closing = False\<rparr>)\<rparr>"
proof
  let ?w = "w\<lparr>registeredOutputs := (registeredOutputs w)(out \<mapsto> \<lparr>pending = 0, closing = False\<rparr>)\<rparr>"
  show "worker_register out w = Ok ?w" using fresh by (simp add: worker_register_def)
  have "flight_to w out = {#}" using inv fresh(1) by (rule flight_empty)
  then show "worker_inv ?w"
    using inv fresh by (auto simp: worker_inv_def flight_to_def)
qed simp

lemma close_out_inv:
  assumes inv: "worker_inv w" and reg: "registeredOutputs w out = Some st" and e: "flight_to w out = {#}"
  shows "close_out out w = Ok (w\<lparr>registeredOutputs := (registeredOutputs w)(out := None),
                 closedOuts := insert out (closedOuts w)\<rparr>)"
    and "worker_inv (w\<lparr>registeredOutputs := (registeredOutputs w)(out := None),
                 closedOuts := insert out (closedOuts w)\<rparr>)"
proof -
  show "close_out out w = Ok (w\<lparr>registeredOutputs := (registeredOutputs w)(out := None),
                 closedOuts := insert out (closedOuts w)\<rparr>)"
    using worker_inv_reg [OF inv reg] by (simp add: close_out_def)
  have "sub_out s \<noteq> out" if "s \<in># in_flight w" for s
    using e that by (auto simp: flight_to_def filter_mset_eq_mempty_iff)
  then show "worker_inv (w\<lparr>registeredOutputs := (registeredOutputs w)(out := None),
                 closedOuts := insert out (closedOuts w)\<rparr>)"
    using inv by (auto simp: worker_inv_def flight_to_def)
qed

lemma worker_close_inv:
  assumes inv: "worker_inv w" and reg: "registeredOutputs w out = Some st"
  obtains (marked) "worker_close out w = Ok (w\<lparr>registeredOutputs := (registeredOutputs w)(out \<mapsto> st\<lparr>closing := True\<rparr>)\<rparr>)"
      and "worker_inv (w\<lparr>registeredOutputs := (registeredOutputs w)(out \<mapsto> st\<lparr>closing := True\<rparr>)\<rparr>)"
  | (closed) "worker_close out w = Ok (w\<lparr>registeredOutputs := (registeredOutputs w)(out := None),
                 closedOuts := insert out (closedOuts w)\<rparr>)"
      and "worker_inv (w\<lparr>registeredOutputs := (registeredOutputs w)(out := None),
                 closedOuts := insert out (closedOuts w)\<rparr>)"
      and "flight_to w out = {#}"
proof (cases "pending st > 0")
  case True
  have "flight_to w out \<noteq> {#}" using True worker_inv_reg [OF inv reg] by auto
  then have "worker_inv (w\<lparr>registeredOutputs := (registeredOutputs w)(out \<mapsto> st\<lparr>closing := True\<rparr>)\<rparr>)"
    using inv reg worker_inv_reg [OF inv reg] by (auto simp: worker_inv_def)
  then show thesis using marked reg True by (simp add: worker_close_def)
next
  case False
  then have "flight_to w out = {#}" using worker_inv_reg [OF inv reg] by simp
  then show thesis using closed close_out_inv [OF inv reg] reg False by (simp add: worker_close_def)
qed

lemma worker_submit_inv:
  assumes inv: "worker_inv w" and reg: "registeredOutputs w (sub_out sub) = Some st"
  obtains w' where "worker_submit sub w = Ok w'" and "worker_inv w'"
    and "w' = w\<lparr>registeredOutputs := (registeredOutputs w)(sub_out sub \<mapsto> st\<lparr>pending := pending st + 1\<rparr>),
                submissionHeap := heap_push sub_less sub (submissionHeap w)\<rparr>"
proof
  let ?w = "w\<lparr>registeredOutputs := (registeredOutputs w)(sub_out sub \<mapsto> st\<lparr>pending := pending st + 1\<rparr>),
              submissionHeap := heap_push sub_less sub (submissionHeap w)\<rparr>"
  show "worker_submit sub w = Ok ?w" using reg by (simp add: worker_submit_def)
  have fl: "in_flight ?w = add_mset sub (in_flight w)"
    by (simp add: in_flight_def heap_push_def)
  have "is_heap sub_less (heap_push sub_less sub (submissionHeap w))"
    using inv by (simp add: worker_inv_def sub_order.heap_push_heap)
  then show "worker_inv ?w"
    using inv fl reg worker_inv_reg [OF inv reg] by (auto simp: worker_inv_def flight_to_def)
qed simp

text \<open>The state after a message was forwarded, before the worker looks at the \<open>closing\<close> flag.\<close>

definition after_delivery :: "submission \<Rightarrow> output_state \<Rightarrow> worker \<Rightarrow> worker" where
  "after_delivery sub st w = w\<lparr>delivered := delivered w @ [sub],
     registeredOutputs := (registeredOutputs w)(sub_out sub \<mapsto> st\<lparr>pending := pending st - 1\<rparr>),
     runningSubmission := None, runningCallback := False\<rparr>"

lemma in_flight_after_delivery:
  "runningSubmission w = Some sub \<Longrightarrow> in_flight w = add_mset sub (in_flight (after_delivery sub st w))"
  by (simp add: in_flight_def after_delivery_def)

lemma worker_callback_done_inv:
  assumes inv: "worker_inv w" and run: "runningSubmission w = Some sub"
  obtains w' st where "worker_callback_done w = Ok w'" and "worker_inv w'"
    and "in_flight w = add_mset sub (in_flight w')"
    and "delivered w' = delivered w @ [sub]" and "started w' = started w"
    and "submissionHeap w' = submissionHeap w"
    and "runningSubmission w' = None" and "\<not> runningCallback w'"
    and "dom (registeredOutputs w') \<union> closedOuts w' = dom (registeredOutputs w) \<union> closedOuts w"
    and "registeredOutputs w (sub_out sub) = Some st"
    and "\<And>i. i \<in> dom (registeredOutputs w) \<Longrightarrow> i \<notin> dom (registeredOutputs w') \<Longrightarrow> i = sub_out sub \<and> closing st"
    and "closedOuts w \<subseteq> closedOuts w'"
proof -
  have "sub \<in># in_flight w" using run by (simp add: in_flight_def)
  from worker_inv_dom [OF inv this] obtain st where reg: "registeredOutputs w (sub_out sub) = Some st" ..
  note st = worker_inv_reg [OF inv reg]
  let ?a = "after_delivery sub st w"
  let ?out = "sub_out sub"
  have fl: "in_flight w = add_mset sub (in_flight ?a)" by (rule in_flight_after_delivery [OF run])
  have flt: "flight_to w i = (if i = ?out then add_mset sub (flight_to ?a i) else flight_to ?a i)" for i
    by (simp add: flight_to_def fl)
  obtain rest where rest: "started w = delivered w @ rest" "mset rest = {#sub#}"
    using inv run by (auto simp: worker_inv_def)
  then have st_a: "started ?a = delivered ?a" by (simp add: after_delivery_def)
  have acnt: "pending st - 1 = int (size (flight_to ?a ?out))" using st flt [of ?out] by simp
  have areg: "registeredOutputs ?a = (registeredOutputs w)(?out \<mapsto> st\<lparr>pending := pending st - 1\<rparr>)"
    by (simp add: after_delivery_def)
  have asim: "runningSubmission ?a = None" "\<not> runningCallback ?a" "closedOuts ?a = closedOuts w"
    "submissionHeap ?a = submissionHeap w" "delivered ?a = delivered w @ [sub]" "started ?a = started w"
    by (simp_all add: after_delivery_def)
  have others: "pending s' = int (size (flight_to ?a i)) \<and> i \<notin> closedOuts w \<and> (closing s' \<longrightarrow> flight_to ?a i \<noteq> {#})"
    if "registeredOutputs w i = Some s'" "i \<noteq> ?out" for i s'
    using worker_inv_reg [OF inv that(1)] flt [of i] that(2) by simp
  have adom: "sub_out s \<in> dom (registeredOutputs ?a)" if "s \<in># in_flight ?a" for s
    using worker_inv_dom [OF inv, of s] that fl by (auto simp: areg)
  show thesis
  proof (cases "closing st \<and> pending st - 1 = 0")
    case False
    have "worker_inv ?a"
      unfolding worker_inv_def
      using inv others acnt st False adom st_a asim by (auto simp: areg worker_inv_def)
    moreover have "worker_callback_done w = Ok ?a"
      using run reg st False by (auto simp: worker_callback_done_def after_delivery_def Let_def)
    moreover have "dom (registeredOutputs ?a) = dom (registeredOutputs w)"
      using reg by (auto simp: areg)
    ultimately show thesis using fl reg asim by (intro that [of ?a st]) auto
  next
    case True
    let ?w = "?a\<lparr>registeredOutputs := (registeredOutputs ?a)(?out := None),
                 closedOuts := insert ?out (closedOuts ?a)\<rparr>"
    have e: "flight_to ?a ?out = {#}" using acnt True by simp
    then have ne: "sub_out s \<noteq> ?out" if "s \<in># in_flight ?a" for s
      using that by (auto simp: flight_to_def filter_mset_eq_mempty_iff)
    have "worker_inv ?w"
      unfolding worker_inv_def
      using inv others adom ne st_a asim by (auto simp: areg worker_inv_def flight_to_def)
    moreover have "worker_callback_done w = Ok ?w"
      using run reg st True by (auto simp: worker_callback_done_def after_delivery_def Let_def close_out_def)
    moreover have "in_flight w = add_mset sub (in_flight ?w)" using fl by simp
    ultimately show thesis using reg asim areg True that [of ?w st] by auto
  qed
qed


lemma worker_callback_done_closing:
  assumes "worker_callback_done w = Ok w'" and "runningSubmission w = Some sub"
    and "registeredOutputs w' i = Some t" and "closing t"
  shows "\<exists>t'. registeredOutputs w i = Some t' \<and> closing t'"
  using assms
  by (auto simp: worker_callback_done_def close_out_def Let_def split: if_splits option.splits)

section \<open>The invariant of the system\<close>

definition sys_inv :: "sorter_sys \<Rightarrow> bool" where
  "sys_inv s \<longleftrightarrow>
     (phase (wk s) \<noteq> Exited \<longrightarrow> worker_inv (wk s) \<and> (callback s = CbNone) = (\<not> runningCallback (wk s))) \<and>
     (\<forall>i. pipes s i = PInit \<longrightarrow> registeredOutputs (wk s) i = None \<and> i \<notin> closedOuts (wk s)) \<and>
     (\<forall>i. pipes s i \<noteq> PInit \<and> pipes s i \<noteq> PDone \<longrightarrow> i \<in> dom (registeredOutputs (wk s))) \<and>
     (\<forall>i st. registeredOutputs (wk s) i = Some st \<and> closing st \<longrightarrow> pipes s i = PDone) \<and>
     (\<forall>i sub. pipes s i = POffering sub \<longrightarrow> sub_out sub = i) \<and>
     mset (accepted s) = mset (delivered (wk s)) + in_flight (wk s)"

lemma sys_inv_init: "sys_inv (init_sorter t0)"
  by (simp add: sys_inv_def init_sorter_def worker_inv_new) (simp add: new_worker_def in_flight_def)

lemma sys_inv_worker:
  "sys_inv s \<Longrightarrow> waiting s \<Longrightarrow> worker_inv (wk s)"
  "sys_inv s \<Longrightarrow> waiting s \<Longrightarrow> (callback s = CbNone) = (\<not> runningCallback (wk s))"
  by (auto simp: sys_inv_def waiting_def)

lemma sys_inv_pipe:
  "sys_inv s \<Longrightarrow> pipes s i = PInit \<Longrightarrow> registeredOutputs (wk s) i = None \<and> i \<notin> closedOuts (wk s)"
  "sys_inv s \<Longrightarrow> pipes s i = PReading \<or> pipes s i = POffering sub \<or> pipes s i = PEnding \<Longrightarrow>
   \<exists>st. registeredOutputs (wk s) i = Some st"
  "sys_inv s \<Longrightarrow> pipes s i = POffering sub \<Longrightarrow> sub_out sub = i"
  by (auto simp: sys_inv_def dom_def)

lemma submit_entry_out: "submit_entry now msg key out = Inr sub \<Longrightarrow> sub_out sub = out \<and> submitTime sub = now"
  by (auto simp: submit_entry_def split: sum.splits)

lemma step_top_inv:
  assumes inv: "sys_inv s" and ph: "phase (wk s) = AtTop"
  obtains w where "worker_top minAge (clock s) (wk s) = Ok w"
    and "sys_inv (s\<lparr>wk := w, callback := (if runningCallback w \<and> \<not> runningCallback (wk s) then CbRunning else callback s)\<rparr>)"
proof -
  have wi: "worker_inv (wk s)" using inv ph by (simp add: sys_inv_def)
  from wi show thesis
  proof (cases rule: worker_top_cases [where minAge = minAge and now = "clock s"])
    case (wait d)
    then show thesis using inv ph wi by (intro that [OF wait(1)]) (auto simp: sys_inv_def)
  next
    case (start nxt h)
    obtain w where w: "worker_top minAge (clock s) (wk s) = Ok w" "worker_inv w"
      "in_flight w = in_flight (wk s)" "registeredOutputs w = registeredOutputs (wk s)"
      "closedOuts w = closedOuts (wk s)" "delivered w = delivered (wk s)"
      using worker_top_inv [OF wi] by blast
    moreover have "runningCallback w" using w(1) start(1) by auto
    ultimately show thesis
      using inv ph start(3) by (intro that [OF w(1)]) (auto simp: sys_inv_def)
  qed
qed

lemma step_register_inv:
  assumes inv: "sys_inv s" and "waiting s" and "pipes s i = PInit"
  obtains w where "worker_select (RegisterOut i) (wk s) = Ok w"
    and "sys_inv (s\<lparr>wk := w, pipes := (pipes s)(i := PReading)\<rparr>)"
proof -
  obtain w' where w: "worker_register i (wk s) = Ok w'" "worker_inv w'"
    "w' = (wk s)\<lparr>registeredOutputs := (registeredOutputs (wk s))(i \<mapsto> \<lparr>pending = 0, closing = False\<rparr>)\<rparr>"
    using worker_register_inv [OF sys_inv_worker(1) [OF assms(1,2)], of i] sys_inv_pipe(1) [OF assms(1,3)]
    by blast
  then show thesis
    using assms sys_inv_worker(2) [OF assms(1,2)]
    by (intro that [of "w'\<lparr>phase := AtTop\<rparr>"]) (auto simp: to_top_def sys_inv_def)
qed

lemma step_submit_inv:
  assumes inv: "sys_inv s" and wt: "waiting s" and "pipes s i = POffering sub"
  obtains w where "worker_select (Submit sub) (wk s) = Ok w"
    and "sys_inv (s\<lparr>wk := w, pipes := (pipes s)(i := PReading), accepted := accepted s @ [sub]\<rparr>)"
    and "submissionHeap w = heap_push sub_less sub (submissionHeap (wk s))" and "started w = started (wk s)"
proof -
  have i: "sub_out sub = i" using sys_inv_pipe(3) [OF assms(1,3)] .
  obtain st where st: "registeredOutputs (wk s) i = Some st"
    using sys_inv_pipe(2) [OF inv] assms(3) by blast
  have ncl: "\<not> closing st" using inv st assms(3) unfolding sys_inv_def by force
  obtain w' where w: "worker_submit sub (wk s) = Ok w'" "worker_inv w'"
    "w' = (wk s)\<lparr>registeredOutputs := (registeredOutputs (wk s))(i \<mapsto> st\<lparr>pending := pending st + 1\<rparr>),
        submissionHeap := heap_push sub_less sub (submissionHeap (wk s))\<rparr>"
    using worker_submit_inv [OF sys_inv_worker(1) [OF inv wt], of sub st] st i by auto
  have fl: "in_flight w' = add_mset sub (in_flight (wk s))"
    by (simp add: w(3) in_flight_def heap_push_def)
  show thesis
    using assms sys_inv_worker(2) [OF inv wt] st ncl w fl
    by (intro that [of "w'\<lparr>phase := AtTop\<rparr>"]) (auto simp: to_top_def sys_inv_def)
qed

lemma step_close_inv:
  assumes inv: "sys_inv s" and wt: "waiting s" and pe: "pipes s i = PEnding"
  obtains w where "worker_select (CloseOut i) (wk s) = Ok w"
    and "sys_inv (s\<lparr>wk := w, pipes := (pipes s)(i := PDone)\<rparr>)"
    and "submissionHeap w = submissionHeap (wk s)" and "started w = started (wk s)"
    and "delivered w = delivered (wk s)"
proof -
  obtain st where st: "registeredOutputs (wk s) i = Some st"
    using sys_inv_pipe(2) [OF inv] pe by blast
  from sys_inv_worker(1) [OF inv wt] st show thesis
  proof (cases rule: worker_close_inv)
    case marked
    then show thesis
      using inv wt pe sys_inv_worker(2) [OF inv wt]
      by (intro that [of "(wk s)\<lparr>registeredOutputs := (registeredOutputs (wk s))(i \<mapsto> st\<lparr>closing := True\<rparr>), phase := AtTop\<rparr>"])
        (auto simp: to_top_def sys_inv_def)
  next
    case closed
    then show thesis
      using inv wt pe sys_inv_worker(2) [OF inv wt]
      by (intro that [of "(wk s)\<lparr>registeredOutputs := (registeredOutputs (wk s))(i := None),
            closedOuts := insert i (closedOuts (wk s)), phase := AtTop\<rparr>"])
        (auto simp: to_top_def sys_inv_def)
  qed
qed

lemma sys_inv_running:
  assumes "sys_inv s" and "waiting s" and "callback s = CbReturned ok"
  shows "\<exists>sub. runningSubmission (wk s) = Some sub"
  using sys_inv_worker [OF assms(1,2)] assms(3) by (auto simp: worker_inv_def)

lemma step_callback_done_inv:
  assumes inv: "sys_inv s" and wt: "waiting s" and cb: "callback s = CbReturned ok"
  obtains w sub where "worker_select CallbackDone (wk s) = Ok w"
    and "runningSubmission (wk s) = Some sub" and "delivered w = delivered (wk s) @ [sub]"
    and "sys_inv (s\<lparr>wk := w, callback := CbNone\<rparr>)"
    and "submissionHeap w = submissionHeap (wk s)" and "started w = started (wk s)"
proof -
  have wi: "worker_inv (wk s)" using sys_inv_worker [OF inv wt] by simp
  obtain sub where run: "runningSubmission (wk s) = Some sub" using sys_inv_running [OF inv wt cb] ..
  from wi run show thesis
  proof (cases rule: worker_callback_done_inv)
    case (1 w' st)
    have out: "pipes s i \<noteq> PInit \<Longrightarrow> pipes s i \<noteq> PDone \<Longrightarrow> i \<in> dom (registeredOutputs w')" for i
      using inv 1(10,11) unfolding sys_inv_def by (metis (no_types, lifting))
    have init: "registeredOutputs w' i = None \<and> i \<notin> closedOuts w'" if "pipes s i = PInit" for i
    proof -
      have "i \<notin> dom (registeredOutputs (wk s)) \<union> closedOuts (wk s)"
        using sys_inv_pipe(1) [OF inv that] by auto
      then have "i \<notin> dom (registeredOutputs w') \<union> closedOuts w'" using 1(9) by simp
      then show ?thesis by (simp add: domIff)
    qed
    have cl: "pipes s i = PDone" if "registeredOutputs w' i = Some t" "closing t" for i t
      using worker_callback_done_closing [OF 1(1) run that] inv unfolding sys_inv_def by blast
    have of: "\<forall>i sub. pipes s i = POffering sub \<longrightarrow> sub_out sub = i"
      and acc: "mset (accepted s) = mset (delivered (wk s)) + in_flight (wk s)"
      using inv unfolding sys_inv_def by blast+
    have "sys_inv (s\<lparr>wk := w'\<lparr>phase := AtTop\<rparr>, callback := CbNone\<rparr>)"
      unfolding sys_inv_def
    proof (intro conjI)
      show "\<forall>i st. registeredOutputs (wk (s\<lparr>wk := w'\<lparr>phase := AtTop\<rparr>, callback := CbNone\<rparr>)) i = Some st \<and>
          closing st \<longrightarrow> pipes (s\<lparr>wk := w'\<lparr>phase := AtTop\<rparr>, callback := CbNone\<rparr>) i = PDone"
        using cl by simp
    qed (use 1(2,3,4,8) out init of acc in simp_all)
    then show thesis
      using 1(1,4,5,6) run by (intro that [of "w'\<lparr>phase := AtTop\<rparr>" sub]) (simp_all add: to_top_def)
  qed
qed

lemma step_abort_inv:
  assumes inv: "sys_inv s" and "pipes s i = PInit"
  shows "sys_inv (s\<lparr>wk := (wk s)\<lparr>closedOuts := insert i (closedOuts (wk s))\<rparr>, pipes := (pipes s)(i := PDone)\<rparr>)"
proof -
  have "registeredOutputs (wk s) i = None" using sys_inv_pipe(1) [OF assms] ..
  then have "worker_inv ((wk s)\<lparr>closedOuts := insert i (closedOuts (wk s))\<rparr>) = worker_inv (wk s)"
    by (auto simp: worker_inv_def)
  then show ?thesis using inv by (auto simp: sys_inv_def)
qed

lemma step_exit_inv:
  assumes inv: "sys_inv s" and wt: "waiting s"
  obtains w where "worker_select SorterCtxDone (wk s) = Ok w" and "sys_inv (s\<lparr>wk := w\<rparr>)"
    and "w = (wk s)\<lparr>closedOuts := closedOuts (wk s) \<union> dom (registeredOutputs (wk s)), phase := Exited\<rparr>"
proof -
  have "i \<notin> closedOuts (wk s)" if "registeredOutputs (wk s) i = Some st" for i st
    using worker_inv_reg [OF sys_inv_worker(1) [OF inv wt] that] by simp
  then have "dom (registeredOutputs (wk s)) \<inter> closedOuts (wk s) = {}" by auto
  then show thesis
    using inv by (intro that) (auto simp: worker_exit_def sys_inv_def)
qed

lemma sorter_step_inv: "sorter_step minAge s r \<Longrightarrow> sys_inv s \<Longrightarrow> \<exists>s'. r = Ok s' \<and> sys_inv s'"
proof (induction rule: sorter_step.induct)
  case (tick s t)
  then show ?case by (simp add: sys_inv_def)
next
  case (top s)
  show ?case by (rule step_top_inv [OF top(2,1), of minAge]) simp
next
  case (register s i)
  show ?case by (rule step_register_inv [OF register(3,1,2)]) auto
next
  case (abort s i)
  then show ?case using step_abort_inv sys_inv_pipe(1) by auto
next
  case (offer s i msg key sub)
  then show ?case using submit_entry_out by (auto simp: sys_inv_def)
next
  case (submit s i sub)
  show ?case by (rule step_submit_inv [OF submit(4,1,2)]) auto
next
  case (submit_failed s i sub)
  then show ?case by (auto simp: sys_inv_def)
next
  case (input_end s i)
  then show ?case by (auto simp: sys_inv_def)
next
  case (close s i)
  show ?case by (rule step_close_inv [OF close(3,1,2)]) auto
next
  case (close_skipped s i)
  then show ?case by (auto simp: sys_inv_def)
next
  case (due s t)
  then show ?case by (auto simp: sys_inv_def to_top_def)
next
  case (callback_success s sub)
  then show ?case by (auto simp: sys_inv_def)
next
  case (callback_cancelled s)
  then show ?case by (auto simp: sys_inv_def)
next
  case (callback_done s ok)
  show ?case by (rule step_callback_done_inv [OF callback_done(3,1,2)]) auto
next
  case (cancel s)
  then show ?case by (simp add: sys_inv_def)
next
  case (worker_return s)
  show ?case by (rule step_exit_inv [OF worker_return(3,1)]) auto
qed

lemma sorter_reach_inv: "sorter_reach minAge s \<Longrightarrow> sys_inv s"
  by (induction rule: sorter_reach.induct) (use sys_inv_init sorter_step_inv in fastforce)+

section \<open>Only confirmed messages are forwarded, until the context ends\<close>

definition confirm_inv :: "sorter_sys \<Rightarrow> bool" where
  "confirm_inv s \<longleftrightarrow>
     (\<not> ctxDone s \<longrightarrow> phase (wk s) \<noteq> Exited \<and> callback s \<noteq> CbReturned False \<and>
        confirmed s = delivered (wk s) @
          (if callback s = CbReturned True then (case runningSubmission (wk s) of Some sub \<Rightarrow> [sub] | None \<Rightarrow> []) else []))"

lemma worker_select_frame:
  "worker_register i w = Ok w' \<or> worker_close i w = Ok w' \<or> worker_submit sub w = Ok w' \<Longrightarrow>
   phase w' = phase w \<and> delivered w' = delivered w \<and> runningSubmission w' = runningSubmission w \<and>
   started w' = started w \<and> runningCallback w' = runningCallback w"
  by (auto simp: worker_register_def worker_close_def worker_submit_def close_out_def
      split: option.splits if_splits)

lemma worker_callback_done_frame:
  "worker_callback_done w = Ok w' \<Longrightarrow> runningSubmission w = Some sub \<Longrightarrow>
   delivered w' = delivered w @ [sub] \<and> runningSubmission w' = None \<and> started w' = started w \<and>
   submissionHeap w' = submissionHeap w"
  by (auto simp: worker_callback_done_def close_out_def Let_def split: option.splits if_splits)

lemma to_top_Ok: "to_top r = Ok w \<longleftrightarrow> (\<exists>w'. r = Ok w' \<and> w = w'\<lparr>phase := AtTop\<rparr>)"
  by (cases r) (auto simp: to_top_def)

lemma step_confirm_inv:
  "sorter_step minAge s r \<Longrightarrow> r = Ok s' \<Longrightarrow> sys_inv s \<Longrightarrow> confirm_inv s \<Longrightarrow> confirm_inv s'"
proof (induction rule: sorter_step.induct)
  case (top s)
  have wi: "worker_inv (wk s)" and cb: "(callback s = CbNone) = (\<not> runningCallback (wk s))"
    using top by (auto simp: sys_inv_def)
  from wi show ?case
  proof (cases rule: worker_top_cases [where minAge = minAge and now = "clock s"])
    case (wait d)
    then show ?thesis using top by (auto simp: confirm_inv_def)
  next
    case (start nxt h)
    then show ?thesis using top cb by (auto simp: confirm_inv_def)
  qed
next
  case (register s i)
  then obtain w where "worker_register i (wk s) = Ok w"
      "s' = s\<lparr>wk := w\<lparr>phase := AtTop\<rparr>, pipes := (pipes s)(i := PReading)\<rparr>"
    by (auto simp: bind_outcome_Ok_iff to_top_Ok)
  then show ?case using register worker_select_frame [of i "wk s" w] by (simp add: confirm_inv_def)
next
  case (submit s i sub)
  then obtain w where "worker_submit sub (wk s) = Ok w"
      "s' = s\<lparr>wk := w\<lparr>phase := AtTop\<rparr>, pipes := (pipes s)(i := PReading), accepted := accepted s @ [sub]\<rparr>"
    by (auto simp: bind_outcome_Ok_iff to_top_Ok)
  then show ?case using submit worker_select_frame [of i "wk s" w sub] by (simp add: confirm_inv_def)
next
  case (close s i)
  then obtain w where "worker_close i (wk s) = Ok w"
      "s' = s\<lparr>wk := w\<lparr>phase := AtTop\<rparr>, pipes := (pipes s)(i := PDone)\<rparr>"
    by (auto simp: bind_outcome_Ok_iff to_top_Ok)
  then show ?case using close worker_select_frame [of i "wk s" w] by (simp add: confirm_inv_def)
next
  case (callback_done s ok)
  then obtain w where w: "worker_callback_done (wk s) = Ok w"
      "s' = s\<lparr>wk := w\<lparr>phase := AtTop\<rparr>, callback := CbNone\<rparr>"
    by (auto simp: bind_outcome_Ok_iff to_top_Ok)
  obtain sub where "runningSubmission (wk s) = Some sub"
    using sys_inv_running callback_done by blast
  then show ?case
    using w callback_done worker_callback_done_frame [OF w(1)] by (auto simp: confirm_inv_def)
qed (auto simp: confirm_inv_def to_top_def bind_outcome_Ok_iff split: if_splits)

lemma sorter_reach_confirm: "sorter_reach minAge s \<Longrightarrow> confirm_inv s"
proof (induction rule: sorter_reach.induct)
  case (start t0)
  show ?case by (simp add: confirm_inv_def init_sorter_def new_worker_def)
next
  case (step s s')
  then show ?case using step_confirm_inv sorter_reach_inv by blast
qed

section \<open>The order of the callbacks\<close>

text \<open>
  \<open>b\<close> is called back after \<open>a\<close> although its stream ID is smaller only where it was submitted that late.
\<close>

definition in_order :: "duration \<Rightarrow> submission \<Rightarrow> submission \<Rightarrow> bool" where
  "in_order minAge a b \<longleftrightarrow>
     (sub_less b a \<longrightarrow> submitTime a + minAge \<le> submitTime b + submit_timeout)"

definition time_inv :: "duration \<Rightarrow> sorter_sys \<Rightarrow> bool" where
  "time_inv minAge s \<longleftrightarrow>
     sorted_wrt (in_order minAge) (started (wk s)) \<and>
     (\<forall>a \<in> set (started (wk s)). submitTime a + minAge \<le> clock s \<and>
        (\<forall>b \<in> set (submissionHeap (wk s)). in_order minAge a b))"

lemma worker_heap_frame:
  "worker_register i w = Ok w' \<or> worker_close i w = Ok w' \<Longrightarrow> submissionHeap w' = submissionHeap w"
  by (auto simp: worker_register_def worker_close_def close_out_def split: option.splits if_splits)

lemma set_heap_push: "set (heap_push lt x h) = insert x (set h)"
proof -
  have "set_mset (mset (heap_push lt x h)) = set_mset (add_mset x (mset h))"
    by (simp add: heap_push_def del: set_mset_mset)
  then show ?thesis by simp
qed

lemma worker_submit_heap:
  "worker_submit sub w = Ok w' \<Longrightarrow> set (submissionHeap w') = insert sub (set (submissionHeap w))"
  by (auto simp: worker_submit_def set_heap_push split: option.splits)

lemma step_time_inv:
  "sorter_step minAge s r \<Longrightarrow> r = Ok s' \<Longrightarrow> sys_inv s \<Longrightarrow> time_inv minAge s \<Longrightarrow> time_inv minAge s'"
proof (induction rule: sorter_step.induct)
  case (tick s t)
  then show ?case by (fastforce simp: time_inv_def)
next
  case (top s)
  have wi: "worker_inv (wk s)" using top by (auto simp: sys_inv_def)
  then show ?case
  proof (cases rule: worker_top_cases [where minAge = minAge and now = "clock s"])
    case (wait d)
    then show ?thesis using top by (auto simp: time_inv_def)
  next
    case (start nxt h)
    have "set (submissionHeap (wk s)) = insert nxt (set h)"
      using start(6) by (metis set_mset_add_mset_insert set_mset_mset)
    moreover have "in_order minAge nxt b" if "b \<in> set h" for b
      using start(7) that by (simp add: in_order_def)
    ultimately show ?thesis
      using top start(1,4) by (auto simp: time_inv_def sorted_wrt_append)
  qed
next
  case (register s i)
  then obtain w where "worker_register i (wk s) = Ok w"
      "s' = s\<lparr>wk := w\<lparr>phase := AtTop\<rparr>, pipes := (pipes s)(i := PReading)\<rparr>"
    by (auto simp: bind_outcome_Ok_iff to_top_Ok)
  then show ?case
    using register worker_select_frame [of i "wk s" w] worker_heap_frame [of i "wk s" w]
    by (simp add: time_inv_def)
next
  case (submit s i sub)
  then obtain w where w: "worker_submit sub (wk s) = Ok w"
      "s' = s\<lparr>wk := w\<lparr>phase := AtTop\<rparr>, pipes := (pipes s)(i := PReading), accepted := accepted s @ [sub]\<rparr>"
    by (auto simp: bind_outcome_Ok_iff to_top_Ok)
  have "in_order minAge a sub" if "a \<in> set (started (wk s))" for a
  proof -
    have "submitTime a + minAge \<le> clock s" using that submit by (simp add: time_inv_def)
    then show ?thesis using submit(3) by (simp add: in_order_def)
  qed
  then show ?case
    using submit w worker_select_frame [of i "wk s" w sub] worker_submit_heap [OF w(1)]
    by (simp add: time_inv_def)
next
  case (close s i)
  then obtain w where "worker_close i (wk s) = Ok w"
      "s' = s\<lparr>wk := w\<lparr>phase := AtTop\<rparr>, pipes := (pipes s)(i := PDone)\<rparr>"
    by (auto simp: bind_outcome_Ok_iff to_top_Ok)
  then show ?case
    using close worker_select_frame [of i "wk s" w] worker_heap_frame [of i "wk s" w]
    by (simp add: time_inv_def)
next
  case (callback_done s ok)
  then obtain w where w: "worker_callback_done (wk s) = Ok w"
      "s' = s\<lparr>wk := w\<lparr>phase := AtTop\<rparr>, callback := CbNone\<rparr>"
    by (auto simp: bind_outcome_Ok_iff to_top_Ok)
  obtain sub where "runningSubmission (wk s) = Some sub"
    using sys_inv_running callback_done by blast
  then show ?case
    using w callback_done worker_callback_done_frame [OF w(1)] by (auto simp: time_inv_def)
next
  case (worker_return s)
  then show ?case by (auto simp: time_inv_def worker_exit_def split: if_splits)
qed (auto simp: time_inv_def to_top_def split: if_splits)

lemma sorter_reach_time: "sorter_reach minAge s \<Longrightarrow> time_inv minAge s"
proof (induction rule: sorter_reach.induct)
  case (start t0)
  show ?case by (simp add: time_inv_def init_sorter_def new_worker_def)
next
  case (step s s')
  then show ?case using step_time_inv sorter_reach_inv by blast
qed

end
