(* ===== verification/Sorter_Props.thy ===== *)
theory Sorter_Props
  imports Sorter_System
begin

text \<open>
  What the stream sorter guarantees, stated over the runs of \<open>Sorter_System\<close>, and one concrete run that
  the witnesses use.
\<close>

section \<open>A concrete run\<close>

text \<open>
  One stage registers, submits one message, which becomes old enough and is given to the callback; the
  context ends while the callback waits for its next try.
\<close>

definition run_msg :: xmessage where
  "run_msg = \<lparr>msg_ID = ''5-1'', msg_Values = Map.empty\<rparr>"

definition run_sub :: submission where
  "run_sub = \<lparr>sub_msg = run_msg, sub_key = ''k'', sub_out = 0, streamIdMs = 5, streamIdSeq = 1, submitTime = 0\<rparr>"

definition run_worker :: "phase \<Rightarrow> submission list \<Rightarrow> (nat \<rightharpoonup> output_state) \<Rightarrow> submission option \<Rightarrow>
    submission list \<Rightarrow> submission list \<Rightarrow> worker" where
  "run_worker ph h reg run st del = \<lparr>submissionHeap = h, registeredOutputs = reg, runningSubmission = run,
     runningCallback = (run \<noteq> None), phase = ph, started = st, delivered = del, closedOuts = {}\<rparr>"

definition run_state :: "worker \<Rightarrow> time \<Rightarrow> pipe_state \<Rightarrow> callback_state \<Rightarrow> bool \<Rightarrow> submission list \<Rightarrow>
    submission list \<Rightarrow> sorter_sys" where
  "run_state w t p cb dn acc conf = \<lparr>wk = w, clock = t, pipes = (\<lambda>_. PInit)(0 := p), callback = cb,
     ctxDone = dn, accepted = acc, confirmed = conf\<rparr>"

lemmas run_defs = run_state_def run_worker_def run_sub_def waiting_def

lemma reach_by: "sorter_reach m s \<Longrightarrow> sorter_step m s r \<Longrightarrow> r = Ok s' \<Longrightarrow> sorter_reach m s'"
  using sorter_reach.step by blast

lemma heap_push_Nil [simp]: "heap_push lt x [] = [x]"
  by (simp add: heap_push_def heap_up.simps)

lemma heap_pop_single [simp]: "heap_pop lt [x] = Some (x, [])"
  by (simp add: heap_pop_def heap_down.simps swap_at_def)

lemma run_submit_entry: "submit_entry 0 run_msg ''k'' 0 = Inr run_sub"
  by (simp add: submit_entry_def run_msg_def run_sub_def parseRedisStreamId_def
      ParseInt64_def ParseUint_def digit_val_def is_digit_def)

lemma run_ready:
  "sorter_reach (3 * second)
     (run_state (run_worker (InSelect None) [] (\<lambda>_. None) None [] []) 0 PInit CbNone False [] [])"
  by (rule reach_by [OF sorter_reach.start [of _ 0] sorter_step.top])
    (auto simp: init_sorter_def new_worker_def worker_top_def heap_peek_def run_defs)

lemma run_registered:
  "sorter_reach (3 * second)
     (run_state (run_worker (InSelect None) [] [0 \<mapsto> \<lparr>pending = 0, closing = False\<rparr>] None [] [])
        0 PReading CbNone False [] [])"
proof (rule reach_by [OF reach_by [OF run_ready sorter_step.register [of _ 0]] sorter_step.top])
qed (auto simp: run_defs to_top_def worker_register_def worker_top_def heap_peek_def)

lemma run_submitted:
  "sorter_reach (3 * second)
     (run_state (run_worker AtTop [run_sub] [0 \<mapsto> \<lparr>pending = 1, closing = False\<rparr>] None [] [])
        0 PReading CbNone False [run_sub] [])"
proof (rule reach_by [OF reach_by [OF run_registered sorter_step.offer [of _ 0 run_msg "''k''" run_sub]]
      sorter_step.submit [of _ 0 run_sub]])
qed (simp_all add: run_state_def run_submit_entry,
    simp_all add: run_defs to_top_def worker_submit_def submit_timeout_def second_def)

lemma run_started:
  "sorter_reach (3 * second)
     (run_state (run_worker (InSelect None) [] [0 \<mapsto> \<lparr>pending = 1, closing = False\<rparr>] (Some run_sub) [run_sub] [])
        (3 * second) PReading CbRunning False [run_sub] [])"
proof (rule reach_by [OF reach_by [OF run_submitted sorter_step.tick [of _ "3 * second"]] sorter_step.top])
qed (auto simp: run_defs worker_top_def heap_peek_def second_def)

text \<open>The callback fails, the context ends, the callback goroutine returns, and the message is forwarded.\<close>

lemma run_forwarded:
  "sorter_reach (3 * second)
     (run_state (run_worker AtTop [] [0 \<mapsto> \<lparr>pending = 0, closing = False\<rparr>] None [run_sub] [run_sub])
        (3 * second) PReading CbNone True [run_sub] [])"
proof (rule reach_by [OF reach_by [OF reach_by [OF run_started sorter_step.cancel]
        sorter_step.callback_cancelled] sorter_step.callback_done])
qed (auto simp: run_defs to_top_def worker_callback_done_def)

text \<open>Without the end of the context, the callback succeeds first.\<close>

lemma run_confirmed:
  "sorter_reach (3 * second)
     (run_state (run_worker AtTop [] [0 \<mapsto> \<lparr>pending = 0, closing = False\<rparr>] None [run_sub] [run_sub])
        (3 * second) PReading CbNone False [run_sub] [run_sub])"
proof (rule reach_by [OF reach_by [OF run_started sorter_step.callback_success [of _ run_sub]]
        sorter_step.callback_done])
qed (auto simp: run_defs to_top_def worker_callback_done_def)

text \<open>Then the input ends, and the worker closes the drained channel.\<close>

lemma run_closed:
  "sorter_reach (3 * second)
     ((run_state (run_worker AtTop [] [0 \<mapsto> \<lparr>pending = 0, closing = False\<rparr>] None [run_sub] [run_sub])
        (3 * second) PDone CbNone False [run_sub] [run_sub])
      \<lparr>wk := (run_worker AtTop [] (\<lambda>_. None) None [run_sub] [run_sub])\<lparr>closedOuts := {0}\<rparr>\<rparr>)"
proof (rule reach_by [OF reach_by [OF reach_by [OF run_confirmed sorter_step.top]
        sorter_step.input_end [of _ 0]] sorter_step.close [of _ 0]])
qed (auto simp: run_defs worker_top_def heap_peek_def to_top_def worker_close_def close_out_def)

text \<open>Or a message with a smaller ID arrives too late, and its callback follows.\<close>

definition late_msg :: xmessage where
  "late_msg = \<lparr>msg_ID = ''4-1'', msg_Values = Map.empty\<rparr>"

definition late_sub :: submission where
  "late_sub = \<lparr>sub_msg = late_msg, sub_key = ''k'', sub_out = 0, streamIdMs = 4, streamIdSeq = 1,
     submitTime = 3 * second\<rparr>"

lemma late_submit_entry: "submit_entry (3 * second) late_msg ''k'' 0 = Inr late_sub"
  by (simp add: submit_entry_def late_msg_def late_sub_def parseRedisStreamId_def
      ParseInt64_def ParseUint_def digit_val_def is_digit_def)

lemma run_late_submitted:
  "sorter_reach (3 * second)
     (run_state (run_worker AtTop [late_sub] [0 \<mapsto> \<lparr>pending = 2, closing = False\<rparr>] (Some run_sub) [run_sub] [])
        (3 * second) PReading CbRunning False [run_sub, late_sub] [])"
proof (rule reach_by [OF reach_by [OF run_started sorter_step.offer [of _ 0 late_msg "''k''" late_sub]]
      sorter_step.submit [of _ 0 late_sub]])
qed (simp_all add: run_state_def late_submit_entry,
    simp_all add: run_defs late_sub_def to_top_def worker_submit_def submit_timeout_def second_def)

lemma run_late_idle:
  "sorter_reach (3 * second)
     (run_state (run_worker AtTop [late_sub] [0 \<mapsto> \<lparr>pending = 1, closing = False\<rparr>] None [run_sub] [run_sub])
        (3 * second) PReading CbNone False [run_sub, late_sub] [run_sub])"
proof (rule reach_by [OF reach_by [OF reach_by [OF run_late_submitted sorter_step.top]
        sorter_step.callback_success [of _ run_sub]] sorter_step.callback_done])
qed (auto simp: run_defs late_sub_def worker_top_def to_top_def worker_callback_done_def)

lemma run_late_started:
  "sorter_reach (3 * second)
     (run_state (run_worker (InSelect None) [] [0 \<mapsto> \<lparr>pending = 1, closing = False\<rparr>] (Some late_sub)
        [run_sub, late_sub] [run_sub])
        (6 * second) PReading CbRunning False [run_sub, late_sub] [run_sub])"
proof (rule reach_by [OF reach_by [OF run_late_idle sorter_step.tick [of _ "6 * second"]] sorter_step.top])
qed (auto simp: run_defs late_sub_def worker_top_def heap_peek_def second_def)

section \<open>The delays of the callback\<close>

lemma callback_delay_closed:
  "millisecond \<le> mx \<Longrightarrow> callback_delay mx (Suc n) = min (2 ^ n * millisecond) mx"
proof (induction n)
  case 0
  then show ?case by (simp add: next_delay_def millisecond_def)
next
  case (Suc n)
  have one: "(1::int) \<le> 2 ^ n" by simp
  have p: "(1::int) \<le> 2 * 2 ^ n" using one by linarith
  have z: "0 < millisecond" by (simp add: millisecond_def)
  have "callback_delay mx (Suc (Suc n)) = min (max millisecond (2 * min (2 ^ n * millisecond) mx)) mx"
    using Suc by (simp add: next_delay_def)
  also have "\<dots> = min (2 ^ Suc n * millisecond) mx"
    using p z Suc.prems by (auto simp: min_def max_def)
  finally show ?case .
qed

lemma startCallback_delays:
  "startCallback mx (callback_delay mx k) (replicate n (CallbackResult False) @ CallbackResult True # os) =
     Some (True, map (callback_delay mx) [k..<Suc (k + n)])"
proof (induction n arbitrary: k)
  case 0
  show ?case by simp
next
  case (Suc n)
  show ?case
    using Suc [of "Suc k"] by (simp add: upt_conv_Cons del: upt_Suc)
qed

section \<open>Properties\<close>

text \<open>C15. No step of the sorter and its pipeline stages panics: no output channel is registered or
  closed twice, no message is submitted for or sent to an unregistered or closed channel, and the two
  variables of the running callback agree, in every interleaving of the stages, the worker, the
  callback, the clock and the end of the context.\<close>

theorem sorter_never_panics:
  assumes "sorter_reach minAge s" and "sorter_step minAge s r"
  shows "\<exists>s'. r = Ok s'"
  using sorter_step_inv [OF assms(2) sorter_reach_inv [OF assms(1)]] by blast

theorem sorter_never_panics_witness:
  "\<exists>s'. bind_outcome (worker_top (3 * second) 7 new_worker)
     (\<lambda>w. Ok ((init_sorter 7)\<lparr>wk := w, callback := CbNone\<rparr>)) = Ok (s' :: sorter_sys)"
  using sorter_never_panics [OF sorter_reach.start [of "3 * second" 7] sorter_step.top]
  by (simp add: init_sorter_def new_worker_def worker_top_def heap_peek_def)

text \<open>C5. No submission is lost or duplicated: every submission the worker accepted is in the heap, or
  is the running one, or was forwarded, and once each; for every open output channel the counter of
  pending submissions is exact.\<close>

theorem sorter_conservation:
  assumes "sorter_reach minAge s"
  shows "mset (accepted s) = mset (delivered (wk s)) + in_flight (wk s) \<and>
    (phase (wk s) \<noteq> Exited \<longrightarrow> (\<forall>out st. registeredOutputs (wk s) out = Some st \<longrightarrow>
       pending st = int (size (flight_to (wk s) out))))"
  using sorter_reach_inv [OF assms] worker_inv_reg by (auto simp: sys_inv_def)

theorem sorter_conservation_witness:
  "mset [run_sub] = mset [] + {#run_sub#} \<and> (1::int) = int (size {#run_sub#})"
  using sorter_conservation [OF run_started] by (simp add: run_defs in_flight_def flight_to_def)

text \<open>While the worker runs, an output channel is closed only after every message accepted for it
  has been sent to it.\<close>

theorem sorter_closes_when_drained:
  assumes "sorter_reach minAge s" and "phase (wk s) \<noteq> Exited" and "out \<in> closedOuts (wk s)"
  shows "filter_mset (\<lambda>x. sub_out x = out) (mset (accepted s)) =
         filter_mset (\<lambda>x. sub_out x = out) (mset (delivered (wk s)))"
proof -
  have inv: "sys_inv s" using sorter_reach_inv [OF assms(1)] .
  then have "worker_inv (wk s)" using assms(2) by (simp add: sys_inv_def)
  then have "flight_to (wk s) out = {#}"
    unfolding flight_to_def filter_mset_eq_mempty_iff using assms(3) flight_not_closed by blast
  then show ?thesis using inv by (simp add: sys_inv_def flight_to_def)
qed

theorem sorter_closes_when_drained_witness:
  "filter_mset (\<lambda>x. sub_out x = 0) (mset [run_sub]) = filter_mset (\<lambda>x. sub_out x = 0) (mset [run_sub]) \<and>
   0 \<in> closedOuts ((run_worker AtTop [] (\<lambda>_. None) None [run_sub] [run_sub])\<lparr>closedOuts := {0}\<rparr>)"
  using sorter_closes_when_drained [OF run_closed, of 0] by (simp add: run_defs)

text \<open>While the context has not ended, a message is forwarded only after its callback reported
  success, in the order of the successes.\<close>

theorem sorter_forwards_confirmed:
  assumes "sorter_reach minAge s" and "\<not> ctxDone s"
  shows "\<exists>rest. confirmed s = delivered (wk s) @ rest"
  using sorter_reach_confirm [OF assms(1)] assms(2) by (simp add: confirm_inv_def)

theorem sorter_forwards_confirmed_witness:
  "\<exists>rest. [run_sub] = [run_sub] @ rest"
  using sorter_forwards_confirmed [OF run_confirmed] by (simp add: run_defs)

text \<open>At shutdown this is not so: the callback goroutine closes its channel also when it gives up
  because the context ended, and the worker, which does not tell the two apart, may still forward the
  message although no callback succeeded for it.\<close>

theorem sorter_shutdown_forwards_unconfirmed:
  "\<exists>s. sorter_reach (3 * second) s \<and> delivered (wk s) = [run_sub] \<and> confirmed s = []"
  by (rule exI, rule conjI, rule run_forwarded) (simp add: run_state_def run_worker_def)

text \<open>C14. The order of the callbacks: a submission with a smaller stream ID is given to the callback
  after one with a larger ID only if it was submitted so much later that the wait of the larger one had
  run out, up to the time limit for handing a submission over.\<close>

theorem sorter_order:
  assumes "sorter_reach minAge s" and "i < j" and "j < length (started (wk s))"
    and "sub_less (started (wk s) ! j) (started (wk s) ! i)"
  shows "submitTime (started (wk s) ! i) + minAge \<le> submitTime (started (wk s) ! j) + submit_timeout"
proof -
  have "sorted_wrt (in_order minAge) (started (wk s))"
    using sorter_reach_time [OF assms(1)] by (simp add: time_inv_def)
  then have "in_order minAge (started (wk s) ! i) (started (wk s) ! j)"
    using assms(2,3) by (simp add: sorted_wrt_iff_nth_less)
  then show ?thesis using assms(4) by (simp add: in_order_def)
qed

theorem sorter_order_witness:
  "submitTime run_sub + 3 * second \<le> submitTime late_sub + submit_timeout"
  using sorter_order [OF run_late_started, of 0 1]
  by (simp add: run_defs late_sub_def sub_less_def)

text \<open>A callback that fails \<open>n\<close> times and then succeeds is tried at once, then after delays of
  1, 2, 4, ... milliseconds up to the maximum, and reported as a success.\<close>

theorem startCallback_backoff:
  assumes "millisecond \<le> mx"
  shows "startCallback mx 0 (replicate n (CallbackResult False) @ CallbackResult True # os) =
    Some (True, 0 # map (\<lambda>k. min (2 ^ k * millisecond) mx) [0..<n])"
proof -
  have "map (callback_delay mx) [0..<Suc n] = 0 # map (\<lambda>k. min (2 ^ k * millisecond) mx) [0..<n]"
    using callback_delay_closed [OF assms]
    by (simp add: upt_conv_Cons map_Suc_upt [symmetric] del: upt_Suc callback_delay.simps(2))
  then show ?thesis using startCallback_delays [of mx 0 n os] by simp
qed

theorem startCallback_backoff_witness:
  "startCallback (3 * millisecond) 0 [CallbackResult False, CallbackResult False, CallbackResult False,
     CallbackResult True] = Some (True, [0, millisecond, 2 * millisecond, 3 * millisecond])"
  using startCallback_backoff [of "3 * millisecond" 3 "[]"]
  by (simp add: millisecond_def numeral_3_eq_3 del: startCallback.simps)

end
