(* ===== verification/Delta.thy ===== *)
theory Delta
  imports Idb_Prelude
begin

text \<open>
  Entities and their comparison (\<open>pkg/contracts\<close>, \<open>pkg/common/sync_subject.go\<close>, the meta structs and
  the dependency states of \<open>pkg/icingadb/v1\<close>) and the computation of the difference between what the
  database holds and what Redis wants (\<open>pkg/icingadb/delta.go\<close>).

  A map key \<open>ID().String()\<close> is the hexadecimal form of the bytes of the ID; the model uses the bytes.
\<close>

section \<open>Entities\<close>

record RedundancygroupState =
  rg_Id :: binary
  rg_EnvironmentId :: binary
  RedundancyGroupId :: binary
  rg_Failed :: go_bool
  IsReachable :: go_bool
  LastStateChange :: time

record DependencyEdgeState =
  es_Id :: binary
  es_EnvironmentId :: binary
  es_Failed :: go_bool

text \<open>
  The entity types as the synchronisation tells them apart: those that embed \<open>EntityWithChecksum\<close>
  (with the columns the delta never looks at as one value), the two that implement \<open>Equaler\<close>, and
  those that do neither.
\<close>

datatype entity =
    EWithChecksum (ewc_Id: binary) (PropertiesChecksum: binary) (ewc_columns: string)
  | ERedundancygroupState RedundancygroupState
  | EDependencyEdgeState DependencyEdgeState
  | EWithoutChecksum (ewoc_Id: binary) (ewoc_columns: string)

fun ID :: "entity \<Rightarrow> binary" where
  "ID (EWithChecksum i c x) = i"
| "ID (ERedundancygroupState r) = rg_Id r"
| "ID (EDependencyEdgeState e) = es_Id e"
| "ID (EWithoutChecksum i x) = i"

fun SetID :: "binary \<Rightarrow> entity \<Rightarrow> entity" where
  "SetID i (EWithChecksum _ c x) = EWithChecksum i c x"
| "SetID i (ERedundancygroupState r) = ERedundancygroupState (r\<lparr>rg_Id := i\<rparr>)"
| "SetID i (EDependencyEdgeState e) = EDependencyEdgeState (e\<lparr>es_Id := i\<rparr>)"
| "SetID i (EWithoutChecksum _ x) = EWithoutChecksum i x"

abbreviation id_key :: "entity \<Rightarrow> bytes" where
  "id_key e \<equiv> bytes_of (ID e)"

text \<open>\<open>e.(contracts.Checksumer)\<close>: the checksum, if the type has one.\<close>

fun Checksum :: "entity \<Rightarrow> binary option" where
  "Checksum (EWithChecksum i c x) = Some c"
| "Checksum (ERedundancygroupState r) = None"
| "Checksum (EDependencyEdgeState e) = None"
| "Checksum (EWithoutChecksum i x) = None"

fun SetChecksum :: "binary \<Rightarrow> entity \<Rightarrow> entity option" where
  "SetChecksum c (EWithChecksum i _ x) = Some (EWithChecksum i c x)"
| "SetChecksum c (ERedundancygroupState r) = None"
| "SetChecksum c (EDependencyEdgeState e) = None"
| "SetChecksum c (EWithoutChecksum i x) = None"

definition RedundancygroupState_Equal :: "RedundancygroupState \<Rightarrow> entity \<Rightarrow> bool" where
  "RedundancygroupState_Equal r other =
     (case other of
        ERedundancygroupState o' \<Rightarrow>
          bytes_equal (rg_Id r) (rg_Id o') \<and> bytes_equal (rg_EnvironmentId r) (rg_EnvironmentId o') \<and>
          bytes_equal (RedundancyGroupId r) (RedundancyGroupId o') \<and> rg_Failed r = rg_Failed o' \<and>
          IsReachable r = IsReachable o' \<and> LastStateChange r = LastStateChange o'
      | _ \<Rightarrow> False)"

definition DependencyEdgeState_Equal :: "DependencyEdgeState \<Rightarrow> entity \<Rightarrow> bool" where
  "DependencyEdgeState_Equal es other =
     (case other of
        EDependencyEdgeState o' \<Rightarrow>
          bytes_equal (es_Id es) (es_Id o') \<and> bytes_equal (es_EnvironmentId es) (es_EnvironmentId o') \<and>
          es_Failed es = es_Failed o'
      | _ \<Rightarrow> False)"

text \<open>\<open>e.(contracts.Equaler)\<close>: the comparison, if the type has one.\<close>

fun Equal :: "entity \<Rightarrow> (entity \<Rightarrow> bool) option" where
  "Equal (ERedundancygroupState r) = Some (RedundancygroupState_Equal r)"
| "Equal (EDependencyEdgeState e) = Some (DependencyEdgeState_Equal e)"
| "Equal (EWithChecksum i c x) = None"
| "Equal (EWithoutChecksum i x) = None"

definition entitiesEqual :: "entity \<Rightarrow> entity \<Rightarrow> (unit, bool) outcome" where
  "entitiesEqual a b =
     (case (Checksum a, Checksum b) of
        (Some ca, Some cb) \<Rightarrow> Ok (ca = cb)
      | _ \<Rightarrow>
          (case Equal a of
             Some eq \<Rightarrow> Ok (eq b)
           | None \<Rightarrow> Panic ''entitiesEqual: values must implement Checksumer or Equaler''))"

section \<open>Sync subjects\<close>

text \<open>
  A subject is known by the entity its factory makes: the zero value of the type after \<open>Init\<close>.
  For the delta, types with a checksum are read into the bare \<open>EntityWithChecksum\<close>.
\<close>

record SyncSubject =
  Entity :: entity
  withChecksum :: bool

definition NewSyncSubject :: "entity \<Rightarrow> SyncSubject" where
  "NewSyncSubject e = \<lparr>Entity = e, withChecksum = (Checksum e \<noteq> None)\<rparr>"

definition FactoryForDelta :: "SyncSubject \<Rightarrow> entity" where
  "FactoryForDelta s = (if withChecksum s then EWithChecksum None None [] else Entity s)"

definition wants_update :: "SyncSubject \<Rightarrow> bool" where
  "wants_update s \<longleftrightarrow> Equal (Entity s) \<noteq> None \<or> withChecksum s"

section \<open>The computation\<close>

text \<open>
  The local variables of \<open>Delta.run\<close>, which it hands over at the end as the entities to create
  (\<open>desired\<close>), to update and to delete (\<open>actual\<close>). \<open>update\<close> is \<open>None\<close> where the code leaves it nil.
\<close>

record delta =
  RedisSnapshot :: "bytes set"
  actual :: "bytes \<rightharpoonup> entity"
  desired :: "bytes \<rightharpoonup> entity"
  update :: "(bytes \<rightharpoonup> entity) option"

definition delta_start :: "SyncSubject \<Rightarrow> delta" where
  "delta_start subj = \<lparr>RedisSnapshot = {}, actual = Map.empty, desired = Map.empty,
     update = (if wants_update subj then Some Map.empty else None)\<rparr>"

definition mark_update :: "entity \<Rightarrow> entity \<Rightarrow> delta \<Rightarrow> (unit, delta) outcome" where
  "mark_update actualValue desiredValue d =
     (case update d of
        None \<Rightarrow> Ok d
      | Some u \<Rightarrow>
          bind_outcome (entitiesEqual actualValue desiredValue)
            (\<lambda>eq. Ok (if eq then d else d\<lparr>update := Some (u(id_key desiredValue \<mapsto> desiredValue))\<rparr>)))"

definition delta_actual :: "entity \<Rightarrow> delta \<Rightarrow> (unit, delta) outcome" where
  "delta_actual actualValue d =
     (case desired d (id_key actualValue) of
        Some desiredValue \<Rightarrow>
          mark_update actualValue desiredValue (d\<lparr>desired := (desired d)(id_key actualValue := None)\<rparr>)
      | None \<Rightarrow> Ok (d\<lparr>actual := (actual d)(id_key actualValue \<mapsto> actualValue)\<rparr>))"

definition delta_desired :: "entity \<Rightarrow> delta \<Rightarrow> (unit, delta) outcome" where
  "delta_desired desiredValue d =
     (let d' = d\<lparr>RedisSnapshot := insert (id_key desiredValue) (RedisSnapshot d)\<rparr>
      in case actual d (id_key desiredValue) of
        Some actualValue \<Rightarrow>
          mark_update actualValue desiredValue (d'\<lparr>actual := (actual d)(id_key desiredValue := None)\<rparr>)
      | None \<Rightarrow> Ok (d'\<lparr>desired := (desired d)(id_key desiredValue \<mapsto> desiredValue)\<rparr>))"

text \<open>
  What the \<open>select\<close> receives in turn: a value of one of the channels, that one was closed, or that the
  context ended. The flags say which of the channels are still open; the loop ends when both are
  closed. \<open>None\<close>: the loop still waits after these events; the error is that of the context.
\<close>

datatype delta_event = Actual entity | Desired entity | EndActual | EndDesired | DeltaCtxDone

fun delta_loop :: "bool \<Rightarrow> bool \<Rightarrow> delta \<Rightarrow> delta_event list \<Rightarrow> (string, delta) outcome option" where
  "delta_loop oa od d es =
     (if \<not> oa \<and> \<not> od then Some (Ok d)
      else
        (case es of
           [] \<Rightarrow> None
         | Actual v # es' \<Rightarrow>
             (if oa then (case delta_actual v d of Ok d' \<Rightarrow> delta_loop oa od d' es' | Err _ \<Rightarrow> None | Panic p \<Rightarrow> Some (Panic p))
              else None)
         | Desired v # es' \<Rightarrow>
             (if od then (case delta_desired v d of Ok d' \<Rightarrow> delta_loop oa od d' es' | Err _ \<Rightarrow> None | Panic p \<Rightarrow> Some (Panic p))
              else None)
         | EndActual # es' \<Rightarrow> delta_loop False od d es'
         | EndDesired # es' \<Rightarrow> delta_loop oa False d es'
         | DeltaCtxDone # es' \<Rightarrow> Some (Err ''context ended'')))"

declare delta_loop.simps [simp del]

definition delta_run :: "SyncSubject \<Rightarrow> delta_event list \<Rightarrow> (string, delta) outcome option" where
  "delta_run subj es = delta_loop True True (delta_start subj) es"

section \<open>What a delta is\<close>

text \<open>
  The specification, as a function of the two finite maps: what only Redis has is created, what only
  the database has is deleted, what both have is updated where the two are not equal.
\<close>

definition by_id :: "entity list \<Rightarrow> bytes \<rightharpoonup> entity" where
  "by_id es = map_of (map (\<lambda>e. (id_key e, e)) es)"

definition delta_spec :: "SyncSubject \<Rightarrow> (bytes \<rightharpoonup> entity) \<Rightarrow> (bytes \<rightharpoonup> entity) \<Rightarrow> delta" where
  "delta_spec subj A D = \<lparr>RedisSnapshot = dom D, actual = A |` (- dom D), desired = D |` (- dom A),
     update = (if wants_update subj
       then Some (\<lambda>k. case (A k, D k) of
           (Some a, Some d) \<Rightarrow> if entitiesEqual a d = Ok False then Some d else None
         | _ \<Rightarrow> None)
       else None)\<rparr>"

text \<open>An entity that the factory of the subject made, whatever values its columns have.\<close>

definition of_subject :: "SyncSubject \<Rightarrow> entity \<Rightarrow> bool" where
  "of_subject subj e \<longleftrightarrow> (Checksum e \<noteq> None) = withChecksum subj \<and>
     (Equal e \<noteq> None) = (Equal (Entity subj) \<noteq> None)"

lemma by_id_Nil [simp]: "by_id [] = Map.empty"
  by (simp add: by_id_def)

lemma by_id_SomeD: "by_id es k = Some e \<Longrightarrow> e \<in> set es \<and> id_key e = k"
  unfolding by_id_def by (auto dest!: map_of_SomeD)

lemma dom_by_id: "dom (by_id es) = id_key ` set es"
  by (simp add: by_id_def dom_map_of_conv_image_fst image_image)

lemma by_id_append: "by_id (xs @ ys) = by_id ys ++ by_id xs"
  by (simp add: by_id_def)

lemma by_id_Cons: "by_id (e # es) = (by_id es)(id_key e \<mapsto> e)"
  by (simp add: by_id_def)

lemma by_id_mem: "distinct (map id_key es) \<Longrightarrow> e \<in> set es \<Longrightarrow> by_id es (id_key e) = Some e"
  unfolding by_id_def by (intro map_of_is_SomeI) (auto simp: comp_def)

lemma entitiesEqual_ok:
  "of_subject subj a \<Longrightarrow> of_subject subj d \<Longrightarrow> wants_update subj \<Longrightarrow> \<exists>b. entitiesEqual a d = Ok b"
  by (cases "Checksum a"; cases "Checksum d"; cases "Equal a")
    (auto simp: of_subject_def wants_update_def entitiesEqual_def)

lemma entitiesEqual_checksums:
  "Checksum a = Some ca \<Longrightarrow> Checksum d = Some cd \<Longrightarrow> entitiesEqual a d = Ok (ca = cd)"
  by (simp add: entitiesEqual_def)

lemma delta_start_spec: "delta_start subj = delta_spec subj Map.empty Map.empty"
  by (auto simp: delta_start_def delta_spec_def)

lemma delta_actual_spec:
  assumes new: "id_key v \<notin> dom A" and v: "of_subject subj v"
    and D: "\<And>k d. D k = Some d \<Longrightarrow> of_subject subj d \<and> id_key d = k"
  shows "delta_actual v (delta_spec subj A D) = Ok (delta_spec subj (A(id_key v \<mapsto> v)) D)"
proof (cases "D (id_key v)")
  case None
  then show ?thesis
    using new by (auto simp: delta_actual_def delta_spec_def restrict_map_def fun_eq_iff split: option.splits)
next
  case (Some d)
  have d: "of_subject subj d" "id_key d = id_key v" using D [OF Some] by auto
  have lookup: "desired (delta_spec subj A D) (id_key v) = Some d"
    using new Some by (auto simp: delta_spec_def restrict_map_def)
  have rest: "A |` (- dom D) = (A(id_key v \<mapsto> v)) |` (- dom D)"
    "(D |` (- dom A))(id_key v := None) = D |` (- dom (A(id_key v \<mapsto> v)))"
    using Some by (auto simp: restrict_map_def fun_eq_iff)
  show ?thesis
  proof (cases "wants_update subj")
    case False
    then show ?thesis
      using lookup rest by (simp add: delta_actual_def mark_update_def delta_spec_def)
  next
    case True
    obtain b where b: "entitiesEqual v d = Ok b" using entitiesEqual_ok [OF v d(1) True] ..
    have "(if b then u else u(id_key v \<mapsto> d)) =
        (\<lambda>k. case ((A(id_key v \<mapsto> v)) k, D k) of
           (Some a, Some d) \<Rightarrow> if entitiesEqual a d = Ok False then Some d else None | _ \<Rightarrow> None)"
      if "u = (\<lambda>k. case (A k, D k) of
           (Some a, Some d) \<Rightarrow> if entitiesEqual a d = Ok False then Some d else None | _ \<Rightarrow> None)" for u
      using new Some b that by (auto simp: fun_eq_iff split: option.splits)
    then show ?thesis
      using True lookup rest b d(2) by (cases b) (auto simp: delta_actual_def mark_update_def delta_spec_def)
  qed
qed

lemma delta_desired_spec:
  assumes new: "id_key v \<notin> dom D" and v: "of_subject subj v"
    and A: "\<And>k a. A k = Some a \<Longrightarrow> of_subject subj a"
  shows "delta_desired v (delta_spec subj A D) = Ok (delta_spec subj A (D(id_key v \<mapsto> v)))"
proof (cases "A (id_key v)")
  case None
  then show ?thesis
    using new by (auto simp: delta_desired_def delta_spec_def restrict_map_def fun_eq_iff Let_def split: option.splits)
next
  case (Some a)
  have a: "of_subject subj a" using A [OF Some] by auto
  have lookup: "actual (delta_spec subj A D) (id_key v) = Some a"
    using new Some by (auto simp: delta_spec_def restrict_map_def)
  have rest: "D |` (- dom A) = (D(id_key v \<mapsto> v)) |` (- dom A)"
    "(A |` (- dom D))(id_key v := None) = A |` (- dom (D(id_key v \<mapsto> v)))"
    using Some by (auto simp: restrict_map_def fun_eq_iff)
  show ?thesis
  proof (cases "wants_update subj")
    case False
    then show ?thesis
      using lookup rest by (simp add: delta_desired_def mark_update_def delta_spec_def Let_def)
  next
    case True
    obtain b where b: "entitiesEqual a v = Ok b" using entitiesEqual_ok [OF a v True] ..
    have "(if b then u else u(id_key v \<mapsto> v)) =
        (\<lambda>k. case (A k, (D(id_key v \<mapsto> v)) k) of
           (Some a, Some d) \<Rightarrow> if entitiesEqual a d = Ok False then Some d else None | _ \<Rightarrow> None)"
      if "u = (\<lambda>k. case (A k, D k) of
           (Some a, Some d) \<Rightarrow> if entitiesEqual a d = Ok False then Some d else None | _ \<Rightarrow> None)" for u
      using new Some b that by (auto simp: fun_eq_iff split: option.splits)
    then show ?thesis
      using True lookup rest b by (cases b) (auto simp: delta_desired_def mark_update_def delta_spec_def Let_def)
  qed
qed

lemma by_id_None: "id_key v \<notin> id_key ` set vs \<Longrightarrow> by_id vs (id_key v) = None"
  using dom_by_id [of vs] by (metis domIff)

lemma map_add_by_id_Cons:
  "id_key v \<notin> id_key ` set vs \<Longrightarrow> A(id_key v \<mapsto> v) ++ by_id vs = A ++ by_id (v # vs)"
  using by_id_None [of v vs] by (intro ext) (auto simp: by_id_Cons map_add_def split: option.splits)

text \<open>
  The loop from a state that reflects the maps \<open>A\<close> and \<open>D\<close>, for every interleaving of the values still
  to come on each channel and of the end of the channel after them.
\<close>

definition rest_events :: "(entity \<Rightarrow> delta_event) \<Rightarrow> delta_event \<Rightarrow> bool \<Rightarrow> entity list \<Rightarrow> delta_event list" where
  "rest_events val end_ev open_ch vs = (if open_ch then map val vs @ [end_ev] else [])"

lemma rest_events_Cons:
  "e # es = rest_events val end_ev oc vs \<Longrightarrow>
   oc \<and> (vs = [] \<and> e = end_ev \<and> es = [] \<or> (\<exists>v vs'. vs = v # vs' \<and> e = val v \<and> es = rest_events val end_ev True vs'))"
  by (cases vs) (auto simp: rest_events_def split: if_splits)

definition fresh_for :: "SyncSubject \<Rightarrow> (bytes \<rightharpoonup> entity) \<Rightarrow> entity list \<Rightarrow> bool" where
  "fresh_for subj M vs \<longleftrightarrow> distinct (map id_key vs) \<and> id_key ` set vs \<inter> dom M = {} \<and>
     (\<forall>v \<in> set vs. of_subject subj v) \<and> (\<forall>k m. M k = Some m \<longrightarrow> of_subject subj m \<and> id_key m = k)"

lemma fresh_for_Cons:
  "fresh_for subj M (v # vs) \<Longrightarrow> id_key v \<notin> dom M \<and> of_subject subj v \<and> id_key v \<notin> id_key ` set vs \<and>
     fresh_for subj (M(id_key v \<mapsto> v)) vs"
  by (auto simp: fresh_for_def)

lemma fresh_for_entity: "fresh_for subj M vs \<Longrightarrow> M k = Some m \<Longrightarrow> of_subject subj m \<and> id_key m = k"
  unfolding fresh_for_def by blast

lemma delta_loop_spec:
  assumes "es \<in> shuffles (rest_events Actual EndActual oa avs) (rest_events Desired EndDesired od dvs)"
    and "fresh_for subj A avs" and "fresh_for subj D dvs" and "oa \<or> avs = []" and "od \<or> dvs = []"
  shows "delta_loop oa od (delta_spec subj A D) es = Some (Ok (delta_spec subj (A ++ by_id avs) (D ++ by_id dvs)))"
  using assms
proof (induction es arbitrary: oa od A D avs dvs)
  case Nil
  then have "\<not> oa" and "\<not> od" by (auto simp: rest_events_def split: if_splits)
  then show ?case using Nil by (subst delta_loop.simps) simp
next
  case (Cons e es)
  from Cons.prems(1) consider
      (a) xs where "e # xs = rest_events Actual EndActual oa avs" "es \<in> shuffles xs (rest_events Desired EndDesired od dvs)"
    | (d) ys where "e # ys = rest_events Desired EndDesired od dvs" "es \<in> shuffles (rest_events Actual EndActual oa avs) ys"
    by (auto simp: Cons_in_shuffles_iff) (metis list.collapse)+
  then show ?case
  proof cases
    case a
    from rest_events_Cons [OF a(1)] consider
        (stop) "oa" "avs = []" "e = EndActual" "xs = []"
      | (val) v vs where "oa" "avs = v # vs" "e = Actual v" "xs = rest_events Actual EndActual True vs"
      by blast
    then show ?thesis
    proof cases
      case stop
      have "delta_loop False od (delta_spec subj A D) es =
          Some (Ok (delta_spec subj (A ++ by_id []) (D ++ by_id dvs)))"
        by (rule Cons.IH) (use a(2) stop Cons.prems(2,3,5) in \<open>simp_all add: rest_events_def\<close>)
      then show ?thesis using stop by (subst delta_loop.simps) simp
    next
      case val
      note f = fresh_for_Cons [OF Cons.prems(2) [unfolded val(2)]]
      have "delta_actual v (delta_spec subj A D) = Ok (delta_spec subj (A(id_key v \<mapsto> v)) D)"
        by (rule delta_actual_spec) (use f fresh_for_entity [OF Cons.prems(3)] in blast)+
      moreover have "delta_loop True od (delta_spec subj (A(id_key v \<mapsto> v)) D) es =
          Some (Ok (delta_spec subj (A(id_key v \<mapsto> v) ++ by_id vs) (D ++ by_id dvs)))"
        using Cons.IH [where oa = True and avs = vs and A = "A(id_key v \<mapsto> v)" and od = od and dvs = dvs and D = D]
        a(2) val f Cons.prems(3,5) by (simp del: fun_upd_apply)
      ultimately show ?thesis
        using val f map_add_by_id_Cons [of v vs A] by (subst delta_loop.simps) simp
    qed
  next
    case d
    from rest_events_Cons [OF d(1)] consider
        (stop) "od" "dvs = []" "e = EndDesired" "ys = []"
      | (val) v vs where "od" "dvs = v # vs" "e = Desired v" "ys = rest_events Desired EndDesired True vs"
      by blast
    then show ?thesis
    proof cases
      case stop
      have "delta_loop oa False (delta_spec subj A D) es =
          Some (Ok (delta_spec subj (A ++ by_id avs) (D ++ by_id [])))"
        by (rule Cons.IH) (use d(2) stop Cons.prems(2,3,4) in \<open>simp_all add: rest_events_def\<close>)
      then show ?thesis using stop by (subst delta_loop.simps) simp
    next
      case val
      note f = fresh_for_Cons [OF Cons.prems(3) [unfolded val(2)]]
      have "delta_desired v (delta_spec subj A D) = Ok (delta_spec subj A (D(id_key v \<mapsto> v)))"
        by (rule delta_desired_spec) (use f fresh_for_entity [OF Cons.prems(2)] in blast)+
      moreover have "delta_loop oa True (delta_spec subj A (D(id_key v \<mapsto> v))) es =
          Some (Ok (delta_spec subj (A ++ by_id avs) (D(id_key v \<mapsto> v) ++ by_id vs)))"
        using Cons.IH [where oa = oa and avs = avs and A = A and od = True and dvs = vs and D = "D(id_key v \<mapsto> v)"]
        d(2) val f Cons.prems(2,4) by (simp del: fun_upd_apply)
      ultimately show ?thesis
        using val f map_add_by_id_Cons [of v vs D] by (subst delta_loop.simps) simp
    qed
  qed
qed

lemma delta_run_spec:
  assumes "distinct (map id_key as)" and "distinct (map id_key ds)"
    and "\<forall>e \<in> set as \<union> set ds. of_subject subj e"
    and "es \<in> shuffles (map Actual as @ [EndActual]) (map Desired ds @ [EndDesired])"
  shows "delta_run subj es = Some (Ok (delta_spec subj (by_id as) (by_id ds)))"
  using delta_loop_spec [where oa = True and od = True and A = Map.empty and D = Map.empty
      and avs = as and dvs = ds and subj = subj and es = es] assms
  by (simp add: delta_run_def delta_start_spec rest_events_def fresh_for_def)

section \<open>Properties\<close>

text \<open>C6. Whatever the order in which the values of the two channels arrive, the delta is the
  specified one: entities that only Redis has are created, those that only the database has are deleted,
  and those that both have are updated to the value of Redis where they differ.\<close>

theorem delta_run_correct:
  assumes "distinct (map id_key as)" and "distinct (map id_key ds)"
    and "\<forall>e \<in> set as \<union> set ds. of_subject subj e"
    and "es \<in> shuffles (map Actual as @ [EndActual]) (map Desired ds @ [EndDesired])"
  shows "delta_run subj es = Some (Ok (delta_spec subj (by_id as) (by_id ds)))"
  using assms by (rule delta_run_spec)

definition sample_subject :: SyncSubject where
  "sample_subject = NewSyncSubject (EWithChecksum None None [])"

definition sample_entity :: "8 word \<Rightarrow> 8 word \<Rightarrow> entity" where
  "sample_entity i c = EWithChecksum (Some [i]) (Some [c]) []"

theorem delta_run_correct_witness:
  "\<exists>d. delta_run sample_subject [Actual (sample_entity 1 1), Desired (sample_entity 2 8), Desired (sample_entity 3 3),
       EndDesired, Actual (sample_entity 2 2), EndActual] = Some (Ok d) \<and>
     actual d [1] = Some (sample_entity 1 1) \<and> desired d [3] = Some (sample_entity 3 3) \<and>
     map_option (\<lambda>u. u [2]) (update d) = Some (Some (sample_entity 2 8)) \<and> RedisSnapshot d = {[2], [3]}"
  using delta_run_correct [of "[sample_entity 1 1, sample_entity 2 2]" "[sample_entity 2 8, sample_entity 3 3]"
      sample_subject "[Actual (sample_entity 1 1), Desired (sample_entity 2 8), Desired (sample_entity 3 3),
       EndDesired, Actual (sample_entity 2 2), EndActual]"]
  by (simp add: sample_entity_def sample_subject_def of_subject_def NewSyncSubject_def bytes_of_def
      Cons_in_shuffles_iff delta_spec_def wants_update_def by_id_def entitiesEqual_def restrict_map_def insert_commute)

end
