(* ===== verification/Config_Sync.thy ===== *)
theory Config_Sync
  imports Delta "HOL-Library.List_Lexorder"
begin

text \<open>
  The synchronisation of one entity type from Redis to the database: \<open>CreateEntities\<close>, \<open>SetChecksums\<close>
  and \<open>YieldAll\<close> of \<open>pkg/icingaredis/utils.go\<close>, \<open>Sync\<close> and \<open>ApplyDelta\<close> of \<open>pkg/icingadb/sync.go\<close>,
  and the effect of the statements on the table.

  Parameters: \<open>unhex\<close> is \<open>types.Binary.UnmarshalText\<close> and \<open>hex\<close> its inverse, \<open>unjson\<close> is
  \<open>types.UnmarshalJSON\<close> into the entity a factory made, \<open>hmyield\<close> is the Redis client's \<open>HMYield\<close> on the
  hash of the type, and \<open>order\<close> is the order in which Go iterates over a map with the given keys.
\<close>

section \<open>From Redis to entities\<close>

definition create_entity ::
    "(string \<Rightarrow> bytes option) \<Rightarrow> (string \<Rightarrow> entity \<Rightarrow> entity option) \<Rightarrow> entity \<Rightarrow> string \<times> string \<Rightarrow> (string, entity) outcome" where
  "create_entity unhex unjson factory pair =
     (case unhex (fst pair) of
        None \<Rightarrow> Err ''can't create ID from value''
      | Some i \<Rightarrow>
          (case unjson (snd pair) factory of
             None \<Rightarrow> Err ''can't unmarshal JSON''
           | Some e \<Rightarrow> Ok (SetID (Some i) e)))"

text \<open>A stage applies a function to every element it receives and ends with the first error.\<close>

fun stream_map :: "('a \<Rightarrow> ('e, 'b) outcome) \<Rightarrow> 'a list \<Rightarrow> ('e, 'b list) outcome" where
  "stream_map f [] = Ok []"
| "stream_map f (x # xs) = bind_outcome (f x) (\<lambda>y. bind_outcome (stream_map f xs) (\<lambda>ys. Ok (y # ys)))"

definition CreateEntities ::
    "(string \<Rightarrow> bytes option) \<Rightarrow> (string \<Rightarrow> entity \<Rightarrow> entity option) \<Rightarrow> entity \<Rightarrow> (string \<times> string) list \<Rightarrow>
     (string, entity list) outcome" where
  "CreateEntities unhex unjson factory pairs = stream_map (create_entity unhex unjson factory) pairs"

definition set_checksum :: "(bytes \<rightharpoonup> entity) \<Rightarrow> entity \<Rightarrow> (string, entity) outcome" where
  "set_checksum checksums e =
     (case checksums (id_key e) of
        None \<Rightarrow> Err ''no checksum for entity''
      | Some c \<Rightarrow>
          if Checksum e = None then Err ''entity does not implement contracts.Checksumer''
          else
            (case Checksum c of
               None \<Rightarrow> Err ''checksumer does not implement contracts.Checksumer''
             | Some cs \<Rightarrow>
                 (case SetChecksum cs e of
                    None \<Rightarrow> Err ''entity does not implement contracts.Checksumer''
                  | Some e' \<Rightarrow> Ok e')))"

definition SetChecksums :: "(bytes \<rightharpoonup> entity) \<Rightarrow> entity list \<Rightarrow> (string, entity list) outcome" where
  "SetChecksums checksums es = stream_map (set_checksum checksums) es"

text \<open>The hash that \<open>YieldAll\<close> reads, from the name of the type in Redis notation.\<close>

definition yield_key :: "SyncSubject \<Rightarrow> string \<Rightarrow> string" where
  "yield_key subj key = (if withChecksum subj then ''icinga:checksum:'' @ key else ''icinga:'' @ key)"

definition YieldAll ::
    "(string \<Rightarrow> bytes option) \<Rightarrow> (string \<Rightarrow> entity \<Rightarrow> entity option) \<Rightarrow> (string \<Rightarrow> (string \<times> string) list) \<Rightarrow>
     SyncSubject \<Rightarrow> string \<Rightarrow> (string, entity list) outcome" where
  "YieldAll unhex unjson hyield subj key =
     CreateEntities unhex unjson (FactoryForDelta subj) (hyield (yield_key subj key))"

section \<open>From the database to entities\<close>

text \<open>
  The columns selected are those of \<open>Fingerprint()\<close>: the ID, and for types with a checksum the checksum.
  The embedded method of \<open>EntityWithoutChecksum\<close> serves the dependency states too.
\<close>

fun fingerprint_row :: "entity \<Rightarrow> entity" where
  "fingerprint_row (EWithChecksum i c x) = EWithChecksum i c []"
| "fingerprint_row (ERedundancygroupState r) =
     ERedundancygroupState \<lparr>rg_Id = rg_Id r, rg_EnvironmentId = None, RedundancyGroupId = None,
       rg_Failed = null_bool, IsReachable = null_bool, LastStateChange = zero_time\<rparr>"
| "fingerprint_row (EDependencyEdgeState e) =
     EDependencyEdgeState \<lparr>es_Id = es_Id e, es_EnvironmentId = None, es_Failed = null_bool\<rparr>"
| "fingerprint_row (EWithoutChecksum i x) = EWithoutChecksum i []"

section \<open>Applying a delta\<close>

datatype db_op = DbCreate entity | DbUpsert entity | DbDelete bytes

record delta_ops =
  creates :: "db_op list"
  upserts :: "db_op list"
  deletes :: "db_op list"

definition values_in :: "(bytes set \<Rightarrow> bytes list) \<Rightarrow> (bytes \<rightharpoonup> entity) \<Rightarrow> entity list" where
  "values_in order m = map (\<lambda>k. the (m k)) (order (dom m))"

definition create_entities_of where
  "create_entities_of order hmyield unhex unjson subj d =
     (if withChecksum subj then
        bind_outcome (CreateEntities unhex unjson (Entity subj) (hmyield (order (dom (desired d)))))
          (SetChecksums (desired d))
      else Ok (values_in order (desired d)))"

definition update_entities_of where
  "update_entities_of order hmyield unhex unjson subj u =
     bind_outcome (CreateEntities unhex unjson (Entity subj) (hmyield (order (dom u))))
       (\<lambda>es. if withChecksum subj then SetChecksums u es else Ok es)"

text \<open>
  The statements \<open>ApplyDelta\<close> sends, one stream per kind; a kind without entities is left out. An
  error of a stage ends the whole run.
\<close>

definition ApplyDelta ::
    "(bytes set \<Rightarrow> bytes list) \<Rightarrow> (bytes list \<Rightarrow> (string \<times> string) list) \<Rightarrow> (string \<Rightarrow> bytes option) \<Rightarrow>
     (string \<Rightarrow> entity \<Rightarrow> entity option) \<Rightarrow> SyncSubject \<Rightarrow> delta \<Rightarrow> (string, delta_ops) outcome" where
  "ApplyDelta order hmyield unhex unjson subj d =
     bind_outcome
       (if desired d = Map.empty then Ok []
        else create_entities_of order hmyield unhex unjson subj d)
       (\<lambda>cs. bind_outcome
          (case update d of
             None \<Rightarrow> Ok []
           | Some u \<Rightarrow> if u = Map.empty then Ok [] else update_entities_of order hmyield unhex unjson subj u)
          (\<lambda>us. Ok \<lparr>creates = map DbCreate cs, upserts = map DbUpsert us,
             deletes = (if actual d = Map.empty then []
               else map (\<lambda>e. DbDelete (id_key e)) (values_in order (actual d)))\<rparr>))"

section \<open>The table\<close>

fun op_key :: "db_op \<Rightarrow> bytes" where
  "op_key (DbCreate e) = id_key e"
| "op_key (DbUpsert e) = id_key e"
| "op_key (DbDelete i) = i"

fun op_row :: "db_op \<Rightarrow> entity option" where
  "op_row (DbCreate e) = Some e"
| "op_row (DbUpsert e) = Some e"
| "op_row (DbDelete i) = None"

fun run_op :: "db_op \<Rightarrow> (bytes \<rightharpoonup> entity) \<Rightarrow> (string, bytes \<rightharpoonup> entity) outcome" where
  "run_op (DbCreate e) db =
     (if id_key e \<in> dom db then Err ''duplicate key'' else Ok (db(id_key e \<mapsto> e)))"
| "run_op (DbUpsert e) db = Ok (db(id_key e \<mapsto> e))"
| "run_op (DbDelete i) db = Ok (db(i := None))"

fun run_ops :: "db_op list \<Rightarrow> (bytes \<rightharpoonup> entity) \<Rightarrow> (string, bytes \<rightharpoonup> entity) outcome" where
  "run_ops [] db = Ok db"
| "run_ops (x # xs) db = bind_outcome (run_op x db) (run_ops xs)"

lemma run_ops_effect:
  assumes "distinct (map op_key ops)" and "\<And>e. DbCreate e \<in> set ops \<Longrightarrow> id_key e \<notin> dom db"
  shows "run_ops ops db =
    Ok (\<lambda>k. case map_of (map (\<lambda>x. (op_key x, op_row x)) ops) k of None \<Rightarrow> db k | Some r \<Rightarrow> r)"
  using assms
proof (induction ops arbitrary: db)
  case Nil
  show ?case by simp
next
  case (Cons x xs)
  have new: "op_key x \<notin> op_key ` set xs" using Cons.prems(1) by simp
  then have miss: "map_of (map (\<lambda>x. (op_key x, op_row x)) xs) (op_key x) = None"
    by (simp add: map_of_eq_None_iff image_image)
  obtain db' where db': "run_op x db = Ok db'" "db' = db(op_key x := op_row x)"
    using Cons.prems(2) by (cases x) auto
  have "id_key e \<notin> dom db'" if "DbCreate e \<in> set xs" for e
    using Cons.prems(2) [of e] that new db'(2) by (force simp: image_iff)
  then have "run_ops xs db' = Ok (\<lambda>k. case map_of (map (\<lambda>x. (op_key x, op_row x)) xs) k of None \<Rightarrow> db' k | Some r \<Rightarrow> r)"
    using Cons by simp
  moreover have "(case map_of (map (\<lambda>x. (op_key x, op_row x)) xs) k of None \<Rightarrow> db' k | Some r \<Rightarrow> r) =
      (case map_of (map (\<lambda>x. (op_key x, op_row x)) (x # xs)) k of None \<Rightarrow> db k | Some r \<Rightarrow> r)" for k
  proof (cases "k = op_key x")
    case True
    then show ?thesis using miss by (simp add: db'(2))
  next
    case False
    then show ?thesis by (simp add: db'(2) split: option.splits)
  qed
  ultimately show ?case using db'(1) by simp
qed

section \<open>What the stages produce\<close>

lemma stream_map_Ok: "(\<And>x. x \<in> set xs \<Longrightarrow> f x = Ok (g x)) \<Longrightarrow> stream_map f xs = Ok (map g xs)"
  by (induction xs) auto

lemma stream_map_error:
  "stream_map f xs = Ok ys \<Longrightarrow> x \<in> set xs \<Longrightarrow> \<exists>y \<in> set ys. f x = Ok y"
  by (induction xs arbitrary: ys) (auto simp: bind_outcome_Ok_iff)

text \<open>The entity that Redis holds for an ID, without and with the checksum the delta knows for it.\<close>

definition row_of :: "(string \<Rightarrow> entity \<Rightarrow> entity option) \<Rightarrow> SyncSubject \<Rightarrow> (bytes \<rightharpoonup> string) \<Rightarrow> bytes \<Rightarrow> entity" where
  "row_of unjson subj objs k = SetID (Some k) (the (unjson (the (objs k)) (Entity subj)))"

definition redis_row ::
    "(string \<Rightarrow> entity \<Rightarrow> entity option) \<Rightarrow> SyncSubject \<Rightarrow> (bytes \<rightharpoonup> string) \<Rightarrow> (bytes \<rightharpoonup> entity) \<Rightarrow> bytes \<Rightarrow> entity" where
  "redis_row unjson subj objs D k =
     (if withChecksum subj
      then the (SetChecksum (the (Checksum (the (D k)))) (row_of unjson subj objs k))
      else row_of unjson subj objs k)"

text \<open>
  The parameters behave as documented: Go visits each key of a map once, decoding inverts encoding,
  \<open>HMYield\<close> yields the requested fields that exist, in some order, and every object in the hash can be
  unmarshalled.
\<close>

definition reads_hash where
  "reads_hash order hmyield hex unhex unjson subj objs \<longleftrightarrow>
     (\<forall>S. finite S \<longrightarrow> set (order S) = S \<and> distinct (order S)) \<and>
     (\<forall>b. unhex (hex b) = Some b) \<and>
     (\<forall>ks. mset (hmyield ks) = mset (List.map_filter (\<lambda>k. map_option (Pair (hex k)) (objs k)) ks)) \<and>
     (\<forall>k v. objs k = Some v \<longrightarrow> (\<exists>e. unjson v (Entity subj) = Some e \<and> of_subject subj e))"

lemma ID_SetID [simp]: "ID (SetID i e) = i"
  by (cases e) auto

lemma of_subject_SetID [simp]: "of_subject subj (SetID i e) = of_subject subj e"
  by (cases e) (auto simp: of_subject_def)

lemma SetChecksum_Some: "Checksum e \<noteq> None \<Longrightarrow> \<exists>e'. SetChecksum c e = Some e' \<and> ID e' = ID e \<and> Checksum e' = Some c"
  by (cases e) auto

lemma ID_SetChecksum: "Checksum e = Some c' \<Longrightarrow> ID (the (SetChecksum c e)) = ID e"
  by (cases e) auto

lemma of_subject_Checksum: "of_subject subj e \<Longrightarrow> withChecksum subj \<Longrightarrow> \<exists>c. Checksum e = Some c"
  by (auto simp: of_subject_def)

lemma row_of_subject:
  "reads_hash order hmyield hex unhex unjson subj objs \<Longrightarrow> k \<in> dom objs \<Longrightarrow>
   of_subject subj (row_of unjson subj objs k)"
  by (fastforce simp: reads_hash_def row_of_def)

lemma map_filter_total: "set ks \<subseteq> dom objs \<Longrightarrow>
    List.map_filter (\<lambda>k. map_option (Pair (h k)) (objs k)) ks = map (\<lambda>k. (h k, the (objs k))) ks"
  by (induction ks) auto

lemma create_entity_row:
  assumes "reads_hash order hmyield hex unhex unjson subj objs" and "k \<in> dom objs"
  shows "create_entity unhex unjson (Entity subj) (hex k, the (objs k)) = Ok (row_of unjson subj objs k)"
  using assms by (fastforce simp: reads_hash_def create_entity_def row_of_def)

lemma id_key_redis_row:
  assumes "reads_hash order hmyield hex unhex unjson subj objs" and "k \<in> dom objs"
  shows "id_key (redis_row unjson subj objs D k) = k"
proof -
  have "id_key (row_of unjson subj objs k) = k" by (simp add: row_of_def bytes_of_def)
  moreover have "ID (the (SetChecksum c (row_of unjson subj objs k))) = ID (row_of unjson subj objs k)"
    if "withChecksum subj" for c
    using ID_SetChecksum of_subject_Checksum [OF row_of_subject [OF assms] that] by auto
  ultimately show ?thesis by (simp add: redis_row_def)
qed

lemma set_checksum_row:
  assumes "reads_hash order hmyield hex unhex unjson subj objs" and "k \<in> dom objs"
    and "withChecksum subj" and "u k = Some c" and "of_subject subj c"
  shows "set_checksum u (row_of unjson subj objs k) = Ok (redis_row unjson subj objs u k)"
proof -
  have key: "id_key (row_of unjson subj objs k) = k" by (simp add: row_of_def bytes_of_def)
  obtain c0 where "Checksum (row_of unjson subj objs k) = Some c0"
    using row_of_subject [OF assms(1,2)] of_subject_Checksum assms(3) by blast
  moreover obtain cs where cs: "Checksum c = Some cs" using assms(3,5) of_subject_Checksum by blast
  ultimately show ?thesis
    using SetChecksum_Some [of "row_of unjson subj objs k" cs] key assms(3,4)
    by (fastforce simp: set_checksum_def redis_row_def)
qed

text \<open>
  \<open>CreateEntities\<close> and, for types with a checksum, \<open>SetChecksums\<close>, on the objects of the given IDs.
\<close>

lemma pipeline_rows:
  assumes rh: "reads_hash order hmyield hex unhex unjson subj objs"
    and fin: "finite (dom u)" and sub: "dom u \<subseteq> dom objs"
    and u: "\<And>k e. u k = Some e \<Longrightarrow> of_subject subj e"
  shows "\<exists>es. bind_outcome (CreateEntities unhex unjson (Entity subj) (hmyield (order (dom u))))
      (\<lambda>es. if withChecksum subj then SetChecksums u es else Ok es) = Ok es \<and>
    mset es = mset (map (redis_row unjson subj objs u) (order (dom u)))"
proof -
  let ?ks = "order (dom u)"
  have ks: "set ?ks = dom u" using rh fin by (auto simp: reads_hash_def)
  have pairs: "mset (hmyield ?ks) = mset (map (\<lambda>k. (hex k, the (objs k))) ?ks)"
    using rh ks sub map_filter_total [of ?ks objs hex] by (simp add: reads_hash_def)
  define g where "g p = row_of unjson subj objs (the (unhex (fst p)))" for p :: "string \<times> string"
  have inv: "unhex (hex k) = Some k" for k using rh by (auto simp: reads_hash_def)
  have cg: "create_entity unhex unjson (Entity subj) p = Ok (g p)" if "p \<in> set (hmyield ?ks)" for p
  proof -
    have "p \<in> set (map (\<lambda>k. (hex k, the (objs k))) ?ks)" using that pairs by (metis set_mset_mset)
    then obtain k where k: "k \<in> dom u" "p = (hex k, the (objs k))" using ks by auto
    then show ?thesis using create_entity_row [OF rh, of k] sub by (auto simp: g_def inv)
  qed
  then have ce: "CreateEntities unhex unjson (Entity subj) (hmyield ?ks) = Ok (map g (hmyield ?ks))"
    by (simp add: CreateEntities_def stream_map_Ok)
  have rows: "mset (map g (hmyield ?ks)) = mset (map (row_of unjson subj objs) ?ks)"
    using pairs by (simp add: g_def inv image_mset.compositionality comp_def)
  show ?thesis
  proof (cases "withChecksum subj")
    case False
    then show ?thesis using ce rows by (simp add: redis_row_def cong: map_cong)
  next
    case True
    define h where "h e = redis_row unjson subj objs u (id_key e)" for e
    have key: "id_key (row_of unjson subj objs k) = k" for k by (simp add: row_of_def bytes_of_def)
    have "set_checksum u e = Ok (h e)" if "e \<in> set (map g (hmyield ?ks))" for e
    proof -
      have "e \<in> set (map (row_of unjson subj objs) ?ks)" using that rows by (metis set_mset_mset)
      then obtain k c where k: "u k = Some c" "e = row_of unjson subj objs k" using ks by auto
      then have "k \<in> dom objs" using sub by auto
      from set_checksum_row [where u = u and k = k, OF rh this True k(1) u [OF k(1)]] show ?thesis by (simp add: k(2) h_def key)
    qed
    then have "SetChecksums u (map g (hmyield ?ks)) = Ok (map h (map g (hmyield ?ks)))"
      unfolding SetChecksums_def by (rule stream_map_Ok)
    moreover have "mset (map h (map g (hmyield ?ks))) = mset (map (redis_row unjson subj objs u) ?ks)"
      unfolding mset_map [of h] rows by (simp add: h_def key image_mset.compositionality comp_def)
    ultimately show ?thesis using ce True by simp
  qed
qed

section \<open>The statements of a whole run\<close>

definition updates :: "delta \<Rightarrow> bytes \<rightharpoonup> entity" where
  "updates d = (case update d of None \<Rightarrow> Map.empty | Some u \<Rightarrow> u)"

lemma redis_row_cong: "D k = D' k \<Longrightarrow> redis_row unjson subj objs D k = redis_row unjson subj objs D' k"
  by (simp add: redis_row_def)

lemma redis_row_cong_image:
  "(\<And>k. k \<in> set ks \<Longrightarrow> D k = D' k) \<Longrightarrow>
   map (redis_row unjson subj objs D) ks = map (redis_row unjson subj objs D') ks"
  by (auto intro: redis_row_cong)

lemma order_empty: "reads_hash order hmyield hex unhex unjson subj objs \<Longrightarrow> order {} = []"
  unfolding reads_hash_def by (metis finite.emptyI set_empty2)

lemma ApplyDelta_statements:
  assumes rh: "reads_hash order hmyield hex unhex unjson subj objs"
    and fin: "finite (dom A)" "finite (dom D)"
    and Dsub: "dom D \<subseteq> dom objs" and Dall: "\<forall>k e. D k = Some e \<longrightarrow> of_subject subj e"
    and Aall: "\<forall>k e. A k = Some e \<longrightarrow> id_key e = k"
    and plain_all: "\<not> withChecksum subj \<longrightarrow> (\<forall>k \<in> dom D. D k = Some (row_of unjson subj objs k))"
    and d: "d = delta_spec subj A D"
  shows "\<exists>ops. ApplyDelta order hmyield unhex unjson subj d = Ok ops \<and>
    mset (creates ops) = mset (map (\<lambda>k. DbCreate (redis_row unjson subj objs D k)) (order (dom D - dom A))) \<and>
    mset (upserts ops) = mset (map (\<lambda>k. DbUpsert (redis_row unjson subj objs D k)) (order (dom (updates d)))) \<and>
    deletes ops = map DbDelete (order (dom A - dom D))"
proof -
  have D: "dom D \<subseteq> dom objs" "\<And>k e. D k = Some e \<Longrightarrow> of_subject subj e"
    and A: "\<And>k e. A k = Some e \<Longrightarrow> id_key e = k"
    and plain: "\<not> withChecksum subj \<Longrightarrow> (\<And>k. k \<in> dom D \<Longrightarrow> D k = Some (row_of unjson subj objs k))"
    using Dsub Dall Aall plain_all by blast+
  have dd: "dom (desired d) = dom D - dom A" and da: "dom (actual d) = dom A - dom D"
    by (auto simp: d delta_spec_def)
  have dsub: "desired d k = D k" if "k \<in> dom D - dom A" for k
    using that by (auto simp: d delta_spec_def)
  have usub: "updates d k = D k" if "k \<in> dom (updates d)" for k
    using that by (auto simp: updates_def d delta_spec_def split: option.splits if_splits)
  have fo: "set (order S) = S" if "finite S" for S using rh that by (simp add: reads_hash_def)
  let ?row = "redis_row unjson subj objs D"
  have "\<exists>cs. (if desired d = Map.empty then Ok [] else create_entities_of order hmyield unhex unjson subj d) = Ok cs \<and>
      mset cs = mset (map ?row (order (dom D - dom A)))"
  proof (cases "desired d = Map.empty")
    case True
    then have e: "dom D - dom A = {}" using dd by auto
    show ?thesis unfolding e using True order_empty [OF rh] by simp
  next
    case ne: False
    show ?thesis
    proof (cases "withChecksum subj")
      case True
      have "finite (dom (desired d))" "dom (desired d) \<subseteq> dom objs" using dd fin D(1) by auto
      moreover have "of_subject subj e" if "desired d k = Some e" for k e
        using that D(2) by (auto simp: d delta_spec_def restrict_map_def split: if_splits)
      ultimately obtain es where es: "bind_outcome (CreateEntities unhex unjson (Entity subj) (hmyield (order (dom (desired d)))))
          (SetChecksums (desired d)) = Ok es" "mset es = mset (map (redis_row unjson subj objs (desired d)) (order (dom (desired d))))"
        using pipeline_rows [OF rh, of "desired d"] True by auto
      moreover have "map (redis_row unjson subj objs (desired d)) (order (dom (desired d))) = map ?row (order (dom (desired d)))"
        using fo fin dd dsub by (intro redis_row_cong_image) auto
      ultimately have "mset es = mset (map ?row (order (dom (desired d))))" by (simp only:)
      then show ?thesis using True ne dd es(1) by (simp add: create_entities_of_def)
    next
      case False
      have "map (\<lambda>k. the (desired d k)) (order (dom D - dom A)) = map ?row (order (dom D - dom A))"
        using fo fin dsub plain [OF False] False by (auto simp: redis_row_def)
      then have "values_in order (desired d) = map ?row (order (dom D - dom A))"
        by (simp only: values_in_def dd)
      then show ?thesis using False ne by (simp add: create_entities_of_def del: set_map)
    qed
  qed
  then obtain cs where cs: "(if desired d = Map.empty then Ok [] else create_entities_of order hmyield unhex unjson subj d) = Ok cs"
      "mset cs = mset (map ?row (order (dom D - dom A)))" by blast
  have "\<exists>us. (case update d of None \<Rightarrow> Ok [] | Some u \<Rightarrow> if u = Map.empty then Ok []
          else update_entities_of order hmyield unhex unjson subj u) = Ok us \<and>
      mset us = mset (map ?row (order (dom (updates d))))"
  proof (cases "updates d = Map.empty")
    case True
    then show ?thesis using order_empty [OF rh] by (auto simp: updates_def split: option.splits)
  next
    case ne: False
    then have upd: "update d = Some (updates d)" by (auto simp: updates_def split: option.splits)
    have du: "dom (updates d) \<subseteq> dom D" using usub by fastforce
    then have "finite (dom (updates d))" "dom (updates d) \<subseteq> dom objs" using fin D(1) finite_subset by auto
    moreover have "of_subject subj e" if "updates d k = Some e" for k e
    proof -
      have "k \<in> dom (updates d)" using that by (simp add: domIff)
      from usub [OF this] that have "D k = Some e" by simp
      then show ?thesis by (rule D(2))
    qed
    ultimately obtain es where es: "bind_outcome (CreateEntities unhex unjson (Entity subj) (hmyield (order (dom (updates d)))))
        (\<lambda>es. if withChecksum subj then SetChecksums (updates d) es else Ok es) = Ok es"
        "mset es = mset (map (redis_row unjson subj objs (updates d)) (order (dom (updates d))))"
      using pipeline_rows [OF rh, of "updates d"] by auto
    moreover have "map (redis_row unjson subj objs (updates d)) (order (dom (updates d))) = map ?row (order (dom (updates d)))"
      using fo \<open>finite (dom (updates d))\<close> usub by (intro redis_row_cong_image) auto
    ultimately have "mset es = mset (map ?row (order (dom (updates d))))" by (simp only:)
    then show ?thesis using ne upd es(1) by (simp add: update_entities_of_def)
  qed
  then obtain us where us: "(case update d of None \<Rightarrow> Ok [] | Some u \<Rightarrow> if u = Map.empty then Ok []
          else update_entities_of order hmyield unhex unjson subj u) = Ok us"
      "mset us = mset (map ?row (order (dom (updates d))))" by blast
  have "(if actual d = Map.empty then [] else map (\<lambda>e. DbDelete (id_key e)) (values_in order (actual d))) =
      map DbDelete (order (dom A - dom D))"
  proof (cases "actual d = Map.empty")
    case True
    then have e: "dom A - dom D = {}" using da by auto
    show ?thesis unfolding e using True order_empty [OF rh] by simp
  next
    case False
    have "id_key (the (actual d k)) = k" if "k \<in> dom A - dom D" for k
      using that A by (auto simp: d delta_spec_def)
    then show ?thesis using False da fo fin by (simp add: values_in_def)
  qed
  then show ?thesis
    using cs us by (simp add: ApplyDelta_def comp_def image_mset.compositionality)
qed

section \<open>The table after a run\<close>

lemma run_statements:
  assumes ks: "distinct (cks @ uks @ dks)" and cdb: "set cks \<inter> dom db = {}"
    and key: "\<And>k. k \<in> set cks \<union> set uks \<Longrightarrow> id_key (row k) = k"
    and xs: "mset xs = mset (map (\<lambda>k. DbCreate (row k)) cks) + mset (map (\<lambda>k. DbUpsert (row k)) uks) + mset (map DbDelete dks)"
  shows "\<exists>db'. run_ops xs db = Ok db' \<and>
    (\<forall>k. db' k = (if k \<in> set cks \<union> set uks then Some (row k) else if k \<in> set dks then None else db k))"
proof -
  let ?l = "map (\<lambda>k. DbCreate (row k)) cks @ map (\<lambda>k. DbUpsert (row k)) uks @ map DbDelete dks"
  have ms: "mset xs = mset ?l" using xs by (simp add: ac_simps)
  then have set_xs: "set xs = set ?l" by (metis set_mset_mset)
  have kl: "map op_key ?l = cks @ uks @ dks"
    using key by (auto simp: comp_def intro!: map_idI)
  have "mset (map op_key xs) = mset (map op_key ?l)" using ms by (metis mset_map)
  then have dist: "distinct (map op_key xs)" using ks kl mset_eq_imp_distinct_iff by metis
  have "id_key e \<notin> dom db" if "DbCreate e \<in> set xs" for e
    using that cdb key by (auto simp: set_xs)
  then have run: "run_ops xs db = Ok (\<lambda>k. case map_of (map (\<lambda>x. (op_key x, op_row x)) xs) k of None \<Rightarrow> db k | Some r \<Rightarrow> r)"
    by (rule run_ops_effect [OF dist])
  let ?m = "map_of (map (\<lambda>x. (op_key x, op_row x)) xs)"
  have hit: "?m (op_key x) = Some (op_row x)" if "x \<in> set xs" for x
    using that dist by (intro map_of_is_SomeI) (auto simp: comp_def)
  have m: "?m k = (if k \<in> set cks \<union> set uks then Some (Some (row k)) else if k \<in> set dks then Some None else None)" for k
  proof -
    consider (c) "k \<in> set cks" | (u) "k \<in> set uks" | (d) "k \<in> set dks" "k \<notin> set cks \<union> set uks" | (n) "k \<notin> set (cks @ uks @ dks)"
      by auto
    then show ?thesis
    proof cases
      case c
      then show ?thesis using hit [of "DbCreate (row k)"] key [of k] by (simp add: set_xs)
    next
      case u
      then show ?thesis using hit [of "DbUpsert (row k)"] key [of k] by (simp add: set_xs)
    next
      case d
      then show ?thesis using hit [of "DbDelete k"] by (simp add: set_xs)
    next
      case n
      have "set (map op_key xs) = set (cks @ uks @ dks)" using kl set_xs by (metis list.set_map)
      then have "?m k = None" using n by (auto simp: map_of_eq_None_iff image_image)
      then show ?thesis using n by simp
    qed
  qed
  show ?thesis by (rule exI, rule conjI, rule run) (simp add: m)
qed

definition up_to_date :: "SyncSubject \<Rightarrow> entity \<Rightarrow> entity \<Rightarrow> bool" where
  "up_to_date subj row d \<longleftrightarrow> \<not> wants_update subj \<or> entitiesEqual (fingerprint_row row) d = Ok True"

text \<open>
  The inputs of a run: \<open>as\<close> are the rows of the table as the select reads them, \<open>ds\<close> the entities of
  Redis as \<open>YieldAll\<close> reads them, each once, for the same IDs as the objects in the hash of the type.
\<close>

definition sync_inputs where
  "sync_inputs unjson subj objs db as ds \<longleftrightarrow>
     distinct (map id_key as) \<and> distinct (map id_key ds) \<and>
     by_id as = (\<lambda>k. map_option fingerprint_row (db k)) \<and>
     (\<forall>k e. db k = Some e \<longrightarrow> id_key e = k \<and> of_subject subj e) \<and>
     dom (by_id ds) = dom objs \<and> (\<forall>e \<in> set ds. of_subject subj e) \<and>
     (\<not> withChecksum subj \<longrightarrow> (\<forall>k \<in> dom objs. by_id ds k = Some (row_of unjson subj objs k)))"

definition after_sync where
  "after_sync unjson subj objs db ds k =
     (if k \<notin> dom objs then None
       else if k \<in> dom db \<and> up_to_date subj (the (db k)) (the (by_id ds k)) then db k
       else Some (redis_row unjson subj objs (by_id ds) k))"

lemma of_subject_fingerprint [simp]: "of_subject subj (fingerprint_row e) = of_subject subj e"
  by (cases e) (auto simp: of_subject_def)

lemma ID_fingerprint [simp]: "ID (fingerprint_row e) = ID e"
  by (cases e) auto

lemma updates_spec:
  "k \<in> dom A \<Longrightarrow> k \<in> dom D \<Longrightarrow>
   (k \<in> dom (updates (delta_spec subj A D))) = (wants_update subj \<and> entitiesEqual (the (A k)) (the (D k)) = Ok False)"
  "dom (updates (delta_spec subj A D)) \<subseteq> dom A \<inter> dom D"
  by (auto simp: updates_def delta_spec_def split: option.splits if_splits)

lemma sync_run:
  assumes rh: "reads_hash order hmyield hex unhex unjson subj objs"
    and inp: "sync_inputs unjson subj objs db as ds"
    and es: "es \<in> shuffles (map Actual as @ [EndActual]) (map Desired ds @ [EndDesired])"
  shows "\<exists>d ops. delta_run subj es = Some (Ok d) \<and> ApplyDelta order hmyield unhex unjson subj d = Ok ops \<and>
    (\<forall>xs. mset xs = mset (creates ops @ upserts ops @ deletes ops) \<longrightarrow>
      run_ops xs db = Ok (after_sync unjson subj objs db ds))"
proof -
  let ?A = "by_id as" and ?D = "by_id ds"
  let ?d = "delta_spec subj ?A ?D"
  let ?row = "redis_row unjson subj objs ?D"
  have as_in: "id_key e = k \<and> of_subject subj e" if "?A k = Some e" for k e
    using inp that by (auto simp: sync_inputs_def)
  have as_sub: "of_subject subj e" if "e \<in> set as" for e
    using as_in [of "id_key e" e] by_id_mem [OF _ that] inp by (simp add: sync_inputs_def)
  have ds_sub: "of_subject subj e" if "e \<in> set ds" for e using inp that by (simp add: sync_inputs_def)
  have run: "delta_run subj es = Some (Ok ?d)"
    using inp es as_sub ds_sub by (intro delta_run_spec) (auto simp: sync_inputs_def)
  have fin: "finite (dom ?A)" "finite (dom ?D)" by (simp_all add: dom_by_id)
  have domA: "dom ?A = dom db" and domD: "dom ?D = dom objs" using inp by (auto simp: sync_inputs_def)
  have fo: "set (order S) = S" "distinct (order S)" if "finite S" for S
    using rh that by (simp_all add: reads_hash_def)
  have f1: "dom ?D \<subseteq> dom objs" using domD by simp
  have f2: "\<forall>k e. ?D k = Some e \<longrightarrow> of_subject subj e" using by_id_SomeD ds_sub by blast
  have f3: "\<forall>k e. ?A k = Some e \<longrightarrow> id_key e = k" using as_in by blast
  have f4: "\<not> withChecksum subj \<longrightarrow> (\<forall>k \<in> dom ?D. ?D k = Some (row_of unjson subj objs k))"
    using inp domD unfolding sync_inputs_def by blast
  obtain ops where ops: "ApplyDelta order hmyield unhex unjson subj ?d = Ok ops"
      "mset (creates ops) = mset (map (\<lambda>k. DbCreate (?row k)) (order (dom ?D - dom ?A)))"
      "mset (upserts ops) = mset (map (\<lambda>k. DbUpsert (?row k)) (order (dom (updates ?d))))"
      "deletes ops = map DbDelete (order (dom ?A - dom ?D))"
    using ApplyDelta_statements [OF rh fin f1 f2 f3 f4 refl] by blast
  have u: "dom (updates ?d) \<subseteq> dom ?A \<inter> dom ?D" by (rule updates_spec)
  then have finu: "finite (dom (updates ?d))" using fin by (meson finite_subset le_infE)
  note sets = fo(1) [OF finu] fo(1) [OF finite_Diff [OF fin(2)], of "dom ?A"] fo(1) [OF finite_Diff [OF fin(1)], of "dom ?D"]
  have "run_ops xs db = Ok (after_sync unjson subj objs db ds)"
    if xs: "mset xs = mset (creates ops @ upserts ops @ deletes ops)" for xs
  proof -
    have dis: "distinct (order (dom ?D - dom ?A) @ order (dom (updates ?d)) @ order (dom ?A - dom ?D))"
      using fo(2) finu fin u by (auto simp: sets)
    have mx: "mset xs = mset (map (\<lambda>k. DbCreate (?row k)) (order (dom ?D - dom ?A))) +
        mset (map (\<lambda>k. DbUpsert (?row k)) (order (dom (updates ?d)))) + mset (map DbDelete (order (dom ?A - dom ?D)))"
      unfolding xs mset_append ops(2,3) ops(4) by (simp add: ac_simps)
    have key: "id_key (?row k) = k" if "k \<in> set (order (dom ?D - dom ?A)) \<union> set (order (dom (updates ?d)))" for k
    proof -
      have "k \<in> dom ?D" using that u unfolding sets by blast
      then show ?thesis using id_key_redis_row [OF rh] domD by simp
    qed
    have new: "set (order (dom ?D - dom ?A)) \<inter> dom db = {}" using domA unfolding sets by blast
    obtain db' where db': "run_ops xs db = Ok db'"
        "\<And>k. db' k = (if k \<in> set (order (dom ?D - dom ?A)) \<union> set (order (dom (updates ?d))) then Some (?row k)
            else if k \<in> set (order (dom ?A - dom ?D)) then None else db k)"
      using run_statements [OF dis new key mx] by blast
    have "db' k = after_sync unjson subj objs db ds k" for k
    proof -
      consider (no) "k \<notin> dom db" | (gone) "k \<in> dom db" "k \<notin> dom objs" | (both) "k \<in> dom db" "k \<in> dom objs" by blast
      then show ?thesis
      proof cases
        case no
        then show ?thesis using db'(2) [of k, unfolded sets] u domA domD by (auto simp: after_sync_def)
      next
        case gone
        then show ?thesis using db'(2) [of k, unfolded sets] u domA domD by (auto simp: after_sync_def)
      next
        case both
        then obtain r e where r: "db k = Some r" and e: "?D k = Some e" using domD by blast
        then have a: "?A k = Some (fingerprint_row r)" using inp by (simp add: sync_inputs_def)
        have "\<exists>b. entitiesEqual (fingerprint_row r) e = Ok b" if "wants_update subj"
          using entitiesEqual_ok [OF _ _ that] as_in [OF a] by_id_SomeD [OF e] ds_sub by blast
        then have "(k \<in> dom (updates ?d)) = (\<not> up_to_date subj r e)"
          using updates_spec(1) [of k ?A ?D subj] both domA domD a e by (auto simp: up_to_date_def)
        then show ?thesis using db'(2) [of k, unfolded sets] both r e domA domD by (simp add: after_sync_def)
      qed
    qed
    then have "db' = after_sync unjson subj objs db ds" by (rule ext)
    with db'(1) show ?thesis by simp
  qed
  with run ops(1) show ?thesis by blast
qed

section \<open>A concrete run\<close>

text \<open>
  Parameters that behave as documented, for a hash with two objects, one of them unknown to the table
  and one with another checksum there, and a table with one more row.
\<close>

definition sample_hex :: "bytes \<Rightarrow> string" where
  "sample_hex b = map (\<lambda>w. char_of (unat w)) b"

definition sample_unhex :: "string \<Rightarrow> bytes option" where
  "sample_unhex s = Some (map (\<lambda>c. word_of_nat (of_char c)) s)"

definition sample_unjson :: "string \<Rightarrow> entity \<Rightarrow> entity option" where
  "sample_unjson v e = (case e of EWithChecksum i c x \<Rightarrow> Some (EWithChecksum i c v) | _ \<Rightarrow> Some e)"

definition sample_objs :: "bytes \<rightharpoonup> string" where
  "sample_objs = [[2] \<mapsto> ''b'', [3] \<mapsto> ''c'']"

definition sample_hmyield :: "bytes list \<Rightarrow> (string \<times> string) list" where
  "sample_hmyield ks = List.map_filter (\<lambda>k. map_option (Pair (sample_hex k)) (sample_objs k)) ks"

definition sample_row :: "8 word \<Rightarrow> 8 word \<Rightarrow> string \<Rightarrow> entity" where
  "sample_row i c v = EWithChecksum (Some [i]) (Some [c]) v"

definition sample_db :: "bytes \<rightharpoonup> entity" where
  "sample_db = [[1] \<mapsto> sample_row 1 1 ''a'', [2] \<mapsto> sample_row 2 2 ''old'']"

definition sample_actual :: "entity list" where
  "sample_actual = [sample_row 1 1 [], sample_row 2 2 []]"

definition sample_desired :: "entity list" where
  "sample_desired = [sample_row 3 3 [], sample_row 2 9 []]"

definition sample_events :: "delta_event list" where
  "sample_events = map Actual sample_actual @ [EndActual] @ map Desired sample_desired @ [EndDesired]"

lemma append_in_shuffles: "xs @ ys \<in> shuffles xs ys"
proof (induction xs)
  case Nil
  show ?case by simp
next
  case (Cons x xs)
  then show ?case by (cases ys) auto
qed

lemma sample_events_ok:
  "sample_events \<in> shuffles (map Actual sample_actual @ [EndActual]) (map Desired sample_desired @ [EndDesired])"
  using append_in_shuffles [of "map Actual sample_actual @ [EndActual]"] by (simp add: sample_events_def)

lemma sample_reads:
  "reads_hash sorted_list_of_set sample_hmyield sample_hex sample_unhex sample_unjson sample_subject sample_objs"
proof -
  have w: "word_of_nat (unat w mod 256) = w" for w :: "8 word"
  proof -
    have "unat w < 256" using unsigned_less [of w, where 'a = nat] by simp
    then show ?thesis by simp
  qed
  have "sample_unhex (sample_hex b) = Some b" for b
    by (simp add: sample_unhex_def sample_hex_def comp_def) (rule map_idI, rule w)
  then show ?thesis
    by (simp add: reads_hash_def sample_hmyield_def sample_unjson_def sample_subject_def
        NewSyncSubject_def of_subject_def)
qed

lemma sample_inputs: "sync_inputs sample_unjson sample_subject sample_objs sample_db sample_actual sample_desired"
  by (auto simp: sync_inputs_def sample_actual_def sample_desired_def sample_row_def sample_db_def
      sample_objs_def bytes_of_def by_id_def sample_subject_def NewSyncSubject_def of_subject_def)

lemma sample_after:
  "after_sync sample_unjson sample_subject sample_objs sample_db sample_desired [1] = None"
  "after_sync sample_unjson sample_subject sample_objs sample_db sample_desired [2] = Some (sample_row 2 9 ''b'')"
  "after_sync sample_unjson sample_subject sample_objs sample_db sample_desired [3] = Some (sample_row 3 3 ''c'')"
  by (simp_all add: after_sync_def sample_objs_def sample_db_def sample_row_def sample_desired_def up_to_date_def
      by_id_def bytes_of_def entitiesEqual_def sample_subject_def NewSyncSubject_def wants_update_def redis_row_def
      row_of_def sample_unjson_def)

section \<open>A table in sync\<close>

lemma redis_row_checksum:
  assumes rh: "reads_hash order hmyield hex unhex unjson subj objs" and "k \<in> dom objs"
    and "withChecksum subj" and "D k = Some d" and "of_subject subj d"
  shows "Checksum (redis_row unjson subj objs D k) = Checksum d \<and> of_subject subj (redis_row unjson subj objs D k)"
proof -
  let ?r = "row_of unjson subj objs k"
  obtain c where c: "Checksum ?r = Some c" using of_subject_Checksum [OF row_of_subject [OF rh assms(2)] assms(3)] ..
  obtain cs where cs: "Checksum d = Some cs" using of_subject_Checksum [OF assms(5,3)] ..
  have "of_subject subj ?r" by (rule row_of_subject [OF rh assms(2)])
  then show ?thesis using c cs assms(3,4)
    by (cases ?r) (auto simp: redis_row_def of_subject_def)
qed

lemma up_to_date_checksum:
  "Checksum row = Some c \<Longrightarrow> Checksum d = Some cd \<Longrightarrow> wants_update subj \<Longrightarrow> up_to_date subj row d = (c = cd)"
  by (cases row) (auto simp: up_to_date_def entitiesEqual_def)

text \<open>Nothing is left to do for a table that holds what Redis holds, each row up to date.\<close>

lemma delta_of_synced:
  assumes "dom A = dom D"
    and "\<And>k a d. A k = Some a \<Longrightarrow> D k = Some d \<Longrightarrow> wants_update subj \<Longrightarrow> entitiesEqual a d = Ok True"
  shows "desired (delta_spec subj A D) = Map.empty" and "actual (delta_spec subj A D) = Map.empty"
    and "updates (delta_spec subj A D) = Map.empty"
proof -
  show "desired (delta_spec subj A D) = Map.empty" "actual (delta_spec subj A D) = Map.empty"
    using assms(1) by (auto simp: delta_spec_def restrict_map_def fun_eq_iff)
  show "updates (delta_spec subj A D) = Map.empty"
    using assms(2) by (auto simp: updates_def delta_spec_def fun_eq_iff split: option.splits)
qed

lemma ApplyDelta_nothing:
  "desired d = Map.empty \<Longrightarrow> actual d = Map.empty \<Longrightarrow> updates d = Map.empty \<Longrightarrow>
   ApplyDelta order hmyield unhex unjson subj d = Ok \<lparr>creates = [], upserts = [], deletes = []\<rparr>"
  by (auto simp: ApplyDelta_def updates_def split: option.splits)

section \<open>Properties\<close>

text \<open>C3. One run brings the table to the state of Redis, whatever the order in which the entities
  arrive and in which the statements of the three streams are executed: no statement fails, rows Redis
  does not have are gone, rows that were up to date are untouched, and every other row is the one Redis
  holds, with its checksum.\<close>

theorem sync_converges:
  assumes "reads_hash order hmyield hex unhex unjson subj objs"
    and "sync_inputs unjson subj objs db as ds"
    and "es \<in> shuffles (map Actual as @ [EndActual]) (map Desired ds @ [EndDesired])"
  shows "\<exists>d ops. delta_run subj es = Some (Ok d) \<and> ApplyDelta order hmyield unhex unjson subj d = Ok ops \<and>
    (\<forall>xs. mset xs = mset (creates ops @ upserts ops @ deletes ops) \<longrightarrow>
      run_ops xs db = Ok (after_sync unjson subj objs db ds))"
  using assms by (rule sync_run)

theorem sync_converges_witness:
  "\<exists>(ops :: delta_ops) db'. run_ops (creates ops @ upserts ops @ deletes ops) sample_db = Ok db' \<and>
    db' [1] = None \<and> db' [2] = Some (sample_row 2 9 ''b'') \<and> db' [3] = Some (sample_row 3 3 ''c'')"
proof -
  have "\<exists>ops :: delta_ops. run_ops (creates ops @ upserts ops @ deletes ops) sample_db =
      Ok (after_sync sample_unjson sample_subject sample_objs sample_db sample_desired)"
    using sync_converges [OF sample_reads sample_inputs sample_events_ok] by fastforce
  then show ?thesis using sample_after by blast
qed

text \<open>For a type with checksums, where equal checksums mean equal rows, the table afterwards is
  exactly the content of Redis.\<close>

theorem sync_mirrors_redis:
  assumes "reads_hash order hmyield hex unhex unjson subj objs"
    and "sync_inputs unjson subj objs db as ds" and "withChecksum subj"
    and "es \<in> shuffles (map Actual as @ [EndActual]) (map Desired ds @ [EndDesired])"
    and same: "\<forall>k \<in> dom db \<inter> dom objs. Checksum (the (db k)) = Checksum (the (by_id ds k)) \<longrightarrow>
      the (db k) = redis_row unjson subj objs (by_id ds) k"
  shows "\<exists>d ops. delta_run subj es = Some (Ok d) \<and> ApplyDelta order hmyield unhex unjson subj d = Ok ops \<and>
    run_ops (creates ops @ upserts ops @ deletes ops) db =
      Ok (\<lambda>k. if k \<in> dom objs then Some (redis_row unjson subj objs (by_id ds) k) else None)"
proof -
  have "after_sync unjson subj objs db ds k =
      (if k \<in> dom objs then Some (redis_row unjson subj objs (by_id ds) k) else None)" for k
  proof (cases "k \<in> dom db \<and> k \<in> dom objs")
    case True
    then obtain r e where r: "db k = Some r" "by_id ds k = Some e"
      using assms(2) unfolding sync_inputs_def by blast
    have "of_subject subj r" "of_subject subj e"
      using assms(2) r by_id_SomeD [OF r(2)] by (auto simp: sync_inputs_def)
    then obtain c cd where c: "Checksum r = Some c" "Checksum e = Some cd"
      using assms(3) of_subject_Checksum by blast
    then have "up_to_date subj r e = (c = cd)"
      by (rule up_to_date_checksum) (simp add: wants_update_def assms(3))
    then show ?thesis using True r c same by (auto simp: after_sync_def)
  qed (auto simp: after_sync_def)
  then have "after_sync unjson subj objs db ds =
      (\<lambda>k. if k \<in> dom objs then Some (redis_row unjson subj objs (by_id ds) k) else None)" by (rule ext)
  then show ?thesis using sync_run [OF assms(1,2,4)] by fastforce
qed

lemma sample_same:
  "\<forall>k \<in> dom sample_db \<inter> dom sample_objs. Checksum (the (sample_db k)) = Checksum (the (by_id sample_desired k)) \<longrightarrow>
     the (sample_db k) = redis_row sample_unjson sample_subject sample_objs (by_id sample_desired) k"
  by (simp add: sample_db_def sample_objs_def sample_desired_def sample_row_def by_id_def bytes_of_def)

theorem sync_mirrors_redis_witness:
  "\<exists>ops :: delta_ops. run_ops (creates ops @ upserts ops @ deletes ops) sample_db =
     Ok (\<lambda>k. if k \<in> dom sample_objs then
       Some (redis_row sample_unjson sample_subject sample_objs (by_id sample_desired) k) else None)"
  using sync_mirrors_redis [OF sample_reads sample_inputs _ sample_events_ok sample_same]
  by (fastforce simp: sample_subject_def NewSyncSubject_def)

text \<open>A second run on the table of the first, with Redis unchanged, sends no statement at all,
  for every type that is not compared by \<open>Equal\<close>.\<close>

theorem sync_again_does_nothing:
  assumes rh: "reads_hash order hmyield hex unhex unjson subj objs"
    and "sync_inputs unjson subj objs db as ds"
    and again: "sync_inputs unjson subj objs (after_sync unjson subj objs db ds) as' ds"
    and "Equal (Entity subj) = None"
    and es: "es \<in> shuffles (map Actual as' @ [EndActual]) (map Desired ds @ [EndDesired])"
  shows "\<exists>d. delta_run subj es = Some (Ok d) \<and>
    ApplyDelta order hmyield unhex unjson subj d = Ok \<lparr>creates = [], upserts = [], deletes = []\<rparr>"
proof -
  let ?db = "after_sync unjson subj objs db ds"
  have A: "by_id as' = (\<lambda>k. map_option fingerprint_row (?db k))" and D: "dom (by_id ds) = dom objs"
    using again by (simp_all add: sync_inputs_def)
  have ds: "of_subject subj d" if "by_id ds k = Some d" for k d
    using by_id_SomeD [OF that] again by (simp add: sync_inputs_def)
  have row: "up_to_date subj r d" if r: "?db k = Some r" and d: "by_id ds k = Some d" and w: "wants_update subj" for k r d
  proof (cases "k \<in> dom db \<and> up_to_date subj (the (db k)) d")
    case True
    then show ?thesis using r d D by (auto simp: after_sync_def split: if_splits)
  next
    case False
    have wc: "withChecksum subj" using w assms(4) by (simp add: wants_update_def)
    have k: "k \<in> dom objs" using d D by (metis domI)
    have "r = redis_row unjson subj objs (by_id ds) k" using False r d k by (auto simp: after_sync_def split: if_splits)
    then have "Checksum r = Checksum d" using redis_row_checksum [where D = "by_id ds" and k = k, OF rh k wc d ds [OF d]] by simp
    moreover obtain cd where "Checksum d = Some cd" using of_subject_Checksum [OF ds [OF d] wc] ..
    ultimately show ?thesis using up_to_date_checksum w by metis
  qed
  have "dom ?db = dom objs" by (auto simp: after_sync_def split: if_splits)
  then have dom: "dom (by_id as') = dom (by_id ds)" using A D by (simp add: dom_map_option_comp [unfolded comp_def])
  have eq: "entitiesEqual a d = Ok True" if "by_id as' k = Some a" "by_id ds k = Some d" "wants_update subj" for k a d
    using that row [of k _ d] A by (auto simp: up_to_date_def)
  have "delta_run subj es = Some (Ok (delta_spec subj (by_id as') (by_id ds)))"
  proof (rule delta_run_spec [OF _ _ _ es])
    have a': "of_subject subj a" if "a \<in> set as'" for a
    proof -
      have "by_id as' (id_key a) = Some a" using that again by (intro by_id_mem) (simp_all add: sync_inputs_def)
      then obtain r where r: "?db (id_key a) = Some r" "a = fingerprint_row r" using A by auto
      have "\<forall>k e. ?db k = Some e \<longrightarrow> id_key e = k \<and> of_subject subj e" using again unfolding sync_inputs_def by (elim conjE)
      then show ?thesis using r by simp
    qed
    have "\<forall>e \<in> set ds. of_subject subj e" using again unfolding sync_inputs_def by (elim conjE)
    then show "\<forall>e \<in> set as' \<union> set ds. of_subject subj e" using a' by blast
  qed (use again in \<open>simp_all add: sync_inputs_def\<close>)
  moreover have "ApplyDelta order hmyield unhex unjson subj (delta_spec subj (by_id as') (by_id ds)) =
      Ok \<lparr>creates = [], upserts = [], deletes = []\<rparr>"
    by (rule ApplyDelta_nothing [OF delta_of_synced [OF dom eq]])
  ultimately show ?thesis by blast
qed

lemma sample_again:
  "sync_inputs sample_unjson sample_subject sample_objs
     (after_sync sample_unjson sample_subject sample_objs sample_db sample_desired)
     [sample_row 2 9 [], sample_row 3 3 []] sample_desired"
proof -
  have a: "after_sync sample_unjson sample_subject sample_objs sample_db sample_desired =
      [[2] \<mapsto> sample_row 2 9 ''b'', [3] \<mapsto> sample_row 3 3 ''c'']"
  proof (rule ext)
    fix k
    consider "k = [2]" | "k = [3]" | "k \<notin> dom sample_objs" by (auto simp: sample_objs_def split: if_splits)
    then show "after_sync sample_unjson sample_subject sample_objs sample_db sample_desired k =
        [[2] \<mapsto> sample_row 2 9 ''b'', [3] \<mapsto> sample_row 3 3 ''c''] k"
    proof cases
      case 3
      then show ?thesis by (auto simp: after_sync_def sample_objs_def split: if_splits)
    qed (simp_all add: sample_after)
  qed
  show ?thesis
    unfolding a
    by (auto simp: sync_inputs_def sample_desired_def sample_row_def sample_objs_def bytes_of_def by_id_def
        sample_subject_def NewSyncSubject_def of_subject_def fun_eq_iff)
qed

theorem sync_again_does_nothing_witness:
  "\<exists>d. delta_run sample_subject (map Actual [sample_row 2 9 [], sample_row 3 3 []] @ [EndActual] @
      map Desired sample_desired @ [EndDesired]) = Some (Ok d) \<and>
    ApplyDelta sorted_list_of_set sample_hmyield sample_unhex sample_unjson sample_subject d =
      Ok \<lparr>creates = [], upserts = [], deletes = []\<rparr>"
  using sync_again_does_nothing [OF sample_reads sample_inputs sample_again _ append_in_shuffles]
  by (simp add: sample_subject_def NewSyncSubject_def)

text \<open>For the states of redundancy groups this is not so: the select reads only their ID, so that
  \<open>Equal\<close> compares the values of Redis with a row that has no environment. Every row that both sides
  have is written again in every run.\<close>

theorem redundancy_group_states_always_updated:
  assumes subj: "subj = NewSyncSubject (ERedundancygroupState r0)"
    and dist: "distinct (map id_key as)" "distinct (map id_key ds)"
    and as: "\<forall>e \<in> set as. \<exists>r. e = fingerprint_row (ERedundancygroupState r)"
    and ds: "\<forall>e \<in> set ds. \<exists>r. e = ERedundancygroupState r \<and> bytes_of (rg_EnvironmentId r) \<noteq> []"
    and es: "es \<in> shuffles (map Actual as @ [EndActual]) (map Desired ds @ [EndDesired])"
  shows "\<exists>d u. delta_run subj es = Some (Ok d) \<and> update d = Some u \<and> dom u = id_key ` set as \<inter> id_key ` set ds"
proof -
  have all: "\<forall>e \<in> set as \<union> set ds. of_subject subj e"
    using as ds by (auto simp: subj NewSyncSubject_def of_subject_def)
  have w: "wants_update subj" by (simp add: subj NewSyncSubject_def wants_update_def)
  have "entitiesEqual a d = Ok False" if a: "by_id as k = Some a" and d: "by_id ds k = Some d" for k a d
  proof -
    obtain r r' where "a = fingerprint_row (ERedundancygroupState r)" "d = ERedundancygroupState r'"
        "bytes_of (rg_EnvironmentId r') \<noteq> []"
      using by_id_SomeD [OF a] by_id_SomeD [OF d] as ds by blast
    then show ?thesis
      by (simp add: entitiesEqual_def RedundancygroupState_Equal_def bytes_equal_def bytes_of_def [of None])
  qed
  then have "dom (updates (delta_spec subj (by_id as) (by_id ds))) = dom (by_id as) \<inter> dom (by_id ds)"
    using updates_spec(1) [of _ "by_id as" "by_id ds" subj] updates_spec(2) [of subj "by_id as" "by_id ds"] w
    by fastforce
  then show ?thesis
    using delta_run_spec [OF dist all es] w by (simp add: dom_by_id updates_def delta_spec_def)
qed

definition sample_group_state :: RedundancygroupState where
  "sample_group_state = \<lparr>rg_Id = Some [1], rg_EnvironmentId = Some [7], RedundancyGroupId = Some [5],
     rg_Failed = MakeBool False, IsReachable = MakeBool True, LastStateChange = 0\<rparr>"

theorem redundancy_group_states_always_updated_witness:
  "\<exists>d u. delta_run (NewSyncSubject (ERedundancygroupState sample_group_state))
      (map Actual [fingerprint_row (ERedundancygroupState sample_group_state)] @ [EndActual] @
       map Desired [ERedundancygroupState sample_group_state] @ [EndDesired]) = Some (Ok d) \<and>
    update d = Some u \<and> dom u = {[1]}"
  using redundancy_group_states_always_updated [OF refl _ _ _ _ append_in_shuffles,
      of "[fingerprint_row (ERedundancygroupState sample_group_state)]" "[ERedundancygroupState sample_group_state]"
        sample_group_state]
    exI [of "\<lambda>r. Some [1] = rg_Id r" sample_group_state]
  by (simp add: sample_group_state_def bytes_of_def)

end
