(* ===== verification/Dump_Signals.thy ===== *)
theory Dump_Signals
  imports Idb_Prelude
begin

text \<open>
  The dump signals of \<open>pkg/icingadb/dump_signals.go\<close>: the listener on the Redis stream, the channels
  handed out by \<open>Done\<close>, and the in-progress channel that ends an iteration.
\<close>

section \<open>State and operations\<close>

text \<open>
  A channel that is only ever closed is the flag whether it is closed: \<open>doneCh\<close> maps a key to the
  flag of its channel, \<open>allDoneCh\<close> is \<open>None\<close> while the field is nil. The last two fields are the local
  variables of \<open>Listen\<close>.
\<close>

record dump_signals =
  doneCh :: "string \<rightharpoonup> bool"
  allDoneCh :: "bool option"
  inProgressCh :: bool
  lastStreamId :: string
  anyDoneSent :: bool

definition NewDumpSignals :: dump_signals where
  "NewDumpSignals = \<lparr>doneCh = Map.empty, allDoneCh = None, inProgressCh = False,
     lastStreamId = ''0-0'', anyDoneSent = False\<rparr>"

text \<open>\<open>safeClose\<close> leaves a closed channel as it is.\<close>

definition safeClose :: "bool \<Rightarrow> bool" where
  "safeClose ch = (if ch then ch else True)"

definition signal_all :: "dump_signals \<Rightarrow> dump_signals" where
  "signal_all s =
     (if allDoneCh s = None
      then s\<lparr>allDoneCh := Some True, doneCh := (\<lambda>k. map_option safeClose (doneCh s k))\<rparr>
      else s)"

definition signal_key :: "string \<Rightarrow> dump_signals \<Rightarrow> dump_signals" where
  "signal_key key s =
     (case doneCh s key of
        None \<Rightarrow> s
      | Some ch \<Rightarrow> s\<lparr>doneCh := (doneCh s)(key \<mapsto> safeClose ch)\<rparr>)"

text \<open>The loop body of \<open>Listen\<close> for one stream entry: the flag says that \<open>Listen\<close> returns.\<close>

definition listen_entry :: "xmessage \<Rightarrow> dump_signals \<Rightarrow> (string, bool \<times> dump_signals) outcome" where
  "listen_entry entry s =
     (let s1 = s\<lparr>lastStreamId := msg_ID entry\<rparr> in
      case msg_Values entry ''key'' of
        Some (AString key) \<Rightarrow>
          (case msg_Values entry ''state'' of
             Some (AString state) \<Rightarrow>
               (if state = ''done'' then
                  Ok (False, (if key = ''*'' then signal_all s1 else signal_key key s1)\<lparr>anyDoneSent := True\<rparr>)
                else if anyDoneSent s1 then
                  (if inProgressCh s1 then Panic ''close of closed channel''
                   else Ok (True, s1\<lparr>inProgressCh := True\<rparr>))
                else Ok (False, s1))
           | _ \<Rightarrow> Err ''state value is not string'')
      | _ \<Rightarrow> Err ''key value is not string'')"

text \<open>The channel \<open>Done\<close> returns is the one for all keys or the one of its key.\<close>

datatype done_channel = AllDone | KeyDone string

definition Done :: "string \<Rightarrow> dump_signals \<Rightarrow> done_channel \<times> dump_signals" where
  "Done key s =
     (if allDoneCh s \<noteq> None then (AllDone, s)
      else if doneCh s key \<noteq> None then (KeyDone key, s)
      else (KeyDone key, s\<lparr>doneCh := (doneCh s)(key \<mapsto> False)\<rparr>))"

definition is_closed :: "done_channel \<Rightarrow> dump_signals \<Rightarrow> bool" where
  "is_closed ch s = (case ch of AllDone \<Rightarrow> allDoneCh s = Some True | KeyDone k \<Rightarrow> doneCh s k = Some True)"

text \<open>
  A run: entries arrive and callers ask for channels, in any order. \<open>Listen\<close> has returned once the
  in-progress channel is closed; entries after that are not read.
\<close>

datatype dump_event = Entry xmessage | Request string

fun dump_run :: "dump_event list \<Rightarrow> dump_signals \<Rightarrow> (string, dump_signals) outcome" where
  "dump_run [] s = Ok s"
| "dump_run (Request key # es) s = dump_run es (snd (Done key s))"
| "dump_run (Entry m # es) s =
     (if inProgressCh s then dump_run es s
      else bind_outcome (listen_entry m s) (\<lambda>(ret, s'). dump_run es s'))"

section \<open>What the run depends on\<close>

definition is_signal :: "string \<Rightarrow> dump_event \<Rightarrow> bool" where
  "is_signal key e \<longleftrightarrow> (\<exists>m. e = Entry m \<and> msg_Values m ''key'' = Some (AString key) \<and>
     msg_Values m ''state'' = Some (AString ''done''))"

definition is_wip :: "dump_event \<Rightarrow> bool" where
  "is_wip e \<longleftrightarrow> (\<exists>m key st. e = Entry m \<and> msg_Values m ''key'' = Some (AString key) \<and>
     msg_Values m ''state'' = Some (AString st) \<and> st \<noteq> ''done'')"

definition well_formed :: "dump_event \<Rightarrow> bool" where
  "well_formed e \<longleftrightarrow> (case e of Entry m \<Rightarrow> is_wip e \<or> (\<exists>key. is_signal key e) | Request _ \<Rightarrow> True)"

text \<open>What has happened so far, seen from outside.\<close>

definition all_signalled :: "dump_event list \<Rightarrow> bool" where
  "all_signalled es \<longleftrightarrow> (\<exists>e \<in> set es. is_signal ''*'' e)"

fun key_signalled :: "string \<Rightarrow> bool \<Rightarrow> dump_event list \<Rightarrow> bool" where
  "key_signalled key req [] = False"
| "key_signalled key req (e # es) =
     (req \<and> is_signal key e \<or> key_signalled key (req \<or> e = Request key) es)"

fun wip_after_done :: "bool \<Rightarrow> dump_event list \<Rightarrow> bool" where
  "wip_after_done d [] = False"
| "wip_after_done d (e # es) = (d \<and> is_wip e \<or> wip_after_done (d \<or> (\<exists>key. is_signal key e)) es)"

lemma listen_entry_signal:
  "is_signal key (Entry m) \<Longrightarrow> listen_entry m s =
     Ok (False, (if key = ''*'' then signal_all (s\<lparr>lastStreamId := msg_ID m\<rparr>)
                 else signal_key key (s\<lparr>lastStreamId := msg_ID m\<rparr>))\<lparr>anyDoneSent := True\<rparr>)"
  by (auto simp: is_signal_def listen_entry_def Let_def)

lemma listen_entry_wip:
  "is_wip (Entry m) \<Longrightarrow> listen_entry m s =
     (if anyDoneSent s then
        (if inProgressCh s then Panic ''close of closed channel''
         else Ok (True, s\<lparr>lastStreamId := msg_ID m, inProgressCh := True\<rparr>))
      else Ok (False, s\<lparr>lastStreamId := msg_ID m\<rparr>))"
  by (auto simp: is_wip_def listen_entry_def Let_def)

lemma signal_excl: "is_signal key e \<Longrightarrow> is_signal key' e \<longleftrightarrow> key' = key"
  "is_signal key e \<Longrightarrow> \<not> is_wip e" "is_wip e \<Longrightarrow> \<not> is_signal key e"
  by (auto simp: is_signal_def is_wip_def)

lemma well_formed_cases:
  assumes "well_formed e"
  obtains (request) key where "e = Request key" | (signal) m key where "e = Entry m" "is_signal key e"
  | (wip) m where "e = Entry m" "is_wip e"
  using assms by (cases e) (auto simp: well_formed_def)

lemma signal_Request [simp]: "\<not> is_signal key (Request k)" "\<not> is_wip (Request k)"
  by (auto simp: is_signal_def is_wip_def)

text \<open>
  The state reflects the past: the fields as functions of what was signalled (\<open>al\<close>), what was
  requested while nothing was signalled for all keys, and what was signalled per key after the request.
\<close>

definition done_closed :: "string \<Rightarrow> dump_signals \<Rightarrow> bool" where
  "done_closed key s \<longleftrightarrow> allDoneCh s = Some True \<or> doneCh s key = Some True"

definition dump_inv :: "dump_signals \<Rightarrow> bool" where
  "dump_inv s \<longleftrightarrow> allDoneCh s \<noteq> Some False \<and> (allDoneCh s = Some True \<longrightarrow> (\<forall>k. doneCh s k \<noteq> Some False))"

lemma all_signalled_simps [simp]:
  "\<not> all_signalled []" "all_signalled (e # es) \<longleftrightarrow> is_signal ''*'' e \<or> all_signalled es"
  by (auto simp: all_signalled_def)

lemma key_signalled_mono: "key_signalled key r es \<Longrightarrow> key_signalled key True es"
  by (induction es arbitrary: r) auto

lemma signal_all_closed:
  "dump_inv s \<Longrightarrow> dump_inv (signal_all s) \<and> done_closed key (signal_all s) \<and>
   inProgressCh (signal_all s) = inProgressCh s \<and> anyDoneSent (signal_all s) = anyDoneSent s"
  by (auto simp: signal_all_def dump_inv_def done_closed_def safeClose_def split: if_splits)

lemma signal_key_closed:
  "dump_inv s \<Longrightarrow> dump_inv (signal_key key s) \<and>
   (done_closed k (signal_key key s) = (done_closed k s \<or> k = key \<and> doneCh s k \<noteq> None)) \<and>
   (doneCh (signal_key key s) k = None) = (doneCh s k = None) \<and>
   inProgressCh (signal_key key s) = inProgressCh s"
  by (auto simp: signal_key_def dump_inv_def done_closed_def safeClose_def split: option.splits)

lemma Done_closed:
  "dump_inv s \<Longrightarrow> dump_inv (snd (Done key s)) \<and> done_closed k (snd (Done key s)) = done_closed k s \<and>
   (doneCh (snd (Done key s)) k \<noteq> None) = (doneCh s k \<noteq> None \<or> k = key \<and> allDoneCh s = None) \<and>
   inProgressCh (snd (Done key s)) = inProgressCh s \<and> anyDoneSent (snd (Done key s)) = anyDoneSent s \<and>
   is_closed (fst (Done key s)) (snd (Done key s)) = done_closed key s"
  by (auto simp: Done_def dump_inv_def done_closed_def is_closed_def)

lemma dump_inv_simps [simp]:
  "dump_inv (s\<lparr>lastStreamId := i\<rparr>) = dump_inv s" "dump_inv (s\<lparr>anyDoneSent := b\<rparr>) = dump_inv s"
  "done_closed k (s\<lparr>lastStreamId := i\<rparr>) = done_closed k s" "done_closed k (s\<lparr>anyDoneSent := b\<rparr>) = done_closed k s"
  by (simp_all add: dump_inv_def done_closed_def)

lemma dump_run_spec:
  assumes "\<forall>e \<in> set es. well_formed e" and "\<not> wip_after_done (anyDoneSent s) es"
    and "\<not> inProgressCh s" and "dump_inv s"
  shows "\<exists>s'. dump_run es s = Ok s' \<and> dump_inv s' \<and> \<not> inProgressCh s' \<and>
    (\<forall>key. done_closed key s' \<longleftrightarrow> done_closed key s \<or> all_signalled es \<or> key_signalled key (doneCh s key \<noteq> None) es)"
  using assms
proof (induction es arbitrary: s)
  case Nil
  then show ?case by simp
next
  case (Cons e es)
  have "well_formed e" using Cons.prems by simp
  then show ?case
  proof (cases rule: well_formed_cases)
    case (request k)
    note dc = Done_closed [OF Cons.prems(4), of k]
    obtain s' where "dump_run es (snd (Done k s)) = Ok s'" "dump_inv s'" "\<not> inProgressCh s'"
      "\<forall>key. done_closed key s' \<longleftrightarrow> done_closed key (snd (Done k s)) \<or> all_signalled es \<or>
        key_signalled key (doneCh (snd (Done k s)) key \<noteq> None) es"
      using Cons.IH [of "snd (Done k s)"] Cons.prems request dc by auto
    moreover have "done_closed key s \<or> key_signalled key (doneCh (snd (Done k s)) key \<noteq> None) es \<longleftrightarrow>
        done_closed key s \<or> key_signalled key (doneCh s key \<noteq> None \<or> k = key) es" for key
    proof (cases "allDoneCh s = None")
      case True
      then show ?thesis using dc [of key] by (simp add: eq_commute)
    next
      case False
      then have "done_closed key s" using Cons.prems(4) by (auto simp: dump_inv_def done_closed_def)
      then show ?thesis by simp
    qed
    ultimately show ?thesis using request dc by (auto simp: eq_commute)
  next
    case (signal m k)
    let ?s = "s\<lparr>lastStreamId := msg_ID m\<rparr>"
    have "\<exists>key. is_signal key e" using signal(2) ..
    then have nw: "\<not> wip_after_done True es" using Cons.prems(2) by simp
    show ?thesis
    proof (cases "k = ''*''")
      case True
      have inv: "dump_inv ?s" using Cons.prems by simp
      note sc = signal_all_closed [OF inv]
      obtain s' where "dump_run es (signal_all ?s\<lparr>anyDoneSent := True\<rparr>) = Ok s'" "dump_inv s'" "\<not> inProgressCh s'"
        "\<forall>key. done_closed key s' \<longleftrightarrow> done_closed key (signal_all ?s\<lparr>anyDoneSent := True\<rparr>) \<or> all_signalled es \<or>
          key_signalled key (doneCh (signal_all ?s\<lparr>anyDoneSent := True\<rparr>) key \<noteq> None) es"
        using Cons.IH [of "signal_all ?s\<lparr>anyDoneSent := True\<rparr>"] Cons.prems(1,4) Cons.prems(3) nw sc
        by auto
      then show ?thesis using True signal sc Cons.prems(3) by (auto simp: listen_entry_signal [OF signal(2) [unfolded signal(1)]])
    next
      case False
      have inv: "dump_inv ?s" using Cons.prems by simp
      note sc = signal_key_closed [OF inv, of k]
      obtain s' where "dump_run es (signal_key k ?s\<lparr>anyDoneSent := True\<rparr>) = Ok s'" "dump_inv s'" "\<not> inProgressCh s'"
        "\<forall>key. done_closed key s' \<longleftrightarrow> done_closed key (signal_key k ?s\<lparr>anyDoneSent := True\<rparr>) \<or> all_signalled es \<or>
          key_signalled key (doneCh (signal_key k ?s\<lparr>anyDoneSent := True\<rparr>) key \<noteq> None) es"
        using Cons.IH [of "signal_key k ?s\<lparr>anyDoneSent := True\<rparr>"] Cons.prems(1,4) Cons.prems(3) nw sc
        by auto
      then show ?thesis
        using False signal sc Cons.prems(3)
        by (auto simp: listen_entry_signal [OF signal(2) [unfolded signal(1)]]
            signal_excl(1) [OF signal(2) [unfolded signal(1)]])
    qed
  next
    case (wip m)
    then have nd: "\<not> anyDoneSent s" using Cons.prems(2) by simp
    have "\<not> wip_after_done (anyDoneSent (s\<lparr>lastStreamId := msg_ID m\<rparr>)) es"
      using Cons.prems(2) wip nd signal_excl(3) [OF wip(2)] by auto
    then show ?thesis
      using Cons.IH [of "s\<lparr>lastStreamId := msg_ID m\<rparr>"] Cons.prems wip nd signal_excl(3) [OF wip(2)]
      by (auto simp: listen_entry_wip [OF wip(2) [unfolded wip(1)]])
  qed
qed

text \<open>The in-progress channel is closed, at most once, by a wip signal after a done signal.\<close>

lemma dump_run_wip:
  assumes "\<forall>e \<in> set es. well_formed e"
  shows "\<exists>s'. dump_run es s = Ok s' \<and> (inProgressCh s' \<longleftrightarrow> inProgressCh s \<or> wip_after_done (anyDoneSent s) es)"
  using assms
proof (induction es arbitrary: s)
  case Nil
  then show ?case by simp
next
  case (Cons e es)
  have "well_formed e" using Cons.prems by simp
  then show ?case
  proof (cases rule: well_formed_cases)
    case (request k)
    have "inProgressCh (snd (Done k s)) = inProgressCh s" "anyDoneSent (snd (Done k s)) = anyDoneSent s"
      by (auto simp: Done_def)
    then show ?thesis using Cons.IH [of "snd (Done k s)"] Cons.prems request by auto
  next
    case (signal m k)
    let ?s = "s\<lparr>lastStreamId := msg_ID m\<rparr>"
    let ?t = "(if k = ''*'' then signal_all ?s else signal_key k ?s)\<lparr>anyDoneSent := True\<rparr>"
    have t: "inProgressCh ?t = inProgressCh s"
      by (auto simp: signal_all_def signal_key_def split: option.splits)
    have ex: "\<exists>key. is_signal key (Entry m)" using signal by auto
    have nw: "\<not> is_wip (Entry m)" using signal signal_excl(2) by blast
    have run: "dump_run (e # es) s = (if inProgressCh s then dump_run es s else dump_run es ?t)"
      using signal by (simp add: listen_entry_signal)
    show ?thesis
    proof (cases "inProgressCh s")
      case True
      then show ?thesis using Cons.IH [of s] Cons.prems run by simp
    next
      case False
      then show ?thesis using Cons.IH [of ?t] Cons.prems run t ex nw signal(1) by simp
    qed
  next
    case (wip m)
    let ?s = "s\<lparr>lastStreamId := msg_ID m\<rparr>"
    have ns: "\<And>key. \<not> is_signal key (Entry m)" using wip signal_excl(3) by blast
    show ?thesis
    proof (cases "inProgressCh s \<or> anyDoneSent s")
      case True
      then show ?thesis
        using Cons.IH [of s] Cons.IH [of "?s\<lparr>inProgressCh := True\<rparr>"] Cons.prems wip
        by (cases "inProgressCh s") (auto simp: listen_entry_wip)
    next
      case False
      then show ?thesis using Cons.IH [of ?s] Cons.prems wip ns by (simp add: listen_entry_wip)
    qed
  qed
qed

section \<open>Properties\<close>

text \<open>As long as no new dump has begun, the channel that \<open>Done\<close> returns for a key is closed if and
  only if a done signal for all keys was received, or one for the key after the first request for it.\<close>

theorem done_channel_closed_iff:
  assumes "\<forall>e \<in> set es. well_formed e" and "\<not> wip_after_done False es"
  shows "\<exists>s. dump_run es NewDumpSignals = Ok s \<and>
    (is_closed (fst (Done key s)) (snd (Done key s)) \<longleftrightarrow> all_signalled es \<or> key_signalled key False es)"
proof -
  have "dump_inv NewDumpSignals" "\<not> inProgressCh NewDumpSignals" "\<not> done_closed key NewDumpSignals"
    "doneCh NewDumpSignals key = None" "\<not> anyDoneSent NewDumpSignals"
    by (simp_all add: NewDumpSignals_def dump_inv_def done_closed_def)
  then obtain s where "dump_run es NewDumpSignals = Ok s" "dump_inv s"
      "done_closed key s \<longleftrightarrow> all_signalled es \<or> key_signalled key False es"
    using dump_run_spec [of es NewDumpSignals] assms by auto
  then show ?thesis using Done_closed [of s key key] by auto
qed

definition signal_entry :: "string \<Rightarrow> string \<Rightarrow> dump_event" where
  "signal_entry key state = Entry \<lparr>msg_ID = ''1-0'', msg_Values = [''key'' \<mapsto> AString key, ''state'' \<mapsto> AString state]\<rparr>"

lemma signal_entry_simps [simp]:
  "is_signal k (signal_entry key state) \<longleftrightarrow> k = key \<and> state = ''done''"
  "is_wip (signal_entry key state) \<longleftrightarrow> state \<noteq> ''done''"
  "well_formed (signal_entry key state)" "well_formed (Request k)" "signal_entry key state \<noteq> Request k"
  by (auto simp: signal_entry_def is_signal_def is_wip_def well_formed_def)

theorem done_channel_closed_iff_witness:
  "\<exists>s. dump_run [signal_entry ''*'' ''wip'', signal_entry ''icinga:host'' ''done'', Request ''icinga:host'',
      Request ''icinga:service'', signal_entry ''icinga:service'' ''done''] NewDumpSignals = Ok s \<and>
    is_closed (fst (Done ''icinga:service'' s)) (snd (Done ''icinga:service'' s))"
  using done_channel_closed_iff [of "[signal_entry ''*'' ''wip'', signal_entry ''icinga:host'' ''done'',
      Request ''icinga:host'', Request ''icinga:service'', signal_entry ''icinga:service'' ''done'']" "''icinga:service''"]
  by (simp del: dump_run.simps)

text \<open>\<open>Listen\<close> never panics on well-formed entries, and the in-progress channel is closed if and
  only if a wip signal was received after some done signal.\<close>

theorem in_progress_iff:
  assumes "\<forall>e \<in> set es. well_formed e"
  shows "\<exists>s. dump_run es NewDumpSignals = Ok s \<and> (inProgressCh s \<longleftrightarrow> wip_after_done False es)"
  using dump_run_wip [OF assms, of NewDumpSignals] by (simp add: NewDumpSignals_def)

theorem in_progress_iff_witness:
  "\<exists>s. dump_run [signal_entry ''*'' ''wip'', signal_entry ''*'' ''done'', signal_entry ''*'' ''wip'',
      signal_entry ''*'' ''wip''] NewDumpSignals = Ok s \<and> inProgressCh s"
  using in_progress_iff [of "[signal_entry ''*'' ''wip'', signal_entry ''*'' ''done'', signal_entry ''*'' ''wip'',
      signal_entry ''*'' ''wip'']"]
  by (simp del: dump_run.simps)

end
