(* ===== verification/Heartbeat.thy ===== *)
theory Heartbeat
  imports Idb_Prelude
begin

text \<open>
  The Icinga heartbeat: \<open>pkg/icingaredis/heartbeat.go\<close> and the stats messages of
  \<open>pkg/icingaredis/v1\<close>. \<open>unjson_id\<close>, \<open>unjson_time\<close> and \<open>unjson_status\<close> stand for
  \<open>types.UnmarshalJSON\<close> into the three target types.
\<close>

section \<open>Stats messages\<close>

type_synonym stats_message = "string \<rightharpoonup> any"

record IcingaStatus =
  Version :: string
  ProgramStart :: time
  EndpointId :: binary
  NotificationsEnabled :: go_bool
  ActiveServiceChecksEnabled :: go_bool
  ActiveHostChecksEnabled :: go_bool
  EventHandlersEnabled :: go_bool
  FlapDetectionEnabled :: go_bool
  PerformanceDataEnabled :: go_bool

definition stats_Time :: "(string \<Rightarrow> string + time) \<Rightarrow> stats_message \<Rightarrow> string + time" where
  "stats_Time unjson_time m =
     (case m ''timestamp'' of
        Some (AString s) \<Rightarrow> unjson_time s
      | _ \<Rightarrow> Inl ''bad message: timestamp missing'')"

definition stats_IcingaStatus :: "(string \<Rightarrow> string + IcingaStatus) \<Rightarrow> stats_message \<Rightarrow> string + IcingaStatus" where
  "stats_IcingaStatus unjson_status m =
     (case m ''IcingaApplication'' of
        Some (AString s) \<Rightarrow> unjson_status s
      | _ \<Rightarrow> Inl ''bad message: IcingaApplication missing'')"

section \<open>The controller\<close>

text \<open>\<open>Timeout\<close>: how long a heartbeat may be absent once one was received.\<close>

definition Timeout :: duration where
  "Timeout = 60 * second"

record heartbeat_message =
  hm_received :: time
  hm_stats :: stats_message

definition EnvironmentID :: "(string \<Rightarrow> string + binary) \<Rightarrow> heartbeat_message \<Rightarrow> string + binary" where
  "EnvironmentID unjson_id m =
     (case hm_stats m ''icingadb_environment'' of
        Some (AString env) \<Rightarrow> unjson_id env
      | _ \<Rightarrow> Inl ''icingadb_environment stats is not string'')"

definition ExpiryTime :: "heartbeat_message \<Rightarrow> time" where
  "ExpiryTime m = hm_received m + Timeout"

text \<open>
  The fields the state loop works on. The buffered channel \<open>events\<close> has room for one event: a message,
  or \<open>None\<close> for the nil pointer that signals a loss. \<open>sent\<close> records every event sent so far.
\<close>

record heartbeat =
  active :: bool
  events :: "heartbeat_message option option"
  lastReceivedMs :: int
  lastMessageMs :: int
  sent :: "heartbeat_message option list"

definition NewHeartbeat :: heartbeat where
  "NewHeartbeat = \<lparr>active = False, events = None, lastReceivedMs = 0, lastMessageMs = 0, sent = []\<rparr>"

text \<open>
  \<open>sendEvent\<close> first takes a not yet delivered event off the channel; the state loop is the only sender,
  so the send that follows finds the channel empty.
\<close>

definition sendEvent :: "heartbeat_message option \<Rightarrow> heartbeat \<Rightarrow> heartbeat" where
  "sendEvent m h = (let h' = (case events h of None \<Rightarrow> h | Some old \<Rightarrow> h\<lparr>events := None\<rparr>)
     in h'\<lparr>events := Some m, sent := sent h' @ [m]\<rparr>)"

definition hb_message ::
    "(string \<Rightarrow> string + binary) \<Rightarrow> (string \<Rightarrow> string + time) \<Rightarrow> heartbeat_message \<Rightarrow> heartbeat \<Rightarrow> (string, heartbeat) outcome" where
  "hb_message unjson_id unjson_time m h =
     bind_outcome
       (if active h then Ok h
        else (case EnvironmentID unjson_id m of Inl e \<Rightarrow> Err e | Inr envId \<Rightarrow> Ok (h\<lparr>active := True\<rparr>)))
       (\<lambda>h1. let h2 = h1\<lparr>lastReceivedMs := unix_milli (hm_received m)\<rparr>;
                 h3 = (case stats_Time unjson_time (hm_stats m) of
                         Inl e \<Rightarrow> h2\<lparr>lastMessageMs := 0\<rparr>
                       | Inr t \<Rightarrow> h2\<lparr>lastMessageMs := unix_milli t\<rparr>)
             in Ok (sendEvent (Some m) h3))"

definition hb_timeout :: "heartbeat \<Rightarrow> heartbeat" where
  "hb_timeout h =
     (let h1 = (if active h then (sendEvent None h)\<lparr>active := False\<rparr> else h)
      in h1\<lparr>lastReceivedMs := 0, lastMessageMs := 0\<rparr>)"

text \<open>
  What happens to the heartbeat: a message of the producer loop, a minute without one, or the receiver
  taking an event off the channel. The state loop ends with an error or with the context.
\<close>

datatype hb_event = HbMessage heartbeat_message | HbTimeout | HbReceive

fun hb_step ::
    "(string \<Rightarrow> string + binary) \<Rightarrow> (string \<Rightarrow> string + time) \<Rightarrow> hb_event \<Rightarrow> heartbeat \<Rightarrow> (string, heartbeat) outcome" where
  "hb_step unjson_id unjson_time (HbMessage m) h = hb_message unjson_id unjson_time m h"
| "hb_step unjson_id unjson_time HbTimeout h = Ok (hb_timeout h)"
| "hb_step unjson_id unjson_time HbReceive h = Ok (h\<lparr>events := None\<rparr>)"

fun hb_run ::
    "(string \<Rightarrow> string + binary) \<Rightarrow> (string \<Rightarrow> string + time) \<Rightarrow> hb_event list \<Rightarrow> heartbeat \<Rightarrow> (string, heartbeat) outcome" where
  "hb_run unjson_id unjson_time [] h = Ok h"
| "hb_run unjson_id unjson_time (e # es) h =
     bind_outcome (hb_step unjson_id unjson_time e h) (hb_run unjson_id unjson_time es)"

lemma sendEvent_simps [simp]:
  "events (sendEvent m h) = Some m" "sent (sendEvent m h) = sent h @ [m]" "active (sendEvent m h) = active h"
  "lastReceivedMs (sendEvent m h) = lastReceivedMs h" "lastMessageMs (sendEvent m h) = lastMessageMs h"
  by (auto simp: sendEvent_def Let_def split: option.splits)

section \<open>Invariant\<close>

text \<open>A loss follows a message: in the events sent, no two losses in a row and none at the start.\<close>

fun loss_ok :: "bool \<Rightarrow> heartbeat_message option list \<Rightarrow> bool" where
  "loss_ok act [] = True"
| "loss_ok act (Some m # es) = loss_ok True es"
| "loss_ok act (None # es) = (act \<and> loss_ok False es)"

definition ends_active :: "heartbeat_message option list \<Rightarrow> bool" where
  "ends_active es \<longleftrightarrow> es \<noteq> [] \<and> last es \<noteq> None"

lemma loss_ok_snoc: "loss_ok act (es @ [e]) \<longleftrightarrow>
    loss_ok act es \<and> (e = None \<longrightarrow> (if es = [] then act else last es \<noteq> None))"
proof (induction act es rule: loss_ok.induct)
  case (1 act)
  show ?case by (cases e) auto
qed auto

text \<open>The times a message leaves behind: when it was received, and when Icinga 2 wrote it, 0 where that cannot be read.\<close>

definition message_ms :: "(string \<Rightarrow> string + time) \<Rightarrow> heartbeat_message \<Rightarrow> int" where
  "message_ms unjson_time m =
     (case hm_stats m ''timestamp'' of
        Some (AString s) \<Rightarrow> (case unjson_time s of Inl e \<Rightarrow> 0 | Inr t \<Rightarrow> unix_milli t)
      | _ \<Rightarrow> 0)"

definition hb_inv :: "(string \<Rightarrow> string + time) \<Rightarrow> heartbeat \<Rightarrow> bool" where
  "hb_inv unjson_time h \<longleftrightarrow> loss_ok False (sent h) \<and> active h = ends_active (sent h) \<and>
     (events h \<noteq> None \<longrightarrow> sent h \<noteq> [] \<and> events h = Some (last (sent h))) \<and>
     (\<not> active h \<longrightarrow> lastReceivedMs h = 0 \<and> lastMessageMs h = 0) \<and>
     (active h \<longrightarrow> lastReceivedMs h = unix_milli (hm_received (the (last (sent h)))) \<and>
        lastMessageMs h = message_ms unjson_time (the (last (sent h))))"

lemma hb_message_Ok:
  "hb_message unjson_id unjson_time m h = Ok h' \<Longrightarrow> active h' \<and> sent h' = sent h @ [Some m] \<and>
   events h' = Some (Some m) \<and> lastReceivedMs h' = unix_milli (hm_received m) \<and> lastMessageMs h' = message_ms unjson_time m"
  by (auto simp: hb_message_def bind_outcome_Ok_iff message_ms_def stats_Time_def Let_def
      split: if_splits sum.splits option.splits any.splits)

lemma hb_step_inv: "hb_inv unjson_time h \<Longrightarrow> hb_step unjson_id unjson_time e h = Ok h' \<Longrightarrow> hb_inv unjson_time h'"
proof (cases e)
  case (HbMessage m)
  assume "hb_inv unjson_time h" "hb_step unjson_id unjson_time e h = Ok h'"
  then show ?thesis
    using hb_message_Ok [of unjson_id unjson_time m h h'] HbMessage
    by (auto simp: hb_inv_def loss_ok_snoc ends_active_def)
next
  case HbTimeout
  assume "hb_inv unjson_time h" "hb_step unjson_id unjson_time e h = Ok h'"
  then show ?thesis using HbTimeout
    by (auto simp: hb_inv_def hb_timeout_def loss_ok_snoc ends_active_def Let_def split: if_splits)
next
  case HbReceive
  assume "hb_inv unjson_time h" "hb_step unjson_id unjson_time e h = Ok h'"
  then show ?thesis using HbReceive by (auto simp: hb_inv_def)
qed

lemma hb_run_inv: "hb_inv unjson_time h \<Longrightarrow> hb_run unjson_id unjson_time es h = Ok h' \<Longrightarrow> hb_inv unjson_time h'"
proof (induction es arbitrary: h)
  case (Cons e es)
  then obtain a where a: "hb_step unjson_id unjson_time e h = Ok a" "hb_run unjson_id unjson_time es a = Ok h'"
    by (auto simp: bind_outcome_Ok_iff)
  show ?case by (rule Cons.IH [OF hb_step_inv [OF Cons.prems(1) a(1)] a(2)])
qed simp

lemma hb_inv_new: "hb_inv unjson_time NewHeartbeat"
  by (simp add: hb_inv_def NewHeartbeat_def ends_active_def)

section \<open>Properties\<close>

text \<open>C26. A heartbeat loss is signalled only after a heartbeat, and once per absence; the receiver
  always finds the latest event in the channel; and both times of the last heartbeat are those of the
  last message sent on (when it was received, and the timestamp in it, 0 if that cannot be read), or 0
  while no heartbeat is active.\<close>

theorem heartbeat_events:
  assumes "hb_run unjson_id unjson_time es NewHeartbeat = Ok h"
  shows "loss_ok False (sent h) \<and> (events h \<noteq> None \<longrightarrow> events h = Some (last (sent h))) \<and>
    lastReceivedMs h = (if ends_active (sent h) then unix_milli (hm_received (the (last (sent h)))) else 0) \<and>
    lastMessageMs h = (if ends_active (sent h) then message_ms unjson_time (the (last (sent h))) else 0)"
  using hb_run_inv [OF hb_inv_new assms] by (auto simp: hb_inv_def)

definition sample_heartbeat :: heartbeat_message where
  "sample_heartbeat = \<lparr>hm_received = 5000000, hm_stats = [''icingadb_environment'' \<mapsto> AString []]\<rparr>"

lemma sample_hb_run:
  "hb_run (\<lambda>_. Inr None) (\<lambda>_. Inr 0) [HbTimeout, HbMessage sample_heartbeat, HbTimeout, HbTimeout] NewHeartbeat =
   Ok \<lparr>active = False, events = Some None, lastReceivedMs = 0, lastMessageMs = 0, sent = [Some sample_heartbeat, None]\<rparr>"
  by (simp add: hb_timeout_def NewHeartbeat_def hb_message_def EnvironmentID_def sample_heartbeat_def
      sendEvent_def stats_Time_def Let_def)

definition timed_heartbeat :: heartbeat_message where
  "timed_heartbeat = \<lparr>hm_received = 9000000,
     hm_stats = [''icingadb_environment'' \<mapsto> AString [], ''timestamp'' \<mapsto> AString ''now'']\<rparr>"

lemma timed_hb_run:
  "hb_run (\<lambda>_. Inr None) (\<lambda>_. Inr 7000000) [HbMessage sample_heartbeat, HbTimeout, HbMessage timed_heartbeat] NewHeartbeat =
   Ok \<lparr>active = True, events = Some (Some timed_heartbeat), lastReceivedMs = 9, lastMessageMs = 7,
     sent = [Some sample_heartbeat, None, Some timed_heartbeat]\<rparr>"
  by (simp add: hb_timeout_def NewHeartbeat_def hb_message_def EnvironmentID_def sample_heartbeat_def timed_heartbeat_def
      sendEvent_def stats_Time_def unix_milli_def nanos_per_milli_def Let_def)

theorem heartbeat_events_witness:
  "loss_ok False [Some sample_heartbeat, None, Some timed_heartbeat] \<and> message_ms (\<lambda>_. Inr 7000000) timed_heartbeat = 7"
  using heartbeat_events [OF timed_hb_run] by (simp add: ends_active_def)

end
