(* ===== verification/Ha.thy ===== *)
theory Ha
  imports Heartbeat
begin

text \<open>
  High availability, \<open>pkg/icingadb/ha.go\<close>: the controller of one instance, the transaction on the
  table \<open>icingadb_instance\<close>, and several instances that share the table.

  IDs are byte strings. The table is a list of rows in the order in which the server returns them.
  Parameters: \<open>defaultTimeout\<close> is \<open>retry.DefaultTimeout\<close>, \<open>clean\<close> is \<open>filepath.Clean\<close>.
\<close>

section \<open>State\<close>

definition peerTimeout :: duration where
  "peerTimeout = Timeout + 5 * second"

record haState =
  responsibleTsMilli :: int
  st_responsible :: bool
  st_otherResponsible :: bool

record NotificationsState =
  unhealthySince :: time
  healthy :: go_bool
  socketPath :: go_string
  lastProblemLoggedAt :: time

definition no_notifications :: NotificationsState where
  "no_notifications = \<lparr>unhealthySince = zero_time, healthy = null_bool, socketPath = null_string,
     lastProblemLoggedAt = zero_time\<rparr>"

definition IsValidUnhealthy :: "NotificationsState \<Rightarrow> bool" where
  "IsValidUnhealthy ns \<longleftrightarrow> bool_valid (healthy ns) \<and> \<not> bool_val (healthy ns)"

datatype ha_signal = Handover string | Takeover string

text \<open>
  What others can see of an instance while it handles an event, in order: a state is stored, which
  \<open>State\<close> returns from then on; a signal is received; or, the context being done, it is given up.
\<close>

datatype ha_event = HaStored haState | HaSent ha_signal | HaGaveUp ha_signal

text \<open>
  \<open>signals\<close> records what was received on the two channels, and \<open>ha_history\<close> every store and signal;
  \<open>cancelled\<close> says that \<open>ctx\<close> is done.
\<close>

record ha =
  instanceId :: bytes
  ha_state :: haState
  environment :: "bytes option"
  responsible :: bool
  ha_err :: "string option"
  cancelled :: bool
  notifications :: NotificationsState
  oldInstancesRemoved :: bool
  signals :: "ha_signal list"
  ha_history :: "ha_event list"

definition NewHA :: "bytes \<Rightarrow> ha" where
  "NewHA i = \<lparr>instanceId = i,
     ha_state = \<lparr>responsibleTsMilli = 0, st_responsible = False, st_otherResponsible = False\<rparr>,
     environment = None, responsible = False, ha_err = None, cancelled = False,
     notifications = no_notifications, oldInstancesRemoved = False, signals = [], ha_history = []\<rparr>"

record IcingadbInstance =
  in_Id :: bytes
  in_EnvironmentId :: bytes
  in_EndpointId :: binary
  in_Heartbeat :: int
  in_Responsible :: bool
  Icinga2Version :: string
  Icinga2StartTime :: time
  Icinga2NotificationsEnabled :: go_bool
  Icinga2ActiveServiceChecksEnabled :: go_bool
  Icinga2ActiveHostChecksEnabled :: go_bool
  Icinga2EventHandlersEnabled :: go_bool
  Icinga2FlapDetectionEnabled :: go_bool
  Icinga2PerformanceDataEnabled :: go_bool
  NotificationsHealthy :: go_bool
  NotificationsDiscoveredSocketPath :: go_string

record ha_db =
  instances :: "IcingadbInstance list"
  environments :: "bytes set"

section \<open>Signals and notifications\<close>

definition ha_abort :: "string \<Rightarrow> ha \<Rightarrow> ha" where
  "ha_abort e h = (if ha_err h = None then h\<lparr>ha_err := Some e, cancelled := True\<rparr> else h)"

text \<open>The store of the atomic pointer to the state, which can be read before anything else happens.\<close>

definition store_state :: "haState \<Rightarrow> ha \<Rightarrow> ha" where
  "store_state st h = h\<lparr>ha_state := st, ha_history := ha_history h @ [HaStored st]\<rparr>"

text \<open>
  The send on an unbuffered channel waits for the receiver. Once the context is done it may be given
  up: \<open>rcv\<close> says whether the receiver took the reason in that case.
\<close>

definition signalHandover :: "time \<Rightarrow> bool \<Rightarrow> string \<Rightarrow> ha \<Rightarrow> ha" where
  "signalHandover now rcv reason h =
     (if responsible h then
        (let h1 = store_state \<lparr>responsibleTsMilli = unix_milli now, st_responsible = False, st_otherResponsible = False\<rparr> h
         in if cancelled h \<and> \<not> rcv then h1\<lparr>ha_history := ha_history h1 @ [HaGaveUp (Handover reason)]\<rparr>
            else h1\<lparr>responsible := False, signals := signals h1 @ [Handover reason],
                     ha_history := ha_history h1 @ [HaSent (Handover reason)]\<rparr>)
      else h)"

definition signalTakeover :: "time \<Rightarrow> bool \<Rightarrow> string \<Rightarrow> ha \<Rightarrow> ha" where
  "signalTakeover now rcv reason h =
     (if \<not> responsible h then
        (let h1 = store_state \<lparr>responsibleTsMilli = unix_milli now, st_responsible = True, st_otherResponsible = False\<rparr> h
         in if cancelled h \<and> \<not> rcv then h1\<lparr>ha_history := ha_history h1 @ [HaGaveUp (Takeover reason)]\<rparr>
            else h1\<lparr>responsible := True, signals := signals h1 @ [Takeover reason],
                     ha_history := ha_history h1 @ [HaSent (Takeover reason)]\<rparr>)
      else h)"

definition notifications_heartbeat :: "time \<Rightarrow> bool \<Rightarrow> ha \<Rightarrow> ha" where
  "notifications_heartbeat now ok h =
     (let n = notifications h; n1 = n\<lparr>healthy := MakeBool ok\<rparr>
      in h\<lparr>notifications :=
           (if ok then n1\<lparr>unhealthySince := zero_time\<rparr>
            else if time_is_zero (unhealthySince n) then n1\<lparr>unhealthySince := now\<rparr> else n1)\<rparr>)"

text \<open>\<open>UPDATE icingadb_instance SET responsible = 'n', ... WHERE id = ?\<close>, unless the statement fails,
  as it does when the context is done.\<close>

definition realizeLostHeartbeat :: "bool \<Rightarrow> ha \<Rightarrow> ha_db \<Rightarrow> ha_db" where
  "realizeLostHeartbeat ok h db =
     (if ok \<and> \<not> cancelled h then db\<lparr>instances := map (\<lambda>r. if in_Id r = instanceId h
          then r\<lparr>in_Responsible := False, NotificationsHealthy := healthy (notifications h)\<rparr> else r) (instances db)\<rparr>
      else db)"

definition instanceCount :: "bool \<Rightarrow> ha \<Rightarrow> ha_db \<Rightarrow> nat" where
  "instanceCount ok h db =
     (if ok \<and> \<not> cancelled h then length (filter (\<lambda>r. Some (in_EnvironmentId r) = environment h) (instances db)) else 0)"

text \<open>
  The result says whether a handover was triggered. On the first heartbeat the environment is still
  nil, which \<open>instanceCount\<close> dereferences.
\<close>

definition verifyNotificationsState ::
    "duration \<Rightarrow> time \<Rightarrow> bool \<Rightarrow> bool \<Rightarrow> bool \<Rightarrow> ha \<Rightarrow> ha_db \<Rightarrow> (string, bool \<times> ha \<times> ha_db) outcome" where
  "verifyNotificationsState defaultTimeout now rcv count_ok upd_ok h db =
     (let n = notifications h in
      if IsValidUnhealthy n \<and> unhealthySince n + defaultTimeout < now then
        (let h1 = h\<lparr>notifications := n\<lparr>lastProblemLoggedAt := now\<rparr>\<rparr> in
         if environment h1 = None then Panic ''nil pointer dereference''
         else if instanceCount count_ok h1 db > 1 then
           (let h2 = signalHandover now rcv ''notifications component has been unhealthy for a long time'' h1
            in Ok (True, h2\<lparr>notifications := no_notifications\<rparr>, realizeLostHeartbeat upd_ok h2 db))
         else Ok (False, h1, db))
      else Ok (False, h\<lparr>notifications := n\<lparr>lastProblemLoggedAt := zero_time\<rparr>\<rparr>, db))"

text \<open>
  What the probe of the listener socket observes: the environment variable, the mode \<open>os.Stat\<close> reports
  for the path (\<open>None\<close>: it failed; else whether it is a socket), and whether the user has access.
\<close>

record socket_obs =
  env_path :: string
  stat_socket :: "bool option"
  access_ok :: bool

definition probeNotificationsSocketPath :: "(string \<Rightarrow> string) \<Rightarrow> socket_obs \<Rightarrow> ha \<Rightarrow> go_string \<times> ha" where
  "probeNotificationsSocketPath clean obs h =
     (let sp = socketPath (notifications h) in
      if str_valid sp \<and> str_val sp \<noteq> [] then (sp, h)
      else
        (let path = clean (env_path obs);
             r = (if env_path obs = [] then null_string
                  else if stat_socket obs \<noteq> Some True then null_string
                  else if \<not> access_ok obs then null_string
                  else MakeString path)
         in (r, h\<lparr>notifications := (notifications h)\<lparr>socketPath := r\<rparr>\<rparr>)))"

section \<open>One realization\<close>

definition others_responsible :: "bytes \<Rightarrow> bytes \<Rightarrow> ha_db \<Rightarrow> IcingadbInstance list" where
  "others_responsible envId self db =
     filter (\<lambda>r. in_EnvironmentId r = envId \<and> in_Responsible r \<and> in_Id r \<noteq> self) (instances db)"

definition expired :: "time \<Rightarrow> IcingadbInstance \<Rightarrow> bool" where
  "expired now r \<longleftrightarrow> from_unix_milli (in_Heartbeat r) < now - peerTimeout"

text \<open>The reason to take over, if there is one, and whether another instance is responsible.\<close>

definition decide :: "time \<Rightarrow> bytes \<Rightarrow> ha \<Rightarrow> ha_db \<Rightarrow> string option \<times> bool" where
  "decide now envId h db =
     (case others_responsible envId (instanceId h) db of
        r # _ \<Rightarrow>
          if expired now r then (Some ''other instance's heartbeat has expired'', False) else (None, True)
      | [] \<Rightarrow>
          if \<not> responsible h then (Some ''no other instance is active'', False) else (None, False))"

definition own_row :: "IcingaStatus \<Rightarrow> bytes \<Rightarrow> int \<Rightarrow> bool \<Rightarrow> go_string \<Rightarrow> ha \<Rightarrow> IcingadbInstance" where
  "own_row s envId lastMessage resp sock h =
     \<lparr>in_Id = instanceId h, in_EnvironmentId = envId, in_EndpointId = EndpointId s, in_Heartbeat = lastMessage,
      in_Responsible = resp, Icinga2Version = Version s, Icinga2StartTime = ProgramStart s,
      Icinga2NotificationsEnabled = NotificationsEnabled s,
      Icinga2ActiveServiceChecksEnabled = ActiveServiceChecksEnabled s,
      Icinga2ActiveHostChecksEnabled = ActiveHostChecksEnabled s,
      Icinga2EventHandlersEnabled = EventHandlersEnabled s,
      Icinga2FlapDetectionEnabled = FlapDetectionEnabled s,
      Icinga2PerformanceDataEnabled = PerformanceDataEnabled s,
      NotificationsHealthy = healthy (notifications h), NotificationsDiscoveredSocketPath = sock\<rparr>"

definition upsert_row :: "IcingadbInstance \<Rightarrow> IcingadbInstance list \<Rightarrow> IcingadbInstance list" where
  "upsert_row r rows =
     (if \<exists>x \<in> set rows. in_Id x = in_Id r then map (\<lambda>x. if in_Id x = in_Id r then r else x) rows
      else rows @ [r])"

definition demote_others :: "bytes \<Rightarrow> bytes \<Rightarrow> IcingadbInstance list \<Rightarrow> IcingadbInstance list" where
  "demote_others envId self rows =
     map (\<lambda>x. if in_EnvironmentId x = envId \<and> in_Id x \<noteq> self then x\<lparr>in_Responsible := False\<rparr> else x) rows"

text \<open>The effect of the transaction, when it is committed.\<close>

definition realize_tx ::
    "time \<Rightarrow> IcingaStatus \<Rightarrow> bytes \<Rightarrow> int \<Rightarrow> go_string \<Rightarrow> ha \<Rightarrow> ha_db \<Rightarrow> string option \<times> bool \<times> ha_db" where
  "realize_tx now s envId lastMessage sock h db =
     (let (takeover, other) = decide now envId h db;
          row = own_row s envId lastMessage (takeover \<noteq> None \<or> responsible h) sock h;
          rows = upsert_row row (instances db)
      in (takeover, other,
          if takeover = None then db\<lparr>instances := rows\<rparr>
          else db\<lparr>instances := demote_others envId (instanceId h) rows,
                  environments := environments db \<union> set_option (environment h)\<rparr>))"

text \<open>
  How the retried transaction ends: committed; given up with an error, before or after the row was
  built, nothing written; or the context ended while the commit was under way, which may still have
  succeeded.
\<close>

datatype tx_result = TxCommitted | TxNotBegun string | TxRolledBack string | TxAbandoned bool

record realize_obs =
  ro_now :: time
  ro_lastMessage :: int
  ro_socket :: socket_obs
  ro_tx :: tx_result
  ro_rcv :: bool

definition after_commit :: "realize_obs \<Rightarrow> string option \<Rightarrow> bool \<Rightarrow> ha \<Rightarrow> ha" where
  "after_commit obs takeover other h =
     (case takeover of
        Some reason \<Rightarrow> signalTakeover (ro_now obs) (ro_rcv obs) reason h
      | None \<Rightarrow>
          if other then
            (let h1 = (if st_responsible (ha_state h)
                       then signalHandover (ro_now obs) (ro_rcv obs) ''other instance is responsible as well'' h
                       else h)
             in if \<not> st_otherResponsible (ha_state h1)
                then store_state ((ha_state h1)\<lparr>st_otherResponsible := True\<rparr>) h1 else h1)
          else h)"

definition realize ::
    "(string \<Rightarrow> string) \<Rightarrow> realize_obs \<Rightarrow> IcingaStatus \<Rightarrow> bytes \<Rightarrow> ha \<Rightarrow> ha_db \<Rightarrow> string option \<times> ha \<times> ha_db" where
  "realize clean obs s envId h db =
     (let (sock, h1) = probeNotificationsSocketPath clean (ro_socket obs) h;
          (takeover, other, db1) = realize_tx (ro_now obs) s envId (ro_lastMessage obs) sock h1 db
      in case ro_tx obs of
           TxCommitted \<Rightarrow> (None, after_commit obs takeover other h1, db1)
         | TxNotBegun e \<Rightarrow> (Some e, h, db)
         | TxRolledBack e \<Rightarrow> (Some e, h1, db)
         | TxAbandoned done \<Rightarrow> (Some ''context canceled before transaction completed'', h1, if done then db1 else db))"

section \<open>The controller\<close>

text \<open>
  What the controller observes while it handles a heartbeat: the clock, the results of decoding the
  message, whether the statements on the table succeed, and whether the heartbeat had expired when
  \<open>realize\<close> returned.
\<close>

record hb_obs =
  ho_now :: time
  ho_time :: "string + time"
  ho_status :: "string + IcingaStatus"
  ho_env :: "string + bytes"
  ho_count_ok :: bool
  ho_update_ok :: bool
  ho_rcv :: bool
  ho_late :: bool
  ho_realize :: realize_obs

definition check_environment :: "hb_obs \<Rightarrow> ha \<Rightarrow> (string, ha) outcome" where
  "check_environment obs h =
     (let envId = (case ho_env obs of Inr e \<Rightarrow> e | Inl _ \<Rightarrow> []);
          h1 = (case ho_env obs of Inl e \<Rightarrow> ha_abort e h | Inr _ \<Rightarrow> h)
      in if environment h1 = Some envId then Ok h1
         else if environment h1 \<noteq> None then Panic ''Environment changed unexpectedly''
         else Ok (h1\<lparr>environment := Some envId\<rparr>))"

text \<open>
  Where the status cannot be decoded the instance is cancelled before \<open>realize\<close> is called with a nil
  status, so that no transaction begins.
\<close>

definition ha_realize :: "(string \<Rightarrow> string) \<Rightarrow> hb_obs \<Rightarrow> ha \<Rightarrow> ha_db \<Rightarrow> (string, ha \<times> ha_db) outcome" where
  "ha_realize clean obs h db =
     (case ho_status obs of
        Inl e \<Rightarrow>
          bind_outcome (check_environment obs (ha_abort e h)) (\<lambda>h1. Ok (h1\<lparr>oldInstancesRemoved := True\<rparr>, db))
      | Inr s \<Rightarrow>
          bind_outcome (check_environment obs h)
            (\<lambda>h1.
               let (err, h2, db2) = realize clean (ho_realize obs) s (the (environment h1)) h1 db in
               if ho_late obs then
                 Ok (signalHandover (ho_now obs) (ho_rcv obs)
                       ''instance update/insert deadline exceeded heartbeat expiry time'' h2, db2)
               else
                 let h3 = (case err of Some e \<Rightarrow> ha_abort e h2 | None \<Rightarrow> h2)
                 in Ok (h3\<lparr>oldInstancesRemoved := True\<rparr>, db2)))"

definition ha_heartbeat :: "duration \<Rightarrow> (string \<Rightarrow> string) \<Rightarrow> hb_obs \<Rightarrow> ha \<Rightarrow> ha_db \<Rightarrow> (string, ha \<times> ha_db) outcome" where
  "ha_heartbeat defaultTimeout clean obs h db =
     (case ho_time obs of
        Inl e \<Rightarrow> Panic ''nil pointer dereference''
      | Inr tt \<Rightarrow>
          if tt < ho_now obs - peerTimeout then
            (let h1 = signalHandover (ho_now obs) (ho_rcv obs) ''received heartbeat from the past'' h
             in Ok (h1, realizeLostHeartbeat (ho_update_ok obs) h1 db))
          else
            bind_outcome
              (verifyNotificationsState defaultTimeout (ho_now obs) (ho_rcv obs) (ho_count_ok obs) (ho_update_ok obs) h db)
              (\<lambda>(handed_over, h1, db1). if handed_over then Ok (h1, db1) else ha_realize clean obs h1 db1))"

definition ha_lost :: "time \<Rightarrow> bool \<Rightarrow> bool \<Rightarrow> ha \<Rightarrow> ha_db \<Rightarrow> ha \<times> ha_db" where
  "ha_lost now rcv upd_ok h db =
     (let h1 = signalHandover now rcv ''lost heartbeat'' h in (h1, realizeLostHeartbeat upd_ok h1 db))"

definition removeInstance :: "ha \<Rightarrow> ha_db \<Rightarrow> ha_db" where
  "removeInstance h db = db\<lparr>instances := filter (\<lambda>r. in_Id r \<noteq> instanceId h) (instances db)\<rparr>"

definition removeOldInstances :: "time \<Rightarrow> IcingaStatus \<Rightarrow> bytes \<Rightarrow> ha \<Rightarrow> ha_db \<Rightarrow> ha_db" where
  "removeOldInstances now s envId h db =
     db\<lparr>instances := filter (\<lambda>r. \<not> (in_Id r \<noteq> instanceId h \<and> in_EnvironmentId r = envId \<and>
          in_EndpointId r = EndpointId s \<and> in_Heartbeat r < unix_milli (now - peerTimeout))) (instances db)\<rparr>"

section \<open>Several instances\<close>

text \<open>
  The running instances of one environment and the table they share. Each step is one event handled by
  one instance; an instance that has been cancelled may remove its row and stop.
\<close>

record ha_sys =
  running :: "bytes \<rightharpoonup> ha"
  table :: ha_db

text \<open>No row that says it is responsible has expired: the hypothesis under which runs are looked at.\<close>

definition all_fresh :: "bytes \<Rightarrow> time \<Rightarrow> ha_db \<Rightarrow> bool" where
  "all_fresh envId now db \<longleftrightarrow>
     (\<forall>r \<in> set (instances db). in_EnvironmentId r = envId \<and> in_Responsible r \<longrightarrow> \<not> expired now r)"

inductive ha_step :: "duration \<Rightarrow> (string \<Rightarrow> string) \<Rightarrow> bytes \<Rightarrow> (time \<Rightarrow> ha_db \<Rightarrow> bool) \<Rightarrow> ha_sys \<Rightarrow> ha_sys \<Rightarrow> bool"
  for defaultTimeout clean envId ok where
  start: "running s i = None \<Longrightarrow> \<forall>r \<in> set (instances (table s)). in_Id r \<noteq> i \<Longrightarrow>
    ha_step defaultTimeout clean envId ok s (s\<lparr>running := (running s)(i \<mapsto> NewHA i)\<rparr>)"
| heartbeat: "running s i = Some h \<Longrightarrow> ho_env obs = Inr envId \<Longrightarrow> ok (ro_now (ho_realize obs)) (table s) \<Longrightarrow>
    ha_heartbeat defaultTimeout clean obs h (table s) = Ok (h', db') \<Longrightarrow>
    ha_step defaultTimeout clean envId ok s (s\<lparr>running := (running s)(i \<mapsto> h'), table := db'\<rparr>)"
| lost: "running s i = Some h \<Longrightarrow> ha_lost now rcv upd_ok h (table s) = (h', db') \<Longrightarrow>
    ha_step defaultTimeout clean envId ok s (s\<lparr>running := (running s)(i \<mapsto> h'), table := db'\<rparr>)"
| notifications: "running s i = Some h \<Longrightarrow>
    ha_step defaultTimeout clean envId ok s (s\<lparr>running := (running s)(i \<mapsto> notifications_heartbeat now good h)\<rparr>)"
| cancel: "running s i = Some h \<Longrightarrow>
    ha_step defaultTimeout clean envId ok s (s\<lparr>running := (running s)(i \<mapsto> h\<lparr>cancelled := True\<rparr>)\<rparr>)"
| remove_old: "running s i = Some h \<Longrightarrow> ok now (table s) \<Longrightarrow>
    ha_step defaultTimeout clean envId ok s (s\<lparr>table := removeOldInstances now st envId h (table s)\<rparr>)"
| close: "running s i = Some h \<Longrightarrow> cancelled h \<Longrightarrow>
    ha_step defaultTimeout clean envId ok s (s\<lparr>running := (running s)(i := None), table := removeInstance h (table s)\<rparr>)"
| crash: "running s i = Some h \<Longrightarrow>
    ha_step defaultTimeout clean envId ok s (s\<lparr>running := (running s)(i := None)\<rparr>)"

inductive ha_reach :: "duration \<Rightarrow> (string \<Rightarrow> string) \<Rightarrow> bytes \<Rightarrow> (time \<Rightarrow> ha_db \<Rightarrow> bool) \<Rightarrow> ha_sys \<Rightarrow> bool"
  for defaultTimeout clean envId ok where
  init: "ha_reach defaultTimeout clean envId ok \<lparr>running = Map.empty, table = \<lparr>instances = [], environments = {}\<rparr>\<rparr>"
| step: "ha_reach defaultTimeout clean envId ok s \<Longrightarrow> ha_step defaultTimeout clean envId ok s s' \<Longrightarrow>
    ha_reach defaultTimeout clean envId ok s'"

section \<open>Who claims to be responsible\<close>

text \<open>
  The rows that claim responsibility; what holds of an instance and the table; and what one step of
  this instance does to the others.
\<close>

definition claims :: "bytes \<Rightarrow> ha_db \<Rightarrow> bytes set" where
  "claims envId db = {in_Id r | r. r \<in> set (instances db) \<and> in_EnvironmentId r = envId \<and> in_Responsible r}"

definition table_ok :: "bytes \<Rightarrow> ha_db \<Rightarrow> bool" where
  "table_ok envId db \<longleftrightarrow> (\<forall>x \<in> claims envId db. \<forall>y \<in> claims envId db. x = y)"

definition node_ok :: "bytes \<Rightarrow> bytes \<Rightarrow> ha \<Rightarrow> ha_db \<Rightarrow> bool" where
  "node_ok envId i h db \<longleftrightarrow> table_ok envId db \<and> instanceId h = i \<and> (responsible h \<longrightarrow> i \<in> claims envId db) \<and>
     (environment h = None \<or> environment h = Some envId)"

definition keeps :: "bytes \<Rightarrow> bytes \<Rightarrow> ha \<Rightarrow> ha_db \<Rightarrow> ha \<Rightarrow> ha_db \<Rightarrow> bool" where
  "keeps envId i h db h' db' \<longleftrightarrow> (node_ok envId i h db \<longrightarrow>
     node_ok envId i h' db' \<and> claims envId db - {i} \<subseteq> claims envId db')"

lemma keeps_refl: "keeps envId i h db h db"
  by (simp add: keeps_def)

lemma keeps_trans: "keeps envId i h db h' db' \<Longrightarrow> keeps envId i h' db' h'' db'' \<Longrightarrow> keeps envId i h db h'' db''"
  by (auto simp: keeps_def)

lemma keeps_node:
  "instanceId h' = instanceId h \<Longrightarrow> responsible h' \<longrightarrow> responsible h \<Longrightarrow>
   environment h' = environment h \<or> environment h' = Some envId \<Longrightarrow> keeps envId i h db h' db"
  by (auto simp: keeps_def node_ok_def)

lemma store_state_simps [simp]:
  "instanceId (store_state st h) = instanceId h" "environment (store_state st h) = environment h"
  "notifications (store_state st h) = notifications h" "cancelled (store_state st h) = cancelled h"
  "responsible (store_state st h) = responsible h" "signals (store_state st h) = signals h"
  "ha_state (store_state st h) = st" "ha_history (store_state st h) = ha_history h @ [HaStored st]"
  by (simp_all add: store_state_def)

lemma signalHandover_frame [simp]:
  "instanceId (signalHandover now rcv r h) = instanceId h"
  "environment (signalHandover now rcv r h) = environment h"
  "notifications (signalHandover now rcv r h) = notifications h"
  "cancelled (signalHandover now rcv r h) = cancelled h"
  "responsible (signalHandover now rcv r h) \<longleftrightarrow> responsible h \<and> cancelled h \<and> \<not> rcv"
  by (auto simp: signalHandover_def Let_def)

lemma signalTakeover_frame [simp]:
  "instanceId (signalTakeover now rcv r h) = instanceId h"
  "environment (signalTakeover now rcv r h) = environment h"
  "responsible (signalTakeover now rcv r h) \<longleftrightarrow> responsible h \<or> \<not> cancelled h \<or> rcv"
  by (auto simp: signalTakeover_def Let_def)

lemma ha_abort_frame [simp]:
  "instanceId (ha_abort e h) = instanceId h" "environment (ha_abort e h) = environment h"
  "responsible (ha_abort e h) = responsible h"
  by (auto simp: ha_abort_def)

lemma probe_frame:
  "probeNotificationsSocketPath clean obs h = (sock, h') \<Longrightarrow>
   instanceId h' = instanceId h \<and> environment h' = environment h \<and> responsible h' = responsible h \<and>
   cancelled h' = cancelled h \<and> ha_state h' = ha_state h"
  by (auto simp: probeNotificationsSocketPath_def Let_def split: if_splits)

lemma claims_mem: "x \<in> claims envId db \<longleftrightarrow>
    (\<exists>r \<in> set (instances db). in_Id r = x \<and> in_EnvironmentId r = envId \<and> in_Responsible r)"
  by (auto simp: claims_def)

lemma claims_upsert:
  "in_EnvironmentId r = envId \<Longrightarrow> claims envId (db\<lparr>instances := upsert_row r (instances db)\<rparr>) =
     (claims envId db - {in_Id r}) \<union> (if in_Responsible r then {in_Id r} else {})"
  by (rule set_eqI) (auto simp: claims_mem upsert_row_def)

lemma claims_map:
  assumes "\<And>r. in_Id (f r) = in_Id r" and "\<And>r. in_EnvironmentId (f r) = in_EnvironmentId r"
    and "instances db' = map f rows"
  shows "x \<in> claims envId db' \<longleftrightarrow> (\<exists>r \<in> set rows. in_Id r = x \<and> in_EnvironmentId r = envId \<and> in_Responsible (f r))"
  using assms by (simp add: claims_mem)

lemma claims_demote:
  "claims envId (db\<lparr>instances := demote_others envId self rows, environments := e\<rparr>) =
   claims envId (db\<lparr>instances := rows\<rparr>) \<inter> {self}"
proof (rule set_eqI)
  fix x
  let ?f = "\<lambda>r. if in_EnvironmentId r = envId \<and> in_Id r \<noteq> self then r\<lparr>in_Responsible := False\<rparr> else r"
  have "x \<in> claims envId (db\<lparr>instances := demote_others envId self rows, environments := e\<rparr>) \<longleftrightarrow>
      (\<exists>r \<in> set rows. in_Id r = x \<and> in_EnvironmentId r = envId \<and> in_Responsible (?f r))"
    by (rule claims_map) (simp_all add: demote_others_def)
  then show "x \<in> claims envId (db\<lparr>instances := demote_others envId self rows, environments := e\<rparr>) \<longleftrightarrow>
      x \<in> claims envId (db\<lparr>instances := rows\<rparr>) \<inter> {self}"
    by (auto simp: claims_mem)
qed

lemma claims_lost:
  "claims envId (realizeLostHeartbeat ok h db) =
   (if ok \<and> \<not> cancelled h then claims envId db - {instanceId h} else claims envId db)"
proof (cases "ok \<and> \<not> cancelled h")
  case True
  let ?f = "\<lambda>r. if in_Id r = instanceId h
      then r\<lparr>in_Responsible := False, NotificationsHealthy := healthy (notifications h)\<rparr> else r"
  have "x \<in> claims envId (realizeLostHeartbeat ok h db) \<longleftrightarrow>
      (\<exists>r \<in> set (instances db). in_Id r = x \<and> in_EnvironmentId r = envId \<and> in_Responsible (?f r))" for x
    using True by (intro claims_map) (simp_all add: realizeLostHeartbeat_def)
  then have "x \<in> claims envId (realizeLostHeartbeat ok h db) \<longleftrightarrow> x \<in> claims envId db \<and> x \<noteq> instanceId h" for x
    by (simp only: claims_mem) (auto split: if_splits)
  then show ?thesis using True by auto
qed (auto simp: realizeLostHeartbeat_def)

lemma claims_others: "others_responsible envId self db = [] \<longleftrightarrow> claims envId db \<subseteq> {self}"
proof -
  have "claims envId db \<subseteq> {self} \<longleftrightarrow> (\<forall>x. x \<in> claims envId db \<longrightarrow> x = self)" by blast
  then show ?thesis by (auto simp: others_responsible_def claims_mem filter_empty_conv)
qed

lemma decide_fresh:
  assumes "all_fresh envId now db" and "decide now envId h db = (takeover, other)"
  shows "takeover \<noteq> None \<longrightarrow> claims envId db \<subseteq> {instanceId h} \<and> \<not> responsible h"
proof (cases "others_responsible envId (instanceId h) db")
  case Nil
  then show ?thesis using assms claims_others [of envId "instanceId h" db] by (auto simp: decide_def split: if_splits)
next
  case (Cons r rs)
  then have "r \<in> set (others_responsible envId (instanceId h) db)" by simp
  then have "\<not> expired now r" using assms(1) by (auto simp: others_responsible_def all_fresh_def)
  then show ?thesis using assms(2) Cons by (simp add: decide_def split: if_splits)
qed

text \<open>A committed transaction, and what the instance makes of it.\<close>

lemma own_row_simps [simp]:
  "in_Id (own_row s envId lm resp sock h) = instanceId h"
  "in_EnvironmentId (own_row s envId lm resp sock h) = envId"
  "in_Responsible (own_row s envId lm resp sock h) = resp"
  by (simp_all add: own_row_def)

lemma realize_tx_claims:
  assumes "realize_tx now s envId lm sock h db = (takeover, other, db')"
  shows "(takeover, other) = decide now envId h db \<and> claims envId db' =
    (if takeover \<noteq> None then {instanceId h}
     else if responsible h then insert (instanceId h) (claims envId db) else claims envId db - {instanceId h})"
  using assms by (auto simp: realize_tx_def Let_def claims_upsert claims_demote split: prod.splits if_splits)

lemma after_commit_frame:
  "instanceId (after_commit obs takeover other h) = instanceId h"
  "environment (after_commit obs takeover other h) = environment h"
  "responsible (after_commit obs takeover other h) \<Longrightarrow> responsible h \<or> takeover \<noteq> None"
  by (auto simp: after_commit_def Let_def split: option.splits if_splits)

lemma realize_keeps:
  assumes fresh: "all_fresh envId (ro_now obs) db" and r: "realize clean obs s envId h db = (err, h', db')"
  shows "keeps envId i h db h' db'"
proof -
  obtain sock h1 where p: "probeNotificationsSocketPath clean (ro_socket obs) h = (sock, h1)" by fastforce
  note pf = probe_frame [OF p]
  obtain takeover other db1 where tx: "realize_tx (ro_now obs) s envId (ro_lastMessage obs) sock h1 db = (takeover, other, db1)"
    by (metis prod_cases3)
  note cl = realize_tx_claims [OF tx]
  have tk: "takeover \<noteq> None \<longrightarrow> claims envId db \<subseteq> {instanceId h} \<and> \<not> responsible h"
    using decide_fresh [OF fresh, of h1 takeover other] cl pf by simp
  have k1: "keeps envId i h db h1 db" using pf by (intro keeps_node) auto
  have c1: "keeps envId i h db g db1"
    if "instanceId g = instanceId h" "environment g = environment h"
      "responsible g \<Longrightarrow> responsible h \<or> takeover \<noteq> None" for g
    using cl tk pf that by (auto simp: keeps_def node_ok_def table_ok_def split: if_splits)
  show ?thesis
  proof (cases "ro_tx obs")
    case TxCommitted
    then have "h' = after_commit obs takeover other h1" "db' = db1"
      using r p tx by (auto simp: realize_def)
    then show ?thesis using c1 after_commit_frame [of obs takeover other h1] pf by auto
  next
    case (TxNotBegun e)
    then show ?thesis using r p tx by (auto simp: realize_def keeps_refl)
  next
    case (TxRolledBack e)
    then show ?thesis using r p tx k1 by (auto simp: realize_def)
  next
    case (TxAbandoned d)
    then show ?thesis using r p tx k1 c1 [of h1] pf by (auto simp: realize_def split: if_splits)
  qed
qed

lemma handed_over_keeps:
  "keeps envId i h db (signalHandover now rcv r h) (realizeLostHeartbeat ok (signalHandover now rcv r h) db)"
  by (auto simp: keeps_def node_ok_def table_ok_def claims_lost)

lemma verify_keeps:
  assumes "verifyNotificationsState dt now rcv count_ok upd_ok h db = Ok (b, h', db')"
  shows "keeps envId i h db h' db'"
proof -
  have n: "keeps envId i h db (h\<lparr>notifications := n\<rparr>) db" for n by (intro keeps_node) auto
  have m: "keeps envId i g d (g\<lparr>notifications := n\<rparr>) d" for g d n by (intro keeps_node) auto
  show ?thesis
    using assms n keeps_trans [OF n keeps_trans [OF handed_over_keeps m]]
    by (auto simp: verifyNotificationsState_def Let_def split: if_splits)
qed

lemma check_environment_keeps:
  "ho_env obs = Inr envId \<Longrightarrow> check_environment obs h = Ok h' \<Longrightarrow>
   keeps envId i h db h' db \<and> environment h' = Some envId"
  by (auto simp: check_environment_def Let_def keeps_def node_ok_def split: if_splits)

lemma ha_realize_keeps:
  assumes env: "ho_env obs = Inr envId" and fresh: "all_fresh envId (ro_now (ho_realize obs)) db"
    and r: "ha_realize clean obs h db = Ok (h', db')"
  shows "keeps envId i h db h' db'"
proof (cases "ho_status obs")
  case (Inl e)
  then obtain h1 where h1: "check_environment obs (ha_abort e h) = Ok h1" "h' = h1\<lparr>oldInstancesRemoved := True\<rparr>" "db' = db"
    using r by (auto simp: ha_realize_def bind_outcome_Ok_iff)
  have "keeps envId i h db (ha_abort e h) db" by (intro keeps_node) auto
  moreover have "keeps envId i (ha_abort e h) db h1 db" using check_environment_keeps [OF env h1(1)] by simp
  moreover have "keeps envId i h1 db h' db" using h1(2) by (intro keeps_node) auto
  ultimately show ?thesis using h1(3) keeps_trans by blast
next
  case (Inr s)
  then obtain h1 where h1: "check_environment obs h = Ok h1"
    using r by (auto simp: ha_realize_def bind_outcome_Ok_iff)
  note ce = check_environment_keeps [OF env h1, of i db]
  obtain err h2 db2 where rl: "realize clean (ho_realize obs) s envId h1 db = (err, h2, db2)" by (metis prod_cases3)
  have k2: "keeps envId i h db h2 db2" using ce keeps_trans realize_keeps [OF fresh rl] by blast
  have "db' = db2 \<and> instanceId h' = instanceId h2 \<and> environment h' = environment h2 \<and> (responsible h' \<longrightarrow> responsible h2)"
    using r Inr h1 ce rl by (auto simp: ha_realize_def Let_def split: if_splits option.splits)
  then have "keeps envId i h2 db2 h' db'" using keeps_node [of h' h2 envId i db2] by simp
  then show ?thesis using k2 keeps_trans by blast
qed

lemma ha_heartbeat_keeps:
  assumes env: "ho_env obs = Inr envId" and fresh: "all_fresh envId (ro_now (ho_realize obs)) db"
    and r: "ha_heartbeat dt clean obs h db = Ok (h', db')"
  shows "keeps envId i h db h' db'"
proof (cases "ho_time obs")
  case (Inl e)
  then show ?thesis using r by (simp add: ha_heartbeat_def)
next
  case (Inr tt)
  show ?thesis
  proof (cases "tt < ho_now obs - peerTimeout")
    case True
    then show ?thesis using r Inr handed_over_keeps by (auto simp: ha_heartbeat_def Let_def)
  next
    case False
    then obtain b h1 db1 where v: "verifyNotificationsState dt (ho_now obs) (ho_rcv obs) (ho_count_ok obs) (ho_update_ok obs) h db
        = Ok (b, h1, db1)" "if b then h' = h1 \<and> db' = db1 else ha_realize clean obs h1 db1 = Ok (h', db')"
      using r Inr by (auto simp: ha_heartbeat_def bind_outcome_Ok_iff split: if_splits)
    have db1: "\<not> b \<Longrightarrow> db1 = db" using v(1) by (auto simp: verifyNotificationsState_def Let_def split: if_splits)
    show ?thesis
    proof (cases b)
      case True
      then show ?thesis using v verify_keeps by auto
    next
      case False
      then show ?thesis
        using v db1 verify_keeps [OF v(1)] ha_realize_keeps [OF env fresh, of clean h1 h' db'] keeps_trans by fastforce
    qed
  qed
qed

section \<open>The invariant of the instances\<close>

definition ha_inv :: "bytes \<Rightarrow> ha_sys \<Rightarrow> bool" where
  "ha_inv envId s \<longleftrightarrow> table_ok envId (table s) \<and> (\<forall>i h. running s i = Some h \<longrightarrow> node_ok envId i h (table s))"

lemma ha_inv_keeps:
  assumes inv: "ha_inv envId s" and i: "running s i = Some h" and k: "keeps envId i h (table s) h' db'"
  shows "ha_inv envId (s\<lparr>running := (running s)(i \<mapsto> h'), table := db'\<rparr>)"
proof -
  have "node_ok envId i h (table s)" using inv i by (simp add: ha_inv_def)
  then have n: "node_ok envId i h' db'" and c: "claims envId (table s) - {i} \<subseteq> claims envId db'"
    using k by (simp_all add: keeps_def)
  have "node_ok envId j g db'" if "running s j = Some g" "j \<noteq> i" for j g
  proof -
    have "node_ok envId j g (table s)" using inv that by (simp add: ha_inv_def)
    then show ?thesis using n c that(2) by (auto simp: node_ok_def)
  qed
  then show ?thesis using n by (auto simp: ha_inv_def node_ok_def)
qed

lemma expired_by_database: "in_Heartbeat r < unix_milli (now - peerTimeout) \<Longrightarrow> expired now r"
proof -
  have d: "1000000 * (n div 1000000) \<le> n" for n :: int
    using mult_div_mod_eq [of 1000000 n] pos_mod_sign [of 1000000 n] by linarith
  assume "in_Heartbeat r < unix_milli (now - peerTimeout)"
  then have "in_Heartbeat r < (now - peerTimeout) div 1000000"
    by (simp only: unix_milli_def nanos_per_milli_def)
  then have "in_Heartbeat r * 1000000 < now - peerTimeout" using d [of "now - peerTimeout"] by linarith
  then show "expired now r" by (simp add: expired_def from_unix_milli_def nanos_per_milli_def)
qed

lemma remove_old_claims:
  assumes "all_fresh envId now db"
  shows "claims envId (removeOldInstances now st envId h db) = claims envId db"
  using assms expired_by_database by (fastforce simp: claims_mem removeOldInstances_def all_fresh_def)

lemma node_ok_claims: "claims envId db' = claims envId db \<Longrightarrow> node_ok envId i h db' = node_ok envId i h db"
  "claims envId db' = claims envId db \<Longrightarrow> table_ok envId db' = table_ok envId db"
  by (simp_all add: node_ok_def table_ok_def)

lemma ha_step_inv: "ha_step dt clean envId (all_fresh envId) s s' \<Longrightarrow> ha_inv envId s \<Longrightarrow> ha_inv envId s'"
proof (induction rule: ha_step.induct)
  case (start s i)
  then show ?case by (auto simp: ha_inv_def node_ok_def NewHA_def)
next
  case (heartbeat s i h obs h' db')
  show ?case by (rule ha_inv_keeps [OF heartbeat(5,1) ha_heartbeat_keeps [OF heartbeat(2,3,4)]])
next
  case (lost s i h now rcv upd_ok h' db')
  then have "keeps envId i h (table s) h' db'" using handed_over_keeps by (auto simp: ha_lost_def Let_def)
  then show ?case by (rule ha_inv_keeps [OF lost(3,1)])
next
  case (notifications s i h now good)
  have "keeps envId i h (table s) (notifications_heartbeat now good h) (table s)"
    by (intro keeps_node) (auto simp: notifications_heartbeat_def Let_def)
  then show ?case using ha_inv_keeps [OF notifications(2,1)] by fastforce
next
  case (cancel s i h)
  have "keeps envId i h (table s) (h\<lparr>cancelled := True\<rparr>) (table s)" by (intro keeps_node) auto
  then show ?case using ha_inv_keeps [OF cancel(2,1)] by fastforce
next
  case (remove_old s i h now st)
  note c = remove_old_claims [OF remove_old(2), of st h]
  then show ?case using remove_old(3) node_ok_claims [OF c] by (simp add: ha_inv_def)
next
  case (close s i h)
  have id: "instanceId h = i" using close by (simp add: ha_inv_def node_ok_def)
  have c: "claims envId (removeInstance h (table s)) = claims envId (table s) - {i}"
    using id by (auto simp: claims_mem removeInstance_def)
  have "node_ok envId j g (removeInstance h (table s))" if "running s j = Some g" "j \<noteq> i" for j g
  proof -
    have "node_ok envId j g (table s)" using close(3) that by (simp add: ha_inv_def)
    then show ?thesis using c that(2) by (auto simp: node_ok_def table_ok_def)
  qed
  moreover have "table_ok envId (removeInstance h (table s))"
    using close(3) c by (auto simp: ha_inv_def table_ok_def)
  ultimately show ?case by (auto simp: ha_inv_def)
next
  case (crash s i h)
  then show ?case by (auto simp: ha_inv_def)
qed

lemma ha_reach_inv: "ha_reach dt clean envId (all_fresh envId) s \<Longrightarrow> ha_inv envId s"
proof (induction rule: ha_reach.induct)
  case init
  show ?case by (simp add: ha_inv_def table_ok_def claims_def)
next
  case (step s s')
  then show ?case using ha_step_inv by blast
qed

end
