(* ===== verification/Ha_Props.thy ===== *)
theory Ha_Props
  imports Ha
begin

text \<open>
  A concrete run of two instances for the witnesses, and what goes wrong where the hypothesis of mutual
  exclusion fails: two instances that are responsible drop both, and a heartbeat without a valid time
  ends the process.
\<close>

section \<open>A concrete run\<close>

definition sample_status :: IcingaStatus where
  "sample_status = \<lparr>Version = ''r2.15'', ProgramStart = 0, EndpointId = Some [9],
     NotificationsEnabled = MakeBool True, ActiveServiceChecksEnabled = MakeBool True,
     ActiveHostChecksEnabled = MakeBool True, EventHandlersEnabled = MakeBool True,
     FlapDetectionEnabled = MakeBool True, PerformanceDataEnabled = MakeBool True\<rparr>"

definition sample_realize :: "int \<Rightarrow> realize_obs" where
  "sample_realize ms = \<lparr>ro_now = from_unix_milli ms, ro_lastMessage = ms,
     ro_socket = \<lparr>env_path = [], stat_socket = None, access_ok = False\<rparr>, ro_tx = TxCommitted, ro_rcv = True\<rparr>"

definition sample_hb :: "int \<Rightarrow> hb_obs" where
  "sample_hb ms = \<lparr>ho_now = from_unix_milli ms, ho_time = Inr (from_unix_milli ms), ho_status = Inr sample_status,
     ho_env = Inr [7], ho_count_ok = True, ho_update_ok = True, ho_rcv = True, ho_late = False,
     ho_realize = sample_realize ms\<rparr>"

definition sample_node :: "8 word \<Rightarrow> int \<Rightarrow> bool \<Rightarrow> ha" where
  "sample_node i ms r = (NewHA [i])\<lparr>
     ha_state := \<lparr>responsibleTsMilli = ms, st_responsible = r, st_otherResponsible = False\<rparr>,
     environment := Some [7], responsible := r, oldInstancesRemoved := True,
     signals := [Takeover ''no other instance is active''],
     ha_history := [HaStored \<lparr>responsibleTsMilli = ms, st_responsible = r, st_otherResponsible = False\<rparr>,
       HaSent (Takeover ''no other instance is active'')]\<rparr>"

definition sample_passive_node :: "8 word \<Rightarrow> ha" where
  "sample_passive_node i = (NewHA [i])\<lparr>
     ha_state := \<lparr>responsibleTsMilli = 0, st_responsible = False, st_otherResponsible = True\<rparr>,
     environment := Some [7], oldInstancesRemoved := True,
     ha_history := [HaStored \<lparr>responsibleTsMilli = 0, st_responsible = False, st_otherResponsible = True\<rparr>]\<rparr>"

definition sample_own_row :: "8 word \<Rightarrow> int \<Rightarrow> bool \<Rightarrow> IcingadbInstance" where
  "sample_own_row i ms r = own_row sample_status [7] ms r null_string (NewHA [i])"

lemmas sample_ha_defs = sample_hb_def sample_realize_def sample_node_def sample_own_row_def NewHA_def

lemma sample_first_heartbeat:
  "ha_heartbeat (300 * second) (\<lambda>p. p) (sample_hb 1000) (NewHA [1]) \<lparr>instances = [], environments = {}\<rparr> =
   Ok (sample_node 1 1000 True, \<lparr>instances = [sample_own_row 1 1000 True], environments = {[7]}\<rparr>)"
  by (simp add: ha_heartbeat_def sample_ha_defs peerTimeout_def Timeout_def second_def
      from_unix_milli_def nanos_per_milli_def verifyNotificationsState_def no_notifications_def IsValidUnhealthy_def
      null_bool_def null_string_def ha_realize_def check_environment_def realize_def
      probeNotificationsSocketPath_def realize_tx_def decide_def others_responsible_def own_row_def upsert_row_def
      demote_others_def after_commit_def signalTakeover_def store_state_def unix_milli_def Let_def)

lemma sample_ha_reach:
  "ha_reach (300 * second) (\<lambda>p. p) [7] (all_fresh [7])
     \<lparr>running = [[1] \<mapsto> sample_node 1 1000 True], table = \<lparr>instances = [sample_own_row 1 1000 True], environments = {[7]}\<rparr>\<rparr>"
proof -
  let ?s0 = "\<lparr>running = Map.empty, table = \<lparr>instances = [], environments = {}\<rparr>\<rparr>"
  let ?s1 = "?s0\<lparr>running := (running ?s0)([1] \<mapsto> NewHA [1])\<rparr>"
  have 1: "ha_reach (300 * second) (\<lambda>p. p) [7] (all_fresh [7]) ?s1"
    by (rule ha_reach.step [OF ha_reach.init ha_step.start]) simp_all
  have hb: "ha_heartbeat (300 * second) (\<lambda>p. p) (sample_hb 1000) (NewHA [1]) (table ?s1) =
      Ok (sample_node 1 1000 True, \<lparr>instances = [sample_own_row 1 1000 True], environments = {[7]}\<rparr>)"
    using sample_first_heartbeat by simp
  have "ha_step (300 * second) (\<lambda>p. p) [7] (all_fresh [7]) ?s1
      (?s1\<lparr>running := (running ?s1)([1] \<mapsto> sample_node 1 1000 True),
           table := \<lparr>instances = [sample_own_row 1 1000 True], environments = {[7]}\<rparr>\<rparr>)"
    by (rule ha_step.heartbeat [OF _ _ _ hb]) (simp_all add: sample_hb_def all_fresh_def)
  from ha_reach.step [OF 1 this] show ?thesis by simp
qed

section \<open>Properties\<close>

text \<open>The run goes on: a second instance starts and sees the first, which then crashes.\<close>

lemma sample_second_heartbeat:
  "ha_heartbeat (300 * second) (\<lambda>p. p) (sample_hb 2000) (NewHA [2])
     \<lparr>instances = [sample_own_row 1 1000 True], environments = {[7]}\<rparr> =
   Ok (sample_passive_node 2, \<lparr>instances = [sample_own_row 1 1000 True, sample_own_row 2 2000 False], environments = {[7]}\<rparr>)"
  by (simp add: ha_heartbeat_def sample_ha_defs sample_passive_node_def peerTimeout_def Timeout_def second_def
      from_unix_milli_def nanos_per_milli_def verifyNotificationsState_def no_notifications_def IsValidUnhealthy_def
      null_bool_def null_string_def ha_realize_def check_environment_def realize_def
      probeNotificationsSocketPath_def realize_tx_def decide_def others_responsible_def own_row_def upsert_row_def
      expired_def after_commit_def store_state_def Let_def)

lemma sample_two_instances:
  "ha_reach (300 * second) (\<lambda>p. p) [7] (all_fresh [7])
     \<lparr>running = [[1] \<mapsto> sample_node 1 1000 True, [2] \<mapsto> sample_passive_node 2],
      table = \<lparr>instances = [sample_own_row 1 1000 True, sample_own_row 2 2000 False], environments = {[7]}\<rparr>\<rparr>"
proof -
  let ?s1 = "\<lparr>running = [[1] \<mapsto> sample_node 1 1000 True], table = \<lparr>instances = [sample_own_row 1 1000 True], environments = {[7]}\<rparr>\<rparr>"
  let ?s2 = "?s1\<lparr>running := (running ?s1)([2] \<mapsto> NewHA [2])\<rparr>"
  have 2: "ha_reach (300 * second) (\<lambda>p. p) [7] (all_fresh [7]) ?s2"
    by (rule ha_reach.step [OF sample_ha_reach ha_step.start]) (simp_all add: sample_own_row_def NewHA_def)
  have hb: "ha_heartbeat (300 * second) (\<lambda>p. p) (sample_hb 2000) (NewHA [2]) (table ?s2) =
      Ok (sample_passive_node 2, \<lparr>instances = [sample_own_row 1 1000 True, sample_own_row 2 2000 False], environments = {[7]}\<rparr>)"
    using sample_second_heartbeat by simp
  have "ha_step (300 * second) (\<lambda>p. p) [7] (all_fresh [7]) ?s2
      (?s2\<lparr>running := (running ?s2)([2] \<mapsto> sample_passive_node 2),
           table := \<lparr>instances = [sample_own_row 1 1000 True, sample_own_row 2 2000 False], environments = {[7]}\<rparr>\<rparr>)"
    by (rule ha_step.heartbeat [OF _ _ _ hb])
      (simp_all add: sample_ha_defs own_row_def all_fresh_def expired_def from_unix_milli_def nanos_per_milli_def
        peerTimeout_def Timeout_def second_def)
  from ha_reach.step [OF 2 this] show ?thesis by simp
qed

lemma sample_first_crashed:
  "ha_reach (300 * second) (\<lambda>p. p) [7] (all_fresh [7])
     \<lparr>running = [[2] \<mapsto> sample_passive_node 2],
      table = \<lparr>instances = [sample_own_row 1 1000 True, sample_own_row 2 2000 False], environments = {[7]}\<rparr>\<rparr>"
proof -
  have gone: "[[1::8 word] \<mapsto> sample_node 1 1000 True, [2] \<mapsto> sample_passive_node 2]([1] := None) = [[2] \<mapsto> sample_passive_node 2]"
    by (rule ext) simp
  show ?thesis using ha_reach.step [OF sample_two_instances ha_step.crash [where i = "[1]" and h = "sample_node 1 1000 True"]] gone by simp
qed

text \<open>C4. As long as the rows that claim responsibility do not expire, at most one row of the environment claims it
  and at most one instance that runs is responsible, the one whose row says so: at every moment, through
  heartbeats, losses, unhealthy notifications, failed and abandoned transactions, shutdowns and crashes in any
  order. An instance that crashed may leave a row that claims responsibility, and then no other is responsible.\<close>

theorem ha_mutual_exclusion:
  assumes "ha_reach dt clean envId (all_fresh envId) s"
  shows "(\<forall>x y. x \<in> set (instances (table s)) \<and> in_EnvironmentId x = envId \<and> in_Responsible x \<and>
       y \<in> set (instances (table s)) \<and> in_EnvironmentId y = envId \<and> in_Responsible y \<longrightarrow> in_Id x = in_Id y) \<and>
    (\<forall>i h. running s i = Some h \<and> responsible h \<longrightarrow>
       (\<exists>r \<in> set (instances (table s)). in_Id r = i \<and> in_EnvironmentId r = envId \<and> in_Responsible r)) \<and>
    (\<forall>i h j g. running s i = Some h \<and> responsible h \<and> running s j = Some g \<and> responsible g \<longrightarrow> i = j)"
proof -
  have inv: "ha_inv envId s" using assms by (rule ha_reach_inv)
  then have one: "\<forall>x \<in> claims envId (table s). \<forall>y \<in> claims envId (table s). x = y"
    by (simp add: ha_inv_def table_ok_def)
  have own: "i \<in> claims envId (table s)" if "running s i = Some h" "responsible h" for i h
    using inv that by (auto simp: ha_inv_def node_ok_def)
  have row: "in_Id x \<in> claims envId (table s)"
    if "x \<in> set (instances (table s))" "in_EnvironmentId x = envId" "in_Responsible x" for x
    using that claims_mem by blast
  show ?thesis
  proof (intro conjI)
    show "\<forall>x y. x \<in> set (instances (table s)) \<and> in_EnvironmentId x = envId \<and> in_Responsible x \<and>
       y \<in> set (instances (table s)) \<and> in_EnvironmentId y = envId \<and> in_Responsible y \<longrightarrow> in_Id x = in_Id y"
      using one row by blast
    show "\<forall>i h. running s i = Some h \<and> responsible h \<longrightarrow>
       (\<exists>r \<in> set (instances (table s)). in_Id r = i \<and> in_EnvironmentId r = envId \<and> in_Responsible r)"
      using own claims_mem by blast
    show "\<forall>i h j g. running s i = Some h \<and> responsible h \<and> running s j = Some g \<and> responsible g \<longrightarrow> i = j"
      using one own by blast
  qed
qed

theorem ha_mutual_exclusion_witness:
  "\<exists>s g. ha_reach (300 * second) (\<lambda>p. p) [7] (all_fresh [7]) s \<and> running s [1] = None \<and> claims [7] (table s) = {[1]} \<and>
     running s [2] = Some g \<and> \<not> responsible g"
proof -
  let ?s = "\<lparr>running = [[2] \<mapsto> sample_passive_node 2],
      table = \<lparr>instances = [sample_own_row 1 1000 True, sample_own_row 2 2000 False], environments = {[7]}\<rparr>\<rparr>"
  have c: "claims [7] (table ?s) = {[1]}" by (rule set_eqI) (auto simp: claims_mem sample_own_row_def NewHA_def)
  have "\<not> responsible (sample_passive_node 2)"
  proof
    assume r: "responsible (sample_passive_node 2)"
    have "running ?s [2] = Some (sample_passive_node 2)" by simp
    with r have "\<exists>r \<in> set (instances (table ?s)). in_Id r = [2] \<and> in_EnvironmentId r = [7] \<and> in_Responsible r"
      using ha_mutual_exclusion [OF sample_first_crashed] by blast
    then show False by (simp add: sample_own_row_def NewHA_def)
  qed
  then show ?thesis using c sample_first_crashed by (intro exI [of _ ?s] exI [of _ "sample_passive_node 2"]) simp
qed

text \<open>An instance that is not responsible takes over when no other row claims responsibility, and
  then its row is the only one that does.\<close>

theorem ha_takes_over_alone:
  assumes "claims envId db \<subseteq> {instanceId h}" and "\<not> responsible h" and "\<not> cancelled h"
    and "ro_tx obs = TxCommitted" and "realize clean obs s envId h db = (err, h', db')"
  shows "err = None \<and> responsible h' \<and> claims envId db' = {instanceId h} \<and>
    signals h' = signals h @ [Takeover ''no other instance is active'']"
proof -
  obtain sock h1 where p: "probeNotificationsSocketPath clean (ro_socket obs) h = (sock, h1)" by fastforce
  note pf = probe_frame [OF p]
  have sg: "signals h1 = signals h" using p by (auto simp: probeNotificationsSocketPath_def Let_def split: if_splits)
  obtain takeover other db1 where tx: "realize_tx (ro_now obs) s envId (ro_lastMessage obs) sock h1 db = (takeover, other, db1)"
    by (metis prod_cases3)
  note cl = realize_tx_claims [OF tx]
  have "others_responsible envId (instanceId h1) db = []" using assms(1) pf claims_others by simp
  then have "takeover = Some ''no other instance is active''" using cl assms(2) pf by (simp add: decide_def)
  then show ?thesis using assms cl tx p pf sg by (auto simp: realize_def after_commit_def signalTakeover_def Let_def)
qed

theorem ha_takes_over_alone_witness:
  "\<exists>err h' db'. realize (\<lambda>p. p) (sample_realize 1000) sample_status [7] (NewHA [1])
      \<lparr>instances = [sample_own_row 2 900 False], environments = {}\<rparr> = (err, h', db') \<and> responsible h' \<and> claims [7] db' = {[1]}"
proof -
  obtain err h' db' where r: "realize (\<lambda>p. p) (sample_realize 1000) sample_status [7] (NewHA [1])
      \<lparr>instances = [sample_own_row 2 900 False], environments = {}\<rparr> = (err, h', db')" by (metis prod_cases3)
  have "claims [7] \<lparr>instances = [sample_own_row 2 900 False], environments = {}\<rparr> \<subseteq> {instanceId (NewHA [1])}"
    by (simp add: claims_def sample_own_row_def own_row_def)
  from ha_takes_over_alone [OF this _ _ _ r] r show ?thesis by (auto simp: NewHA_def sample_realize_def)
qed

text \<open>A lost heartbeat ends the responsibility: it is handed over, once, and the row of the
  instance no longer claims it.\<close>

theorem ha_lost_hands_over:
  assumes "\<not> cancelled h" and "ha_lost now rcv True h db = (h', db')"
  shows "\<not> responsible h' \<and> instanceId h \<notin> claims envId db' \<and>
    signals h' = signals h @ (if responsible h then [Handover ''lost heartbeat''] else []) \<and>
    claims envId db - {instanceId h} \<subseteq> claims envId db'"
proof -
  let ?g = "signalHandover now rcv ''lost heartbeat'' h"
  have h': "h' = ?g" and db': "db' = realizeLostHeartbeat True ?g db"
    using assms(2) by (auto simp: ha_lost_def Let_def)
  have "claims envId db' = claims envId db - {instanceId h}"
    unfolding db' by (simp add: claims_lost assms(1))
  moreover have "signals ?g = signals h @ (if responsible h then [Handover ''lost heartbeat''] else [])"
    using assms(1) by (simp add: signalHandover_def Let_def)
  ultimately show ?thesis using assms(1) h' by simp
qed

theorem ha_lost_hands_over_witness:
  "\<exists>h' db'. ha_lost 5 True True (sample_node 1 1000 True) \<lparr>instances = [sample_own_row 1 1000 True], environments = {}\<rparr> =
     (h', db') \<and> \<not> responsible h' \<and> [1] \<notin> claims [7] db'"
proof -
  obtain h' db' where r: "ha_lost 5 True True (sample_node 1 1000 True)
      \<lparr>instances = [sample_own_row 1 1000 True], environments = {}\<rparr> = (h', db')" by (metis surj_pair)
  have "\<not> cancelled (sample_node 1 1000 True)" by (simp add: sample_node_def NewHA_def)
  from ha_lost_hands_over [OF this r, of "[7]"] have "\<not> responsible h' \<and> [1] \<notin> claims [7] db'"
    by (simp add: sample_node_def NewHA_def)
  with r show ?thesis by blast
qed

text \<open>When two instances are responsible, because the heartbeat of one had expired in the meantime,
  the first to notice drops its responsibility, but writes a row that claims it in the same transaction;
  the other then drops as well, and no instance is responsible.\<close>

theorem ha_conflict_both_drop:
  assumes ids: "instanceId h \<noteq> instanceId g"
    and h: "responsible h" "st_responsible (ha_state h)" "\<not> cancelled h"
    and g: "responsible g" "st_responsible (ha_state g)" "\<not> cancelled g"
    and cl: "claims envId db = {instanceId g}"
    and fresh: "all_fresh envId (ro_now obs) db" "all_fresh envId (ro_now obs') db'"
    and tx: "ro_tx obs = TxCommitted" "ro_tx obs' = TxCommitted"
    and r1: "realize clean obs s envId h db = (e, h', db')"
    and r2: "realize clean obs' s' envId g db' = (e', g', db'')"
  shows "\<not> responsible h' \<and> instanceId h \<in> claims envId db' \<and> \<not> responsible g' \<and>
    claims envId db'' = {instanceId h, instanceId g}"
proof -
  have drop: "\<not> responsible h' \<and> claims envId db' = insert (instanceId h) (claims envId db)"
    if "x \<in> claims envId db" "x \<noteq> instanceId h" "responsible h" "st_responsible (ha_state h)" "\<not> cancelled h"
      "all_fresh envId (ro_now obs) db" "ro_tx obs = TxCommitted" "realize clean obs s envId h db = (e, h', db')"
    for x h obs s db e h' db'
  proof -
    obtain sock h1 where p: "probeNotificationsSocketPath clean (ro_socket obs) h = (sock, h1)" by fastforce
    note pf = probe_frame [OF p]
    obtain takeover other db1 where t: "realize_tx (ro_now obs) s envId (ro_lastMessage obs) sock h1 db = (takeover, other, db1)"
      by (metis prod_cases3)
    note c = realize_tx_claims [OF t]
    have tk: "takeover = None" using decide_fresh [OF that(6), of h1 takeover other] c pf that(3) by auto
    have "others_responsible envId (instanceId h1) db \<noteq> []" using claims_others that(1,2) pf by auto
    then have "other" using c tk by (auto simp: decide_def split: list.splits if_splits)
    then show ?thesis using that tk p t pf c
      by (auto simp: realize_def after_commit_def Let_def split: if_splits)
  qed
  have 1: "\<not> responsible h' \<and> claims envId db' = {instanceId h, instanceId g}"
    using drop [OF _ _ h fresh(1) tx(1) r1, of "instanceId g"] cl ids by auto
  then have "\<not> responsible g' \<and> claims envId db'' = insert (instanceId g) (claims envId db')"
    using drop [OF _ _ g fresh(2) tx(2) r2, of "instanceId h"] ids by auto
  with 1 show ?thesis by auto
qed

lemma sample_claims: "claims [7] \<lparr>instances = [sample_own_row 1 ms a, sample_own_row 2 ms' b], environments = es\<rparr> =
    (if a then {[1]} else {}) \<union> (if b then {[2]} else {})"
  by (rule set_eqI) (auto simp: claims_mem sample_own_row_def NewHA_def)

theorem ha_conflict_both_drop_witness:
  "\<exists>h' db' g' db''.
    realize (\<lambda>p. p) (sample_realize 2000) sample_status [7] (sample_node 1 500 True)
      \<lparr>instances = [sample_own_row 1 500 False, sample_own_row 2 1500 True], environments = {}\<rparr> = (None, h', db') \<and>
    realize (\<lambda>p. p) (sample_realize 2500) sample_status [7] (sample_node 2 1500 True) db' = (None, g', db'') \<and>
    \<not> responsible h' \<and> \<not> responsible g'"
proof -
  let ?db = "\<lparr>instances = [sample_own_row 1 500 False, sample_own_row 2 1500 True], environments = {}\<rparr>"
  let ?db' = "\<lparr>instances = [own_row sample_status [7] 2000 True null_string (sample_node 1 500 True),
      sample_own_row 2 1500 True], environments = {}\<rparr>"
  obtain h' where r1: "realize (\<lambda>p. p) (sample_realize 2000) sample_status [7] (sample_node 1 500 True) ?db = (None, h', ?db')"
    by (simp add: realize_def sample_ha_defs probeNotificationsSocketPath_def no_notifications_def null_string_def
        realize_tx_def decide_def others_responsible_def own_row_def expired_def from_unix_milli_def nanos_per_milli_def
        peerTimeout_def Timeout_def second_def upsert_row_def Let_def)
  obtain g' db'' where r2: "realize (\<lambda>p. p) (sample_realize 2500) sample_status [7] (sample_node 2 1500 True) ?db' = (None, g', db'')"
    by (simp add: realize_def sample_ha_defs probeNotificationsSocketPath_def no_notifications_def null_string_def
        realize_tx_def decide_def others_responsible_def own_row_def expired_def from_unix_milli_def nanos_per_milli_def
        peerTimeout_def Timeout_def second_def upsert_row_def Let_def)
  have f: "all_fresh [7] (ro_now (sample_realize 2000)) ?db" "all_fresh [7] (ro_now (sample_realize 2500)) ?db'"
    by (simp_all add: all_fresh_def expired_def sample_ha_defs own_row_def from_unix_milli_def
        nanos_per_milli_def peerTimeout_def Timeout_def second_def)
  have "\<not> responsible h' \<and> [1] \<in> claims [7] ?db' \<and> \<not> responsible g' \<and> claims [7] db'' = {[1], [2]}"
    using ha_conflict_both_drop [OF _ _ _ _ _ _ _ _ f _ _ r1 r2] sample_claims [of 500 False 1500 True "{}"]
    by (simp add: sample_node_def NewHA_def sample_realize_def)
  with r1 r2 show ?thesis by blast
qed

text \<open>A heartbeat whose time cannot be decoded is passed on by the heartbeat reader, and ends the
  process of the receiver: after \<open>abort\<close> the controller goes on and uses the nil pointer.\<close>

theorem invalid_heartbeat_time_panics:
  assumes "active hb" and "stats_Time unjson_time (hm_stats m) = Inl e"
  shows "\<exists>hb'. hb_message unjson_id unjson_time m hb = Ok hb' \<and> events hb' = Some (Some m) \<and> lastMessageMs hb' = 0 \<and>
    (\<forall>obs. ho_time obs = stats_Time unjson_time (hm_stats m) \<longrightarrow> is_panic (ha_heartbeat dt clean obs h db))"
  using assms by (simp add: hb_message_def ha_heartbeat_def Let_def)

theorem invalid_heartbeat_time_panics_witness:
  "\<exists>hb'. hb_message (\<lambda>_. Inr None) (\<lambda>_. Inl ''bad'') sample_heartbeat (NewHeartbeat\<lparr>active := True\<rparr>) = Ok hb' \<and>
    is_panic (ha_heartbeat second (\<lambda>p. p) ((sample_hb 1)\<lparr>ho_time := Inl ''bad message: timestamp missing''\<rparr>) (NewHA [1])
      \<lparr>instances = [], environments = {}\<rparr>)"
proof -
  have t: "stats_Time (\<lambda>_. Inl ''bad'') (hm_stats sample_heartbeat) = Inl ''bad message: timestamp missing''"
    by (simp add: stats_Time_def sample_heartbeat_def)
  show ?thesis
    using invalid_heartbeat_time_panics [OF _ t, where hb = "NewHeartbeat\<lparr>active := True\<rparr>" and unjson_id = "\<lambda>_. Inr None"
        and dt = second and clean = "\<lambda>p. p" and h = "NewHA [1]" and db = "\<lparr>instances = [], environments = {}\<rparr>"] t
    by fastforce
qed

end
