(* ===== verification/History_Stage.thy ===== *)
theory History_Stage
  imports Idb_Prelude
begin

text \<open>
  The contract of a stage of the history pipeline (\<open>StageFunc\<close> in \<open>pkg/icingadb/history/sync.go\<close>) as a
  locale over labelled transition systems, and the pipelines that \<open>Sync\<close> builds from a list of stages:
  what holds of every stage holds of the pipeline.
\<close>

section \<open>Runs\<close>

text \<open>A stage takes a message from its input, forwards one to its output, or does something else.\<close>

datatype 'm stage_label = Take 'm | Forward 'm | Internal

inductive lts_run :: "('s \<Rightarrow> 'm stage_label \<Rightarrow> 's \<Rightarrow> bool) \<Rightarrow> 's \<Rightarrow> 'm stage_label list \<Rightarrow> 's \<Rightarrow> bool" for stp where
  lts_nil: "lts_run stp s [] s"
| lts_snoc: "lts_run stp s ls t \<Longrightarrow> stp t l u \<Longrightarrow> lts_run stp s (ls @ [l]) u"

lemma lts_run_Cons:
  assumes "stp s l t" and "lts_run stp t ls u"
  shows "lts_run stp s (l # ls) u"
  using assms(2,1)
proof (induction t ls u rule: lts_run.induct)
  case (lts_nil t)
  then show ?case using lts_run.lts_snoc [OF lts_run.lts_nil, of stp s l t] by simp
next
  case (lts_snoc t ls u l' v)
  then have "lts_run stp s (l # ls) u" by blast
  then show ?case using lts_run.lts_snoc lts_snoc(2) by fastforce
qed

fun takes :: "'m stage_label list \<Rightarrow> 'm list" where
  "takes [] = []"
| "takes (Take m # ls) = m # takes ls"
| "takes (Forward m # ls) = takes ls"
| "takes (Internal # ls) = takes ls"

fun forwards :: "'m stage_label list \<Rightarrow> 'm list" where
  "forwards [] = []"
| "forwards (Take m # ls) = forwards ls"
| "forwards (Forward m # ls) = m # forwards ls"
| "forwards (Internal # ls) = forwards ls"

lemma takes_append [simp]: "takes (xs @ ys) = takes xs @ takes ys"
  by (induction xs rule: takes.induct) auto

lemma forwards_append [simp]: "forwards (xs @ ys) = forwards xs @ forwards ys"
  by (induction xs rule: forwards.induct) auto

section \<open>The contract\<close>

text \<open>
  "A stage function is supposed to forward each message from in to out [...]. On error conditions, the
  message must not be forwarded": every message forwarded was taken, no more often than it was taken,
  and its work for the message, \<open>effect\<close>, is done when it forwards it.
\<close>

locale history_stage =
  fixes stp :: "'s \<Rightarrow> 'm stage_label \<Rightarrow> 's \<Rightarrow> bool"
    and start :: "'s"
    and effect :: "'s \<Rightarrow> 'm \<Rightarrow> bool"
  assumes forwards_taken: "lts_run stp start ls s \<Longrightarrow> mset (forwards ls) \<subseteq># mset (takes ls)"
    and forwards_done: "lts_run stp start ls s \<Longrightarrow> m \<in> set (forwards ls) \<Longrightarrow> effect s m"
begin

lemma forwarded_was_taken: "lts_run stp start ls s \<Longrightarrow> m \<in> set (forwards ls) \<Longrightarrow> m \<in> set (takes ls)"
  using forwards_taken mset_subset_eqD set_mset_mset by metis

end

definition stage_ok :: "('s \<Rightarrow> 'm stage_label \<Rightarrow> 's \<Rightarrow> bool) \<Rightarrow> 's \<Rightarrow> ('s \<Rightarrow> 'm \<Rightarrow> bool) \<Rightarrow> bool" where
  "stage_ok stp start effect \<longleftrightarrow> (\<forall>ls s. lts_run stp start ls s \<longrightarrow>
     mset (forwards ls) \<subseteq># mset (takes ls) \<and> (\<forall>m \<in> set (forwards ls). effect s m))"

lemma stage_ok_locale: "stage_ok stp start effect = history_stage stp start effect"
  unfolding stage_ok_def history_stage_def by blast

section \<open>Pipelines\<close>

text \<open>
  The stages run side by side. Stage \<open>i\<close> forwards to stage \<open>i + 1\<close> over an unbuffered channel, so that
  the one's forward is the other's take; the first takes from the pipeline's input, the last forwards
  to the pipeline's output.
\<close>

inductive pipe_step ::
    "('s \<Rightarrow> 'm stage_label \<Rightarrow> 's \<Rightarrow> bool) list \<Rightarrow> 's list \<Rightarrow> 'm stage_label \<Rightarrow> 's list \<Rightarrow> bool" where
  pipe_take: "p s (Take m) s' \<Longrightarrow> pipe_step (p # ps) (s # ss) (Take m) (s' # ss)"
| pipe_head: "p s Internal s' \<Longrightarrow> pipe_step (p # ps) (s # ss) Internal (s' # ss)"
| pipe_tail: "pipe_step ps ss Internal ss' \<Longrightarrow> pipe_step (p # ps) (s # ss) Internal (s # ss')"
| pipe_pass: "p s (Forward m) s' \<Longrightarrow> pipe_step ps ss (Take m) ss' \<Longrightarrow>
    pipe_step (p # ps) (s # ss) Internal (s' # ss')"
| pipe_out: "pipe_step ps ss (Forward m) ss' \<Longrightarrow> pipe_step (p # ps) (s # ss) (Forward m) (s # ss')"
| pipe_last: "p s (Forward m) s' \<Longrightarrow> pipe_step [p] [s] (Forward m) [s']"

inductive_cases pipe_NilE: "pipe_step [] ss l ss'"
inductive_cases pipe_step_ConsE: "pipe_step (p # ps) (s # ss) l ss'"

lemma pipe_ConsE:
  assumes "pipe_step (p # ps) (s # ss) l uu"
  obtains (tk) m s' where "l = Take m" "uu = s' # ss" "p s (Take m) s'"
  | (hd) s' where "l = Internal" "uu = s' # ss" "p s Internal s'"
  | (tl) ss' where "l = Internal" "uu = s # ss'" "pipe_step ps ss Internal ss'"
  | (pass) m s' ss' where "l = Internal" "uu = s' # ss'" "p s (Forward m) s'" "pipe_step ps ss (Take m) ss'"
  | (fw) m ss' where "l = Forward m" "uu = s # ss'" "pipe_step ps ss (Forward m) ss'"
  | (lst) m s' where "l = Forward m" "uu = [s']" "ps = []" "ss = []" "p s (Forward m) s'"
  using assms by (elim pipe_step_ConsE) blast+

text \<open>A run of the pipeline is a run of its first stage and one of the others that agree in between.\<close>

lemma pipe_run_split:
  assumes "lts_run (pipe_step (p # ps)) (s # ss) ls tt" and "ps \<noteq> []"
  shows "\<exists>t ts ls1 ls2. tt = t # ts \<and> lts_run p s ls1 t \<and> lts_run (pipe_step ps) ss ls2 ts \<and>
    takes ls = takes ls1 \<and> forwards ls1 = takes ls2 \<and> forwards ls = forwards ls2"
  using assms(1)
proof (induction "s # ss" ls tt rule: lts_run.induct)
  case lts_nil
  show ?case by (rule exI [of _ s], rule exI [of _ ss], rule exI [of _ "[]"], rule exI [of _ "[]"])
      (simp add: lts_run.lts_nil)
next
  case (lts_snoc ls tt l uu)
  then obtain t ts ls1 ls2 where ih: "tt = t # ts" "lts_run p s ls1 t" "lts_run (pipe_step ps) ss ls2 ts"
    "takes ls = takes ls1" "forwards ls1 = takes ls2" "forwards ls = forwards ls2" by blast
  note ext1 = lts_run.lts_snoc [OF ih(2)] and ext2 = lts_run.lts_snoc [OF ih(3)]
  from lts_snoc(3) [unfolded ih(1)] show ?case
  proof (cases rule: pipe_ConsE)
    case (tk m s')
    then show ?thesis using ih ext1 [of "Take m" s'] by (intro exI [of _ s'] exI [of _ ts] exI [of _ "ls1 @ [Take m]"] exI [of _ ls2]) auto
  next
    case (hd s')
    then show ?thesis using ih ext1 [of Internal s'] by (intro exI [of _ s'] exI [of _ ts] exI [of _ "ls1 @ [Internal]"] exI [of _ ls2]) auto
  next
    case (tl ts')
    then show ?thesis using ih ext2 [of Internal] by (intro exI [of _ t] exI [of _ ts'] exI [of _ ls1] exI [of _ "ls2 @ [Internal]"]) auto
  next
    case (pass m s' ts')
    then show ?thesis using ih ext1 [of "Forward m" s'] ext2 [of "Take m"]
      by (intro exI [of _ s'] exI [of _ ts'] exI [of _ "ls1 @ [Forward m]"] exI [of _ "ls2 @ [Take m]"]) auto
  next
    case (fw m ts')
    then show ?thesis using ih ext2 [of "Forward m"] by (intro exI [of _ t] exI [of _ ts'] exI [of _ ls1] exI [of _ "ls2 @ [Forward m]"]) auto
  next
    case (lst m s')
    then show ?thesis using assms(2) by simp
  qed
qed

text \<open>What a pipeline has done for a message: every stage has done its work.\<close>

fun pipe_effect :: "('s \<Rightarrow> 'm \<Rightarrow> bool) list \<Rightarrow> 's list \<Rightarrow> 'm \<Rightarrow> bool" where
  "pipe_effect (f # fs) (s # ss) m \<longleftrightarrow> f s m \<and> pipe_effect fs ss m"
| "pipe_effect _ _ m \<longleftrightarrow> True"

lemma single_run:
  "lts_run (pipe_step [p]) [s] ls tt \<Longrightarrow> \<exists>t. tt = [t] \<and> lts_run p s ls t"
proof (induction "[s]" ls tt rule: lts_run.induct)
  case lts_nil
  show ?case by (simp add: lts_run.lts_nil)
next
  case (lts_snoc ls tt l uu)
  then obtain t where t: "tt = [t]" "lts_run p s ls t" by blast
  from lts_snoc(3) [unfolded t(1)] show ?case
  proof (cases rule: pipe_ConsE)
    case (tl ts')
    then show ?thesis by (elim pipe_NilE)
  next
    case (pass m s' ts')
    then show ?thesis by (elim pipe_NilE)
  next
    case (fw m ts')
    then show ?thesis by (elim pipe_NilE)
  qed (use t lts_run.lts_snoc [OF t(2)] in auto)
qed

text \<open>The contract of every stage gives the contract of the pipeline.\<close>

lemma pipeline_ok:
  assumes "length ss = length ps" and "length fs = length ps" and "ps \<noteq> []"
    and "\<And>i. i < length ps \<Longrightarrow> stage_ok (ps ! i) (ss ! i) (fs ! i)"
  shows "stage_ok (pipe_step ps) ss (pipe_effect fs)"
  using assms
proof (induction ps arbitrary: ss fs)
  case Nil
  then show ?case by simp
next
  case (Cons p ps)
  obtain s ss' f fs' where eq: "ss = s # ss'" "fs = f # fs'"
    using Cons.prems(1,2) by (cases ss; cases fs) auto
  have head: "stage_ok p s f" using Cons.prems(4) [of 0] eq by simp
  show ?case
  proof (cases "ps = []")
    case True
    then have e: "ss' = []" "fs' = []" using Cons.prems eq by auto
    show ?thesis
      unfolding stage_ok_def eq e True
    proof (intro allI impI)
      fix ls tt
      assume "lts_run (pipe_step [p]) [s] ls tt"
      from single_run [OF this] obtain t where t: "tt = [t]" "lts_run p s ls t" by (elim exE conjE)
      from head t(2) have "mset (forwards ls) \<subseteq># mset (takes ls) \<and> (\<forall>m \<in> set (forwards ls). f t m)"
        unfolding stage_ok_def by blast
      then show "mset (forwards ls) \<subseteq># mset (takes ls) \<and> (\<forall>m \<in> set (forwards ls). pipe_effect [f] tt m)"
        by (simp add: t(1))
    qed
  next
    case False
    have tail: "stage_ok (pipe_step ps) ss' (pipe_effect fs')"
    proof (rule Cons.IH)
      show "stage_ok (ps ! i) (ss' ! i) (fs' ! i)" if "i < length ps" for i
        using Cons.prems(4) [of "Suc i"] that eq by simp
    qed (use Cons.prems eq False in auto)
    show ?thesis
      unfolding stage_ok_def eq
    proof (intro allI impI)
      fix ls tt
      assume run: "lts_run (pipe_step (p # ps)) (s # ss') ls tt"
      obtain t ts ls1 ls2 where r: "tt = t # ts" "lts_run p s ls1 t" "lts_run (pipe_step ps) ss' ls2 ts"
        "takes ls = takes ls1" "forwards ls1 = takes ls2" "forwards ls = forwards ls2"
        using pipe_run_split [OF run False] by (elim exE conjE)
      have 1: "mset (forwards ls1) \<subseteq># mset (takes ls1)" "\<forall>m \<in> set (forwards ls1). f t m"
        using head r(2) unfolding stage_ok_def by blast+
      have 2: "mset (forwards ls2) \<subseteq># mset (takes ls2)" "\<forall>m \<in> set (forwards ls2). pipe_effect fs' ts m"
        using tail r(3) unfolding stage_ok_def by blast+
      have sub: "mset (forwards ls2) \<subseteq># mset (forwards ls1)" using 2(1) r(5) by simp
      then have "set (forwards ls2) \<subseteq> set (forwards ls1)" by (metis set_mset_mono set_mset_mset)
      then show "mset (forwards ls) \<subseteq># mset (takes ls) \<and> (\<forall>m \<in> set (forwards ls). pipe_effect (f # fs') tt m)"
        using 1 2 r sub subset_mset.order_trans by auto
    qed
  qed
qed

end
