(* ===== verification/History_Sync.thy ===== *)
theory History_Sync
  imports History_Stage
begin

text \<open>
  The history pipelines of \<open>pkg/icingadb/history/sync.go\<close>: the stage that writes the entities of an
  event to the database and forwards the event when all are written, the counting stage, and the
  pipelines built from them.
\<close>

section \<open>The stage that writes entities\<close>

text \<open>
  A pointer to the \<open>j\<close>-th entity made for the \<open>n\<close>-th event is the pair \<open>(n, j)\<close>; its \<open>State\<close> is number
  \<open>n\<close>. The fields are: what the first goroutine still has to send (entities, or one message to skip),
  whether it returned because the input was closed or with an error (an event that could not be turned
  into entities, or the cancelled context), the two channels of the database writer, the map \<open>state\<close> and
  its values, the rows written, the message the third goroutine is about to forward, whether the third
  goroutine has returned, and whether the context is cancelled.
\<close>

type_synonym 'e pointed = "(nat \<times> nat) \<times> 'e"

record ('m, 'e) write_state =
  wr_todo :: "'e pointed list"
  wr_skip :: "'m option"
  wr_closed :: bool
  wr_failed :: bool
  wr_count :: nat
  insert_ch :: "'e pointed multiset"
  inserted_ch :: "'e pointed multiset"
  wr_state :: "(nat \<times> nat) \<rightharpoonup> nat"
  Message :: "nat \<Rightarrow> 'm"
  Pending :: "nat \<Rightarrow> int"
  db_rows :: "'e list"
  wr_out :: "'m option"
  wr_done :: bool
  wr_cancelled :: bool

definition point :: "nat \<Rightarrow> 'e list \<Rightarrow> 'e pointed list" where
  "point n es = zip (map (Pair n) [0..<length es]) es"

definition write_start :: "'m \<Rightarrow> ('m, 'e) write_state" where
  "write_start dummy = \<lparr>wr_todo = [], wr_skip = None, wr_closed = False, wr_failed = False, wr_count = 0,
     insert_ch = {#}, inserted_ch = {#}, wr_state = Map.empty, Message = (\<lambda>_. dummy), Pending = (\<lambda>_. 0),
     db_rows = [], wr_out = None, wr_done = False, wr_cancelled = False\<rparr>"

definition reading :: "('m, 'e) write_state \<Rightarrow> bool" where
  "reading s \<longleftrightarrow> wr_todo s = [] \<and> wr_skip s = None \<and> \<not> wr_closed s \<and> \<not> wr_failed s"

text \<open>
  \<open>ents\<close> is \<open>entryToEntities\<close>; \<open>None\<close> is its error, which cancels the context of the errgroup. The
  first goroutine notices the cancelled context where it selects, on its input and on \<open>insert\<close>, not
  while it sends on \<open>skipped\<close>; the third one notices it everywhere.
\<close>

inductive write_step :: "('m \<Rightarrow> 'e list option) \<Rightarrow> ('m, 'e) write_state \<Rightarrow> 'm stage_label \<Rightarrow> ('m, 'e) write_state \<Rightarrow> bool"
  for ents where
  w_fail: "reading s \<Longrightarrow> ents m = None \<Longrightarrow> write_step ents s (Take m) (s\<lparr>wr_failed := True, wr_cancelled := True\<rparr>)"
| w_none: "reading s \<Longrightarrow> ents m = Some [] \<Longrightarrow> write_step ents s (Take m) (s\<lparr>wr_skip := Some m\<rparr>)"
| w_take: "reading s \<Longrightarrow> ents m = Some es \<Longrightarrow> es \<noteq> [] \<Longrightarrow> n = wr_count s \<Longrightarrow>
    write_step ents s (Take m)
      (s\<lparr>wr_todo := point n es, wr_count := Suc n,
         wr_state := (\<lambda>k. if k \<in> fst ` set (point n es) then Some n else wr_state s k),
         Message := (Message s)(n := m), Pending := (Pending s)(n := int (length es))\<rparr>)"
| w_send: "\<not> wr_failed s \<Longrightarrow> wr_todo s = x # xs \<Longrightarrow>
    write_step ents s Internal (s\<lparr>wr_todo := xs, insert_ch := add_mset x (insert_ch s)\<rparr>)"
| w_write: "insert_ch s = add_mset x xs \<Longrightarrow>
    write_step ents s Internal
      (s\<lparr>insert_ch := xs, inserted_ch := add_mset x (inserted_ch s), db_rows := db_rows s @ [snd x]\<rparr>)"
| w_written: "\<not> wr_done s \<Longrightarrow> wr_out s = None \<Longrightarrow> inserted_ch s = add_mset x xs \<Longrightarrow> wr_state s (fst x) = Some n \<Longrightarrow>
    write_step ents s Internal
      (s\<lparr>inserted_ch := xs, wr_state := (wr_state s)(fst x := None), Pending := (Pending s)(n := Pending s n - 1),
         wr_out := (if Pending s n - 1 = 0 then Some (Message s n) else None)\<rparr>)"
| w_skip: "\<not> wr_done s \<Longrightarrow> wr_out s = None \<Longrightarrow> wr_skip s = Some m \<Longrightarrow>
    write_step ents s Internal (s\<lparr>wr_skip := None, wr_out := Some m\<rparr>)"
| w_forward: "\<not> wr_done s \<Longrightarrow> wr_out s = Some m \<Longrightarrow> write_step ents s (Forward m) (s\<lparr>wr_out := None\<rparr>)"
| w_close: "reading s \<Longrightarrow> write_step ents s Internal (s\<lparr>wr_closed := True\<rparr>)"
| w_return: "wr_closed s \<Longrightarrow> wr_out s = None \<Longrightarrow> write_step ents s Internal (s\<lparr>wr_done := True\<rparr>)"
| w_cancel: "write_step ents s Internal (s\<lparr>wr_cancelled := True\<rparr>)"
| w_quit_first: "wr_cancelled s \<Longrightarrow> wr_skip s = None \<Longrightarrow> \<not> wr_closed s \<Longrightarrow>
    write_step ents s Internal (s\<lparr>wr_failed := True\<rparr>)"
| w_quit_third: "wr_cancelled s \<Longrightarrow> write_step ents s Internal (s\<lparr>wr_done := True\<rparr>)"

definition write_effect :: "('m \<Rightarrow> 'e list option) \<Rightarrow> ('m, 'e) write_state \<Rightarrow> 'm \<Rightarrow> bool" where
  "write_effect ents s m \<longleftrightarrow> (\<exists>es. ents m = Some es \<and> set es \<subseteq> set (db_rows s))"

section \<open>Its invariant\<close>

definition flow :: "('m, 'e) write_state \<Rightarrow> 'e pointed multiset" where
  "flow s = mset (wr_todo s) + insert_ch s + inserted_ch s"

definition open_states :: "('m, 'e) write_state \<Rightarrow> nat set" where
  "open_states s = {n. n < wr_count s \<and> Pending s n > 0}"

definition option_mset :: "'a option \<Rightarrow> 'a multiset" where
  "option_mset x = (case x of None \<Rightarrow> {#} | Some a \<Rightarrow> {#a#})"

lemma option_mset_simps [simp]: "option_mset None = {#}" "option_mset (Some a) = {#a#}"
  by (simp_all add: option_mset_def)

text \<open>
  The pointers on their way are the keys of \<open>state\<close>, each once; \<open>Pending\<close> counts them; every entity of
  an event is written or on its way; and the messages taken are accounted for.
\<close>

definition write_inv :: "('m \<Rightarrow> 'e list option) \<Rightarrow> 'm stage_label list \<Rightarrow> ('m, 'e) write_state \<Rightarrow> bool" where
  "write_inv ents ls s \<longleftrightarrow>
     image_mset fst (flow s) = mset_set (dom (wr_state s)) \<and> finite (dom (wr_state s)) \<and>
     (\<forall>k n. wr_state s k = Some n \<longrightarrow> fst k = n \<and> n < wr_count s) \<and>
     (\<forall>n < wr_count s. Pending s n = int (card {k. wr_state s k = Some n})) \<and>
     (\<forall>n < wr_count s. \<exists>es. ents (Message s n) = Some es \<and>
        (\<forall>e \<in> set es. e \<in> set (db_rows s) \<or> (\<exists>k. (k, e) \<in># flow s \<and> fst k = n))) \<and>
     (\<forall>x. x \<in># inserted_ch s \<longrightarrow> snd x \<in> set (db_rows s)) \<and>
     (\<forall>m. wr_out s = Some m \<longrightarrow> write_effect ents s m) \<and>
     (\<forall>m. wr_skip s = Some m \<longrightarrow> ents m = Some []) \<and>
     (\<exists>lost. mset (takes ls) = mset (forwards ls) + option_mset (wr_out s) + option_mset (wr_skip s) +
       image_mset (Message s) (mset_set (open_states s)) + lost \<and> (lost \<noteq> {#} \<longrightarrow> wr_failed s)) \<and>
     (\<forall>m \<in> set (forwards ls). write_effect ents s m)"

lemma write_inv_start: "write_inv ents [] (write_start d)"
  by (simp add: write_inv_def write_start_def flow_def open_states_def)

lemma length_point [simp]: "length (point n es) = length es"
  by (simp add: point_def)

lemma point_fst: "map fst (point n es) = map (Pair n) [0..<length es]"
  by (simp add: point_def)

lemma point_snd: "e \<in> set es \<Longrightarrow> \<exists>k. (k, e) \<in> set (point n es) \<and> fst k = n"
proof -
  assume "e \<in> set es"
  then obtain i where "i < length es" "es ! i = e" by (auto simp: in_set_conv_nth)
  then have "((n, i), e) \<in> set (point n es)" by (auto simp: point_def set_zip intro!: exI [of _ i])
  then show ?thesis by fastforce
qed

lemma point_distinct: "distinct (map fst (point n es))"
  by (simp add: point_fst distinct_map inj_on_def)

lemma point_keys: "fst ` set (point n es) = Pair n ` {..<length es}"
proof -
  have "fst ` set (point n es) = set (map fst (point n es))" by simp
  then show ?thesis by (simp add: point_fst atLeast0LessThan)
qed

lemma card_fresh: "card (Pair n ` {..<l}) = (l :: nat)" for n :: nat
  by (simp add: card_image inj_on_def)

lemma write_inv_parts:
  assumes "write_inv ents ls s"
  shows keys: "image_mset fst (flow s) = mset_set (dom (wr_state s))" "finite (dom (wr_state s))"
    and owner: "\<And>k n. wr_state s k = Some n \<Longrightarrow> fst k = n \<and> n < wr_count s"
    and pend: "\<And>n. n < wr_count s \<Longrightarrow> Pending s n = int (card {k. wr_state s k = Some n})"
    and enti: "\<And>n. n < wr_count s \<Longrightarrow> \<exists>es. ents (Message s n) = Some es \<and>
        (\<forall>e \<in> set es. e \<in> set (db_rows s) \<or> (\<exists>k. (k, e) \<in># flow s \<and> fst k = n))"
    and insd: "\<And>x. x \<in># inserted_ch s \<Longrightarrow> snd x \<in> set (db_rows s)"
    and outm: "\<And>m. wr_out s = Some m \<Longrightarrow> write_effect ents s m"
    and skpm: "\<And>m. wr_skip s = Some m \<Longrightarrow> ents m = Some []"
    and acct: "\<exists>lost. mset (takes ls) = mset (forwards ls) + option_mset (wr_out s) + option_mset (wr_skip s) +
       image_mset (Message s) (mset_set (open_states s)) + lost \<and> (lost \<noteq> {#} \<longrightarrow> wr_failed s)"
    and fwd: "\<And>m. m \<in> set (forwards ls) \<Longrightarrow> write_effect ents s m"
  using assms unfolding write_inv_def by blast+

lemma write_effect_mono: "set (db_rows s) \<subseteq> set (db_rows s') \<Longrightarrow> write_effect ents s m \<Longrightarrow> write_effect ents s' m"
  by (auto simp: write_effect_def)

lemma keys_flow: "write_inv ents ls s \<Longrightarrow> x \<in># flow s \<Longrightarrow> fst x \<in> dom (wr_state s)"
  using write_inv_parts(1,2) by (metis finite_set_mset_mset_set image_eqI set_image_mset)

text \<open>Taking an event that makes entities.\<close>

lemma write_inv_take:
  assumes inv: "write_inv ents ls s" and rd: "reading s" and es: "ents m = Some es" "es \<noteq> []"
  shows "write_inv ents (ls @ [Take m])
      (s\<lparr>wr_todo := point (wr_count s) es, wr_count := Suc (wr_count s),
         wr_state := (\<lambda>k. if k \<in> fst ` set (point (wr_count s) es) then Some (wr_count s) else wr_state s k),
         Message := (Message s)(wr_count s := m), Pending := (Pending s)(wr_count s := int (length es))\<rparr>)"
proof -
  let ?n = "wr_count s"
  let ?K = "Pair ?n ` {..<length es}"
  let ?st = "\<lambda>k. if k \<in> fst ` set (point ?n es) then Some ?n else wr_state s k"
  let ?s = "s\<lparr>wr_todo := point ?n es, wr_count := Suc ?n, wr_state := ?st,
         Message := (Message s)(?n := m), Pending := (Pending s)(?n := int (length es))\<rparr>"
  note p = write_inv_parts [OF inv]
  have td: "wr_todo s = []" and sk: "wr_skip s = None" using rd by (auto simp: reading_def)
  have K: "fst ` set (point ?n es) = ?K" by (rule point_keys)
  have disj: "?K \<inter> dom (wr_state s) = {}" using p(3) by fastforce
  have dom: "dom ?st = ?K \<union> dom (wr_state s)" using K by (auto split: if_splits)
  have fl: "flow ?s = mset (point ?n es) + flow s" by (simp add: flow_def td ac_simps)
  have "image_mset fst (mset (point ?n es)) = mset_set ?K"
    using point_distinct [of ?n es] K mset_set_set [of "map fst (point ?n es)"] by simp
  then have k1: "image_mset fst (flow ?s) = mset_set (dom ?st)"
    using p(1) dom disj fl p(2) by (simp add: mset_set_Union)
  have k2: "finite (dom ?st)" using dom p(2) by simp
  have k3: "fst k = n \<and> n < Suc ?n" if "?st k = Some n" for k n
    using that p(3) [of k n] K by (auto split: if_splits)
  have k4: "((Pending s)(?n := int (length es))) i = int (card {k. ?st k = Some i})" if "i < Suc ?n" for i
  proof (cases "i = ?n")
    case True
    have "wr_state s k \<noteq> Some ?n" for k using p(3) by blast
    then have "{k. ?st k = Some i} = ?K" using True K by (auto split: if_splits)
    then show ?thesis using True card_fresh by simp
  next
    case False
    then have "{k. ?st k = Some i} = {k. wr_state s k = Some i}" using disj K by (auto split: if_splits)
    then show ?thesis using False that p(4) by simp
  qed
  have k5: "\<exists>es'. ents (((Message s)(?n := m)) i) = Some es' \<and>
        (\<forall>e \<in> set es'. e \<in> set (db_rows s) \<or> (\<exists>k. (k, e) \<in># flow ?s \<and> fst k = i))" if "i < Suc ?n" for i
  proof (cases "i = ?n")
    case True
    then show ?thesis using es(1) point_snd [of _ es ?n] fl by auto
  next
    case False
    then have "i < ?n" and m: "((Message s)(?n := m)) i = Message s i" using that by simp_all
    moreover have "x \<in># flow ?s" if "x \<in># flow s" for x using that fl by simp
    ultimately show ?thesis unfolding m using p(5) by blast
  qed
  have os: "open_states ?s = insert ?n (open_states s)"
    using es(2) by (auto simp: open_states_def)
  have "?n \<notin> open_states s" "finite (open_states s)" by (simp_all add: open_states_def)
  moreover have "image_mset ((Message s)(?n := m)) (mset_set (open_states s)) = image_mset (Message s) (mset_set (open_states s))"
    by (rule image_mset_cong) (simp add: open_states_def)
  ultimately have ac: "\<exists>lost. add_mset m (mset (takes ls)) = mset (forwards ls) + option_mset (wr_out s) + option_mset (wr_skip s) +
       image_mset ((Message s)(?n := m)) (mset_set (open_states ?s)) + lost \<and> (lost \<noteq> {#} \<longrightarrow> wr_failed s)"
    using p(9) os by auto
  show ?thesis
    unfolding write_inv_def
    using k1 k2 k3 k4 k5 p(6,7,8,10) ac by (simp add: write_effect_def)
qed

text \<open>An entity comes back from the database.\<close>

lemma write_inv_written:
  assumes inv: "write_inv ents ls s" and nd: "wr_out s = None"
    and x: "inserted_ch s = add_mset x xs" and n: "wr_state s (fst x) = Some n"
  shows "write_inv ents (ls @ [Internal])
      (s\<lparr>inserted_ch := xs, wr_state := (wr_state s)(fst x := None), Pending := (Pending s)(n := Pending s n - 1),
         wr_out := (if Pending s n - 1 = 0 then Some (Message s n) else None)\<rparr>)"
proof -
  let ?out = "if Pending s n - 1 = 0 then Some (Message s n) else None"
  let ?s = "s\<lparr>inserted_ch := xs, wr_state := (wr_state s)(fst x := None), Pending := (Pending s)(n := Pending s n - 1),
         wr_out := ?out\<rparr>"
  note p = write_inv_parts [OF inv]
  have nc: "fst (fst x) = n" "n < wr_count s" using p(3) [OF n] by auto
  have fl: "flow s = add_mset x (flow ?s)" by (simp add: flow_def x)
  have dom: "dom (wr_state ?s) = dom (wr_state s) - {fst x}" by auto
  have xin: "fst x \<in> dom (wr_state s)" using n by auto
  have k1: "image_mset fst (flow ?s) = mset_set (dom (wr_state ?s))"
    using p(1) fl mset_set.remove [OF p(2) xin] dom by simp
  have finK: "finite {k. wr_state s k = Some i}" for i
    by (rule finite_subset [OF _ p(2)]) auto
  have k4: "Pending ?s i = int (card {k. wr_state ?s k = Some i})" if "i < wr_count s" for i
  proof (cases "i = n")
    case True
    have "{k. wr_state ?s k = Some n} = {k. wr_state s k = Some n} - {fst x}" by auto
    moreover have xk: "fst x \<in> {k. wr_state s k = Some n}" using n by simp
    ultimately have "card {k. wr_state ?s k = Some n} = card {k. wr_state s k = Some n} - 1"
      using finK by simp
    moreover have "card {k. wr_state s k = Some n} \<ge> 1"
      using xk finK by (metis One_nat_def Suc_leI card_gt_0_iff emptyE)
    ultimately show ?thesis using True p(4) [OF nc(2)] by simp
  next
    case False
    then have "{k. wr_state ?s k = Some i} = {k. wr_state s k = Some i}" using n by auto
    then show ?thesis using False p(4) [OF that] by simp
  qed
  have xdb: "snd x \<in> set (db_rows s)" using p(6) [of x] x by simp
  have k5: "\<exists>es. ents (Message s i) = Some es \<and>
        (\<forall>e \<in> set es. e \<in> set (db_rows s) \<or> (\<exists>k. (k, e) \<in># flow ?s \<and> fst k = i))" if lt: "i < wr_count s" for i
  proof -
    obtain es where es: "ents (Message s i) = Some es"
      "\<forall>e \<in> set es. e \<in> set (db_rows s) \<or> (\<exists>k. (k, e) \<in># flow s \<and> fst k = i)" using p(5) [OF lt] by blast
    have "e \<in> set (db_rows s) \<or> (\<exists>k. (k, e) \<in># flow ?s \<and> fst k = i)" if "e \<in> set es" for e
      using es(2) that xdb fl by (cases x) auto
    then show ?thesis using es(1) by blast
  qed
  have dn: "write_effect ents s (Message s n)" if z: "Pending s n - 1 = 0"
  proof -
    have "{k. wr_state ?s k = Some n} \<subseteq> {k. wr_state s k = Some n}" by (auto split: if_splits)
    then have "finite {k. wr_state ?s k = Some n}" using finK finite_subset by blast
    moreover have "card {k. wr_state ?s k = Some n} = 0" using k4 [OF nc(2)] z by simp
    ultimately have none: "{k. wr_state ?s k = Some n} = {}" by (simp only: card_eq_0_iff) blast
    have "fst k \<noteq> n" if k: "(k, e) \<in># flow ?s" for k e
    proof -
      have "k \<in># image_mset fst (flow ?s)" using k by force
      then have "k \<in> dom (wr_state ?s)" unfolding k1 by (metis finite_set_mset_mset_set elem_mset_set infinite_set_mset_mset_set empty_iff)
      then obtain i where i: "wr_state ?s k = Some i" by blast
      then have "fst k = i" using p(3) [of k i] by (simp split: if_splits)
      then show ?thesis using i none by blast
    qed
    then show ?thesis using k5 [OF nc(2)] unfolding write_effect_def by blast
  qed
  have fo: "finite (open_states s)" by (simp add: open_states_def)
  have pos: "Pending s n \<ge> 1" using k4 [OF nc(2)] by simp
  have "n \<in> open_states s" using nc pos by (simp add: open_states_def)
  then have rm: "mset_set (open_states s) = add_mset n (mset_set (open_states s - {n}))"
    using mset_set.remove fo by fast
  have os: "open_states ?s = (if Pending s n - 1 = 0 then open_states s - {n} else open_states s)"
    using nc pos by (auto simp: open_states_def)
  have ac: "\<exists>lost. mset (takes ls) = mset (forwards ls) + option_mset ?out + option_mset (wr_skip s) +
       image_mset (Message s) (mset_set (open_states ?s)) + lost \<and> (lost \<noteq> {#} \<longrightarrow> wr_failed s)"
    using p(9) nd os rm by auto
  have k2: "finite (dom (wr_state ?s))" using p(2) dom by simp
  have k3: "fst k = i \<and> i < wr_count s" if "wr_state ?s k = Some i" for k i
    using that p(3) [of k i] by (simp split: if_splits)
  have k6: "snd y \<in> set (db_rows s)" if "y \<in># xs" for y using p(6) that x by simp
  have k7: "write_effect ents s m" if "?out = Some m" for m using dn that by (simp split: if_splits)
  show ?thesis
    unfolding write_inv_def
  proof (intro conjI)
    show "\<forall>i < wr_count ?s. Pending ?s i = int (card {k. wr_state ?s k = Some i})" using k4 by simp
    show "image_mset fst (flow ?s) = mset_set (dom (wr_state ?s))" by (rule k1)
    show "finite (dom (wr_state ?s))" by (rule k2)
    show "\<forall>k i. wr_state ?s k = Some i \<longrightarrow> fst k = i \<and> i < wr_count ?s" using k3 by simp
    show "\<forall>i < wr_count ?s. \<exists>es. ents (Message ?s i) = Some es \<and>
        (\<forall>e \<in> set es. e \<in> set (db_rows ?s) \<or> (\<exists>k. (k, e) \<in># flow ?s \<and> fst k = i))" using k5 by simp
    show "\<forall>y. y \<in># inserted_ch ?s \<longrightarrow> snd y \<in> set (db_rows ?s)" using k6 by simp
    show "\<forall>m. wr_out ?s = Some m \<longrightarrow> write_effect ents ?s m" using k7 by (simp add: write_effect_def)
    show "\<forall>m. wr_skip ?s = Some m \<longrightarrow> ents m = Some []" using p(8) by simp
    show "\<exists>lost. mset (takes (ls @ [Internal])) = mset (forwards (ls @ [Internal])) + option_mset (wr_out ?s) +
        option_mset (wr_skip ?s) + image_mset (Message ?s) (mset_set (open_states ?s)) + lost \<and>
        (lost \<noteq> {#} \<longrightarrow> wr_failed ?s)" using ac by simp
    show "\<forall>m \<in> set (forwards (ls @ [Internal])). write_effect ents ?s m" using p(10) by (simp add: write_effect_def)
  qed
qed

text \<open>The steps that leave pointers, states and messages as they are.\<close>

lemma write_inv_frame:
  assumes inv: "write_inv ents ls s" and same: "flow s' = flow s" "wr_state s' = wr_state s" "wr_count s' = wr_count s"
      "Message s' = Message s" "Pending s' = Pending s" "set (db_rows s) \<subseteq> set (db_rows s')"
    and ins: "\<And>x. x \<in># inserted_ch s' \<Longrightarrow> snd x \<in> set (db_rows s')"
    and out: "\<And>m. wr_out s' = Some m \<Longrightarrow> write_effect ents s' m"
    and skp: "\<And>m. wr_skip s' = Some m \<Longrightarrow> ents m = Some []"
    and fw: "\<And>m. m \<in> set (forwards ls') \<Longrightarrow> write_effect ents s' m"
    and fl: "wr_failed s \<Longrightarrow> wr_failed s'"
    and ac: "mset (takes ls') = mset (takes ls) + T"
      "mset (forwards ls') + option_mset (wr_out s') + option_mset (wr_skip s') =
       mset (forwards ls) + option_mset (wr_out s) + option_mset (wr_skip s) + T"
  shows "write_inv ents ls' s'"
proof -
  note p = write_inv_parts [OF inv]
  let ?o = "image_mset (Message s) (mset_set (open_states s))"
  have os: "open_states s' = open_states s" using same by (simp add: open_states_def)
  have a: "\<exists>lost. mset (takes ls') = mset (forwards ls') + option_mset (wr_out s') + option_mset (wr_skip s') + ?o + lost \<and>
      (lost \<noteq> {#} \<longrightarrow> wr_failed s')"
    using p(9) fl unfolding ac by (auto simp: ac_simps)
  have e: "\<exists>es. ents (Message s n) = Some es \<and>
        (\<forall>e \<in> set es. e \<in> set (db_rows s') \<or> (\<exists>k. (k, e) \<in># flow s \<and> fst k = n))" if "n < wr_count s" for n
    using p(5) [OF that] same(6) by blast
  show ?thesis
    unfolding write_inv_def same os
    using p(1,2,3,4) e ins out skp fw a by blast
qed

text \<open>An event that cannot be turned into entities is taken and not forwarded.\<close>

lemma write_inv_fail:
  "write_inv ents ls s \<Longrightarrow> write_inv ents (ls @ [Take m]) (s\<lparr>wr_failed := True, wr_cancelled := True\<rparr>)"
proof -
  assume inv: "write_inv ents ls s"
  let ?s = "s\<lparr>wr_failed := True, wr_cancelled := True\<rparr>"
  note p = write_inv_parts [OF inv]
  have f: "flow ?s = flow s" "open_states ?s = open_states s" "\<And>m. write_effect ents ?s m = write_effect ents s m"
    by (simp_all add: flow_def open_states_def write_effect_def)
  obtain lost where "mset (takes ls) = mset (forwards ls) + option_mset (wr_out s) + option_mset (wr_skip s) +
       image_mset (Message s) (mset_set (open_states s)) + lost" using p(9) by blast
  then have "\<exists>lost. add_mset m (mset (takes ls)) = mset (forwards ls) + option_mset (wr_out s) + option_mset (wr_skip s) +
       image_mset (Message s) (mset_set (open_states s)) + lost"
    by (intro exI [of _ "add_mset m lost"]) simp
  then show ?thesis
    unfolding write_inv_def f using p(1-8,10) by simp
qed

lemma write_step_inv:
  assumes "write_step ents s l s'" and inv: "write_inv ents ls s"
  shows "write_inv ents (ls @ [l]) s'"
  using assms(1)
proof cases
  case (w_fail m)
  then show ?thesis using write_inv_fail [OF inv] by simp
next
  case (w_take m es n)
  show ?thesis
    unfolding w_take(1,2) w_take(6) by (rule write_inv_take [OF inv w_take(3,4,5)])
next
  case (w_written x xs n)
  then show ?thesis using write_inv_written [OF inv] by simp
next
  case (w_none m)
  note p = write_inv_parts [OF inv]
  have "wr_skip s = None" using w_none(3) by (simp add: reading_def)
  then show ?thesis
    unfolding w_none(1,2)
    by (intro write_inv_frame [OF inv, where T = "{#m#}"])
      (use p w_none in \<open>auto simp: flow_def write_effect_def ac_simps\<close>)
next
  case (w_send x xs)
  note p = write_inv_parts [OF inv]
  show ?thesis
    unfolding w_send(1,2)
    by (intro write_inv_frame [OF inv, where T = "{#}"])
      (use p w_send in \<open>auto simp: flow_def write_effect_def ac_simps\<close>)
next
  case (w_write x xs)
  note p = write_inv_parts [OF inv]
  have eff: "write_effect ents (s\<lparr>insert_ch := xs, inserted_ch := add_mset x (inserted_ch s), db_rows := db_rows s @ [snd x]\<rparr>) m"
    if "write_effect ents s m" for m using that by (rule write_effect_mono [rotated]) auto
  show ?thesis
    unfolding w_write(1,2)
    by (intro write_inv_frame [OF inv, where T = "{#}"])
      (use p w_write eff in \<open>auto simp: flow_def ac_simps\<close>)
next
  case (w_skip m)
  note p = write_inv_parts [OF inv]
  have "write_effect ents s m" using p(8) [OF w_skip(5)] by (simp add: write_effect_def)
  then show ?thesis
    unfolding w_skip(1,2)
    by (intro write_inv_frame [OF inv, where T = "{#}"])
      (use p w_skip in \<open>auto simp: flow_def write_effect_def ac_simps\<close>)
next
  case (w_forward m)
  note p = write_inv_parts [OF inv]
  show ?thesis
    unfolding w_forward(1,2)
    by (intro write_inv_frame [OF inv, where T = "{#}"])
      (use p w_forward in \<open>auto simp: flow_def write_effect_def ac_simps\<close>)
next
  case w_close
  note p = write_inv_parts [OF inv]
  show ?thesis
    unfolding w_close(1,2)
    by (intro write_inv_frame [OF inv, where T = "{#}"])
      (use p in \<open>auto simp: flow_def write_effect_def ac_simps\<close>)
next
  case w_return
  note p = write_inv_parts [OF inv]
  show ?thesis
    unfolding w_return(1,2)
    by (intro write_inv_frame [OF inv, where T = "{#}"])
      (use p in \<open>auto simp: flow_def write_effect_def ac_simps\<close>)
next
  case w_cancel
  note p = write_inv_parts [OF inv]
  show ?thesis
    unfolding w_cancel(1,2)
    by (intro write_inv_frame [OF inv, where T = "{#}"])
      (use p in \<open>auto simp: flow_def write_effect_def ac_simps\<close>)
next
  case w_quit_first
  note p = write_inv_parts [OF inv]
  show ?thesis
    unfolding w_quit_first(1,2)
    by (intro write_inv_frame [OF inv, where T = "{#}"])
      (use p in \<open>auto simp: flow_def write_effect_def ac_simps\<close>)
next
  case w_quit_third
  note p = write_inv_parts [OF inv]
  show ?thesis
    unfolding w_quit_third(1,2)
    by (intro write_inv_frame [OF inv, where T = "{#}"])
      (use p in \<open>auto simp: flow_def write_effect_def ac_simps\<close>)
qed

lemma write_run_inv: "lts_run (write_step ents) (write_start d) ls s \<Longrightarrow> write_inv ents ls s"
proof (induction "write_start d :: ('a, 'b) write_state" ls s rule: lts_run.induct)
  case lts_nil
  show ?case by (rule write_inv_start)
next
  case (lts_snoc ls t l u)
  then show ?case using write_step_inv by blast
qed

interpretation write_stage: history_stage "write_step ents" "write_start d" "write_effect ents"
proof
  fix ls s
  assume "lts_run (write_step ents) (write_start d) ls s"
  note p = write_inv_parts [OF write_run_inv [OF this]]
  show "mset (forwards ls) \<subseteq># mset (takes ls)" using p(9) by auto
  show "write_effect ents s m" if "m \<in> set (forwards ls)" for m using p(10) that by blast
qed

section \<open>Progress\<close>

text \<open>
  How far the messages inside the stage are from its output; while none of the goroutines has returned,
  some goroutine can bring one of them closer.
\<close>

definition distance :: "('m, 'e) write_state \<Rightarrow> nat" where
  "distance s = 4 * length (wr_todo s) + 3 * size (insert_ch s) + 2 * size (inserted_ch s) +
     2 * size (option_mset (wr_skip s)) + size (option_mset (wr_out s))"

definition working :: "('m, 'e) write_state \<Rightarrow> bool" where
  "working s \<longleftrightarrow> \<not> wr_failed s \<and> \<not> wr_done s \<and> \<not> wr_closed s"

lemma distance_step:
  assumes inv: "write_inv ents ls s" and w: "working s" and pos: "distance s \<noteq> 0"
  shows "\<exists>l t. write_step ents s l t \<and> takes [l] = [] \<and> working t \<and> distance t < distance s"
proof (cases "wr_out s")
  case (Some m)
  have "write_step ents s (Forward m) (s\<lparr>wr_out := None\<rparr>)"
    using Some w by (intro write_step.w_forward) (simp_all add: working_def)
  moreover have "distance (s\<lparr>wr_out := None\<rparr>) < distance s" "working (s\<lparr>wr_out := None\<rparr>)"
    using Some w by (simp_all add: distance_def working_def)
  ultimately show ?thesis by (intro exI conjI) auto
next
  case out: None
  show ?thesis
  proof (cases "wr_skip s")
    case (Some m)
    have "write_step ents s Internal (s\<lparr>wr_skip := None, wr_out := Some m\<rparr>)"
      using Some w out by (intro write_step.w_skip) (simp_all add: working_def)
    then show ?thesis
      using Some w out
      by (intro exI [of _ Internal] exI [of _ "s\<lparr>wr_skip := None, wr_out := Some m\<rparr>"]) (simp add: distance_def working_def)
  next
    case skp: None
    consider (td) x xs where "wr_todo s = x # xs" | (ins) x xs where "insert_ch s = add_mset x xs"
      | (ind) x xs where "inserted_ch s = add_mset x xs"
      using pos out skp by (cases "wr_todo s"; cases "insert_ch s"; cases "inserted_ch s") (auto simp: distance_def)
    then show ?thesis
    proof cases
      case (td x xs)
      have "write_step ents s Internal (s\<lparr>wr_todo := xs, insert_ch := add_mset x (insert_ch s)\<rparr>)"
        using td w by (intro write_step.w_send) (simp_all add: working_def)
      then show ?thesis
        using td w
        by (intro exI [of _ Internal] exI [of _ "s\<lparr>wr_todo := xs, insert_ch := add_mset x (insert_ch s)\<rparr>"])
          (simp add: distance_def working_def)
    next
      case (ins x xs)
      note write_step.w_write [OF ins, of ents]
      then show ?thesis
        using ins w
        by (intro exI [of _ Internal] exI [of _ "s\<lparr>insert_ch := xs, inserted_ch := add_mset x (inserted_ch s),
            db_rows := db_rows s @ [snd x]\<rparr>"]) (simp add: distance_def working_def)
    next
      case (ind x xs)
      have "x \<in># flow s" using ind by (simp add: flow_def)
      then obtain n where n: "wr_state s (fst x) = Some n" using keys_flow [OF inv] by blast
      have "\<not> wr_done s" using w by (simp add: working_def)
      note write_step.w_written [OF this out ind n, of ents]
      then show ?thesis
        using ind w out
        by (intro exI [of _ Internal] exI [of _ "s\<lparr>inserted_ch := xs, wr_state := (wr_state s)(fst x := None),
            Pending := (Pending s)(n := Pending s n - 1),
            wr_out := (if Pending s n - 1 = 0 then Some (Message s n) else None)\<rparr>"])
          (simp add: distance_def working_def)
    qed
  qed
qed

lemma distance_zero:
  assumes inv: "write_inv ents ls s" and w: "working s" and z: "distance s = 0"
  shows "mset (forwards ls) = mset (takes ls)"
proof -
  note p = write_inv_parts [OF inv]
  have "flow s = {#}" using z by (simp add: distance_def flow_def)
  then have "mset_set (dom (wr_state s)) = {#}" using p(1) by simp
  then have "dom (wr_state s) = {}" using p(2) by (simp add: mset_set_empty_iff)
  then have "Pending s n = 0" if "n < wr_count s" for n using p(4) [OF that] by auto
  then have "open_states s = {}" by (auto simp: open_states_def)
  moreover have "wr_out s = None" "wr_skip s = None"
    using z by (cases "wr_out s"; cases "wr_skip s"; simp add: distance_def)+
  moreover have "\<not> wr_failed s" using w by (simp add: working_def)
  ultimately show ?thesis using p(9) by auto
qed

lemma write_drains:
  assumes "write_inv ents ls s" and "working s"
  shows "\<exists>ls' t. lts_run (write_step ents) s ls' t \<and> takes ls' = [] \<and> working t \<and>
    mset (forwards (ls @ ls')) = mset (takes ls)"
  using assms
proof (induction "distance s" arbitrary: ls s rule: less_induct)
  case less
  show ?case
  proof (cases "distance s = 0")
    case True
    then show ?thesis
      using distance_zero [OF less.prems] less.prems(2) by (intro exI [of _ "[]"] exI [of _ s]) (simp add: lts_run.lts_nil)
  next
    case False
    then obtain l t where l: "write_step ents s l t" "takes [l] = []" "working t" "distance t < distance s"
      using distance_step [OF less.prems] by blast
    obtain ls' u where u: "lts_run (write_step ents) t ls' u" "takes ls' = []" "working u"
      "mset (forwards ((ls @ [l]) @ ls')) = mset (takes (ls @ [l]))"
      using less.hyps [OF l(4) write_step_inv [OF l(1) less.prems(1)] l(3)] by blast
    show ?thesis
      using lts_run_Cons [where stp = "write_step ents", OF l(1) u(1)] u(2-) l(2)
        takes_append [of "[l]" ls'] takes_append [of ls "[l]"]
      by (intro exI [of _ "l # ls'"] exI [of _ u]) simp
  qed
qed

text \<open>
  A goroutine that sends on \<open>skipped\<close> after the receiver has returned does so forever.
\<close>

lemma skipped_forever:
  assumes "lts_run (write_step ents) s ls t" and "wr_skip s = Some m" "wr_done s" "\<not> wr_closed s" "\<not> wr_failed s"
  shows "wr_skip t = Some m \<and> wr_done t \<and> \<not> wr_closed t \<and> \<not> wr_failed t \<and> forwards ls = [] \<and> takes ls = []"
  using assms
proof (induction s ls t rule: lts_run.induct)
  case (lts_nil s)
  then show ?case by simp
next
  case (lts_snoc s ls t l u)
  then have ih: "wr_skip t = Some m" "wr_done t" "\<not> wr_closed t" "\<not> wr_failed t" "forwards ls = []" "takes ls = []"
    by simp_all
  from lts_snoc(2) show ?case
    by cases (use ih in \<open>auto simp: reading_def\<close>)
qed

lemma skipped_reached:
  assumes "ents m = Some []"
  shows "\<exists>s. lts_run (write_step ents) (write_start d) [Take m, Internal, Internal] s \<and>
    wr_skip s = Some m \<and> wr_done s \<and> wr_cancelled s \<and> \<not> wr_closed s \<and> \<not> wr_failed s"
proof -
  let ?a = "(write_start d)\<lparr>wr_skip := Some m\<rparr>"
  let ?b = "?a\<lparr>wr_cancelled := True\<rparr>"
  let ?c = "?b\<lparr>wr_done := True\<rparr>"
  have "write_step ents (write_start d) (Take m) ?a"
    using assms by (intro write_step.w_none) (simp_all add: reading_def write_start_def)
  moreover have "write_step ents ?a Internal ?b" by (rule write_step.w_cancel)
  moreover have "write_step ents ?b Internal ?c" by (rule write_step.w_quit_third) simp
  ultimately have "lts_run (write_step ents) (write_start d) [Take m, Internal, Internal] ?c"
    by (meson lts_run_Cons lts_run.lts_nil)
  then show ?thesis by (intro exI [of _ ?c]) (simp add: write_start_def)
qed

end
