(* ===== verification/History_Types.thy ===== *)
theory History_Types
  imports Idb_Prelude Complex_Main
begin

text \<open>
  The rows of the history tables, \<open>pkg/icingadb/v1/history\<close>: the structs with their embedded parts, the
  computed event times that decide which column is written, and the text forms of the enumerations.

  A \<open>types.UnixMilli\<close> is an instant; \<open>val\<close> stands for its method \<open>Value\<close>, with \<open>None\<close> for SQL NULL. A
  \<open>types.Float\<close> or \<open>float32\<close> is a rational number, the former with a flag like the other nullable types.
\<close>

section \<open>Common parts\<close>

record go_float =
  flt_val :: rat
  flt_valid :: bool

record HistoryTableMeta =
  htm_EnvironmentId :: binary
  htm_EndpointId :: binary
  htm_ObjectType :: string
  htm_HostId :: binary
  htm_ServiceId :: binary

record HistoryMeta =
  hm_Id :: binary
  hm_EnvironmentId :: binary
  hm_EndpointId :: binary
  hm_ObjectType :: string
  hm_HostId :: binary
  hm_ServiceId :: binary
  hm_EventType :: string

section \<open>Acknowledgements\<close>

record AckHistoryUpserter =
  ah_ClearTime :: time
  ah_ClearedBy :: go_string

record AcknowledgementHistory =
  ah_Id :: binary
  ah_Meta :: HistoryTableMeta
  ah_Upserter :: AckHistoryUpserter
  ah_SetTime :: time
  ah_Author :: go_string
  ah_Comment :: go_string
  ah_ExpireTime :: time
  ah_IsPersistent :: go_bool
  ah_IsSticky :: go_bool

record HistoryAck =
  hack_Meta :: HistoryMeta
  AcknowledgementHistoryId :: binary
  hack_SetTime :: time
  hack_ClearTime :: time

text \<open>\<open>EventTime.History\<close> is the pointer \<open>Init\<close> sets to the struct itself; it may be nil.\<close>

definition AckEventTime_Value :: "(time \<Rightarrow> 'v option) \<Rightarrow> HistoryAck option \<Rightarrow> 'v option" where
  "AckEventTime_Value val et =
     (case et of
        None \<Rightarrow> None
      | Some h \<Rightarrow>
          if hm_EventType (hack_Meta h) = ''ack_set'' then val (hack_SetTime h)
          else if hm_EventType (hack_Meta h) = ''ack_clear'' then val (hack_ClearTime h)
          else None)"

section \<open>Comments\<close>

record CommentHistoryUpserter =
  ch_RemovedBy :: go_string
  ch_RemoveTime :: time
  ch_HasBeenRemoved :: go_bool

record CommentHistory =
  ch_CommentId :: binary
  ch_Meta :: HistoryTableMeta
  ch_Upserter :: CommentHistoryUpserter
  ch_EntryTime :: time
  ch_Author :: string
  ch_Comment :: string
  ch_EntryType :: string
  ch_IsPersistent :: go_bool
  ch_IsSticky :: go_bool
  ch_ExpireTime :: time

definition CommentHistory_Init :: "CommentHistory \<Rightarrow> CommentHistory" where
  "CommentHistory_Init ch = ch\<lparr>ch_Upserter := (ch_Upserter ch)\<lparr>ch_HasBeenRemoved := MakeBool False\<rparr>\<rparr>"

record HistoryComment =
  hc_Meta :: HistoryMeta
  CommentHistoryId :: binary
  hc_EntryTime :: time
  hc_RemoveTime :: time
  hc_ExpireTime :: time

definition CommentEventTime_Value :: "(time \<Rightarrow> 'v option) \<Rightarrow> HistoryComment option \<Rightarrow> 'v option" where
  "CommentEventTime_Value val et =
     (case et of
        None \<Rightarrow> None
      | Some h \<Rightarrow>
          if hm_EventType (hc_Meta h) = ''comment_add'' then val (hc_EntryTime h)
          else if hm_EventType (hc_Meta h) = ''comment_remove'' then
            (case val (hc_RemoveTime h) of None \<Rightarrow> val (hc_ExpireTime h) | Some v \<Rightarrow> Some v)
          else None)"

definition CommentEntryType_UnmarshalText :: "string \<Rightarrow> string" where
  "CommentEntryType_UnmarshalText entry =
     (if entry = ''1'' then ''comment'' else if entry = ''4'' then ''ack'' else entry)"

section \<open>Downtimes\<close>

record DowntimeHistoryUpserter =
  dh_CancelledBy :: go_string
  dh_HasBeenCancelled :: go_bool
  dh_CancelTime :: time

record DowntimeHistory =
  dh_DowntimeId :: binary
  dh_Meta :: HistoryTableMeta
  dh_Upserter :: DowntimeHistoryUpserter
  dh_TriggeredById :: binary
  dh_ParentId :: binary
  dh_EntryTime :: time
  dh_Author :: string
  dh_Comment :: string
  dh_IsFlexible :: go_bool
  dh_FlexibleDuration :: "64 word"
  dh_ScheduledStartTime :: time
  dh_ScheduledEndTime :: time
  dh_StartTime :: time
  dh_EndTime :: time
  dh_ScheduledBy :: go_string
  dh_TriggerTime :: time

record HistoryDowntime =
  hd_Meta :: HistoryMeta
  DowntimeHistoryId :: binary
  hd_StartTime :: time
  hd_CancelTime :: time
  hd_EndTime :: time
  hd_HasBeenCancelled :: go_bool

definition DowntimeEventTime_Value :: "(time \<Rightarrow> 'v option) \<Rightarrow> HistoryDowntime option \<Rightarrow> 'v option" where
  "DowntimeEventTime_Value val et =
     (case et of
        None \<Rightarrow> None
      | Some h \<Rightarrow>
          if hm_EventType (hd_Meta h) = ''downtime_start'' then val (hd_StartTime h)
          else if hm_EventType (hd_Meta h) = ''downtime_end'' then
            (if \<not> bool_valid (hd_HasBeenCancelled h) then None
             else if bool_val (hd_HasBeenCancelled h) then val (hd_CancelTime h)
             else val (hd_EndTime h))
          else None)"

record SlaHistoryDowntime =
  sd_DowntimeId :: binary
  sd_Meta :: HistoryTableMeta
  sd_DowntimeStart :: time
  sd_HasBeenCancelled :: go_bool
  sd_CancelTime :: time
  sd_EndTime :: time

definition SlaDowntimeEndTime_Value :: "(time \<Rightarrow> 'v option) \<Rightarrow> SlaHistoryDowntime \<Rightarrow> 'v option" where
  "SlaDowntimeEndTime_Value val h =
     (if bool_valid (sd_HasBeenCancelled h) \<and> bool_val (sd_HasBeenCancelled h) then val (sd_CancelTime h)
      else val (sd_EndTime h))"

section \<open>Flapping\<close>

record FlappingHistoryUpserter =
  fh_EndTime :: time
  fh_PercentStateChangeEnd :: go_float
  fh_FlappingThresholdLow :: rat
  fh_FlappingThresholdHigh :: rat

record FlappingHistory =
  fh_Id :: binary
  fh_Meta :: HistoryTableMeta
  fh_Upserter :: FlappingHistoryUpserter
  fh_StartTime :: time
  fh_PercentStateChangeStart :: go_float

record HistoryFlapping =
  hf_Meta :: HistoryMeta
  FlappingHistoryId :: binary
  hf_StartTime :: time
  hf_EndTime :: time

definition FlappingEventTime_Value :: "(time \<Rightarrow> 'v option) \<Rightarrow> HistoryFlapping option \<Rightarrow> 'v option" where
  "FlappingEventTime_Value val et =
     (case et of
        None \<Rightarrow> None
      | Some h \<Rightarrow>
          if hm_EventType (hf_Meta h) = ''flapping_start'' then val (hf_StartTime h)
          else if hm_EventType (hf_Meta h) = ''flapping_end'' then val (hf_EndTime h)
          else None)"

section \<open>Notifications\<close>

record NotificationHistory =
  nh_Id :: binary
  nh_Meta :: HistoryTableMeta
  nh_NotificationId :: binary
  nh_Type :: string
  nh_SendTime :: time
  nh_State :: "8 word"
  nh_PreviousHardState :: "8 word"
  nh_Author :: string
  nh_Text :: go_string
  nh_UsersNotified :: "16 word"

record UserNotificationHistory =
  unh_Id :: binary
  unh_EnvironmentId :: binary
  unh_NotificationHistoryId :: binary
  unh_UserId :: binary

record HistoryNotification =
  hn_Meta :: HistoryMeta
  hn_NotificationHistoryId :: binary
  hn_EventTime :: time

definition NotificationType_UnmarshalText :: "string \<Rightarrow> string" where
  "NotificationType_UnmarshalText t =
     (if t = ''1'' then ''downtime_start''
      else if t = ''2'' then ''downtime_end''
      else if t = ''4'' then ''downtime_removed''
      else if t = ''8'' then ''custom''
      else if t = ''16'' then ''acknowledgement''
      else if t = ''32'' then ''problem''
      else if t = ''64'' then ''recovery''
      else if t = ''128'' then ''flapping_start''
      else if t = ''256'' then ''flapping_end''
      else t)"

section \<open>States\<close>

record StateHistory =
  sh_Id :: binary
  sh_Meta :: HistoryTableMeta
  sh_EventTime :: time
  sh_StateType :: string
  sh_SoftState :: "8 word"
  sh_HardState :: "8 word"
  sh_PreviousSoftState :: "8 word"
  sh_PreviousHardState :: "8 word"
  sh_CheckAttempt :: "32 word"
  sh_Output :: go_string
  sh_LongOutput :: go_string
  sh_MaxCheckAttempts :: "32 word"
  sh_CheckSource :: go_string
  sh_SchedulingSource :: go_string

record HistoryState =
  hs_Meta :: HistoryMeta
  hs_StateHistoryId :: binary
  hs_EventTime :: time

record SlaHistoryState =
  ss_Id :: binary
  ss_Meta :: HistoryTableMeta
  ss_EventTime :: time
  ss_StateType :: string
  ss_HardState :: "8 word"
  ss_PreviousHardState :: "8 word"

definition SoftState :: string where "SoftState = ''soft''"
definition HardState :: string where "HardState = ''hard''"

definition StateType_UnmarshalText :: "string \<Rightarrow> string" where
  "StateType_UnmarshalText t =
     (if t = ''0'' then SoftState else if t = ''1'' then HardState else t)"

section \<open>Rows\<close>

text \<open>The structs that the stages of the history synchronisation write, and their tags.\<close>

datatype history_struct =
    SAcknowledgementHistory | SHistoryAck | SCommentHistory | SHistoryComment | SDowntimeHistory
  | SHistoryDowntime | SSlaHistoryDowntime | SFlappingHistory | SHistoryFlapping | SNotificationHistory
  | SHistoryNotification | SStateHistory | SHistoryState

datatype history_row =
    RAcknowledgementHistory AcknowledgementHistory
  | RHistoryAck HistoryAck
  | RCommentHistory CommentHistory
  | RHistoryComment HistoryComment
  | RDowntimeHistory DowntimeHistory
  | RHistoryDowntime HistoryDowntime
  | RSlaHistoryDowntime SlaHistoryDowntime
  | RFlappingHistory FlappingHistory
  | RHistoryFlapping HistoryFlapping
  | RNotificationHistory NotificationHistory
  | RUserNotificationHistory UserNotificationHistory
  | RHistoryNotification HistoryNotification
  | RStateHistory StateHistory
  | RHistoryState HistoryState
  | RSlaHistoryState SlaHistoryState

end
