(* ===== verification/History_Pipelines.thy ===== *)
theory History_Pipelines
  imports History_Sync History_Types
begin

text \<open>
  The stages and pipelines of \<open>pkg/icingadb/history/sync.go\<close> and \<open>sla.go\<close>: how an event becomes rows, the
  table of pipelines, and the deletion from Redis at their end.

  Parameters, as one record: \<open>structify\<close> fills a struct of the given type from the values of an event,
  \<open>structify_user\<close> and \<open>structify_sla\<close> do so for the two special structs, \<open>unjson_ids\<close> decodes a list
  of IDs, and \<open>checksum\<close> is \<open>utils.Checksum\<close>.
\<close>

section \<open>From events to rows\<close>

record user_notification =
  un_Id :: binary
  un_EnvironmentId :: binary
  un_EndpointId :: binary
  un_UserIds :: go_string

record history_codec =
  structify :: "history_struct \<Rightarrow> (string \<rightharpoonup> any) \<Rightarrow> history_row option"
  structify_user :: "(string \<rightharpoonup> any) \<Rightarrow> user_notification option"
  structify_sla :: "(string \<rightharpoonup> any) \<Rightarrow> SlaHistoryState option"
  unjson_ids :: "string \<Rightarrow> binary list option"
  checksum :: "bytes \<Rightarrow> binary"

definition writeOneEntity :: "history_codec \<Rightarrow> history_struct \<Rightarrow> xmessage \<Rightarrow> history_row list option" where
  "writeOneEntity c st entry = map_option (\<lambda>ptr. [ptr]) (structify c st (msg_Values entry))"

definition user_row :: "history_codec \<Rightarrow> user_notification \<Rightarrow> binary \<Rightarrow> UserNotificationHistory" where
  "user_row c n user =
     \<lparr>unh_Id = checksum c (bytes_of (un_Id n) @ bytes_of user), unh_EnvironmentId = un_EnvironmentId n,
      unh_NotificationHistoryId = un_Id n, unh_UserId = user\<rparr>"

definition userNotifications :: "history_codec \<Rightarrow> xmessage \<Rightarrow> history_row list option" where
  "userNotifications c entry =
     (case structify_user c (msg_Values entry) of
        None \<Rightarrow> None
      | Some n \<Rightarrow>
          if \<not> str_valid (un_UserIds n) then Some []
          else map_option (map (\<lambda>user. RUserNotificationHistory (user_row c n user))) (unjson_ids c (str_val (un_UserIds n))))"

definition stateHistoryToSlaEntity :: "history_codec \<Rightarrow> xmessage \<Rightarrow> history_row list option" where
  "stateHistoryToSlaEntity c entry =
     (case structify_sla c (msg_Values entry) of
        None \<Rightarrow> None
      | Some s \<Rightarrow> if ss_StateType s \<noteq> HardState then Some [] else Some [RSlaHistoryState s])"

section \<open>The pipelines\<close>

datatype stage_func = WriteOne history_struct | UserNotificationStage | StateToSla | CountElement

fun entryToEntities :: "history_codec \<Rightarrow> stage_func \<Rightarrow> xmessage \<Rightarrow> history_row list option" where
  "entryToEntities c (WriteOne st) = writeOneEntity c st"
| "entryToEntities c UserNotificationStage = userNotifications c"
| "entryToEntities c StateToSla = stateHistoryToSlaEntity c"
| "entryToEntities c CountElement = (\<lambda>m. Some [])"

definition syncPipelines :: "string \<rightharpoonup> stage_func list" where
  "syncPipelines =
     [''acknowledgement'' \<mapsto> [WriteOne SAcknowledgementHistory, WriteOne SHistoryAck, CountElement],
      ''comment'' \<mapsto> [WriteOne SCommentHistory, WriteOne SHistoryComment, CountElement],
      ''downtime'' \<mapsto> [WriteOne SDowntimeHistory, WriteOne SHistoryDowntime, WriteOne SSlaHistoryDowntime, CountElement],
      ''flapping'' \<mapsto> [WriteOne SFlappingHistory, WriteOne SHistoryFlapping, CountElement],
      ''notification'' \<mapsto> [WriteOne SNotificationHistory, UserNotificationStage, WriteOne SHistoryNotification, CountElement],
      ''state'' \<mapsto> [WriteOne SStateHistory, WriteOne SHistoryState, StateToSla, CountElement]]"

text \<open>The counting stage holds at most one message, which it has counted.\<close>

record count_state =
  cnt_held :: "xmessage option"
  cnt_History :: nat

inductive count_step :: "count_state \<Rightarrow> xmessage stage_label \<Rightarrow> count_state \<Rightarrow> bool" where
  c_take: "cnt_held s = None \<Longrightarrow> count_step s (Take m) (s\<lparr>cnt_held := Some m, cnt_History := cnt_History s + 1\<rparr>)"
| c_out: "cnt_held s = Some m \<Longrightarrow> count_step s (Forward m) (s\<lparr>cnt_held := None\<rparr>)"

text \<open>The state of a stage of the table, or that of the extra stage.\<close>

datatype 'x stage_state = SWrite "(xmessage, history_row) write_state" | SCount count_state | SExtra 'x

inductive stage_step :: "history_codec \<Rightarrow> stage_func \<Rightarrow> 'x stage_state \<Rightarrow> xmessage stage_label \<Rightarrow> 'x stage_state \<Rightarrow> bool"
  for c f where
  s_write: "f \<noteq> CountElement \<Longrightarrow> write_step (entryToEntities c f) s l s' \<Longrightarrow> stage_step c f (SWrite s) l (SWrite s')"
| s_count: "f = CountElement \<Longrightarrow> count_step s l s' \<Longrightarrow> stage_step c f (SCount s) l (SCount s')"

definition no_message :: xmessage where
  "no_message = \<lparr>msg_ID = [], msg_Values = Map.empty\<rparr>"

inductive extra_step :: "('x \<Rightarrow> xmessage stage_label \<Rightarrow> 'x \<Rightarrow> bool) \<Rightarrow> 'x stage_state \<Rightarrow> xmessage stage_label \<Rightarrow> 'x stage_state \<Rightarrow> bool"
  for x where
  s_extra: "x s l s' \<Longrightarrow> extra_step x (SExtra s) l (SExtra s')"

definition stage_start :: "stage_func \<Rightarrow> 'x stage_state" where
  "stage_start f = (if f = CountElement then SCount \<lparr>cnt_held = None, cnt_History = 0\<rparr> else SWrite (write_start no_message))"

definition stage_effect :: "history_codec \<Rightarrow> stage_func \<Rightarrow> 'x stage_state \<Rightarrow> xmessage \<Rightarrow> bool" where
  "stage_effect c f s m =
     (case s of
        SWrite w \<Rightarrow> (\<exists>es. entryToEntities c f m = Some es \<and> set es \<subseteq> set (db_rows w))
      | SCount n \<Rightarrow> f = CountElement
      | SExtra x \<Rightarrow> False)"

definition extra_effect :: "('x \<Rightarrow> xmessage \<Rightarrow> bool) \<Rightarrow> 'x stage_state \<Rightarrow> xmessage \<Rightarrow> bool" where
  "extra_effect f s m = (case s of SExtra x \<Rightarrow> f x m | _ \<Rightarrow> False)"

text \<open>The pipeline of a key: the stages of the table and, if there is one, the extra stage.\<close>

definition pipeline_of :: "string \<Rightarrow> stage_func list" where
  "pipeline_of key = (case syncPipelines key of None \<Rightarrow> [] | Some fs \<Rightarrow> fs)"

text \<open>An extra stage comes with its start and with what it has done for a message it forwards.\<close>

record 'x extra_stage =
  ex_step :: "'x \<Rightarrow> xmessage stage_label \<Rightarrow> 'x \<Rightarrow> bool"
  ex_start :: 'x
  ex_effect :: "'x \<Rightarrow> xmessage \<Rightarrow> bool"

definition history_steps :: "history_codec \<Rightarrow> string \<Rightarrow> 'x extra_stage option \<Rightarrow>
    ('x stage_state \<Rightarrow> xmessage stage_label \<Rightarrow> 'x stage_state \<Rightarrow> bool) list" where
  "history_steps c key extra =
     map (stage_step c) (pipeline_of key) @ (case extra of None \<Rightarrow> [] | Some x \<Rightarrow> [extra_step (ex_step x)])"

definition history_starts :: "string \<Rightarrow> 'x extra_stage option \<Rightarrow> 'x stage_state list" where
  "history_starts key extra =
     map stage_start (pipeline_of key) @ (case extra of None \<Rightarrow> [] | Some x \<Rightarrow> [SExtra (ex_start x)])"

definition history_effects :: "history_codec \<Rightarrow> string \<Rightarrow> 'x extra_stage option \<Rightarrow> ('x stage_state \<Rightarrow> xmessage \<Rightarrow> bool) list" where
  "history_effects c key extra =
     map (stage_effect c) (pipeline_of key) @ (case extra of None \<Rightarrow> [] | Some x \<Rightarrow> [extra_effect (ex_effect x)])"

text \<open>\<open>deleteFromRedis\<close> removes from the stream the entries with the IDs of the messages it receives.\<close>

definition deleteFromRedis :: "xmessage list \<Rightarrow> xmessage list \<Rightarrow> xmessage list" where
  "deleteFromRedis bulk stream = filter (\<lambda>m. msg_ID m \<notin> set (map msg_ID bulk)) stream"

section \<open>Every stage keeps the contract\<close>

lemma count_run:
  "lts_run count_step \<lparr>cnt_held = None, cnt_History = 0\<rparr> ls s \<Longrightarrow>
   takes ls = forwards ls @ (case cnt_held s of None \<Rightarrow> [] | Some m \<Rightarrow> [m]) \<and> cnt_History s = length (takes ls)"
proof (induction "\<lparr>cnt_held = None, cnt_History = 0\<rparr>" ls s rule: lts_run.induct)
  case lts_nil
  show ?case by simp
next
  case (lts_snoc ls t l u)
  from lts_snoc(3) show ?case by cases (use lts_snoc(2) in auto)
qed

interpretation count_stage: history_stage count_step "\<lparr>cnt_held = None, cnt_History = 0\<rparr>" "\<lambda>s m. True"
proof
  fix ls s
  assume "lts_run count_step \<lparr>cnt_held = None, cnt_History = 0\<rparr> ls s"
  then have "takes ls = forwards ls @ (case cnt_held s of None \<Rightarrow> [] | Some m \<Rightarrow> [m])" using count_run by blast
  then show "mset (forwards ls) \<subseteq># mset (takes ls)" by simp
qed simp

lemma stage_run_write:
  fixes t :: "'x stage_state"
  assumes "f \<noteq> CountElement" and "lts_run (stage_step c f) (SWrite s) ls t"
  shows "\<exists>u. t = SWrite u \<and> lts_run (write_step (entryToEntities c f)) s ls u"
  using assms(2)
proof (induction "SWrite s :: 'x stage_state" ls t rule: lts_run.induct)
  case lts_nil
  show ?case by (simp add: lts_run.lts_nil)
next
  case (lts_snoc ls t l u)
  then obtain v where v: "t = SWrite v" "lts_run (write_step (entryToEntities c f)) s ls v" by blast
  from lts_snoc(3) [unfolded v(1)] show ?case
    by cases (auto intro: lts_run.lts_snoc [OF v(2)])
qed

lemma stage_run_count:
  fixes t :: "'x stage_state"
  assumes "lts_run (stage_step c CountElement) (SCount s) ls t"
  shows "\<exists>u. t = SCount u \<and> lts_run count_step s ls u"
  using assms
proof (induction "SCount s :: 'x stage_state" ls t rule: lts_run.induct)
  case lts_nil
  show ?case by (simp add: lts_run.lts_nil)
next
  case (lts_snoc ls t l u)
  then obtain v where v: "t = SCount v" "lts_run count_step s ls v" by blast
  from lts_snoc(3) [unfolded v(1)] show ?case
    by cases (auto intro: lts_run.lts_snoc [OF v(2)])
qed

lemma stage_func_ok: "stage_ok (stage_step c f) (stage_start f) (stage_effect c f)"
  unfolding stage_ok_def
proof (intro allI impI)
  fix ls t
  assume run: "lts_run (stage_step c f) (stage_start f) ls t"
  show "mset (forwards ls) \<subseteq># mset (takes ls) \<and> (\<forall>m \<in> set (forwards ls). stage_effect c f t m)"
  proof (cases "f = CountElement")
    case True
    then obtain u where u: "t = SCount u" "lts_run count_step \<lparr>cnt_held = None, cnt_History = 0\<rparr> ls u"
      using stage_run_count run by (fastforce simp: stage_start_def)
    then show ?thesis using count_stage.forwards_taken [OF u(2)] True by (simp add: stage_effect_def)
  next
    case False
    then obtain u where u: "t = SWrite u" "lts_run (write_step (entryToEntities c f)) (write_start no_message) ls u"
      using stage_run_write run by (fastforce simp: stage_start_def)
    then show ?thesis
      using write_stage.forwards_taken [OF u(2)] write_stage.forwards_done [OF u(2)]
      by (simp add: stage_effect_def write_effect_def)
  qed
qed

lemma extra_run:
  assumes "lts_run (extra_step x) (SExtra s) ls t"
  shows "\<exists>u. t = SExtra u \<and> lts_run x s ls u"
  using assms
proof (induction "SExtra s" ls t rule: lts_run.induct)
  case lts_nil
  show ?case by (simp add: lts_run.lts_nil)
next
  case (lts_snoc ls t l u)
  then obtain v where v: "t = SExtra v" "lts_run x s ls v" by blast
  from lts_snoc(3) [unfolded v(1)] show ?case
    by cases (auto intro: lts_run.lts_snoc [OF v(2)])
qed

lemma extra_ok: "stage_ok x s f \<Longrightarrow> stage_ok (extra_step x) (SExtra s) (extra_effect f)"
  unfolding stage_ok_def extra_effect_def by (auto dest!: extra_run)

text \<open>So does every pipeline, with an extra stage that keeps it.\<close>

definition extra_stage_ok :: "'x extra_stage option \<Rightarrow> bool" where
  "extra_stage_ok extra \<longleftrightarrow> (\<forall>x. extra = Some x \<longrightarrow> stage_ok (ex_step x) (ex_start x) (ex_effect x))"

lemma lengths [simp]:
  "length (history_starts key extra) = length (history_steps c key extra)"
  "length (history_effects c key extra) = length (history_steps c key extra)"
  by (simp_all add: history_steps_def history_starts_def history_effects_def split: option.splits)

lemma history_pipeline_ok:
  assumes "syncPipelines key \<noteq> None" and x: "extra_stage_ok extra"
  shows "stage_ok (pipe_step (history_steps c key extra)) (history_starts key extra)
    (pipe_effect (history_effects c key extra))"
proof (rule pipeline_ok)
  show "history_steps c key extra \<noteq> []"
    using assms(1) by (auto simp: history_steps_def pipeline_of_def syncPipelines_def split: if_splits)
  fix i
  assume i: "i < length (history_steps c key extra)"
  show "stage_ok (history_steps c key extra ! i) (history_starts key extra ! i) (history_effects c key extra ! i)"
  proof (cases "i < length (pipeline_of key)")
    case True
    then show ?thesis
      using stage_func_ok by (simp add: history_steps_def history_starts_def history_effects_def nth_append)
  next
    case False
    then obtain e where e: "extra = Some e" "i = length (pipeline_of key)"
      using i by (cases extra) (auto simp: history_steps_def)
    then have "stage_ok (ex_step e) (ex_start e) (ex_effect e)" using x by (simp add: extra_stage_ok_def)
    then show ?thesis
      using e extra_ok by (simp add: history_steps_def history_starts_def history_effects_def nth_append)
  qed
qed simp_all

lemma pipe_effect_nth:
  "pipe_effect fs ss m \<Longrightarrow> i < length fs \<Longrightarrow> i < length ss \<Longrightarrow> (fs ! i) (ss ! i) m"
  by (induction fs ss m arbitrary: i rule: pipe_effect.induct) (auto simp: nth_Cons split: nat.splits)

text \<open>What every stage has done, stage by stage.\<close>

lemma history_effect_nth:
  assumes "pipe_effect (history_effects c key extra) ss m" "i < length (pipeline_of key)"
    "length ss = length (history_steps c key extra)"
  shows "stage_effect c (pipeline_of key ! i) (ss ! i) m"
proof -
  have "i < length (history_effects c key extra)" using assms(2) by (simp add: history_steps_def)
  then have "(history_effects c key extra ! i) (ss ! i) m" using pipe_effect_nth [OF assms(1)] assms(3) by simp
  then show ?thesis using assms(2) by (simp add: history_effects_def nth_append)
qed

end
