(* ===== verification/History_Props.thy ===== *)
theory History_Props
  imports History_Pipelines
begin

text \<open>
  One run of \<open>Sync\<close> for a stream (\<open>pkg/icingadb/history/sync.go\<close>): Icinga 2 appends events to the Redis
  stream, \<open>readFromRedis\<close> feeds them to the pipeline, \<open>deleteFromRedis\<close> removes what comes out of it. The
  properties of the history synchronisation.
\<close>

section \<open>A stream and its pipeline\<close>

text \<open>
  The fields: the Redis stream; the events ever appended to it; \<open>xra.Streams[1]\<close>, the ID read last; what
  the last XREAD returned and is not sent yet; the buffered channel \<open>ch[0]\<close>; the stages; and the bulk that
  \<open>deleteFromRedis\<close> is about to delete.
\<close>

record 'x history_sys =
  h_stream :: "xmessage list"
  h_added :: "xmessage list"
  h_last :: string
  h_batch :: "xmessage list"
  h_ch0 :: "xmessage list"
  h_stages :: "'x stage_state list"
  h_bulk :: "xmessage list"

definition history_start :: "string \<Rightarrow> 'x extra_stage option \<Rightarrow> xmessage list \<Rightarrow> 'x history_sys" where
  "history_start key extra stream =
     \<lparr>h_stream = stream, h_added = stream, h_last = ''0-0'', h_batch = [], h_ch0 = [],
      h_stages = history_starts key extra, h_bulk = []\<rparr>"

text \<open>
  \<open>after a b\<close> is Redis' order of stream IDs, \<open>xreadcount\<close> and \<open>hscancount\<close> are the two options. The
  stages run by themselves, take from \<open>ch[0]\<close> and forward to the last channel.
\<close>

inductive history_step for c :: history_codec and key :: string and extra :: "'x extra_stage option"
    and after :: "string \<Rightarrow> string \<Rightarrow> bool" and xreadcount :: nat and hscancount :: nat where
  h_append: "msg_ID m \<notin> msg_ID ` set (h_added s) \<Longrightarrow>
    history_step c key extra after xreadcount hscancount s (s\<lparr>h_stream := h_stream s @ [m], h_added := h_added s @ [m]\<rparr>)"
| h_xread: "h_batch s = [] \<Longrightarrow>
    history_step c key extra after xreadcount hscancount s
      (s\<lparr>h_batch := take xreadcount (filter (\<lambda>m. after (msg_ID m) (h_last s)) (h_stream s))\<rparr>)"
| h_output: "h_batch s = m # ms \<Longrightarrow> length (h_ch0 s) < xreadcount \<Longrightarrow>
    history_step c key extra after xreadcount hscancount s
      (s\<lparr>h_last := msg_ID m, h_batch := ms, h_ch0 := h_ch0 s @ [m]\<rparr>)"
| h_first: "h_ch0 s = m # ms \<Longrightarrow> pipe_step (history_steps c key extra) (h_stages s) (Take m) ss \<Longrightarrow>
    history_step c key extra after xreadcount hscancount s (s\<lparr>h_ch0 := ms, h_stages := ss\<rparr>)"
| h_internal: "pipe_step (history_steps c key extra) (h_stages s) Internal ss \<Longrightarrow>
    history_step c key extra after xreadcount hscancount s (s\<lparr>h_stages := ss\<rparr>)"
| h_bulk: "pipe_step (history_steps c key extra) (h_stages s) (Forward m) ss \<Longrightarrow> length (h_bulk s) < hscancount \<Longrightarrow>
    history_step c key extra after xreadcount hscancount s (s\<lparr>h_stages := ss, h_bulk := h_bulk s @ [m]\<rparr>)"
| h_xdel: "history_step c key extra after xreadcount hscancount s
      (s\<lparr>h_stream := deleteFromRedis (h_bulk s) (h_stream s), h_bulk := []\<rparr>)"

definition history_reachable where
  "history_reachable c key extra after xreadcount hscancount stream s \<longleftrightarrow>
     (history_step c key extra after xreadcount hscancount)\<^sup>*\<^sup>* (history_start key extra stream) s"

text \<open>The rows that all stages have written.\<close>

definition rows_written :: "'x stage_state list \<Rightarrow> history_row set" where
  "rows_written ss = (\<Union>s \<in> set ss. case s of SWrite w \<Rightarrow> set (db_rows w) | _ \<Rightarrow> {})"

definition synced :: "history_codec \<Rightarrow> string \<Rightarrow> 'x extra_stage option \<Rightarrow> 'x stage_state list \<Rightarrow> xmessage \<Rightarrow> bool" where
  "synced c key extra ss m \<longleftrightarrow>
     (\<forall>f \<in> set (pipeline_of key). \<exists>es. entryToEntities c f m = Some es \<and> set es \<subseteq> rows_written ss) \<and>
     (case extra of None \<Rightarrow> True | Some x \<Rightarrow> \<exists>e. SExtra e \<in> set ss \<and> ex_effect x e m)"

section \<open>Invariant\<close>

definition history_inv where
  "history_inv c key extra s ls \<longleftrightarrow>
     lts_run (pipe_step (history_steps c key extra)) (history_starts key extra) ls (h_stages s) \<and>
     distinct (map msg_ID (h_added s)) \<and> set (h_stream s) \<subseteq> set (h_added s) \<and>
     set (h_batch s) \<subseteq> set (h_added s) \<and> set (h_ch0 s) \<subseteq> set (h_added s) \<and>
     set (takes ls) \<subseteq> set (h_added s) \<and> set (h_bulk s) \<subseteq> set (forwards ls) \<and>
     set (h_added s) \<subseteq> set (h_stream s) \<union> set (forwards ls)"

lemma history_inv_start:
  "distinct (map msg_ID stream) \<Longrightarrow> history_inv c key extra (history_start key extra stream) []"
  by (simp add: history_inv_def history_start_def lts_run.lts_nil)

lemma delete_subset: "set (deleteFromRedis bulk stream) \<subseteq> set stream"
  by (auto simp: deleteFromRedis_def)

lemma history_inv_step:
  assumes k: "syncPipelines key \<noteq> None" and x: "extra_stage_ok extra"
    and inv: "history_inv c key extra s ls" and st: "history_step c key extra after xc hc s t"
  shows "\<exists>ls'. history_inv c key extra t ls'"
proof -
  note ext = lts_run.lts_snoc [of "pipe_step (history_steps c key extra)" "history_starts key extra" ls "h_stages s"]
  have run: "lts_run (pipe_step (history_steps c key extra)) (history_starts key extra) ls (h_stages s)"
    using inv by (simp add: history_inv_def)
  have sub: "set (forwards ls) \<subseteq> set (takes ls)"
    using history_pipeline_ok [OF k x, of c] run unfolding stage_ok_def by (metis set_mset_mono set_mset_mset)
  from st show ?thesis
  proof cases
    case (h_append m)
    then show ?thesis using inv by (intro exI [of _ ls]) (auto simp: history_inv_def)
  next
    case h_xread
    have "set (take xc (filter (\<lambda>m. after (msg_ID m) (h_last s)) (h_stream s))) \<subseteq> set (h_stream s)"
      by (auto dest: in_set_takeD)
    then show ?thesis unfolding h_xread using inv by (intro exI [of _ ls]) (auto simp: history_inv_def)
  next
    case (h_output m ms)
    then show ?thesis using inv by (intro exI [of _ ls]) (simp add: history_inv_def)
  next
    case (h_first m ms ss)
    then show ?thesis using inv ext [OF run h_first(3)] by (intro exI [of _ "ls @ [Take m]"]) (simp add: history_inv_def)
  next
    case (h_internal ss)
    then show ?thesis using inv ext [OF run h_internal(2)] by (intro exI [of _ "ls @ [Internal]"]) (simp add: history_inv_def)
  next
    case (h_bulk m ss)
    then show ?thesis using inv ext [OF run h_bulk(2)] by (intro exI [of _ "ls @ [Forward m]"]) (auto simp: history_inv_def)
  next
    case h_xdel
    have "m \<in> set (forwards ls)" if m: "m \<in> set (h_added s)" "m \<notin> set (deleteFromRedis (h_bulk s) (h_stream s))" for m
    proof (cases "m \<in> set (h_stream s)")
      case False
      then show ?thesis using inv m(1) by (auto simp: history_inv_def)
    next
      case True
      then obtain b where b: "b \<in> set (h_bulk s)" "msg_ID m = msg_ID b" using m(2) by (auto simp: deleteFromRedis_def)
      have "b \<in> set (h_added s)" using b(1) inv sub by (auto simp: history_inv_def)
      then have "b = m" using b(2) m(1) inv by (auto simp: history_inv_def distinct_map dest: inj_onD)
      then show ?thesis using b(1) inv by (auto simp: history_inv_def)
    qed
    then have "set (h_added s) \<subseteq> set (deleteFromRedis (h_bulk s) (h_stream s)) \<union> set (forwards ls)" by blast
    then show ?thesis
      unfolding h_xdel using inv delete_subset [of "h_bulk s" "h_stream s"] by (intro exI [of _ ls]) (auto simp: history_inv_def)
  qed
qed

lemma history_reachable_inv:
  assumes "syncPipelines key \<noteq> None" "extra_stage_ok extra" "distinct (map msg_ID stream)"
    and "history_reachable c key extra after xc hc stream s"
  shows "\<exists>ls. history_inv c key extra s ls"
  using assms(4) unfolding history_reachable_def
proof (induction rule: rtranclp_induct)
  case base
  then show ?case using history_inv_start [OF assms(3)] by blast
next
  case (step t u)
  then show ?case using history_inv_step [OF assms(1,2)] by blast
qed

lemma pipe_run_length:
  "lts_run (pipe_step ps) ss ls tt \<Longrightarrow> length tt = length ss"
proof (induction ss ls tt rule: lts_run.induct)
  case (lts_snoc ss ls tt l uu)
  have "length uu = length tt" using lts_snoc(2) by (induction rule: pipe_step.induct) simp_all
  then show ?case using lts_snoc by simp
qed simp

lemma stage_effect_rows:
  assumes "stage_effect c f s m" and "s \<in> set ss"
  shows "\<exists>es. entryToEntities c f m = Some es \<and> set es \<subseteq> rows_written ss"
  using assms by (cases s) (fastforce simp: stage_effect_def rows_written_def)+

lemma effect_synced:
  assumes eff: "pipe_effect (history_effects c key extra) ss m" and len: "length ss = length (history_steps c key extra)"
  shows "synced c key extra ss m"
  unfolding synced_def
proof
  show "\<forall>f \<in> set (pipeline_of key). \<exists>es. entryToEntities c f m = Some es \<and> set es \<subseteq> rows_written ss"
  proof
    fix f
    assume "f \<in> set (pipeline_of key)"
    then obtain i where i: "i < length (pipeline_of key)" "f = pipeline_of key ! i" by (auto simp: in_set_conv_nth)
    have "i < length ss" using i len by (simp add: history_steps_def)
    then show "\<exists>es. entryToEntities c f m = Some es \<and> set es \<subseteq> rows_written ss"
      using stage_effect_rows [OF history_effect_nth [OF eff i(1) len]] i(2) by simp
  qed
  show "case extra of None \<Rightarrow> True | Some x \<Rightarrow> \<exists>e. SExtra e \<in> set ss \<and> ex_effect x e m"
  proof (cases extra)
    case (Some x)
    let ?n = "length (pipeline_of key)"
    have l: "?n < length ss" using len Some by (simp add: history_steps_def)
    have "(history_effects c key extra ! ?n) (ss ! ?n) m"
      using pipe_effect_nth [OF eff, of ?n] l len by simp
    then have "extra_effect (ex_effect x) (ss ! ?n) m" using Some by (simp add: history_effects_def nth_append)
    then obtain e where e: "ss ! ?n = SExtra e" "ex_effect x e m" by (cases "ss ! ?n") (auto simp: extra_effect_def)
    moreover have "SExtra e \<in> set ss" using l e(1) nth_mem by fastforce
    ultimately show ?thesis using Some by auto
  qed simp
qed

section \<open>Properties\<close>

text \<open>C1. No history event is lost: as long as \<open>Sync\<close> runs, with any extra stage that keeps the contract, an
  event appended to the Redis stream is still in the stream, or every stage of its pipeline has turned it
  into rows without an error and all these rows are in the database, and the extra stage has done its work.
\<close>

theorem history_never_lost:
  assumes "syncPipelines key \<noteq> None" and "extra_stage_ok extra" and "distinct (map msg_ID stream)"
    and "history_reachable c key extra after xreadcount hscancount stream s"
  shows "\<forall>m \<in> set (h_added s). m \<in> set (h_stream s) \<or> synced c key extra (h_stages s) m"
proof
  fix m
  assume m: "m \<in> set (h_added s)"
  obtain ls where inv: "history_inv c key extra s ls" using history_reachable_inv [OF assms] by blast
  then have run: "lts_run (pipe_step (history_steps c key extra)) (history_starts key extra) ls (h_stages s)"
    by (simp add: history_inv_def)
  show "m \<in> set (h_stream s) \<or> synced c key extra (h_stages s) m"
  proof (cases "m \<in> set (h_stream s)")
    case False
    then have "m \<in> set (forwards ls)" using inv m by (auto simp: history_inv_def)
    then have "pipe_effect (history_effects c key extra) (h_stages s) m"
      using history_pipeline_ok [OF assms(1,2), of c] run unfolding stage_ok_def by blast
    then show ?thesis using effect_synced pipe_run_length [OF run] by fastforce
  qed simp
qed

text \<open>C31. A stage that writes entities gets done: from every reachable state in which none of its goroutines
  has returned, it can go on without further input until everything it has taken is forwarded, each
  message as often as it was taken.
\<close>

theorem write_stage_drains:
  assumes "lts_run (write_step ents) (write_start d) ls s" and "\<not> wr_failed s" "\<not> wr_done s" "\<not> wr_closed s"
  shows "\<exists>ls' t. lts_run (write_step ents) s ls' t \<and> takes ls' = [] \<and> mset (forwards (ls @ ls')) = mset (takes ls)"
  using write_drains [OF write_run_inv [OF assms(1)]] assms(2-) unfolding working_def by blast

text \<open>A stage may ignore that its context is cancelled: when an event makes no rows (a soft state in the
  SLA stage, a notification without users), the first goroutine sends it on \<open>skipped\<close> without looking at
  the context; once the receiver has returned because of the cancelled context, the first goroutine
  never returns, so neither does the stage nor \<open>Sync\<close>.
\<close>

theorem skipped_event_blocks_shutdown:
  assumes "entryToEntities c f m = Some []"
  shows "\<exists>s. lts_run (write_step (entryToEntities c f)) (write_start d) [Take m, Internal, Internal] s \<and> wr_cancelled s \<and>
    (\<forall>ls t. lts_run (write_step (entryToEntities c f)) s ls t \<longrightarrow>
       wr_skip t = Some m \<and> \<not> wr_closed t \<and> \<not> wr_failed t \<and> forwards ls = [])"
proof -
  obtain s where s: "lts_run (write_step (entryToEntities c f)) (write_start d) [Take m, Internal, Internal] s"
    "wr_skip s = Some m" "wr_done s" "wr_cancelled s" "\<not> wr_closed s" "\<not> wr_failed s"
    using skipped_reached [where ents = "entryToEntities c f" and d = d, OF assms] by (elim exE conjE)
  have "wr_skip t = Some m \<and> \<not> wr_closed t \<and> \<not> wr_failed t \<and> forwards ls = []"
    if "lts_run (write_step (entryToEntities c f)) s ls t" for ls t
    using skipped_forever [OF that s(2,3,5,6)] by simp
  then show ?thesis using s(1,4) by (intro exI [of _ s]) simp
qed

section \<open>Witnesses\<close>

definition demo_codec :: history_codec where
  "demo_codec =
     \<lparr>structify = (\<lambda>st v. None), structify_user = (\<lambda>v. None),
      structify_sla = (\<lambda>v. Some \<lparr>ss_Id = Some [], ss_Meta = \<lparr>htm_EnvironmentId = None, htm_EndpointId = None,
        htm_ObjectType = ''host'', htm_HostId = None, htm_ServiceId = None\<rparr>, ss_EventTime = 0, ss_StateType = SoftState,
        ss_HardState = 0, ss_PreviousHardState = 0\<rparr>),
      unjson_ids = (\<lambda>s. None), checksum = (\<lambda>b. Some b)\<rparr>"

lemma history_never_lost_witness:
  "no_message \<in> set (h_stream (history_start ''state'' (None :: unit extra_stage option) [no_message])) \<or>
     synced demo_codec ''state'' (None :: unit extra_stage option)
       (h_stages (history_start ''state'' (None :: unit extra_stage option) [no_message])) no_message"
proof -
  let ?s = "history_start ''state'' (None :: unit extra_stage option) [no_message]"
  have "syncPipelines ''state'' \<noteq> None" by (simp add: syncPipelines_def)
  moreover have "extra_stage_ok (None :: unit extra_stage option)" by (simp add: extra_stage_ok_def)
  moreover have "distinct (map msg_ID [no_message])" by simp
  moreover have "history_reachable demo_codec ''state'' None (\<lambda>a b. True) 1 1 [no_message] ?s"
    by (simp add: history_reachable_def)
  ultimately have "\<forall>m \<in> set (h_added ?s). m \<in> set (h_stream ?s) \<or> synced demo_codec ''state'' None (h_stages ?s) m"
    by (rule history_never_lost)
  moreover have "no_message \<in> set (h_added ?s)" by (simp add: history_start_def)
  ultimately show ?thesis by blast
qed

lemma write_stage_drains_witness:
  "\<exists>ls' t. lts_run (write_step (\<lambda>m :: nat. Some [m, m])) (write_start (0 :: nat)) ls' t \<and> takes ls' = [] \<and>
     mset (forwards ([] @ ls')) = mset (takes ([] :: nat stage_label list))"
proof (rule write_stage_drains)
  show "lts_run (write_step (\<lambda>m. Some [m, m])) (write_start 0) [] (write_start (0 :: nat))" by (rule lts_run.lts_nil)
qed (simp_all add: write_start_def)

lemma skipped_event_blocks_shutdown_witness:
  "\<exists>s. lts_run (write_step (entryToEntities demo_codec StateToSla)) (write_start no_message)
       [Take no_message, Internal, Internal] s \<and> wr_cancelled s \<and> wr_skip s = Some no_message \<and> \<not> wr_failed s"
proof -
  have "entryToEntities demo_codec StateToSla no_message = Some []"
    by (simp add: stateHistoryToSlaEntity_def demo_codec_def SoftState_def HardState_def)
  from skipped_event_blocks_shutdown [where d = no_message, OF this] obtain s where
    s: "lts_run (write_step (entryToEntities demo_codec StateToSla)) (write_start no_message) [Take no_message, Internal, Internal] s"
      "wr_cancelled s"
    and all: "\<And>ls t. lts_run (write_step (entryToEntities demo_codec StateToSla)) s ls t \<Longrightarrow>
       wr_skip t = Some no_message \<and> \<not> wr_closed t \<and> \<not> wr_failed t \<and> forwards ls = []" by blast
  have "wr_skip s = Some no_message \<and> \<not> wr_failed s" using all [OF lts_run.lts_nil] by blast
  then show ?thesis using s by blast
qed

end
