(* ===== verification/Migrate_Slice.thy ===== *)
theory Migrate_Slice
  imports Idb_Prelude
begin

text \<open>
  \<open>sliceIdoHistory\<close> of \<open>cmd/icingadb-migrate/misc.go\<close>, the loop that all steps of the history migration
  run on: it reads the rows of an IDO table in bulks, from a checkpoint on, until none is left. The
  locale \<open>slice_consumer\<close> is what a step has to keep so that the bulks do not matter.

  A row ID is a natural number: the IDs are only compared, so the width of the column plays no role.
\<close>

section \<open>The queries\<close>

text \<open>
  A query of this program selects the rows beyond the checkpoint, in the order of their IDs and at most
  \<open>:bulk\<close> of them. \<open>before\<close> is \<open><\<close> for the queries that order by the ID, \<open>>\<close> for those with \<open>DESC\<close>; the
  table is the list of the rows that satisfy the other conditions, in that order.
\<close>

definition select_bulk :: "(nat \<Rightarrow> nat \<Rightarrow> bool) \<Rightarrow> ('row \<Rightarrow> nat) \<Rightarrow> nat \<Rightarrow> 'row list \<Rightarrow> nat \<Rightarrow> 'row list" where
  "select_bulk before ident bulk table checkpoint = take bulk (filter (\<lambda>r. before checkpoint (ident r)) table)"

section \<open>The loop\<close>

text \<open>
  \<open>onRows\<close> returns the next checkpoint, or nil to stop. A failing DML statement exits the program, the
  \<open>Err\<close> outcome. \<open>None\<close> is a loop that does not end.
\<close>

partial_function (option) sliceIdoHistory ::
    "('cp \<Rightarrow> 'row list) \<Rightarrow> ('row list \<Rightarrow> 's \<Rightarrow> (string, 'cp option \<times> 's) outcome) \<Rightarrow> 'cp \<Rightarrow> 's \<Rightarrow> (string, 's) outcome option" where
  "sliceIdoHistory query onRows checkpoint s =
     (let rows = query checkpoint in
      if rows = [] then Some (Ok s)
      else
        (case onRows rows s of
           Err e \<Rightarrow> Some (Err e)
         | Panic p \<Rightarrow> Some (Panic p)
         | Ok r \<Rightarrow>
             (case fst r of
                None \<Rightarrow> Some (Ok (snd r))
              | Some checkpoint' \<Rightarrow> sliceIdoHistory query onRows checkpoint' (snd r))))"

section \<open>What does not depend on the bulks\<close>

text \<open>
  The queries agree with a table that is ordered by ID, each ID once. A consumer returns the ID of the
  last row as the checkpoint and does to two bulks, one after the other, what it does to both at once.
\<close>

locale slice_consumer =
  fixes before :: "nat \<Rightarrow> nat \<Rightarrow> bool" and ident :: "'row \<Rightarrow> nat"
    and onRows :: "'row list \<Rightarrow> 's \<Rightarrow> (string, nat option \<times> 's) outcome"
    and rowsDone :: "'row list \<Rightarrow> 's \<Rightarrow> (string, 's) outcome"
  assumes before_trans: "before a b \<Longrightarrow> before b c \<Longrightarrow> before a c"
    and before_irrefl: "\<not> before a a"
    and onRows_checkpoint: "rows \<noteq> [] \<Longrightarrow> sorted_wrt (\<lambda>x y. before (ident x) (ident y)) rows \<Longrightarrow>
      onRows rows s = bind_outcome (rowsDone rows s) (\<lambda>s'. Ok (Some (ident (last rows)), s'))"
    and rowsDone_Nil: "rowsDone [] s = Ok s"
    and rowsDone_append: "rowsDone (xs @ ys) s = bind_outcome (rowsDone xs s) (rowsDone ys)"
begin

abbreviation ordered :: "'row list \<Rightarrow> bool" where
  "ordered table \<equiv> sorted_wrt (\<lambda>x y. before (ident x) (ident y)) table"

lemma filter_beyond:
  assumes "ordered (xs @ ys)" and "xs \<noteq> []"
  shows "filter (\<lambda>r. before (ident (last xs)) (ident r)) (xs @ ys) = ys"
proof -
  obtain zs z where xs: "xs = zs @ [z]" using assms(2) by (metis rev_exhaust)
  have "\<not> before (ident z) (ident x)" if "x \<in> set xs" for x
  proof -
    have "x = z \<or> before (ident x) (ident z)" using that assms(1) xs by (auto simp: sorted_wrt_append)
    then show ?thesis using before_trans before_irrefl by metis
  qed
  moreover have "before (ident z) (ident y)" if "y \<in> set ys" for y
    using that assms(1) xs by (auto simp: sorted_wrt_append)
  ultimately show ?thesis using xs by (auto simp: filter_id_conv filter_empty_conv)
qed

text \<open>After a bulk, the rows beyond the new checkpoint are those that the bulk left.\<close>

lemma rest_beyond:
  fixes cp :: nat
  assumes ord: "ordered table" and ne: "select_bulk before ident bulk table cp \<noteq> []"
  defines "rest \<equiv> filter (\<lambda>r. before cp (ident r)) table"
  shows "filter (\<lambda>r. before (ident (last (select_bulk before ident bulk table cp))) (ident r)) table = drop bulk rest"
proof -
  let ?c = "ident (last (select_bulk before ident bulk table cp))"
  have sb: "select_bulk before ident bulk table cp = take bulk rest" by (simp add: select_bulk_def rest_def)
  have "last (take bulk rest) \<in> set (take bulk rest)" using ne sb by simp
  then have cp: "before cp ?c" unfolding sb by (auto simp: rest_def dest: in_set_takeD)
  then have "filter (\<lambda>r. before ?c (ident r)) table = filter (\<lambda>r. before ?c (ident r)) rest"
    unfolding rest_def filter_filter by (metis before_trans)
  moreover have "ordered rest" unfolding rest_def using ord sorted_wrt_filter by blast
  ultimately show ?thesis using filter_beyond [of "take bulk rest" "drop bulk rest"] ne sb by simp
qed

text \<open>The loop ends and has done all rows beyond the first checkpoint, in order, as in one bulk.\<close>

lemma slice_all:
  assumes "ordered table" and "0 < bulk"
  shows "sliceIdoHistory (select_bulk before ident bulk table) onRows cp s =
    Some (rowsDone (filter (\<lambda>r. before cp (ident r)) table) s)"
proof (induction "length (filter (\<lambda>r. before cp (ident r)) table)" arbitrary: cp s rule: less_induct)
  case less
  let ?rest = "filter (\<lambda>r. before cp (ident r)) table"
  let ?bulk = "select_bulk before ident bulk table cp"
  have sb: "?bulk = take bulk ?rest" by (simp add: select_bulk_def)
  show ?case
  proof (cases "?bulk = []")
    case True
    then have "?rest = []" using sb assms(2) by simp
    then show ?thesis using True rowsDone_Nil by (subst sliceIdoHistory.simps) (simp add: Let_def)
  next
    case ne: False
    let ?c = "ident (last ?bulk)"
    have rest: "filter (\<lambda>r. before ?c (ident r)) table = drop bulk ?rest" using rest_beyond [OF assms(1) ne] .
    have "?rest \<noteq> []" using ne sb by auto
    then have lt: "length (filter (\<lambda>r. before ?c (ident r)) table) < length ?rest" using rest assms(2) by simp
    then have ih: "sliceIdoHistory (select_bulk before ident bulk table) onRows ?c s' = Some (rowsDone (drop bulk ?rest) s')" for s'
      using less.hyps [OF lt, of s'] unfolding rest by simp
    have "ordered ?bulk" unfolding sb using assms(1) by (simp add: sorted_wrt_filter sorted_wrt_take)
    note once = onRows_checkpoint [OF ne this, of s]
    have all: "rowsDone ?rest s = bind_outcome (rowsDone ?bulk s) (rowsDone (drop bulk ?rest))"
      using rowsDone_append [of ?bulk "drop bulk ?rest" s] sb by simp
    show ?thesis
      unfolding all using ne once ih
      by (subst sliceIdoHistory.simps) (cases "rowsDone ?bulk s"; simp add: Let_def)
  qed
qed

end

section \<open>Consumers that go row by row\<close>

text \<open>A consumer that does one row after the other keeps the contract.\<close>

fun each_row :: "('row \<Rightarrow> 's \<Rightarrow> ('e, 's) outcome) \<Rightarrow> 'row list \<Rightarrow> 's \<Rightarrow> ('e, 's) outcome" where
  "each_row f [] s = Ok s"
| "each_row f (r # rs) s = bind_outcome (f r s) (each_row f rs)"

lemma bind_outcome_assoc: "bind_outcome (bind_outcome m f) g = bind_outcome m (\<lambda>x. bind_outcome (f x) g)"
  by (cases m) simp_all

lemma each_row_append: "each_row f (xs @ ys) s = bind_outcome (each_row f xs s) (each_row f ys)"
proof (induction xs arbitrary: s)
  case (Cons x xs)
  have "each_row f (xs @ ys) = (\<lambda>s. bind_outcome (each_row f xs s) (each_row f ys))" using Cons.IH by (rule ext)
  then show ?case by (simp add: bind_outcome_assoc)
qed simp

definition row_loop :: "('row \<Rightarrow> nat) \<Rightarrow> ('row \<Rightarrow> 's \<Rightarrow> (string, 's) outcome) \<Rightarrow> 'row list \<Rightarrow> 's \<Rightarrow> (string, nat option \<times> 's) outcome" where
  "row_loop ident f rows s = bind_outcome (each_row f rows s) (\<lambda>s'. Ok (Some (ident (last rows)), s'))"

locale row_consumer =
  fixes before :: "nat \<Rightarrow> nat \<Rightarrow> bool" and ident :: "'row \<Rightarrow> nat" and do_row :: "'row \<Rightarrow> 's \<Rightarrow> (string, 's) outcome"
  assumes row_trans: "before a b \<Longrightarrow> before b c \<Longrightarrow> before a c"
    and row_irrefl: "\<not> before a a"

sublocale row_consumer \<subseteq> slice_consumer before ident "row_loop ident do_row" "each_row do_row"
  by unfold_locales (use row_trans row_irrefl in \<open>auto simp: row_loop_def each_row_append\<close>)

section \<open>Termination\<close>

lemma slice_returns:
  assumes "\<And>rows s cp s'. rows \<noteq> [] \<Longrightarrow> onRows rows s = Ok (Some cp, s') \<Longrightarrow> cp = ident (last rows)"
  shows "\<exists>result. sliceIdoHistory (select_bulk (<) ident bulk table) onRows cp s = Some result"
proof (induction "length (filter (\<lambda>r. cp < ident r) table)" arbitrary: cp s rule: less_induct)
  case less
  let ?rows = "select_bulk (<) ident bulk table cp"
  show ?case
  proof (cases "?rows = []")
    case False
    have "\<exists>result. sliceIdoHistory (select_bulk (<) ident bulk table) onRows c t = Some result"
      if ok: "onRows ?rows s = Ok (Some c, t)" for c t
    proof (rule less.hyps)
      have c: "c = ident (last ?rows)" using assms [OF False ok] .
      have "last ?rows \<in> set ?rows" using False by simp
      then have l: "last ?rows \<in> set (filter (\<lambda>r. cp < ident r) table)" by (auto simp: select_bulk_def dest: in_set_takeD)
      then have "filter (\<lambda>r. c < ident r) table = filter (\<lambda>r. c < ident r) (filter (\<lambda>r. cp < ident r) table)"
        unfolding c by (auto intro!: filter_cong)
      moreover have "\<exists>x \<in> set (filter (\<lambda>r. cp < ident r) table). \<not> c < ident x" using l c by blast
      ultimately show "length (filter (\<lambda>r. c < ident r) table) < length (filter (\<lambda>r. cp < ident r) table)"
        using length_filter_less by (metis (no_types, lifting))
    qed
    then show ?thesis
      by (subst sliceIdoHistory.simps) (auto simp: Let_def False split: outcome.splits option.splits)
  qed (subst sliceIdoHistory.simps, simp)
qed

text \<open>The loop that reads the IDO in bulks ends, whatever its callback does with the rows, as long as it
  returns no checkpoint but the ID of the last row it was given.\<close>

theorem sliceIdoHistory_returns:
  assumes "\<forall>rows s cp s'. rows \<noteq> [] \<longrightarrow> onRows rows s = Ok (Some cp, s') \<longrightarrow> cp = ident (last rows)"
  shows "\<exists>result. sliceIdoHistory (select_bulk (<) ident bulk table) onRows checkpoint s = Some result"
  by (rule slice_returns) (use assms in blast)

theorem sliceIdoHistory_returns_witness:
  "\<exists>result. sliceIdoHistory (select_bulk (<) (\<lambda>n. n) 2 [1, 2, 3]) (row_loop (\<lambda>n. n) (\<lambda>n s. Ok (s + n))) 0 (0 :: nat) = Some result"
proof (rule sliceIdoHistory_returns)
  show "\<forall>rows s cp s'. rows \<noteq> [] \<longrightarrow> row_loop (\<lambda>n. n) (\<lambda>n s. Ok (s + n)) rows (s :: nat) = Ok (Some cp, s') \<longrightarrow> cp = last rows"
    by (auto simp: row_loop_def bind_outcome_Ok_iff)
qed

end
