(* ===== verification/Migrate_Cache.thy ===== *)
theory Migrate_Cache
  imports Migrate_Slice
begin

text \<open>
  The two caches of the history migration, \<open>cmd/icingadb-migrate/cache.go\<close>: SQLite tables filled row by
  row from the IDO, in transactions that are committed from time to time, so that an interrupted run
  can go on. A table with a primary key is a map; inserting a second row with the same key fails, and a
  failing statement exits the program.
\<close>

section \<open>Transactions\<close>

text \<open>
  \<open>do\<close> is the list of the operations it performs, each with whether the commit interval has passed after
  it. The results are what the cache file holds afterwards and how \<open>do\<close> ended; a process that is killed
  is an operation that fails.
\<close>

fun chunkCacheTx :: "(('s \<Rightarrow> ('e, 's) outcome) \<times> bool) list \<Rightarrow> 's \<Rightarrow> 's \<Rightarrow> 's \<times> ('e, 's) outcome" where
  "chunkCacheTx [] committed tx = (tx, Ok tx)"
| "chunkCacheTx ((operation, due) # ops) committed tx =
     (case operation tx of
        Ok tx' \<Rightarrow> chunkCacheTx ops (if due then tx' else committed) tx'
      | Err e \<Rightarrow> (committed, Err e)
      | Panic p \<Rightarrow> (committed, Panic p))"

text \<open>What the file holds is the state after some of the operations, all of them if none failed.\<close>

lemma chunkCacheTx_prefix:
  "\<exists>n \<le> length ops. each_row (\<lambda>op. fst op) (take n ops) tx = Ok (fst (chunkCacheTx ops tx tx))"
proof -
  have "\<exists>n \<le> length ops. each_row (\<lambda>op. fst op) (take n ops) tx = Ok (fst (chunkCacheTx ops committed tx)) \<or>
      fst (chunkCacheTx ops committed tx) = committed" for committed
  proof (induction ops arbitrary: committed tx)
    case (Cons x ops)
    obtain operation due where x: "x = (operation, due)" by fastforce
    show ?case
    proof (cases "operation tx")
      case (Ok tx')
      obtain n where n: "n \<le> length ops" "each_row (\<lambda>op. fst op) (take n ops) tx' =
          Ok (fst (chunkCacheTx ops (if due then tx' else committed) tx')) \<or>
          fst (chunkCacheTx ops (if due then tx' else committed) tx') = (if due then tx' else committed)"
        using Cons.IH by blast
      show ?thesis
      proof (cases "fst (chunkCacheTx ops (if due then tx' else committed) tx') = (if due then tx' else committed)")
        case True
        then show ?thesis
        proof (cases due)
          assume due
          then show ?thesis using True x Ok by (intro exI [of _ 1]) simp
        qed (use x Ok in auto)
      next
        case False
        then show ?thesis using n x Ok by (intro exI [of _ "Suc n"]) simp
      qed
    qed (use x in auto)
  qed simp
  then obtain n where "n \<le> length ops" "each_row (\<lambda>op. fst op) (take n ops) tx = Ok (fst (chunkCacheTx ops tx tx)) \<or>
      fst (chunkCacheTx ops tx tx) = tx" by blast
  then show ?thesis by (metis each_row.simps(1) take0 zero_le)
qed

text \<open>A run that is killed after some rows leaves the state after some of them.\<close>

definition killed_run :: "('row \<Rightarrow> 's \<Rightarrow> (string, 's) outcome) \<Rightarrow> ('row \<times> bool) list \<Rightarrow> 's \<Rightarrow> 's" where
  "killed_run f rows s = fst (chunkCacheTx (map (\<lambda>(r, due). (f r, due)) rows @ [(\<lambda>s. Err ''killed'', False)]) s s)"

lemma each_row_map: "each_row (\<lambda>op. fst op) (map (\<lambda>(r, due). (f r, due)) rows) s = each_row f (map fst rows) s"
proof (induction rows arbitrary: s)
  case (Cons x rows)
  have "each_row (\<lambda>op. fst op) (map (\<lambda>(r, due). (f r, due)) rows) = each_row f (map fst rows)" using Cons.IH by (rule ext)
  then show ?case by (cases x) simp
qed simp

lemma killed_run_prefix: "\<exists>n. each_row f (take n (map fst rows)) s = Ok (killed_run f rows s)"
proof -
  let ?ops = "map (\<lambda>(r, due). (f r, due)) rows"
  obtain n where n: "each_row (\<lambda>op. fst op) (take n (?ops @ [(\<lambda>s. Err ''killed'', False)])) s = Ok (killed_run f rows s)"
    using chunkCacheTx_prefix [of "?ops @ [(\<lambda>s. Err ''killed'', False)]" s] unfolding killed_run_def by (elim exE conjE)
  have "n \<le> length rows"
  proof (rule ccontr)
    assume "\<not> n \<le> length rows"
    then obtain k where "n - length rows = Suc k" by (metis Suc_diff_le not_less_eq_eq diff_Suc_Suc)
    then show False using n by (cases "each_row (\<lambda>op. fst op) ?ops s") (simp_all add: each_row_append)
  qed
  then have "each_row f (map fst (take n rows)) s = Ok (killed_run f rows s)"
    using n each_row_map [of f "take n rows" s] by (simp add: take_map)
  then show ?thesis by (auto simp: take_map)
qed

section \<open>Start times of flapping and acknowledgement ends\<close>

record event_row =
  er_Id :: nat
  er_EventTime :: int
  er_EventTimeUsec :: "32 word"
  er_EventIsStart :: "8 word"
  er_ObjectId :: nat

record event_cache =
  end_start_time :: "nat \<rightharpoonup> int \<times> 32 word"
  last_start_time :: "nat \<rightharpoonup> int \<times> 32 word"

definition empty_event_cache :: event_cache where
  "empty_event_cache = \<lparr>end_start_time = Map.empty, last_start_time = Map.empty\<rparr>"

definition event_time :: "event_row \<Rightarrow> int \<times> 32 word" where
  "event_time r = (er_EventTime r, er_EventTimeUsec r)"

definition event_cache_row :: "event_row \<Rightarrow> event_cache \<Rightarrow> (string, event_cache) outcome" where
  "event_cache_row r c =
     (if er_EventIsStart r = 0 then
        (case last_start_time c (er_ObjectId r) of
           None \<Rightarrow> Ok c
         | Some t \<Rightarrow>
             if end_start_time c (er_Id r) \<noteq> None then Err ''UNIQUE constraint failed: end_start_time.history_id''
             else Ok (c\<lparr>end_start_time := (end_start_time c)(er_Id r \<mapsto> t),
                        last_start_time := (last_start_time c)(er_ObjectId r := None)\<rparr>))
      else Ok (c\<lparr>last_start_time := (last_start_time c)(er_ObjectId r \<mapsto> event_time r)\<rparr>))"

text \<open>\<open>SELECT MAX(history_id)\<close>, or 0 when the table is empty.\<close>

definition event_checkpoint :: "event_cache \<Rightarrow> nat" where
  "event_checkpoint c = (if dom (end_start_time c) = {} then 0 else Max (dom (end_start_time c)))"

definition buildEventTimeCache :: "nat \<Rightarrow> nat \<Rightarrow> event_row list \<Rightarrow> event_cache \<Rightarrow> (string, event_cache) outcome option" where
  "buildEventTimeCache toid bulk table c =
     map_option (\<lambda>result. bind_outcome result (\<lambda>c'. Ok (c'\<lparr>last_start_time := Map.empty\<rparr>)))
       (sliceIdoHistory (select_bulk (<) er_Id bulk (filter (\<lambda>r. er_Id r \<le> toid) table))
         (row_loop er_Id event_cache_row) (event_checkpoint c) c)"

interpretation event_rows: row_consumer "(<)" er_Id event_cache_row
  by unfold_locales auto

subsection \<open>What it computes\<close>

text \<open>
  The start that the next end of an object belongs to: the last event of the object, if that is a start.
\<close>

definition open_start :: "nat \<Rightarrow> event_row list \<Rightarrow> (int \<times> 32 word) option" where
  "open_start obj rows =
     (let es = filter (\<lambda>r. er_ObjectId r = obj) rows in
      if es = [] \<or> er_EventIsStart (last es) = 0 then None else Some (event_time (last es)))"

lemma open_start_Nil [simp]: "open_start obj [] = None"
  by (simp add: open_start_def)

lemma open_start_snoc [simp]:
  "open_start obj (rows @ [r]) =
     (if er_ObjectId r = obj then (if er_EventIsStart r = 0 then None else Some (event_time r)) else open_start obj rows)"
  by (simp add: open_start_def Let_def)

definition event_spec :: "event_row list \<Rightarrow> event_cache \<Rightarrow> bool" where
  "event_spec rows c \<longleftrightarrow>
     last_start_time c = (\<lambda>obj. open_start obj rows) \<and>
     dom (end_start_time c) \<subseteq> er_Id ` set rows \<and>
     (\<forall>k < length rows. end_start_time c (er_Id (rows ! k)) =
        (if er_EventIsStart (rows ! k) = 0 then open_start (er_ObjectId (rows ! k)) (take k rows) else None))"

lemma event_spec_Nil: "event_spec [] empty_event_cache"
  by (simp add: event_spec_def empty_event_cache_def)

lemma event_spec_snoc:
  assumes spec: "event_spec rows c" and new: "er_Id r \<notin> er_Id ` set rows"
  shows "\<exists>c'. event_cache_row r c = Ok c' \<and> event_spec (rows @ [r]) c'"
proof -
  have l: "last_start_time c = (\<lambda>obj. open_start obj rows)" and d: "dom (end_start_time c) \<subseteq> er_Id ` set rows"
    and e: "\<And>k. k < length rows \<Longrightarrow> end_start_time c (er_Id (rows ! k)) =
        (if er_EventIsStart (rows ! k) = 0 then open_start (er_ObjectId (rows ! k)) (take k rows) else None)"
    using spec by (simp_all add: event_spec_def)
  have nr: "end_start_time c (er_Id r) = None" using d new by blast
  have ne: "er_Id (rows ! k) \<noteq> er_Id r" if "k < length rows" for k
  proof -
    have "er_Id (rows ! k) \<in> er_Id ` set rows" using that by simp
    then show ?thesis using new by metis
  qed
  have keep: "event_spec (rows @ [r]) c'"
    if "last_start_time c' = (\<lambda>obj. open_start obj (rows @ [r]))"
      "\<And>i. i \<noteq> er_Id r \<Longrightarrow> end_start_time c' i = end_start_time c i"
      "end_start_time c' (er_Id r) = (if er_EventIsStart r = 0 then open_start (er_ObjectId r) rows else None)" for c'
    unfolding event_spec_def
  proof (intro conjI)
    show "dom (end_start_time c') \<subseteq> er_Id ` set (rows @ [r])"
    proof
      fix i
      assume i: "i \<in> dom (end_start_time c')"
      then show "i \<in> er_Id ` set (rows @ [r])"
      proof (cases "i = er_Id r")
        case False
        then have "i \<in> dom (end_start_time c)" using i that(2) [OF False] by (simp add: domIff)
        then show ?thesis using d by auto
      qed auto
    qed
    show "\<forall>k < length (rows @ [r]). end_start_time c' (er_Id ((rows @ [r]) ! k)) =
        (if er_EventIsStart ((rows @ [r]) ! k) = 0 then open_start (er_ObjectId ((rows @ [r]) ! k)) (take k (rows @ [r])) else None)"
    proof (intro allI impI)
      fix k
      assume "k < length (rows @ [r])"
      then consider "k < length rows" | "k = length rows" by fastforce
      then show "end_start_time c' (er_Id ((rows @ [r]) ! k)) =
        (if er_EventIsStart ((rows @ [r]) ! k) = 0 then open_start (er_ObjectId ((rows @ [r]) ! k)) (take k (rows @ [r])) else None)"
        by cases (use e ne that in \<open>simp_all add: nth_append\<close>)
    qed
  qed (rule that(1))
  have ls: "last_start_time c (er_ObjectId r) = open_start (er_ObjectId r) rows" using l by simp
  consider (start) "er_EventIsStart r \<noteq> 0" | (orphan) "er_EventIsStart r = 0" "open_start (er_ObjectId r) rows = None"
    | (closing) t where "er_EventIsStart r = 0" "open_start (er_ObjectId r) rows = Some t" by fastforce
  then show ?thesis
  proof cases
    case start
    let ?c = "c\<lparr>last_start_time := (last_start_time c)(er_ObjectId r \<mapsto> event_time r)\<rparr>"
    have "event_spec (rows @ [r]) ?c" by (rule keep) (use start l nr in \<open>auto simp: fun_eq_iff\<close>)
    then show ?thesis using start by (simp add: event_cache_row_def)
  next
    case orphan
    have "event_spec (rows @ [r]) c" by (rule keep) (use orphan l nr in \<open>auto simp: fun_eq_iff\<close>)
    then show ?thesis using orphan ls by (simp add: event_cache_row_def)
  next
    case (closing t)
    let ?c = "c\<lparr>end_start_time := (end_start_time c)(er_Id r \<mapsto> t), last_start_time := (last_start_time c)(er_ObjectId r := None)\<rparr>"
    have "event_spec (rows @ [r]) ?c" by (rule keep) (use closing l nr in \<open>auto simp: fun_eq_iff\<close>)
    then show ?thesis using closing ls nr by (simp add: event_cache_row_def)
  qed
qed

lemma event_spec_rows:
  "distinct (map er_Id rows) \<Longrightarrow> \<exists>c. each_row event_cache_row rows empty_event_cache = Ok c \<and> event_spec rows c"
proof (induction rows rule: rev_induct)
  case Nil
  show ?case using event_spec_Nil by simp
next
  case (snoc r rows)
  then obtain c where c: "each_row event_cache_row rows empty_event_cache = Ok c" "event_spec rows c" by auto
  obtain c' where "event_cache_row r c = Ok c'" "event_spec (rows @ [r]) c'"
    using event_spec_snoc [OF c(2), of r] snoc.prems by auto
  then show ?case using c(1) by (simp add: each_row_append)
qed

lemma build_event_from:
  assumes "sorted_wrt (\<lambda>x y. er_Id x < er_Id y) table" and "0 < bulk"
  shows "buildEventTimeCache toid bulk table c =
    Some (bind_outcome (each_row event_cache_row (filter (\<lambda>r. event_checkpoint c < er_Id r) (filter (\<lambda>r. er_Id r \<le> toid) table)) c)
      (\<lambda>c'. Ok (c'\<lparr>last_start_time := Map.empty\<rparr>)))"
proof -
  have "sorted_wrt (\<lambda>x y. er_Id x < er_Id y) (filter (\<lambda>r. er_Id r \<le> toid) table)"
    using assms(1) by (rule sorted_wrt_filter)
  then show ?thesis unfolding buildEventTimeCache_def by (simp add: event_rows.slice_all [OF _ assms(2)])
qed

lemma empty_checkpoint [simp]: "event_checkpoint empty_event_cache = 0"
  by (simp add: event_checkpoint_def empty_event_cache_def)

lemma sorted_distinct_ids: "sorted_wrt (\<lambda>x y. f x < (f y :: nat)) xs \<Longrightarrow> distinct (map f xs)"
  by (induction xs) auto

text \<open>An uninterrupted run.\<close>

lemma build_event_fresh:
  assumes ord: "sorted_wrt (\<lambda>x y. er_Id x < er_Id y) table" and pos: "\<forall>r \<in> set table. 0 < er_Id r" and bulk: "0 < bulk"
    and rows_def: "rows = filter (\<lambda>r. er_Id r \<le> toid) table"
  shows "\<exists>c. each_row event_cache_row rows empty_event_cache = Ok c \<and> event_spec rows c \<and>
    buildEventTimeCache toid bulk table empty_event_cache = Some (Ok (c\<lparr>last_start_time := Map.empty\<rparr>))"
proof -
  have "sorted_wrt (\<lambda>x y. er_Id x < er_Id y) rows" unfolding rows_def using ord by (rule sorted_wrt_filter)
  then obtain c where c: "each_row event_cache_row rows empty_event_cache = Ok c" "event_spec rows c"
    using event_spec_rows sorted_distinct_ids by blast
  moreover have "\<forall>r \<in> set rows. 0 < er_Id r" using pos by (simp add: rows_def)
  then have "filter (\<lambda>r. 0 < er_Id r) rows = rows" by (simp add: filter_id_conv)
  ultimately show ?thesis
    using build_event_from [OF ord bulk, of toid empty_event_cache] unfolding rows_def [symmetric] empty_checkpoint by simp
qed

subsection \<open>Interrupted runs\<close>

lemma sorted_split:
  "sorted_wrt (\<lambda>x y. f x < (f y :: nat)) xs \<Longrightarrow> filter (\<lambda>x. \<not> cp < f x) xs @ filter (\<lambda>x. cp < f x) xs = xs"
proof (induction xs)
  case (Cons x xs)
  show ?case
  proof (cases "cp < f x")
    case True
    then have "\<forall>y \<in> set xs. cp < f y" using Cons.prems by auto
    then show ?thesis using True by (simp add: filter_empty_conv filter_id_conv)
  qed (use Cons in auto)
qed simp

text \<open>Doing starts once more changes nothing.\<close>

lemma starts_only:
  assumes "\<forall>r \<in> set rows. er_EventIsStart r \<noteq> 0"
  shows "each_row event_cache_row rows c = Ok (c\<lparr>last_start_time :=
    (\<lambda>obj. case open_start obj rows of None \<Rightarrow> last_start_time c obj | Some t \<Rightarrow> Some t)\<rparr>)"
  using assms
proof (induction rows rule: rev_induct)
  case (snoc r rows)
  then show ?case by (simp add: each_row_append event_cache_row_def fun_eq_iff)
qed simp

lemma redo_starts:
  assumes "last_start_time c = (\<lambda>obj. open_start obj (xs @ ys))" and "\<forall>r \<in> set ys. er_EventIsStart r \<noteq> 0"
  shows "each_row event_cache_row ys c = Ok c"
proof -
  have "open_start obj (xs @ ys) = Some t" if "open_start obj ys = Some t" for obj t
    using that by (auto simp: open_start_def Let_def split: if_splits)
  then have "(\<lambda>obj. case open_start obj ys of None \<Rightarrow> last_start_time c obj | Some t \<Rightarrow> Some t) = last_start_time c"
    using assms(1) by (auto simp: fun_eq_iff split: option.splits)
  then show ?thesis using starts_only [OF assms(2), of c] by simp
qed

text \<open>
  No orphaned ends: every end has a start before it. Then a run that goes on from a committed state
  gets where the uninterrupted one gets.
\<close>

definition no_orphans :: "event_row list \<Rightarrow> bool" where
  "no_orphans rows \<longleftrightarrow> (\<forall>k < length rows. er_EventIsStart (rows ! k) = 0 \<longrightarrow>
     open_start (er_ObjectId (rows ! k)) (take k rows) \<noteq> None)"

lemma resume_rows:
  assumes ord: "sorted_wrt (\<lambda>x y. er_Id x < er_Id y) (xs @ ys)" and pos: "\<forall>r \<in> set (xs @ ys). 0 < er_Id r"
    and no: "no_orphans (xs @ ys)" and c: "each_row event_cache_row xs empty_event_cache = Ok c"
  shows "each_row event_cache_row (filter (\<lambda>r. event_checkpoint c < er_Id r) (xs @ ys)) c = each_row event_cache_row ys c"
proof -
  let ?cp = "event_checkpoint c"
  have ordx: "sorted_wrt (\<lambda>x y. er_Id x < er_Id y) xs" using ord by (simp add: sorted_wrt_append)
  have spec: "event_spec xs c" using event_spec_rows [OF sorted_distinct_ids [OF ordx]] c by auto
  then have dom: "dom (end_start_time c) \<subseteq> er_Id ` set xs" and last: "last_start_time c = (\<lambda>obj. open_start obj xs)"
    by (simp_all add: event_spec_def)
  have fin: "finite (dom (end_start_time c))" using dom finite_subset by blast
  have "?cp < er_Id y" if "y \<in> set ys" for y
  proof (cases "dom (end_start_time c) = {}")
    case False
    then have "?cp \<in> er_Id ` set xs" using dom Max_in [OF fin] by (auto simp: event_checkpoint_def)
    then show ?thesis using ord that by (auto simp: sorted_wrt_append)
  qed (use pos that in \<open>simp add: event_checkpoint_def\<close>)
  then have ys: "filter (\<lambda>r. ?cp < er_Id r) ys = ys" by (simp add: filter_id_conv)
  have starts: "er_EventIsStart r \<noteq> 0" if r: "r \<in> set (filter (\<lambda>r. ?cp < er_Id r) xs)" for r
  proof
    assume en: "er_EventIsStart r = 0"
    obtain k where k: "k < length xs" "xs ! k = r" using r by (auto simp: in_set_conv_nth)
    have "open_start (er_ObjectId r) (take k (xs @ ys)) \<noteq> None"
      using no k en unfolding no_orphans_def by (metis (no_types, lifting) length_append nth_append trans_less_add1)
    moreover have "end_start_time c (er_Id r) = open_start (er_ObjectId r) (take k xs)"
      using spec k en unfolding event_spec_def by metis
    ultimately have "end_start_time c (er_Id r) \<noteq> None" using k(1) by simp
    then have "er_Id r \<le> ?cp" using fin by (auto simp: event_checkpoint_def intro!: Max_ge)
    then show False using r by simp
  qed
  have "each_row event_cache_row (filter (\<lambda>r. ?cp < er_Id r) xs) c = Ok c"
  proof (rule redo_starts)
    show "last_start_time c = (\<lambda>obj. open_start obj (filter (\<lambda>r. \<not> ?cp < er_Id r) xs @ filter (\<lambda>r. ?cp < er_Id r) xs))"
      using last sorted_split [OF ordx] by simp
  qed (use starts in blast)
  then show ?thesis using ys by (simp add: each_row_append)
qed

lemma build_event_resume:
  assumes ord: "sorted_wrt (\<lambda>x y. er_Id x < er_Id y) table" and pos: "\<forall>r \<in> set table. 0 < er_Id r" and bulk: "0 < bulk"
    and rows: "filter (\<lambda>r. er_Id r \<le> toid) table = xs @ ys" and no: "no_orphans (xs @ ys)"
    and c: "each_row event_cache_row xs empty_event_cache = Ok c"
  shows "buildEventTimeCache toid bulk table c = buildEventTimeCache toid bulk table empty_event_cache"
proof -
  have ord': "sorted_wrt (\<lambda>x y. er_Id x < er_Id y) (xs @ ys)" using sorted_wrt_filter [OF ord] rows by metis
  have pos': "\<forall>r \<in> set (xs @ ys). 0 < er_Id r" using pos unfolding rows [symmetric] by simp
  then have "filter (\<lambda>r. 0 < er_Id r) (xs @ ys) = xs @ ys" by (auto simp: filter_id_conv)
  then show ?thesis
    unfolding build_event_from [OF ord bulk] rows resume_rows [OF ord' pos' no c]
    using c by (simp add: each_row_append)
qed

section \<open>Previous hard states\<close>

record hard_row =
  hr_Id :: nat
  hr_ObjectId :: nat
  hr_LastHardState :: "8 word"

text \<open>The table \<open>next_ids\<close> has no primary key; a row is a pair of history ID and object ID.\<close>

record hard_cache =
  previous_hard_state :: "nat \<rightharpoonup> 8 word"
  next_hard_state :: "nat \<rightharpoonup> 8 word"
  next_ids :: "(nat \<times> nat) list"

definition empty_hard_cache :: hard_cache where
  "empty_hard_cache = \<lparr>previous_hard_state = Map.empty, next_hard_state = Map.empty, next_ids = []\<rparr>"

text \<open>\<open>INSERT INTO previous_hard_state ... SELECT\<close>\<close>

definition insert_previous :: "nat list \<Rightarrow> 8 word \<Rightarrow> hard_cache \<Rightarrow> (string, hard_cache) outcome" where
  "insert_previous ids state c =
     (if distinct ids \<and> list_all (\<lambda>i. previous_hard_state c i = None) ids
      then Ok (c\<lparr>previous_hard_state := (\<lambda>i. if i \<in> set ids then Some state else previous_hard_state c i)\<rparr>)
      else Err ''UNIQUE constraint failed: previous_hard_state.history_id'')"

definition hard_cache_row :: "hard_row \<Rightarrow> hard_cache \<Rightarrow> (string, hard_cache) outcome" where
  "hard_cache_row r c =
     (case next_hard_state c (hr_ObjectId r) of
        None \<Rightarrow>
          Ok (c\<lparr>next_hard_state := (next_hard_state c)(hr_ObjectId r \<mapsto> hr_LastHardState r),
                next_ids := next_ids c @ [(hr_Id r, hr_ObjectId r)]\<rparr>)
      | Some nhs \<Rightarrow>
          if hr_LastHardState r = nhs then Ok (c\<lparr>next_ids := next_ids c @ [(hr_Id r, hr_ObjectId r)]\<rparr>)
          else
            bind_outcome
              (insert_previous (map fst (filter (\<lambda>x. snd x = hr_ObjectId r) (next_ids c))) (hr_LastHardState r) c)
              (\<lambda>c'. Ok (c'\<lparr>next_hard_state := (next_hard_state c)(hr_ObjectId r \<mapsto> hr_LastHardState r),
                 next_ids := filter (\<lambda>x. snd x \<noteq> hr_ObjectId r) (next_ids c) @ [(hr_Id r, hr_ObjectId r)]\<rparr>)))"

text \<open>\<open>math.MaxInt64\<close> if nothing has been done yet, the smallest ID of \<open>next_ids\<close>, or 0 if all is done.\<close>

definition hard_checkpoint :: "hard_cache \<Rightarrow> nat" where
  "hard_checkpoint c =
     (if next_ids c \<noteq> [] then Min (set (map fst (next_ids c)))
      else if dom (previous_hard_state c) = {} then 2 ^ 63 - 1
      else 0)"

definition hard_finish :: "hard_cache \<Rightarrow> (string, hard_cache) outcome" where
  "hard_finish c =
     bind_outcome (insert_previous (map fst (next_ids c)) 99 c)
       (\<lambda>c'. Ok (c'\<lparr>next_hard_state := Map.empty, next_ids := []\<rparr>))"

definition buildPreviousHardStateCache :: "nat \<Rightarrow> nat \<Rightarrow> hard_row list \<Rightarrow> hard_cache \<Rightarrow> (string, hard_cache) outcome option" where
  "buildPreviousHardStateCache toid bulk table c =
     map_option (\<lambda>result. bind_outcome result hard_finish)
       (sliceIdoHistory (select_bulk (\<lambda>a b. b < a) hr_Id bulk (filter (\<lambda>r. hr_Id r \<le> toid) table))
         (row_loop hr_Id hard_cache_row) (hard_checkpoint c) c)"

interpretation hard_rows: row_consumer "\<lambda>a b. b < a" hr_Id hard_cache_row
  by unfold_locales auto

subsection \<open>What it computes\<close>

text \<open>
  Backwards in time: the first other hard state of the object among the rows that follow in the
  descending order.
\<close>

definition first_other :: "hard_row \<Rightarrow> hard_row list \<Rightarrow> 8 word option" where
  "first_other r older =
     map_option hr_LastHardState (find (\<lambda>q. hr_ObjectId q = hr_ObjectId r \<and> hr_LastHardState q \<noteq> hr_LastHardState r) older)"

lemma find_append: "find P (xs @ ys) = (case find P xs of None \<Rightarrow> find P ys | Some x \<Rightarrow> Some x)"
  by (induction xs) auto

lemma first_other_snoc:
  "first_other r (xs @ [n]) = (case first_other r xs of
      None \<Rightarrow> if hr_ObjectId n = hr_ObjectId r \<and> hr_LastHardState n \<noteq> hr_LastHardState r then Some (hr_LastHardState n) else None
    | Some h \<Rightarrow> Some h)"
  by (auto simp: first_other_def find_append split: option.splits)

lemma first_other_Nil [simp]: "first_other r [] = None"
  by (simp add: first_other_def)

text \<open>The rows whose previous hard state is not known after the rows done so far.\<close>

definition awaits_change :: "hard_row list \<Rightarrow> nat \<Rightarrow> bool" where
  "awaits_change rows k \<longleftrightarrow> k < length rows \<and> first_other (rows ! k) (drop (Suc k) rows) = None"

definition hard_spec :: "hard_row list \<Rightarrow> hard_cache \<Rightarrow> bool" where
  "hard_spec rows c \<longleftrightarrow>
     (\<forall>k < length rows. previous_hard_state c (hr_Id (rows ! k)) = first_other (rows ! k) (drop (Suc k) rows)) \<and>
     dom (previous_hard_state c) \<subseteq> hr_Id ` set rows \<and>
     set (next_ids c) = {(hr_Id (rows ! k), hr_ObjectId (rows ! k)) | k. awaits_change rows k} \<and>
     distinct (map fst (next_ids c)) \<and>
     (\<forall>k < length rows. next_hard_state c (hr_ObjectId (rows ! k)) \<noteq> None) \<and>
     dom (next_hard_state c) \<subseteq> hr_ObjectId ` set rows \<and>
     (\<forall>k. awaits_change rows k \<longrightarrow> next_hard_state c (hr_ObjectId (rows ! k)) = Some (hr_LastHardState (rows ! k)))"

lemma hard_spec_Nil: "hard_spec [] empty_hard_cache"
  by (simp add: hard_spec_def empty_hard_cache_def awaits_change_def)

definition changes :: "hard_row \<Rightarrow> hard_row \<Rightarrow> bool" where
  "changes n r \<longleftrightarrow> hr_ObjectId n = hr_ObjectId r \<and> hr_LastHardState n \<noteq> hr_LastHardState r"

lemma first_other_later:
  "k < length rows \<Longrightarrow> first_other ((rows @ [n]) ! k) (drop (Suc k) (rows @ [n])) =
     (case first_other (rows ! k) (drop (Suc k) rows) of
        None \<Rightarrow> if changes n (rows ! k) then Some (hr_LastHardState n) else None
      | Some h \<Rightarrow> Some h)"
  by (cases "first_other (rows ! k) (drop (Suc k) rows)"; auto simp: nth_append first_other_snoc changes_def)

lemma waiting_snoc:
  "awaits_change (rows @ [n]) k \<longleftrightarrow> k = length rows \<or> (awaits_change rows k \<and> \<not> changes n (rows ! k))"
proof -
  consider "k < length rows" | "k = length rows" | "k > length rows" by linarith
  then show ?thesis
  proof cases
    case 1
    then show ?thesis using first_other_later [OF 1, of n] by (simp add: awaits_change_def split: option.splits)
  qed (simp_all add: awaits_change_def)
qed

text \<open>A state that agrees with the next row.\<close>

lemma hard_spec_snocI:
  assumes spec: "hard_spec rows c"
    and prev: "\<And>k. k < length rows \<Longrightarrow> previous_hard_state c' (hr_Id (rows ! k)) =
        (case first_other (rows ! k) (drop (Suc k) rows) of
           None \<Rightarrow> if changes n (rows ! k) then Some (hr_LastHardState n) else None
         | Some h \<Rightarrow> Some h)"
    and fresh: "previous_hard_state c' (hr_Id n) = None" "dom (previous_hard_state c') \<subseteq> hr_Id ` set rows"
    and ids: "set (next_ids c') = insert (hr_Id n, hr_ObjectId n)
        {(hr_Id (rows ! k), hr_ObjectId (rows ! k)) | k. awaits_change rows k \<and> \<not> changes n (rows ! k)}"
      "distinct (map fst (next_ids c'))"
    and next_hs: "next_hard_state c' = (next_hard_state c)(hr_ObjectId n \<mapsto> hr_LastHardState n)"
  shows "hard_spec (rows @ [n]) c'"
  unfolding hard_spec_def
proof (intro conjI)
  show "\<forall>k < length (rows @ [n]). previous_hard_state c' (hr_Id ((rows @ [n]) ! k)) = first_other ((rows @ [n]) ! k) (drop (Suc k) (rows @ [n]))"
  proof (intro allI impI)
    fix k
    assume "k < length (rows @ [n])"
    then consider "k < length rows" | "k = length rows" by fastforce
    then show "previous_hard_state c' (hr_Id ((rows @ [n]) ! k)) = first_other ((rows @ [n]) ! k) (drop (Suc k) (rows @ [n]))"
    proof cases
      case 1
      then show ?thesis using prev [OF 1] first_other_later [OF 1, of n] by (simp add: nth_append)
    qed (use fresh in simp)
  qed
  show "dom (previous_hard_state c') \<subseteq> hr_Id ` set (rows @ [n])" using fresh(2) by auto
  show "set (next_ids c') = {(hr_Id ((rows @ [n]) ! k), hr_ObjectId ((rows @ [n]) ! k)) | k. awaits_change (rows @ [n]) k}"
  proof -
    have "{(hr_Id ((rows @ [n]) ! k), hr_ObjectId ((rows @ [n]) ! k)) | k. awaits_change (rows @ [n]) k} =
        insert (hr_Id n, hr_ObjectId n) {(hr_Id ((rows @ [n]) ! k), hr_ObjectId ((rows @ [n]) ! k)) | k. awaits_change rows k \<and> \<not> changes n (rows ! k)}"
      by (force simp: waiting_snoc)
    also have "{(hr_Id ((rows @ [n]) ! k), hr_ObjectId ((rows @ [n]) ! k)) | k. awaits_change rows k \<and> \<not> changes n (rows ! k)} =
        {(hr_Id (rows ! k), hr_ObjectId (rows ! k)) | k. awaits_change rows k \<and> \<not> changes n (rows ! k)}"
      by (rule Collect_cong) (metis nth_append awaits_change_def)
    finally show ?thesis using ids(1) by simp
  qed
  show "distinct (map fst (next_ids c'))" by (rule ids(2))
  have nh: "\<And>k. k < length rows \<Longrightarrow> next_hard_state c (hr_ObjectId (rows ! k)) \<noteq> None"
    and nd: "dom (next_hard_state c) \<subseteq> hr_ObjectId ` set rows"
    and nw: "\<And>k. awaits_change rows k \<Longrightarrow> next_hard_state c (hr_ObjectId (rows ! k)) = Some (hr_LastHardState (rows ! k))"
    using spec unfolding hard_spec_def by blast+
  show "\<forall>k < length (rows @ [n]). next_hard_state c' (hr_ObjectId ((rows @ [n]) ! k)) \<noteq> None"
    using nh by (auto simp: next_hs nth_append less_Suc_eq)
  show "dom (next_hard_state c') \<subseteq> hr_ObjectId ` set (rows @ [n])" using nd by (auto simp: next_hs)
  show "\<forall>k. awaits_change (rows @ [n]) k \<longrightarrow> next_hard_state c' (hr_ObjectId ((rows @ [n]) ! k)) = Some (hr_LastHardState ((rows @ [n]) ! k))"
  proof (intro allI impI)
    fix k
    assume "awaits_change (rows @ [n]) k"
    then consider "k = length rows" | "awaits_change rows k" "\<not> changes n (rows ! k)" "k < length rows"
      unfolding waiting_snoc by (auto simp: awaits_change_def)
    then show "next_hard_state c' (hr_ObjectId ((rows @ [n]) ! k)) = Some (hr_LastHardState ((rows @ [n]) ! k))"
      by cases (use nw in \<open>auto simp: next_hs nth_append changes_def\<close>)
  qed
qed

lemma dom_if_Some: "dom (\<lambda>i. if i \<in> S then Some h else m i) = S \<union> dom m"
  by (auto split: if_splits)

lemma insert_previous_ok:
  assumes "distinct ids" and "\<forall>i \<in> set ids. previous_hard_state c i = None"
  shows "insert_previous ids h c = Ok (c\<lparr>previous_hard_state := (\<lambda>i. if i \<in> set ids then Some h else previous_hard_state c i)\<rparr>)"
  using assms by (simp add: insert_previous_def list_all_iff)

lemma hard_spec_parts:
  assumes "hard_spec rows c"
  shows spec_prev: "\<And>k. k < length rows \<Longrightarrow> previous_hard_state c (hr_Id (rows ! k)) = first_other (rows ! k) (drop (Suc k) rows)"
    and spec_dom: "dom (previous_hard_state c) \<subseteq> hr_Id ` set rows"
    and spec_ids: "set (next_ids c) = {(hr_Id (rows ! k), hr_ObjectId (rows ! k)) | k. awaits_change rows k}"
    and spec_distinct: "distinct (map fst (next_ids c))"
    and spec_awaits: "\<And>k. awaits_change rows k \<Longrightarrow> next_hard_state c (hr_ObjectId (rows ! k)) = Some (hr_LastHardState (rows ! k))"
    and spec_seen: "\<And>k. k < length rows \<Longrightarrow> next_hard_state c (hr_ObjectId (rows ! k)) \<noteq> None"
  using assms unfolding hard_spec_def by blast+

lemma spec_new_id: "hard_spec rows c \<Longrightarrow> hr_Id n \<notin> hr_Id ` set rows \<Longrightarrow> hr_Id n \<notin> fst ` set (next_ids c)"
  using hard_spec_parts(3) [of rows c] by (auto simp: awaits_change_def)

text \<open>The hard state of the object is different: the waiting rows of the object get it.\<close>

lemma stash_ids:
  assumes spec: "hard_spec rows c" and dist: "distinct (map hr_Id rows)" and k: "k < length rows"
    and nhs: "next_hard_state c (hr_ObjectId n) = Some nhs" "hr_LastHardState n \<noteq> nhs"
  shows "hr_Id (rows ! k) \<in> set (map fst (filter (\<lambda>x. snd x = hr_ObjectId n) (next_ids c))) \<longleftrightarrow> awaits_change rows k \<and> changes n (rows ! k)"
proof -
  note p = hard_spec_parts [OF spec]
  have ch: "changes n (rows ! k) \<longleftrightarrow> hr_ObjectId (rows ! k) = hr_ObjectId n" if "awaits_change rows k" for k
    using p(5) [OF that] nhs by (auto simp: changes_def)
  show ?thesis
  proof
    assume "hr_Id (rows ! k) \<in> set (map fst (filter (\<lambda>x. snd x = hr_ObjectId n) (next_ids c)))"
    then obtain j where j: "awaits_change rows j" "hr_Id (rows ! j) = hr_Id (rows ! k)" "hr_ObjectId (rows ! j) = hr_ObjectId n"
      using p(3) by auto
    then have "j = k" using k dist by (auto simp: awaits_change_def distinct_conv_nth)
    then show "awaits_change rows k \<and> changes n (rows ! k)" using j ch by simp
  next
    assume w: "awaits_change rows k \<and> changes n (rows ! k)"
    then have "(hr_Id (rows ! k), hr_ObjectId n) \<in> set (next_ids c)" using p(3) ch by auto
    then show "hr_Id (rows ! k) \<in> set (map fst (filter (\<lambda>x. snd x = hr_ObjectId n) (next_ids c)))" by force
  qed
qed

lemma hard_spec_change:
  assumes spec: "hard_spec rows c" and new: "hr_Id n \<notin> hr_Id ` set rows" and dist: "distinct (map hr_Id rows)"
    and nhs: "next_hard_state c (hr_ObjectId n) = Some nhs" "hr_LastHardState n \<noteq> nhs"
  shows "\<exists>c'. hard_cache_row n c = Ok c' \<and> hard_spec (rows @ [n]) c'"
proof -
  note p = hard_spec_parts [OF spec]
  note nid = spec_new_id [OF spec new]
  note stash = stash_ids [OF spec dist _ nhs]
  let ?stash = "map fst (filter (\<lambda>x. snd x = hr_ObjectId n) (next_ids c))"
  have ch: "changes n (rows ! k) \<longleftrightarrow> hr_ObjectId (rows ! k) = hr_ObjectId n" if "awaits_change rows k" for k
    using p(5) [OF that] nhs by (auto simp: changes_def)
  have dst: "distinct ?stash" using p(4) by (simp add: distinct_map inj_on_def)
  have sub: "\<exists>k. awaits_change rows k \<and> i = hr_Id (rows ! k)" if "i \<in> set ?stash" for i using that p(3) by auto
  have "\<forall>i \<in> set ?stash. previous_hard_state c i = None"
  proof
    fix i
    assume "i \<in> set ?stash"
    then obtain k where "awaits_change rows k" "i = hr_Id (rows ! k)" using sub by blast
    then show "previous_hard_state c i = None" using p(1) [of k] by (simp add: awaits_change_def)
  qed
  note ins = insert_previous_ok [OF dst this, of "hr_LastHardState n"]
  let ?c = "c\<lparr>previous_hard_state := (\<lambda>i. if i \<in> set ?stash then Some (hr_LastHardState n) else previous_hard_state c i),
    next_hard_state := (next_hard_state c)(hr_ObjectId n \<mapsto> hr_LastHardState n),
    next_ids := filter (\<lambda>x. snd x \<noteq> hr_ObjectId n) (next_ids c) @ [(hr_Id n, hr_ObjectId n)]\<rparr>"
  have "hard_spec (rows @ [n]) ?c"
  proof (rule hard_spec_snocI [OF spec])
    fix k
    assume k: "k < length rows"
    show "previous_hard_state ?c (hr_Id (rows ! k)) = (case first_other (rows ! k) (drop (Suc k) rows) of
        None \<Rightarrow> if changes n (rows ! k) then Some (hr_LastHardState n) else None | Some h \<Rightarrow> Some h)"
      using p(1) [OF k] stash [OF k] k by (auto simp: awaits_change_def simp del: set_map split: option.splits)
  next
    have "hr_Id n \<notin> set ?stash" using nid by auto
    moreover have "previous_hard_state c (hr_Id n) = None" using p(2) new by blast
    ultimately show "previous_hard_state ?c (hr_Id n) = None" by simp
    have "i \<in> hr_Id ` set rows" if "i \<in> set ?stash" for i using sub [OF that] by (auto simp: awaits_change_def)
    then show "dom (previous_hard_state ?c) \<subseteq> hr_Id ` set rows" using p(2) by (simp add: dom_if_Some subset_iff del: set_map)
    show "set (next_ids ?c) = insert (hr_Id n, hr_ObjectId n)
      {(hr_Id (rows ! k), hr_ObjectId (rows ! k)) | k. awaits_change rows k \<and> \<not> changes n (rows ! k)}"
      using p(3) ch by auto
    show "distinct (map fst (next_ids ?c))" using p(4) nid by (auto simp: distinct_map inj_on_def)
  qed simp
  then show ?thesis using nhs ins by (simp add: hard_cache_row_def)
qed

lemma hard_spec_snoc:
  assumes spec: "hard_spec rows c" and new: "hr_Id n \<notin> hr_Id ` set rows" and dist: "distinct (map hr_Id rows)"
  shows "\<exists>c'. hard_cache_row n c = Ok c' \<and> hard_spec (rows @ [n]) c'"
proof -
  note p = hard_spec_parts [OF spec]
  note nid = spec_new_id [OF spec new]
  have fresh: "previous_hard_state c (hr_Id n) = None" using p(2) new by blast
  consider (first) "next_hard_state c (hr_ObjectId n) = None"
    | (same) "next_hard_state c (hr_ObjectId n) = Some (hr_LastHardState n)"
    | (change) nhs where "next_hard_state c (hr_ObjectId n) = Some nhs" "hr_LastHardState n \<noteq> nhs" by fastforce
  then show ?thesis
  proof cases
    case first
    have none: "\<not> changes n (rows ! k)" if "k < length rows" for k using p(6) [OF that] first by (auto simp: changes_def)
    let ?c = "c\<lparr>next_hard_state := (next_hard_state c)(hr_ObjectId n \<mapsto> hr_LastHardState n),
      next_ids := next_ids c @ [(hr_Id n, hr_ObjectId n)]\<rparr>"
    have "hard_spec (rows @ [n]) ?c"
      by (rule hard_spec_snocI [OF spec])
        (use p none fresh nid in \<open>auto simp: awaits_change_def split: option.splits\<close>)
    then show ?thesis using first by (simp add: hard_cache_row_def)
  next
    case same
    have unch: "\<not> changes n (rows ! k)" if "awaits_change rows k" for k using p(5) [OF that] same by (auto simp: changes_def)
    let ?c = "c\<lparr>next_ids := next_ids c @ [(hr_Id n, hr_ObjectId n)]\<rparr>"
    have "hard_spec (rows @ [n]) ?c"
    proof (rule hard_spec_snocI [OF spec])
      fix k
      assume k: "k < length rows"
      then show "previous_hard_state ?c (hr_Id (rows ! k)) = (case first_other (rows ! k) (drop (Suc k) rows) of
          None \<Rightarrow> if changes n (rows ! k) then Some (hr_LastHardState n) else None | Some h \<Rightarrow> Some h)"
        using p(1) [OF k] unch [of k] by (auto simp: awaits_change_def split: option.splits)
    qed (use unch fresh p(2,3,4) nid same in \<open>auto simp: fun_upd_idem\<close>)
    then show ?thesis using same by (simp add: hard_cache_row_def)
  next
    case (change nhs)
    then show ?thesis by (rule hard_spec_change [OF spec new dist])
  qed
qed

lemma hard_spec_rows:
  "distinct (map hr_Id rows) \<Longrightarrow> \<exists>c. each_row hard_cache_row rows empty_hard_cache = Ok c \<and> hard_spec rows c"
proof (induction rows rule: rev_induct)
  case Nil
  show ?case using hard_spec_Nil by simp
next
  case (snoc r rows)
  then obtain c where c: "each_row hard_cache_row rows empty_hard_cache = Ok c" "hard_spec rows c" by auto
  obtain c' where "hard_cache_row r c = Ok c'" "hard_spec (rows @ [r]) c'"
    using hard_spec_snoc [OF c(2), of r] snoc.prems by auto
  then show ?case using c(1) by (simp add: each_row_append)
qed

text \<open>The filled cache: every row has the closest older other hard state of its object, 99 (pending) if there is none.\<close>

definition hard_result :: "hard_row list \<Rightarrow> (nat \<rightharpoonup> 8 word) \<Rightarrow> bool" where
  "hard_result rows prev \<longleftrightarrow> dom prev = hr_Id ` set rows \<and>
     (\<forall>k < length rows. prev (hr_Id (rows ! k)) =
        Some (case first_other (rows ! k) (drop (Suc k) rows) of None \<Rightarrow> 99 | Some h \<Rightarrow> h))"

lemma hard_finish_spec:
  assumes spec: "hard_spec rows c"
  shows "\<exists>prev. hard_finish c = Ok \<lparr>previous_hard_state = prev, next_hard_state = Map.empty, next_ids = []\<rparr> \<and> hard_result rows prev"
proof -
  note p = hard_spec_parts [OF spec]
  let ?ids = "map fst (next_ids c)"
  have mem: "\<exists>k. awaits_change rows k \<and> i = hr_Id (rows ! k)" if "i \<in> set ?ids" for i using that p(3) by auto
  have "\<forall>i \<in> set ?ids. previous_hard_state c i = None"
  proof
    fix i
    assume "i \<in> set ?ids"
    then obtain k where "awaits_change rows k" "i = hr_Id (rows ! k)" using mem by blast
    then show "previous_hard_state c i = None" using p(1) [of k] by (simp add: awaits_change_def)
  qed
  note ins = insert_previous_ok [OF p(4) this, of 99]
  let ?prev = "\<lambda>i. if i \<in> set ?ids then Some 99 else previous_hard_state c i"
  have val: "?prev (hr_Id (rows ! k)) = Some (case first_other (rows ! k) (drop (Suc k) rows) of None \<Rightarrow> 99 | Some h \<Rightarrow> h)"
    if k: "k < length rows" for k
  proof (cases "first_other (rows ! k) (drop (Suc k) rows)")
    case None
    then have "(hr_Id (rows ! k), hr_ObjectId (rows ! k)) \<in> set (next_ids c)" using p(3) k by (auto simp: awaits_change_def)
    then have "hr_Id (rows ! k) \<in> set ?ids" by force
    then show ?thesis using None by simp
  next
    case (Some h)
    have "hr_Id (rows ! k) \<notin> set ?ids"
    proof
      assume "hr_Id (rows ! k) \<in> set ?ids"
      then obtain j where "awaits_change rows j" "hr_Id (rows ! k) = hr_Id (rows ! j)" using mem by blast
      then have "previous_hard_state c (hr_Id (rows ! k)) = None" using p(1) [of j] by (simp add: awaits_change_def)
      then show False using p(1) [OF k] Some by simp
    qed
    then show ?thesis using p(1) [OF k] Some by simp
  qed
  have "dom ?prev = hr_Id ` set rows"
  proof
    have "i \<in> hr_Id ` set rows" if "i \<in> set ?ids" for i using mem [OF that] by (auto simp: awaits_change_def)
    then show "dom ?prev \<subseteq> hr_Id ` set rows" using p(2) by (simp add: dom_if_Some subset_iff del: set_map)
    show "hr_Id ` set rows \<subseteq> dom ?prev"
    proof
      fix i
      assume "i \<in> hr_Id ` set rows"
      then obtain k where "k < length rows" "i = hr_Id (rows ! k)" by (auto simp: in_set_conv_nth)
      then show "i \<in> dom ?prev" using val [of k] by (simp add: domIff del: set_map)
    qed
  qed
  then have "hard_result rows ?prev" using val unfolding hard_result_def by blast
  moreover have "hard_finish c = Ok \<lparr>previous_hard_state = ?prev, next_hard_state = Map.empty, next_ids = []\<rparr>"
    unfolding hard_finish_def ins by (cases c) simp
  ultimately show ?thesis by blast
qed

lemma build_hard_from:
  assumes "sorted_wrt (\<lambda>x y. hr_Id y < hr_Id x) table" and "0 < bulk"
  shows "buildPreviousHardStateCache toid bulk table c =
    Some (bind_outcome (each_row hard_cache_row (filter (\<lambda>r. hr_Id r < hard_checkpoint c) (filter (\<lambda>r. hr_Id r \<le> toid) table)) c) hard_finish)"
proof -
  have "sorted_wrt (\<lambda>x y. hr_Id y < hr_Id x) (filter (\<lambda>r. hr_Id r \<le> toid) table)"
    using assms(1) by (rule sorted_wrt_filter)
  then show ?thesis unfolding buildPreviousHardStateCache_def by (simp add: hard_rows.slice_all [OF _ assms(2)])
qed

lemma sorted_desc_distinct: "sorted_wrt (\<lambda>x y. f y < (f x :: nat)) xs \<Longrightarrow> distinct (map f xs)"
  by (induction xs) auto

text \<open>The checkpoint of a state is the ID of the row that was done last.\<close>

lemma hard_checkpoint_last:
  assumes ord: "sorted_wrt (\<lambda>x y. hr_Id y < hr_Id x) rows" and ne: "rows \<noteq> []" and spec: "hard_spec rows c"
  shows "hard_checkpoint c = hr_Id (last rows)"
proof -
  note p = hard_spec_parts [OF spec]
  let ?n = "length rows - 1"
  have w: "awaits_change rows ?n" and l: "rows ! ?n = last rows" using ne by (simp_all add: awaits_change_def last_conv_nth)
  then have "(hr_Id (last rows), hr_ObjectId (last rows)) \<in> set (next_ids c)" using p(3) by force
  then have mem: "hr_Id (last rows) \<in> set (map fst (next_ids c))" by force
  have "hr_Id (last rows) \<le> i" if i: "i \<in> set (map fst (next_ids c))" for i
  proof -
    obtain k where "awaits_change rows k" "i = hr_Id (rows ! k)" using i p(3) by auto
    then have k: "k < length rows" "i = hr_Id (rows ! k)" by (simp_all add: awaits_change_def)
    show ?thesis
    proof (cases "k = ?n")
      case False
      then have "hr_Id (rows ! ?n) < hr_Id (rows ! k)" using k by (intro sorted_wrt_nth_less [OF ord]) auto
      then show ?thesis using k l by simp
    qed (use k l in simp)
  qed
  then have "Min (set (map fst (next_ids c))) = hr_Id (last rows)" using mem by (intro Min_eqI) auto
  moreover have "next_ids c \<noteq> []" using mem by auto
  ultimately show ?thesis by (simp add: hard_checkpoint_def)
qed

lemma build_hard_fresh:
  assumes ord: "sorted_wrt (\<lambda>x y. hr_Id y < hr_Id x) table" and max: "\<forall>r \<in> set table. hr_Id r < 2 ^ 63 - 1" and bulk: "0 < bulk"
    and rows: "rows = filter (\<lambda>r. hr_Id r \<le> toid) table"
  shows "\<exists>c prev. each_row hard_cache_row rows empty_hard_cache = Ok c \<and> hard_spec rows c \<and> hard_result rows prev \<and>
    buildPreviousHardStateCache toid bulk table empty_hard_cache =
      Some (Ok \<lparr>previous_hard_state = prev, next_hard_state = Map.empty, next_ids = []\<rparr>)"
proof -
  have "sorted_wrt (\<lambda>x y. hr_Id y < hr_Id x) rows" unfolding rows using ord by (rule sorted_wrt_filter)
  then obtain c where c: "each_row hard_cache_row rows empty_hard_cache = Ok c" "hard_spec rows c"
    using hard_spec_rows sorted_desc_distinct by blast
  obtain prev where prev: "hard_finish c = Ok \<lparr>previous_hard_state = prev, next_hard_state = Map.empty, next_ids = []\<rparr>" "hard_result rows prev"
    using hard_finish_spec [OF c(2)] by blast
  have cp: "hard_checkpoint empty_hard_cache = 2 ^ 63 - 1" by (simp add: hard_checkpoint_def empty_hard_cache_def)
  have "\<forall>r \<in> set rows. hr_Id r < 2 ^ 63 - 1" using max rows by simp
  then have "filter (\<lambda>r. hr_Id r < 2 ^ 63 - 1) rows = rows" by (simp add: filter_id_conv)
  then have "buildPreviousHardStateCache toid bulk table empty_hard_cache =
      Some (Ok \<lparr>previous_hard_state = prev, next_hard_state = Map.empty, next_ids = []\<rparr>)"
    using build_hard_from [OF ord bulk, of toid empty_hard_cache] c prev unfolding rows [symmetric] cp by simp
  then show ?thesis using c prev by blast
qed

text \<open>A run that goes on from a committed state, and one on a finished cache.\<close>

lemma build_hard_resume:
  assumes ord: "sorted_wrt (\<lambda>x y. hr_Id y < hr_Id x) table" and max: "\<forall>r \<in> set table. hr_Id r < 2 ^ 63 - 1" and bulk: "0 < bulk"
    and rows: "filter (\<lambda>r. hr_Id r \<le> toid) table = xs @ ys" and c: "each_row hard_cache_row xs empty_hard_cache = Ok c"
  shows "buildPreviousHardStateCache toid bulk table c = buildPreviousHardStateCache toid bulk table empty_hard_cache"
proof (cases "xs = []")
  case True
  then show ?thesis using c by simp
next
  case False
  have ord': "sorted_wrt (\<lambda>x y. hr_Id y < hr_Id x) (xs @ ys)" using sorted_wrt_filter [OF ord] rows by metis
  then have ordx: "sorted_wrt (\<lambda>x y. hr_Id y < hr_Id x) xs" by (simp add: sorted_wrt_append)
  have spec: "hard_spec xs c" using hard_spec_rows [OF sorted_desc_distinct [OF ordx]] c by auto
  have cp: "hard_checkpoint c = hr_Id (last xs)" by (rule hard_checkpoint_last [OF ordx False spec])
  have rest: "filter (\<lambda>r. hr_Id r < hr_Id (last xs)) (xs @ ys) = ys"
    by (rule hard_rows.filter_beyond [OF ord' False])
  have cp0: "hard_checkpoint empty_hard_cache = 2 ^ 63 - 1" by (simp add: hard_checkpoint_def empty_hard_cache_def)
  have "\<forall>r \<in> set (xs @ ys). hr_Id r < 2 ^ 63 - 1" using max unfolding rows [symmetric] by simp
  then have all: "filter (\<lambda>r. hr_Id r < 2 ^ 63 - 1) (xs @ ys) = xs @ ys" by (simp add: filter_id_conv)
  show ?thesis
    unfolding build_hard_from [OF ord bulk] rows cp rest cp0 all using c by (simp add: each_row_append)
qed

lemma build_hard_finished:
  assumes "sorted_wrt (\<lambda>x y. hr_Id y < hr_Id x) table" and "0 < bulk" and "prev \<noteq> Map.empty"
  shows "buildPreviousHardStateCache toid bulk table \<lparr>previous_hard_state = prev, next_hard_state = Map.empty, next_ids = []\<rparr> =
    Some (Ok \<lparr>previous_hard_state = prev, next_hard_state = Map.empty, next_ids = []\<rparr>)"
proof -
  have "hard_checkpoint \<lparr>previous_hard_state = prev, next_hard_state = Map.empty, next_ids = []\<rparr> = 0"
    using assms(3) by (simp add: hard_checkpoint_def)
  then show ?thesis
    unfolding build_hard_from [OF assms(1,2)] by (simp add: hard_finish_def insert_previous_def)
qed

section \<open>Properties\<close>

text \<open>The cache of start times is correct: for every row of the IDO up to the last ID, the end of a
  flapping period or acknowledgement gets the time of the start that directly precedes it among the events
  of its object, and no other row gets any. This holds for a fresh run, and for one that goes on after
  any number of rows and commits of a killed run if every end has a start before it.\<close>

theorem event_time_cache_correct:
  assumes "sorted_wrt (\<lambda>x y. er_Id x < er_Id y) table" and "\<forall>r \<in> set table. 0 < er_Id r" and "0 < bulk"
    and "filter (\<lambda>r. er_Id r \<le> toid) table = map fst run @ later" and "rows = map fst run @ later"
    and "run = [] \<or> no_orphans rows"
  shows "\<exists>c. buildEventTimeCache toid bulk table (killed_run event_cache_row run empty_event_cache) = Some (Ok c) \<and>
    last_start_time c = Map.empty \<and> dom (end_start_time c) \<subseteq> er_Id ` set rows \<and>
    (\<forall>k < length rows. end_start_time c (er_Id (rows ! k)) =
       (if er_EventIsStart (rows ! k) = 0 then open_start (er_ObjectId (rows ! k)) (take k rows) else None))"
proof -
  let ?c = "killed_run event_cache_row run empty_event_cache"
  obtain n where n: "each_row event_cache_row (take n (map fst run)) empty_event_cache = Ok ?c"
    using killed_run_prefix [of event_cache_row run empty_event_cache] by (elim exE)
  have split: "filter (\<lambda>r. er_Id r \<le> toid) table = take n (map fst run) @ (drop n (map fst run) @ later)"
    using assms(4) by simp
  have "buildEventTimeCache toid bulk table ?c = buildEventTimeCache toid bulk table empty_event_cache"
  proof (cases "run = []")
    case True
    then show ?thesis using n by simp
  next
    case False
    then have "no_orphans (take n (map fst run) @ (drop n (map fst run) @ later))"
      using assms(5,6) by (metis append_assoc append_take_drop_id)
    then show ?thesis by (rule build_event_resume [OF assms(1,2,3) split _ n])
  qed
  moreover obtain c where "event_spec rows c"
    "buildEventTimeCache toid bulk table empty_event_cache = Some (Ok (c\<lparr>last_start_time := Map.empty\<rparr>))"
    using build_event_fresh [OF assms(1,2,3), of rows toid] assms(4,5) by auto
  ultimately show ?thesis
    by (intro exI [of _ "c\<lparr>last_start_time := Map.empty\<rparr>"]) (simp add: event_spec_def)
qed

text \<open>An end without a start before it, as after a cleanup of the IDO, gets a wrong start time when the
  run is interrupted after a later start of the same object: the second run begins with the end again and
  takes the time of the later start for it, while an uninterrupted run leaves it without one.\<close>

theorem event_time_cache_orphan:
  assumes "er_EventIsStart e = 0" and "er_EventIsStart s \<noteq> 0" and "er_ObjectId e = er_ObjectId s"
    and "0 < er_Id e" and "er_Id e < er_Id s" and "er_Id s \<le> toid" and "0 < bulk"
  shows "\<exists>c c'. buildEventTimeCache toid bulk [e, s] (killed_run event_cache_row [(e, True), (s, True)] empty_event_cache) = Some (Ok c) \<and>
    buildEventTimeCache toid bulk [e, s] empty_event_cache = Some (Ok c') \<and>
    end_start_time c (er_Id e) = Some (event_time s) \<and> end_start_time c' (er_Id e) = None"
proof -
  have ord: "sorted_wrt (\<lambda>x y. er_Id x < er_Id y) [e, s]" using assms by simp
  have k: "killed_run event_cache_row [(e, True), (s, True)] empty_event_cache =
      empty_event_cache\<lparr>last_start_time := [er_ObjectId s \<mapsto> event_time s]\<rparr>"
    using assms by (simp add: killed_run_def event_cache_row_def empty_event_cache_def)
  show ?thesis
    unfolding build_event_from [OF ord assms(7)] k
    using assms by (simp add: event_checkpoint_def empty_event_cache_def event_cache_row_def)
qed

text \<open>C13. The cache of previous hard states is correct: every row of the IDO up to the last ID gets the
  closest older hard state of its object that differs from its own, 99 (pending) if there is none; also
  when the run goes on after any number of rows and commits of a killed run. Filling it once more changes nothing.\<close>

theorem hard_state_cache_correct:
  assumes "sorted_wrt (\<lambda>x y. hr_Id y < hr_Id x) table" and "\<forall>r \<in> set table. hr_Id r < 2 ^ 63 - 1" and "0 < bulk"
    and "filter (\<lambda>r. hr_Id r \<le> toid) table = map fst run @ later" and "rows = map fst run @ later" and "rows \<noteq> []"
  shows "\<exists>c. buildPreviousHardStateCache toid bulk table (killed_run hard_cache_row run empty_hard_cache) = Some (Ok c) \<and>
    buildPreviousHardStateCache toid bulk table c = Some (Ok c) \<and> dom (previous_hard_state c) = hr_Id ` set rows \<and>
    (\<forall>k < length rows. previous_hard_state c (hr_Id (rows ! k)) =
       Some (case find (\<lambda>q. hr_ObjectId q = hr_ObjectId (rows ! k) \<and> hr_LastHardState q \<noteq> hr_LastHardState (rows ! k)) (drop (Suc k) rows) of
         None \<Rightarrow> 99 | Some q \<Rightarrow> hr_LastHardState q))"
proof -
  let ?c = "killed_run hard_cache_row run empty_hard_cache"
  obtain n where n: "each_row hard_cache_row (take n (map fst run)) empty_hard_cache = Ok ?c"
    using killed_run_prefix [of hard_cache_row run empty_hard_cache] by (elim exE)
  have split: "filter (\<lambda>r. hr_Id r \<le> toid) table = take n (map fst run) @ (drop n (map fst run) @ later)"
    using assms(4) by simp
  obtain prev where prev: "hard_result rows prev" "buildPreviousHardStateCache toid bulk table empty_hard_cache =
      Some (Ok \<lparr>previous_hard_state = prev, next_hard_state = Map.empty, next_ids = []\<rparr>)"
    using build_hard_fresh [OF assms(1,2,3), of rows toid] assms(4,5) by auto
  let ?r = "\<lparr>previous_hard_state = prev, next_hard_state = Map.empty, next_ids = []\<rparr>"
  have "prev \<noteq> Map.empty" using prev(1) assms(6) by (auto simp: hard_result_def)
  then have again: "buildPreviousHardStateCache toid bulk table ?r = Some (Ok ?r)" by (rule build_hard_finished [OF assms(1,3)])
  have "buildPreviousHardStateCache toid bulk table ?c = Some (Ok ?r)"
    using build_hard_resume [OF assms(1,2,3) split n] prev(2) by simp
  moreover have "(case first_other r xs of None \<Rightarrow> 99 | Some h \<Rightarrow> h) =
      (case find (\<lambda>q. hr_ObjectId q = hr_ObjectId r \<and> hr_LastHardState q \<noteq> hr_LastHardState r) xs of
         None \<Rightarrow> 99 | Some q \<Rightarrow> hr_LastHardState q)" for r xs
    by (simp add: first_other_def split: option.splits)
  ultimately show ?thesis using prev(1) again by (intro exI [of _ ?r]) (simp add: hard_result_def)
qed

section \<open>Witnesses\<close>

definition sample_event :: "nat \<Rightarrow> int \<Rightarrow> 8 word \<Rightarrow> event_row" where
  "sample_event i t s = \<lparr>er_Id = i, er_EventTime = t, er_EventTimeUsec = 0, er_EventIsStart = s, er_ObjectId = 7\<rparr>"

definition sample_hard :: "nat \<Rightarrow> 8 word \<Rightarrow> hard_row" where
  "sample_hard i h = \<lparr>hr_Id = i, hr_ObjectId = 7, hr_LastHardState = h\<rparr>"

lemma sample_event_simps [simp]: "er_Id (sample_event i t s) = i" "er_EventIsStart (sample_event i t s) = s"
    "er_ObjectId (sample_event i t s) = 7" "event_time (sample_event i t s) = (t, 0)"
  by (simp_all add: sample_event_def event_time_def)

lemma sample_hard_simps [simp]: "hr_Id (sample_hard i h) = i" "hr_ObjectId (sample_hard i h) = 7"
    "hr_LastHardState (sample_hard i h) = h"
  by (simp_all add: sample_hard_def)

theorem event_time_cache_correct_witness:
  "\<exists>c. buildEventTimeCache 9 1 [sample_event 1 100 1, sample_event 2 200 0]
      (killed_run event_cache_row [(sample_event 1 100 1, True)] empty_event_cache) = Some (Ok c) \<and>
    end_start_time c 2 = Some (100, 0)"
proof -
  let ?rows = "[sample_event 1 100 1, sample_event 2 200 0]"
  have "no_orphans ?rows" by (simp add: no_orphans_def open_start_def less_Suc_eq nth_Cons')
  then obtain c where c: "buildEventTimeCache 9 1 ?rows (killed_run event_cache_row [(sample_event 1 100 1, True)] empty_event_cache) = Some (Ok c)"
    and "\<forall>k < length ?rows. end_start_time c (er_Id (?rows ! k)) =
       (if er_EventIsStart (?rows ! k) = 0 then open_start (er_ObjectId (?rows ! k)) (take k ?rows) else None)"
    using event_time_cache_correct [of ?rows 1 9 "[(sample_event 1 100 1, True)]" "[sample_event 2 200 0]" ?rows] by auto
  then have "end_start_time c (er_Id (?rows ! 1)) = open_start (er_ObjectId (?rows ! 1)) (take 1 ?rows)" by fastforce
  then show ?thesis using c by (intro exI [of _ c]) (simp add: open_start_def)
qed

theorem event_time_cache_orphan_witness:
  "\<exists>c c'. buildEventTimeCache 9 1 [sample_event 1 100 0, sample_event 2 200 1]
      (killed_run event_cache_row [(sample_event 1 100 0, True), (sample_event 2 200 1, True)] empty_event_cache) = Some (Ok c) \<and>
    buildEventTimeCache 9 1 [sample_event 1 100 0, sample_event 2 200 1] empty_event_cache = Some (Ok c') \<and>
    end_start_time c 1 = Some (200, 0) \<and> end_start_time c' 1 = None"
  using event_time_cache_orphan [of "sample_event 1 100 0" "sample_event 2 200 1" 9 1] by simp

theorem hard_state_cache_correct_witness:
  "\<exists>c. buildPreviousHardStateCache 9 1 [sample_hard 3 2, sample_hard 2 2, sample_hard 1 0]
      (killed_run hard_cache_row [(sample_hard 3 2, True), (sample_hard 2 2, False)] empty_hard_cache) = Some (Ok c) \<and>
    previous_hard_state c 3 = Some 0"
proof -
  let ?rows = "[sample_hard 3 2, sample_hard 2 2, sample_hard 1 0]"
  obtain c where c: "buildPreviousHardStateCache 9 1 ?rows
      (killed_run hard_cache_row [(sample_hard 3 2, True), (sample_hard 2 2, False)] empty_hard_cache) = Some (Ok c)"
    and all: "\<forall>k < length ?rows. previous_hard_state c (hr_Id (?rows ! k)) =
       Some (case find (\<lambda>q. hr_ObjectId q = hr_ObjectId (?rows ! k) \<and> hr_LastHardState q \<noteq> hr_LastHardState (?rows ! k)) (drop (Suc k) ?rows) of
         None \<Rightarrow> 99 | Some q \<Rightarrow> hr_LastHardState q)"
    using hard_state_cache_correct [of ?rows 1 9 "[(sample_hard 3 2, True), (sample_hard 2 2, False)]" "[sample_hard 1 0]" ?rows] by auto
  have "0 < length ?rows" by simp
  from all [rule_format, OF this] show ?thesis using c by (intro exI [of _ c]) simp
qed

end
