(* ===== verification/Migrate_Convert.thy ===== *)
theory Migrate_Convert
  imports History_Types Migrate_Slice
begin

text \<open>
  The conversion of IDO rows into history rows: \<open>cmd/icingadb-migrate/convert.go\<close> and the helpers of
  \<open>misc.go\<close>. This theory has the helpers, comments with acknowledgements, and downtimes.

  Parameters, as a record: \<open>hash_any\<close> is \<open>hashAny\<close> (\<open>objectpacker.PackAny\<close> and SHA1), \<open>float64\<close> the conversion
  of an integer to the nearest floating point number, \<open>float32\<close> the rounding to the smaller format, \<open>user_checksum\<close> is \<open>utils.Checksum\<close>.
  The pointer \<open>EventTime.History\<close> of a row always points to the row itself, so it is not a field.
\<close>

section \<open>Helpers\<close>

datatype hash_arg = HStr string | HFloat rat

record migrate_fns =
  hash_any :: "hash_arg list \<Rightarrow> bytes"
  float64 :: "int \<Rightarrow> rat"
  float32 :: "rat \<Rightarrow> rat"
  user_checksum :: "bytes \<Rightarrow> bytes"

definition objectTypes :: "8 word \<Rightarrow> string" where
  "objectTypes t = (if t = 1 then ''host'' else if t = 2 then ''service'' else [])"

definition convertTime :: "int \<Rightarrow> 32 word \<Rightarrow> time" where
  "convertTime ts tsUs = (if ts = 0 \<and> tsUs = 0 then zero_time else ts * second + int (unat tsUs) * 1000)"

definition calcObjectId :: "migrate_fns \<Rightarrow> string \<Rightarrow> string \<Rightarrow> binary" where
  "calcObjectId m env name1 = (if name1 = [] then None else Some (hash_any m [HStr env, HStr name1]))"

definition calcServiceId :: "migrate_fns \<Rightarrow> string \<Rightarrow> string \<Rightarrow> string \<Rightarrow> binary" where
  "calcServiceId m env name1 name2 =
     (if name2 = [] then None else Some (hash_any m [HStr env, HStr (name1 @ ''!'' @ name2)]))"

text \<open>The name of a checkable in the hashes of acknowledgements and flapping.\<close>

definition checkable_name :: "string \<Rightarrow> string \<Rightarrow> string" where
  "checkable_name name1 name2 = (if name2 = [] then name1 else name1 @ ''!'' @ name2)"

text \<open>An integer as an \<open>int64\<close>.\<close>

definition wrap64 :: "int \<Rightarrow> int" where
  "wrap64 i = sint (word_of_int i :: 64 word)"

record output_stage =
  insert_rows :: "history_row list"
  upsert_rows :: "history_row list"

definition inserts :: "history_row list \<Rightarrow> output_stage" where
  "inserts rs = \<lparr>insert_rows = rs, upsert_rows = []\<rparr>"

definition table_meta :: "migrate_fns \<Rightarrow> string \<Rightarrow> binary \<Rightarrow> 8 word \<Rightarrow> string \<Rightarrow> string \<Rightarrow> HistoryTableMeta" where
  "table_meta m env envId typ name1 name2 =
     \<lparr>htm_EnvironmentId = envId, htm_EndpointId = None, htm_ObjectType = objectTypes typ,
      htm_HostId = calcObjectId m env name1, htm_ServiceId = calcServiceId m env name1 name2\<rparr>"

definition history_meta :: "migrate_fns \<Rightarrow> string \<Rightarrow> binary \<Rightarrow> bytes \<Rightarrow> 8 word \<Rightarrow> string \<Rightarrow> string \<Rightarrow> string \<Rightarrow> HistoryMeta" where
  "history_meta m env envId i typ name1 name2 event =
     \<lparr>hm_Id = Some i, hm_EnvironmentId = envId, hm_EndpointId = None, hm_ObjectType = objectTypes typ,
      hm_HostId = calcObjectId m env name1, hm_ServiceId = calcServiceId m env name1 name2, hm_EventType = event\<rparr>"

section \<open>Comments and acknowledgements\<close>

record commentRow =
  CommenthistoryId :: nat
  cr_EntryTime :: go_int
  cr_EntryTimeUsec :: "32 word"
  cr_EntryType :: "8 word"
  cr_AuthorName :: string
  cr_CommentData :: string
  cr_IsPersistent :: "8 word"
  cr_ExpirationTime :: int
  cr_DeletionTime :: int
  cr_DeletionTimeUsec :: "32 word"
  cr_Name :: string
  cr_ObjecttypeId :: "8 word"
  cr_Name1 :: string
  cr_Name2 :: string

definition comment_entry :: "migrate_fns \<Rightarrow> string \<Rightarrow> binary \<Rightarrow> commentRow \<Rightarrow> CommentHistory" where
  "comment_entry m env envId row =
     (let removeTime = convertTime (cr_DeletionTime row) (cr_DeletionTimeUsec row) in
      \<lparr>ch_CommentId = calcObjectId m env (cr_Name row),
       ch_Meta = table_meta m env envId (cr_ObjecttypeId row) (cr_Name1 row) (cr_Name2 row),
       ch_Upserter = \<lparr>ch_RemovedBy = null_string, ch_RemoveTime = removeTime,
         ch_HasBeenRemoved = MakeBool (\<not> time_is_zero removeTime)\<rparr>,
       ch_EntryTime = convertTime (int_val (cr_EntryTime row)) (cr_EntryTimeUsec row),
       ch_Author = cr_AuthorName row, ch_Comment = cr_CommentData row, ch_EntryType = ''comment'',
       ch_IsPersistent = MakeBool (cr_IsPersistent row \<noteq> 0), ch_IsSticky = MakeBool False,
       ch_ExpireTime = convertTime (cr_ExpirationTime row) 0\<rparr>)"

definition comment_events :: "migrate_fns \<Rightarrow> string \<Rightarrow> binary \<Rightarrow> commentRow \<Rightarrow> HistoryComment list" where
  "comment_events m env envId row =
     (let cid = calcObjectId m env (cr_Name row);
          entryTime = convertTime (int_val (cr_EntryTime row)) (cr_EntryTimeUsec row);
          removeTime = convertTime (cr_DeletionTime row) (cr_DeletionTimeUsec row);
          expireTime = convertTime (cr_ExpirationTime row) 0;
          meta = (\<lambda>event. history_meta m env envId (hash_any m [HStr env, HStr event, HStr (cr_Name row)])
            (cr_ObjecttypeId row) (cr_Name1 row) (cr_Name2 row) event);
          h1 = \<lparr>hc_Meta = meta ''comment_add'', CommentHistoryId = cid, hc_EntryTime = entryTime,
            hc_RemoveTime = zero_time, hc_ExpireTime = zero_time\<rparr>;
          h2 = \<lparr>hc_Meta = meta ''comment_remove'', CommentHistoryId = cid, hc_EntryTime = entryTime,
            hc_RemoveTime = removeTime, hc_ExpireTime = expireTime\<rparr>
      in if time_is_zero removeTime then [h1] else [h1, h2])"

definition ack_set_ms :: "migrate_fns \<Rightarrow> commentRow \<Rightarrow> rat" where
  "ack_set_ms m row = float64 m (unix_milli (convertTime (int_val (cr_EntryTime row)) (cr_EntryTimeUsec row)))"

definition ack_history_id :: "migrate_fns \<Rightarrow> string \<Rightarrow> commentRow \<Rightarrow> bytes" where
  "ack_history_id m env row =
     hash_any m [HStr env, HStr (checkable_name (cr_Name1 row) (cr_Name2 row)), HFloat (ack_set_ms m row)]"

definition ack_entry :: "migrate_fns \<Rightarrow> string \<Rightarrow> binary \<Rightarrow> commentRow \<Rightarrow> AcknowledgementHistory" where
  "ack_entry m env envId row =
     \<lparr>ah_Id = Some (ack_history_id m env row),
      ah_Meta = table_meta m env envId (cr_ObjecttypeId row) (cr_Name1 row) (cr_Name2 row),
      ah_Upserter = \<lparr>ah_ClearTime = convertTime (cr_DeletionTime row) (cr_DeletionTimeUsec row), ah_ClearedBy = null_string\<rparr>,
      ah_SetTime = convertTime (int_val (cr_EntryTime row)) (cr_EntryTimeUsec row),
      ah_Author = MakeString (cr_AuthorName row), ah_Comment = MakeString (cr_CommentData row),
      ah_ExpireTime = convertTime (cr_ExpirationTime row) 0,
      ah_IsPersistent = MakeBool (cr_IsPersistent row \<noteq> 0), ah_IsSticky = null_bool\<rparr>"

definition ack_events :: "migrate_fns \<Rightarrow> string \<Rightarrow> binary \<Rightarrow> commentRow \<Rightarrow> HistoryAck list" where
  "ack_events m env envId row =
     (let clearTime = convertTime (cr_DeletionTime row) (cr_DeletionTimeUsec row);
          h = (\<lambda>event.
            \<lparr>hack_Meta = history_meta m env envId
               (hash_any m [HStr env, HStr event, HStr (checkable_name (cr_Name1 row) (cr_Name2 row)), HFloat (ack_set_ms m row)])
               (cr_ObjecttypeId row) (cr_Name1 row) (cr_Name2 row) event,
             AcknowledgementHistoryId = Some (ack_history_id m env row),
             hack_SetTime = convertTime (int_val (cr_EntryTime row)) (cr_EntryTimeUsec row), hack_ClearTime = clearTime\<rparr>)
      in if time_is_zero clearTime then [h ''ack_set''] else [h ''ack_set'', h ''ack_clear''])"

definition is_comment :: "commentRow \<Rightarrow> bool" where
  "is_comment row \<longleftrightarrow> int_valid (cr_EntryTime row) \<and> cr_EntryType row = 1"

definition is_ack :: "commentRow \<Rightarrow> bool" where
  "is_ack row \<longleftrightarrow> int_valid (cr_EntryTime row) \<and> cr_EntryType row = 4"

text \<open>The checkpoint is the ID of the last row, nil if there is none.\<close>

definition last_id :: "('row \<Rightarrow> nat) \<Rightarrow> 'row list \<Rightarrow> nat option" where
  "last_id ident rows = (if rows = [] then None else Some (ident (last rows)))"

definition convertCommentRows :: "migrate_fns \<Rightarrow> string \<Rightarrow> binary \<Rightarrow> commentRow list \<Rightarrow> output_stage list \<times> nat option" where
  "convertCommentRows m env envId rows =
     (let comments = filter is_comment rows; acks = filter is_ack rows in
      ([inserts (map (\<lambda>r. RCommentHistory (comment_entry m env envId r)) comments),
        inserts (map (\<lambda>r. RAcknowledgementHistory (ack_entry m env envId r)) acks),
        inserts (concat (map (\<lambda>r. map RHistoryComment (comment_events m env envId r)) comments)),
        inserts (concat (map (\<lambda>r. map RHistoryAck (ack_events m env envId r)) acks))],
       last_id CommenthistoryId rows))"

section \<open>Downtimes\<close>

record downtimeRow =
  DowntimehistoryId :: nat
  dr_EntryTime :: int
  dr_AuthorName :: string
  dr_CommentData :: string
  dr_IsFixed :: "8 word"
  dr_Duration :: int
  dr_ScheduledStartTime :: go_int
  dr_ScheduledEndTime :: int
  dr_WasStarted :: "8 word"
  dr_ActualStartTime :: int
  dr_ActualStartTimeUsec :: "32 word"
  dr_ActualEndTime :: int
  dr_ActualEndTimeUsec :: "32 word"
  dr_WasCancelled :: "8 word"
  dr_TriggerTime :: int
  dr_Name :: string
  dr_ObjecttypeId :: "8 word"
  dr_Name1 :: string
  dr_Name2 :: string
  dr_TriggeredBy :: string

definition dt_scheduledStart :: "downtimeRow \<Rightarrow> time" where
  "dt_scheduledStart row = convertTime (int_val (dr_ScheduledStartTime row)) 0"

definition dt_scheduledEnd :: "downtimeRow \<Rightarrow> time" where
  "dt_scheduledEnd row =
     (let scheduledEnd = convertTime (dr_ScheduledEndTime row) 0 in
      if time_is_zero scheduledEnd then dt_scheduledStart row + wrap64 (dr_Duration row * second) else scheduledEnd)"

definition dt_actualEnd :: "downtimeRow \<Rightarrow> time" where
  "dt_actualEnd row = convertTime (dr_ActualEndTime row) (dr_ActualEndTimeUsec row)"

definition dt_startTime :: "downtimeRow \<Rightarrow> time" where
  "dt_startTime row =
     (let actualStart = convertTime (dr_ActualStartTime row) (dr_ActualStartTimeUsec row) in
      if time_is_zero actualStart then dt_scheduledStart row else actualStart)"

definition dt_endTime :: "downtimeRow \<Rightarrow> time" where
  "dt_endTime row = (if time_is_zero (dt_actualEnd row) then dt_scheduledEnd row else dt_actualEnd row)"

definition dt_triggerTime :: "downtimeRow \<Rightarrow> time" where
  "dt_triggerTime row =
     (let triggerTime = convertTime (dr_TriggerTime row) 0 in
      if time_is_zero triggerTime then dt_startTime row else triggerTime)"

definition dt_cancelTime :: "downtimeRow \<Rightarrow> time" where
  "dt_cancelTime row = (if dr_WasCancelled row \<noteq> 0 then dt_actualEnd row else zero_time)"

definition flexibleDuration :: "int \<Rightarrow> 64 word" where
  "flexibleDuration durationSec =
     (if durationSec \<ge> 0 \<and> durationSec < (2 ^ 64 - 1) div 1000 then word_of_int durationSec * 1000 else 0)"

definition downtime_entry :: "migrate_fns \<Rightarrow> string \<Rightarrow> binary \<Rightarrow> downtimeRow \<Rightarrow> DowntimeHistory" where
  "downtime_entry m env envId row =
     \<lparr>dh_DowntimeId = calcObjectId m env (dr_Name row),
      dh_Meta = table_meta m env envId (dr_ObjecttypeId row) (dr_Name1 row) (dr_Name2 row),
      dh_Upserter = \<lparr>dh_CancelledBy = null_string, dh_HasBeenCancelled = MakeBool (dr_WasCancelled row \<noteq> 0),
        dh_CancelTime = dt_cancelTime row\<rparr>,
      dh_TriggeredById = calcObjectId m env (dr_TriggeredBy row), dh_ParentId = None,
      dh_EntryTime = convertTime (dr_EntryTime row) 0, dh_Author = dr_AuthorName row, dh_Comment = dr_CommentData row,
      dh_IsFlexible = MakeBool (dr_IsFixed row = 0), dh_FlexibleDuration = flexibleDuration (dr_Duration row),
      dh_ScheduledStartTime = dt_scheduledStart row, dh_ScheduledEndTime = dt_scheduledEnd row,
      dh_StartTime = dt_startTime row, dh_EndTime = dt_endTime row, dh_ScheduledBy = null_string,
      dh_TriggerTime = dt_triggerTime row\<rparr>"

definition downtime_events :: "migrate_fns \<Rightarrow> string \<Rightarrow> binary \<Rightarrow> downtimeRow \<Rightarrow> HistoryDowntime list" where
  "downtime_events m env envId row =
     (let did = calcObjectId m env (dr_Name row);
          meta = (\<lambda>event. history_meta m env envId (hash_any m [HStr env, HStr event, HStr (dr_Name row)])
            (dr_ObjecttypeId row) (dr_Name1 row) (dr_Name2 row) event);
          h1 = \<lparr>hd_Meta = meta ''downtime_start'', DowntimeHistoryId = did, hd_StartTime = dt_startTime row,
            hd_CancelTime = zero_time, hd_EndTime = zero_time, hd_HasBeenCancelled = null_bool\<rparr>;
          h2 = \<lparr>hd_Meta = meta ''downtime_end'', DowntimeHistoryId = did, hd_StartTime = dt_startTime row,
            hd_CancelTime = dt_cancelTime row, hd_EndTime = dt_endTime row,
            hd_HasBeenCancelled = MakeBool (dr_WasCancelled row \<noteq> 0)\<rparr>
      in if time_is_zero (dt_actualEnd row) then [h1] else [h1, h2])"

definition downtime_sla :: "migrate_fns \<Rightarrow> string \<Rightarrow> binary \<Rightarrow> downtimeRow \<Rightarrow> SlaHistoryDowntime" where
  "downtime_sla m env envId row =
     \<lparr>sd_DowntimeId = calcObjectId m env (dr_Name row),
      sd_Meta = table_meta m env envId (dr_ObjecttypeId row) (dr_Name1 row) (dr_Name2 row),
      sd_DowntimeStart = dt_startTime row, sd_HasBeenCancelled = MakeBool (dr_WasCancelled row \<noteq> 0),
      sd_CancelTime = dt_cancelTime row, sd_EndTime = dt_endTime row\<rparr>"

definition downtime_started :: "downtimeRow \<Rightarrow> bool" where
  "downtime_started row \<longleftrightarrow> int_valid (dr_ScheduledStartTime row) \<and> dr_WasStarted row \<noteq> 0"

definition convertDowntimeRows :: "migrate_fns \<Rightarrow> string \<Rightarrow> binary \<Rightarrow> downtimeRow list \<Rightarrow> output_stage list \<times> nat option" where
  "convertDowntimeRows m env envId rows =
     (let started = filter downtime_started rows in
      ([inserts (map (\<lambda>r. RDowntimeHistory (downtime_entry m env envId r)) started),
        inserts (concat (map (\<lambda>r. map RHistoryDowntime (downtime_events m env envId r)) started)),
        inserts (map (\<lambda>r. RSlaHistoryDowntime (downtime_sla m env envId r)) started)],
       last_id DowntimehistoryId rows))"

end
