(* ===== verification/Migrate_Events.thy ===== *)
theory Migrate_Events
  imports Migrate_Convert Stream_Id
begin

text \<open>
  The conversion of the IDO rows that need a cache or further queries: flapping, notifications and states
  of \<open>cmd/icingadb-migrate/convert.go\<close>. A cache is the map that \<open>Migrate_Cache\<close> fills.
\<close>

section \<open>Cache lookups\<close>

text \<open>\<open>WHERE history_id BETWEEN ? AND ?\<close> with the IDs of the first and the last row.\<close>

definition cached_between :: "(nat \<rightharpoonup> 'v) \<Rightarrow> ('row \<Rightarrow> nat) \<Rightarrow> 'row list \<Rightarrow> nat \<rightharpoonup> 'v" where
  "cached_between cache ident rows =
     (\<lambda>i. if rows \<noteq> [] \<and> ident (hd rows) \<le> i \<and> i \<le> ident (last rows) then cache i else None)"

section \<open>Flapping\<close>

record flappingRow =
  FlappinghistoryId :: nat
  fr_EventTime :: go_int
  fr_EventTimeUsec :: "32 word"
  fr_EventType :: "16 word"
  fr_PercentStateChange :: go_float
  fr_LowThreshold :: rat
  fr_HighThreshold :: rat
  fr_ObjecttypeId :: "8 word"
  fr_Name1 :: string
  fr_Name2 :: string

definition null_float :: go_float where
  "null_float = \<lparr>flt_val = 0, flt_valid = False\<rparr>"

definition flapping_time :: "flappingRow \<Rightarrow> time" where
  "flapping_time row = convertTime (int_val (fr_EventTime row)) (fr_EventTimeUsec row)"

text \<open>The start time of the flapping period; \<open>None\<close> for a row that is skipped.\<close>

definition flapping_start :: "(nat \<rightharpoonup> int \<times> 32 word) \<Rightarrow> flappingRow \<Rightarrow> time option" where
  "flapping_start cachedById row =
     (if \<not> int_valid (fr_EventTime row) then None
      else if fr_EventType row = 1001 then map_option (\<lambda>(ts, us). convertTime ts us) (cachedById (FlappinghistoryId row))
      else Some (flapping_time row))"

definition flapping_id :: "migrate_fns \<Rightarrow> string \<Rightarrow> flappingRow \<Rightarrow> time \<Rightarrow> bytes" where
  "flapping_id m env row start =
     hash_any m [HStr env, HStr (checkable_name (fr_Name1 row) (fr_Name2 row)), HFloat (float64 m (unix_milli start))]"

definition flapping_entry :: "migrate_fns \<Rightarrow> string \<Rightarrow> binary \<Rightarrow> flappingRow \<Rightarrow> time \<Rightarrow> FlappingHistory" where
  "flapping_entry m env envId row start =
     (let is_end = (fr_EventType row = 1001) in
      \<lparr>fh_Id = Some (flapping_id m env row start),
       fh_Meta = table_meta m env envId (fr_ObjecttypeId row) (fr_Name1 row) (fr_Name2 row),
       fh_Upserter = \<lparr>fh_EndTime = (if is_end then flapping_time row else zero_time),
         fh_PercentStateChangeEnd = (if is_end then fr_PercentStateChange row else null_float),
         fh_FlappingThresholdLow = float32 m (fr_LowThreshold row), fh_FlappingThresholdHigh = float32 m (fr_HighThreshold row)\<rparr>,
       fh_StartTime = start,
       fh_PercentStateChangeStart = (if is_end then null_float else fr_PercentStateChange row)\<rparr>)"

definition flapping_event :: "migrate_fns \<Rightarrow> string \<Rightarrow> binary \<Rightarrow> flappingRow \<Rightarrow> time \<Rightarrow> HistoryFlapping" where
  "flapping_event m env envId row start =
     (let is_end = (fr_EventType row = 1001);
          event = (if is_end then ''flapping_end'' else ''flapping_start'') in
      \<lparr>hf_Meta = history_meta m env envId
         (hash_any m [HStr env, HStr event, HStr (checkable_name (fr_Name1 row) (fr_Name2 row)), HFloat (float64 m (unix_milli start))])
         (fr_ObjecttypeId row) (fr_Name1 row) (fr_Name2 row) event,
       FlappingHistoryId = Some (flapping_id m env row start), hf_StartTime = start,
       hf_EndTime = (if is_end then flapping_time row else zero_time)\<rparr>)"

definition flapping_rows :: "(nat \<rightharpoonup> int \<times> 32 word) \<Rightarrow> flappingRow list \<Rightarrow> (flappingRow \<times> time) list" where
  "flapping_rows cachedById rows =
     concat (map (\<lambda>r. case flapping_start cachedById r of None \<Rightarrow> [] | Some start \<Rightarrow> [(r, start)]) rows)"

definition convertFlappingRows :: "migrate_fns \<Rightarrow> string \<Rightarrow> binary \<Rightarrow> (nat \<rightharpoonup> int \<times> 32 word) \<Rightarrow> flappingRow list \<Rightarrow> output_stage list \<times> nat option" where
  "convertFlappingRows m env envId cache rows =
     (if rows = [] then ([], None)
      else
        let todo = flapping_rows (cached_between cache FlappinghistoryId rows) rows;
            entries = (\<lambda>is_end. map (\<lambda>(r, start). RFlappingHistory (flapping_entry m env envId r start))
              (filter (\<lambda>(r, start). (fr_EventType r = 1001) = is_end) todo))
        in ([inserts (entries False), \<lparr>insert_rows = [], upsert_rows = entries True\<rparr>,
             inserts (map (\<lambda>(r, start). RHistoryFlapping (flapping_event m env envId r start)) todo)],
            last_id FlappinghistoryId rows))"

section \<open>Notifications\<close>

record notificationRow =
  nr_NotificationId :: nat
  nr_NotificationReason :: "8 word"
  nr_EndTime :: go_int
  nr_EndTimeUsec :: "32 word"
  nr_State :: "8 word"
  nr_Output :: string
  nr_LongOutput :: go_string
  nr_ContactsNotified :: "16 word"
  nr_ObjecttypeId :: "8 word"
  nr_Name1 :: string
  nr_Name2 :: string

definition convertNotificationType :: "8 word \<Rightarrow> 8 word \<Rightarrow> string option" where
  "convertNotificationType notificationReason state =
     (if notificationReason = 0 then Some (if state = 0 then ''recovery'' else ''problem'')
      else if notificationReason = 1 then Some ''acknowledgement''
      else if notificationReason = 2 then Some ''flapping_start''
      else if notificationReason = 3 then Some ''flapping_end''
      else if notificationReason = 5 then Some ''downtime_start''
      else if notificationReason = 6 then Some ''downtime_end''
      else if notificationReason = 7 then Some ''downtime_removed''
      else if notificationReason = 8 then Some ''custom''
      else None)"

text \<open>The rows that are not skipped, with their previous hard state and notification type.\<close>

definition notification_todo :: "(nat \<rightharpoonup> 8 word) \<Rightarrow> notificationRow list \<Rightarrow> (notificationRow \<times> 8 word \<times> string) list" where
  "notification_todo cachedById rows =
     concat (map (\<lambda>r.
       if \<not> int_valid (nr_EndTime r) then []
       else (case cachedById (nr_NotificationId r) of
               None \<Rightarrow> []
             | Some previousHardState \<Rightarrow>
                 (case convertNotificationType (nr_NotificationReason r) (nr_State r) of
                    None \<Rightarrow> []
                  | Some notificationType \<Rightarrow> [(r, previousHardState, notificationType)]))) rows)"

definition notification_ts :: "notificationRow \<Rightarrow> time" where
  "notification_ts row = convertTime (int_val (nr_EndTime row)) (nr_EndTimeUsec row)"

definition notification_id :: "migrate_fns \<Rightarrow> string \<Rightarrow> notificationRow \<Rightarrow> string \<Rightarrow> bytes" where
  "notification_id m env row typ =
     hash_any m [HStr env, HStr (format_nat (nr_NotificationId row)), HStr typ, HFloat (float64 m (unix_milli (notification_ts row)))]"

definition newline :: string where
  "newline = [char_of (10 :: nat)]"

definition notification_entry :: "migrate_fns \<Rightarrow> string \<Rightarrow> binary \<Rightarrow> notificationRow \<Rightarrow> 8 word \<Rightarrow> string \<Rightarrow> NotificationHistory" where
  "notification_entry m env envId row previousHardState typ =
     \<lparr>nh_Id = Some (notification_id m env row typ),
      nh_Meta = table_meta m env envId (nr_ObjecttypeId row) (nr_Name1 row) (nr_Name2 row),
      nh_NotificationId = calcObjectId m env (format_nat (nr_NotificationId row)), nh_Type = typ,
      nh_SendTime = notification_ts row, nh_State = nr_State row, nh_PreviousHardState = previousHardState,
      nh_Author = [],
      nh_Text = MakeString (nr_Output row @
        (if str_valid (nr_LongOutput row) then newline @ newline @ str_val (nr_LongOutput row) else [])),
      nh_UsersNotified = nr_ContactsNotified row\<rparr>"

definition notification_event :: "migrate_fns \<Rightarrow> string \<Rightarrow> binary \<Rightarrow> notificationRow \<Rightarrow> string \<Rightarrow> HistoryNotification" where
  "notification_event m env envId row typ =
     \<lparr>hn_Meta = history_meta m env envId
        (hash_any m [HStr env, HStr ''notification'', HStr (format_nat (nr_NotificationId row)), HStr typ,
           HFloat (float64 m (unix_milli (notification_ts row)))])
        (nr_ObjecttypeId row) (nr_Name1 row) (nr_Name2 row) ''notification'',
      hn_NotificationHistoryId = Some (notification_id m env row typ), hn_EventTime = notification_ts row\<rparr>"

text \<open>
  \<open>contacts\<close> is \<open>icinga_contactnotifications\<close> joined with the names, of which the query selects those between
  the first and the last ID; \<open>contactsById\<close> holds a set of names for each ID, and \<open>order\<close> is the order in
  which Go iterates over it.
\<close>

definition contactsById :: "(nat \<times> string) list \<Rightarrow> notificationRow list \<Rightarrow> nat \<Rightarrow> string set" where
  "contactsById contacts rows i =
     set (map snd (filter (\<lambda>c. fst c = i)
       (filter (\<lambda>c. nr_NotificationId (hd rows) \<le> fst c \<and> fst c \<le> nr_NotificationId (last rows)) contacts)))"

definition migrated_user_row :: "migrate_fns \<Rightarrow> string \<Rightarrow> binary \<Rightarrow> notificationRow \<Rightarrow> string \<Rightarrow> string \<Rightarrow> UserNotificationHistory" where
  "migrated_user_row m env envId row typ contact =
     (let userId = calcObjectId m env contact; nid = notification_id m env row typ in
      \<lparr>unh_Id = Some (user_checksum m (nid @ bytes_of userId)), unh_EnvironmentId = envId,
       unh_NotificationHistoryId = Some nid, unh_UserId = userId\<rparr>)"

definition convertNotificationRows ::
    "migrate_fns \<Rightarrow> (string set \<Rightarrow> string list) \<Rightarrow> string \<Rightarrow> binary \<Rightarrow> (nat \<rightharpoonup> 8 word) \<Rightarrow> (nat \<times> string) list \<Rightarrow>
     notificationRow list \<Rightarrow> output_stage list \<times> nat option" where
  "convertNotificationRows m order env envId cache contacts rows =
     (if rows = [] then ([], None)
      else
        let todo = notification_todo (cached_between cache nr_NotificationId rows) rows
        in ([inserts (map (\<lambda>(r, p, t). RNotificationHistory (notification_entry m env envId r p t)) todo),
             inserts (concat (map (\<lambda>(r, p, t).
               map (\<lambda>c. RUserNotificationHistory (migrated_user_row m env envId r t c)) (order (contactsById contacts rows (nr_NotificationId r)))) todo)),
             inserts (map (\<lambda>(r, p, t). RHistoryNotification (notification_event m env envId r t)) todo)],
            last_id nr_NotificationId rows))"

section \<open>States\<close>

record stateRow =
  sr_StatehistoryId :: nat
  sr_StateTime :: go_int
  sr_StateTimeUsec :: "32 word"
  sr_State :: "8 word"
  sr_StateType :: "8 word"
  sr_CurrentCheckAttempt :: "32 word"
  sr_MaxCheckAttempts :: "32 word"
  sr_LastState :: "8 word"
  sr_LastHardState :: "8 word"
  sr_Output :: go_string
  sr_LongOutput :: go_string
  sr_CheckSource :: go_string
  sr_ObjecttypeId :: "8 word"
  sr_Name1 :: string
  sr_Name2 :: string

definition convertStateType :: "8 word \<Rightarrow> (string, string) outcome" where
  "convertStateType state =
     (if state = 0 then Ok SoftState else if state = 1 then Ok HardState else Panic ''unknown state provided'')"

definition stateUpperBound :: "string \<Rightarrow> (string, 8 word) outcome" where
  "stateUpperBound typ =
     (if typ = ''host'' then Ok 1 else if typ = ''service'' then Ok 3 else Panic ''unknown object type'')"

definition cap_state :: "8 word \<Rightarrow> 8 word \<Rightarrow> 8 word" where
  "cap_state bound field = (if field > bound \<and> field \<noteq> 99 then bound else field)"

definition state_ts :: "stateRow \<Rightarrow> time" where
  "state_ts row = convertTime (int_val (sr_StateTime row)) (sr_StateTimeUsec row)"

text \<open>\<open>strings.Join([]string{row.Name1, row.Name2}, "!")\<close>\<close>

definition state_name :: "stateRow \<Rightarrow> string" where
  "state_name row = sr_Name1 row @ ''!'' @ sr_Name2 row"

definition state_id :: "migrate_fns \<Rightarrow> string \<Rightarrow> stateRow \<Rightarrow> bytes" where
  "state_id m env row = hash_any m [HStr env, HStr (state_name row), HFloat (float64 m (unix_milli (state_ts row)))]"

definition state_entry :: "migrate_fns \<Rightarrow> string \<Rightarrow> binary \<Rightarrow> stateRow \<Rightarrow> 8 word \<Rightarrow> string \<Rightarrow> 8 word \<Rightarrow> StateHistory" where
  "state_entry m env envId row previousHardState stateType bound =
     \<lparr>sh_Id = Some (state_id m env row),
      sh_Meta = table_meta m env envId (sr_ObjecttypeId row) (sr_Name1 row) (sr_Name2 row),
      sh_EventTime = state_ts row, sh_StateType = stateType, sh_SoftState = cap_state bound (sr_State row),
      sh_HardState = (if stateType = HardState then cap_state bound (sr_State row) else cap_state bound (sr_LastHardState row)),
      sh_PreviousSoftState = cap_state bound (sr_LastState row), sh_PreviousHardState = previousHardState,
      sh_CheckAttempt = sr_CurrentCheckAttempt row, sh_Output = sr_Output row, sh_LongOutput = sr_LongOutput row,
      sh_MaxCheckAttempts = sr_MaxCheckAttempts row, sh_CheckSource = sr_CheckSource row, sh_SchedulingSource = null_string\<rparr>"

definition state_event :: "migrate_fns \<Rightarrow> string \<Rightarrow> binary \<Rightarrow> stateRow \<Rightarrow> HistoryState" where
  "state_event m env envId row =
     \<lparr>hs_Meta = history_meta m env envId
        (hash_any m [HStr env, HStr ''state_change'', HStr (state_name row), HFloat (float64 m (unix_milli (state_ts row)))])
        (sr_ObjecttypeId row) (sr_Name1 row) (sr_Name2 row) ''state_change'',
      hs_StateHistoryId = Some (state_id m env row), hs_EventTime = state_ts row\<rparr>"

definition state_sla :: "migrate_fns \<Rightarrow> string \<Rightarrow> binary \<Rightarrow> stateRow \<Rightarrow> StateHistory \<Rightarrow> SlaHistoryState" where
  "state_sla m env envId row e =
     \<lparr>ss_Id = Some (state_id m env row),
      ss_Meta = table_meta m env envId (sr_ObjecttypeId row) (sr_Name1 row) (sr_Name2 row),
      ss_EventTime = state_ts row, ss_StateType = sh_StateType e, ss_HardState = sh_HardState e,
      ss_PreviousHardState = sh_PreviousHardState e\<rparr>"

text \<open>One row: nothing if it is skipped, otherwise its three entities, the last only for a hard state.\<close>

definition convert_state :: "migrate_fns \<Rightarrow> string \<Rightarrow> binary \<Rightarrow> (nat \<rightharpoonup> 8 word) \<Rightarrow> stateRow \<Rightarrow>
    (string, (StateHistory \<times> HistoryState \<times> SlaHistoryState list) list) outcome" where
  "convert_state m env envId cachedById row =
     (if \<not> int_valid (sr_StateTime row) then Ok []
      else (case cachedById (sr_StatehistoryId row) of
              None \<Rightarrow> Ok []
            | Some previousHardState \<Rightarrow>
                bind_outcome (stateUpperBound (objectTypes (sr_ObjecttypeId row)))
                  (\<lambda>bound. bind_outcome (convertStateType (sr_StateType row))
                    (\<lambda>stateType.
                       let e = state_entry m env envId row previousHardState stateType bound in
                       Ok [(e, state_event m env envId row,
                            if stateType = HardState then [state_sla m env envId row e] else [])]))))"

fun convert_each :: "('row \<Rightarrow> ('e, 'b list) outcome) \<Rightarrow> 'row list \<Rightarrow> ('e, 'b list) outcome" where
  "convert_each f [] = Ok []"
| "convert_each f (r # rs) = bind_outcome (f r) (\<lambda>b. bind_outcome (convert_each f rs) (\<lambda>bs. Ok (b @ bs)))"

definition convertStateRows :: "migrate_fns \<Rightarrow> string \<Rightarrow> binary \<Rightarrow> (nat \<rightharpoonup> 8 word) \<Rightarrow> stateRow list \<Rightarrow>
    (string, output_stage list \<times> nat option) outcome" where
  "convertStateRows m env envId cache rows =
     (if rows = [] then Ok ([], None)
      else
        bind_outcome (convert_each (convert_state m env envId (cached_between cache sr_StatehistoryId rows)) rows)
          (\<lambda>todo. Ok
             ([inserts (map (\<lambda>(e, h, s). RStateHistory e) todo),
               inserts (map (\<lambda>(e, h, s). RHistoryState h) todo),
               inserts (concat (map (\<lambda>(e, h, s). map RSlaHistoryState s) todo))],
              last_id sr_StatehistoryId rows)))"

end
