(* ===== verification/History_Tables.thy ===== *)
theory History_Tables
  imports History_Types
begin

text \<open>
  The history tables as a map from table name and ID to row: the table of each row type and what an
  insert and an upsert of a row do. What an upsert writes to an existing row is given by the methods
  \<open>Upsert\<close> of \<open>pkg/icingadb/v1/history\<close>.
\<close>

section \<open>Tables and IDs\<close>

fun row_table :: "history_row \<Rightarrow> string" where
  "row_table (RAcknowledgementHistory r) = ''acknowledgement_history''"
| "row_table (RHistoryAck r) = ''history''"
| "row_table (RCommentHistory r) = ''comment_history''"
| "row_table (RHistoryComment r) = ''history''"
| "row_table (RDowntimeHistory r) = ''downtime_history''"
| "row_table (RHistoryDowntime r) = ''history''"
| "row_table (RSlaHistoryDowntime r) = ''sla_history_downtime''"
| "row_table (RFlappingHistory r) = ''flapping_history''"
| "row_table (RHistoryFlapping r) = ''history''"
| "row_table (RNotificationHistory r) = ''notification_history''"
| "row_table (RUserNotificationHistory r) = ''user_notification_history''"
| "row_table (RHistoryNotification r) = ''history''"
| "row_table (RStateHistory r) = ''state_history''"
| "row_table (RHistoryState r) = ''history''"
| "row_table (RSlaHistoryState r) = ''sla_history_state''"

fun row_id :: "history_row \<Rightarrow> binary" where
  "row_id (RAcknowledgementHistory r) = ah_Id r"
| "row_id (RHistoryAck r) = hm_Id (hack_Meta r)"
| "row_id (RCommentHistory r) = ch_CommentId r"
| "row_id (RHistoryComment r) = hm_Id (hc_Meta r)"
| "row_id (RDowntimeHistory r) = dh_DowntimeId r"
| "row_id (RHistoryDowntime r) = hm_Id (hd_Meta r)"
| "row_id (RSlaHistoryDowntime r) = sd_DowntimeId r"
| "row_id (RFlappingHistory r) = fh_Id r"
| "row_id (RHistoryFlapping r) = hm_Id (hf_Meta r)"
| "row_id (RNotificationHistory r) = nh_Id r"
| "row_id (RUserNotificationHistory r) = unh_Id r"
| "row_id (RHistoryNotification r) = hm_Id (hn_Meta r)"
| "row_id (RStateHistory r) = sh_Id r"
| "row_id (RHistoryState r) = hm_Id (hs_Meta r)"
| "row_id (RSlaHistoryState r) = ss_Id r"

definition row_key :: "history_row \<Rightarrow> string \<times> binary" where
  "row_key r = (row_table r, row_id r)"

type_synonym history_db = "string \<times> binary \<rightharpoonup> history_row"

section \<open>Inserting\<close>

text \<open>\<open>INSERT IGNORE\<close>: a row whose ID is taken is left out.\<close>

definition insert_ignore :: "history_row \<Rightarrow> history_db \<Rightarrow> history_db" where
  "insert_ignore r db = (if db (row_key r) = None then db(row_key r \<mapsto> r) else db)"

definition insert_all :: "history_row list \<Rightarrow> history_db \<Rightarrow> history_db" where
  "insert_all rows db = fold insert_ignore rows db"

lemma insert_all_simps [simp]: "insert_all [] db = db" "insert_all (r # rows) db = insert_all rows (insert_ignore r db)"
  by (simp_all add: insert_all_def)

lemma insert_all_append [simp]: "insert_all (xs @ ys) db = insert_all ys (insert_all xs db)"
  by (simp add: insert_all_def)

text \<open>Of several rows with the same key the first one wins.\<close>

lemma insert_all_lookup:
  "insert_all rows db k = (case db k of Some r \<Rightarrow> Some r | None \<Rightarrow> find (\<lambda>r. row_key r = k) rows)"
  by (induction rows arbitrary: db) (auto simp: insert_ignore_def split: option.splits)

lemma insert_all_again [simp]: "insert_all rows (insert_all rows db) = insert_all rows db"
  by (rule ext) (simp add: insert_all_lookup split: option.splits)

section \<open>Upserting\<close>

text \<open>
  The columns of \<open>Upsert()\<close> are overwritten in an existing row: the embedded upserter, only the ID for
  the rows of the tables \<open>history\<close>, \<open>notification_history\<close>, \<open>state_history\<close> and \<open>sla_history_state\<close>, all
  columns for \<open>user_notification_history\<close>, and the column \<open>downtime_end\<close>, computed from three fields, for
  \<open>sla_history_downtime\<close>.
\<close>

definition upsert_columns :: "history_row \<Rightarrow> history_row \<Rightarrow> history_row" where
  "upsert_columns n r =
     (case r of
        RAcknowledgementHistory x \<Rightarrow> (case n of RAcknowledgementHistory y \<Rightarrow> RAcknowledgementHistory (x\<lparr>ah_Upserter := ah_Upserter y\<rparr>) | _ \<Rightarrow> r)
      | RCommentHistory x \<Rightarrow> (case n of RCommentHistory y \<Rightarrow> RCommentHistory (x\<lparr>ch_Upserter := ch_Upserter y\<rparr>) | _ \<Rightarrow> r)
      | RDowntimeHistory x \<Rightarrow> (case n of RDowntimeHistory y \<Rightarrow> RDowntimeHistory (x\<lparr>dh_Upserter := dh_Upserter y\<rparr>) | _ \<Rightarrow> r)
      | RSlaHistoryDowntime x \<Rightarrow>
          (case n of RSlaHistoryDowntime y \<Rightarrow> RSlaHistoryDowntime
             (x\<lparr>sd_HasBeenCancelled := sd_HasBeenCancelled y, sd_CancelTime := sd_CancelTime y, sd_EndTime := sd_EndTime y\<rparr>)
           | _ \<Rightarrow> r)
      | RFlappingHistory x \<Rightarrow> (case n of RFlappingHistory y \<Rightarrow> RFlappingHistory (x\<lparr>fh_Upserter := fh_Upserter y\<rparr>) | _ \<Rightarrow> r)
      | RUserNotificationHistory x \<Rightarrow> (case n of RUserNotificationHistory y \<Rightarrow> n | _ \<Rightarrow> r)
      | _ \<Rightarrow> r)"

definition upsert_history_row :: "history_row \<Rightarrow> history_db \<Rightarrow> history_db" where
  "upsert_history_row n db =
     db(row_key n \<mapsto> (case db (row_key n) of None \<Rightarrow> n | Some r \<Rightarrow> upsert_columns n r))"

definition upsert_all :: "history_row list \<Rightarrow> history_db \<Rightarrow> history_db" where
  "upsert_all rows db = fold upsert_history_row rows db"

lemma upsert_columns_key [simp]: "row_key n = row_key r \<Longrightarrow> row_key (upsert_columns n r) = row_key r"
  by (auto simp: upsert_columns_def row_key_def split: history_row.splits)

lemma upsert_columns_table [simp]: "row_table (upsert_columns n r) = row_table r"
  by (auto simp: upsert_columns_def split: history_row.splits)

lemma upsert_columns_self [simp]: "upsert_columns r r = r"
  by (cases r) (simp_all add: upsert_columns_def)

text \<open>The last upsert of a row decides.\<close>

lemma upsert_columns_absorb:
  assumes "row_table a = row_table r" and "row_table b = row_table r"
  shows "upsert_columns b (upsert_columns a r) = upsert_columns b r"
  using assms by (cases r; cases a; simp add: upsert_columns_def; cases b; simp)

fun latest :: "history_row \<Rightarrow> history_row list \<Rightarrow> history_row" where
  "latest r [] = r"
| "latest r (n # ns) = latest (upsert_columns n r) ns"

lemma upsert_all_lookup:
  "upsert_all rows db k = (case filter (\<lambda>r. row_key r = k) rows of
      [] \<Rightarrow> db k
    | n # ns \<Rightarrow> Some (case db k of None \<Rightarrow> latest n ns | Some r \<Rightarrow> latest r (n # ns)))"
proof (induction rows arbitrary: db)
  case (Cons x rows)
  have "upsert_all (x # rows) db k = upsert_all rows (upsert_history_row x db) k" by (simp add: upsert_all_def)
  also have "\<dots> = (case filter (\<lambda>r. row_key r = k) rows of
      [] \<Rightarrow> upsert_history_row x db k
    | n # ns \<Rightarrow> Some (case upsert_history_row x db k of None \<Rightarrow> latest n ns | Some r \<Rightarrow> latest r (n # ns)))"
    by (rule Cons.IH)
  finally show ?case by (auto simp: upsert_history_row_def split: list.splits option.splits)
qed (simp add: upsert_all_def)

lemma latest_last:
  assumes "\<forall>n \<in> set ns. row_table n = row_table r" and "ns \<noteq> []"
  shows "latest r ns = upsert_columns (last ns) r"
  using assms
proof (induction ns arbitrary: r)
  case (Cons n ns)
  have t: "row_table (upsert_columns n r) = row_table r" by simp
  show ?case
  proof (cases "ns = []")
    case False
    then have "latest (upsert_columns n r) ns = upsert_columns (last ns) (upsert_columns n r)"
      using Cons t by (metis list.set_intros(2))
    also have "\<dots> = upsert_columns (last ns) r"
      by (rule upsert_columns_absorb) (use Cons.prems False in auto)
    finally show ?thesis using False by simp
  qed simp
qed simp

text \<open>Upserting the rows of the last events once more changes nothing.\<close>

lemma latest_again:
  assumes t: "\<forall>n \<in> set (xs @ ys). row_table n = row_table r"
  shows "latest (latest r (xs @ ys)) ys = latest r (xs @ ys)"
proof (cases "ys = []")
  case False
  have a: "latest r (xs @ ys) = upsert_columns (last ys) r" using latest_last [OF t] False by simp
  have l: "row_table (last ys) = row_table r" using t False by simp
  have u: "row_table (upsert_columns (last ys) r) = row_table r" by simp
  have "latest (upsert_columns (last ys) r) ys = upsert_columns (last ys) (upsert_columns (last ys) r)"
    by (rule latest_last) (use t u False in auto)
  also have "\<dots> = upsert_columns (last ys) r" by (rule upsert_columns_absorb) (use l in auto)
  finally show ?thesis using a by simp
qed simp

lemma latest_append: "latest r (xs @ ys) = latest (latest r xs) ys"
  by (induction xs arbitrary: r) simp_all

lemma upsert_all_again_lookup:
  assumes db: "\<forall>k r. db k = Some r \<longrightarrow> row_key r = k"
  shows "upsert_all ys (upsert_all (xs @ ys) db) k = upsert_all (xs @ ys) db k"
proof -
  let ?f = "filter (\<lambda>r. row_key r = k)"
  have tab: "row_table n = row_table r" if "n \<in> set (?f zs)" "row_key r = k" for n r zs
    using that by (auto simp: row_key_def)
  show ?thesis
  proof (cases "?f ys")
    case Nil
    then show ?thesis by (simp add: upsert_all_lookup [of ys])
  next
    case (Cons y ys')
    obtain r zs where r: "upsert_all (xs @ ys) db k = Some (latest r (zs @ y # ys'))" "row_key r = k" "set zs \<subseteq> set (?f xs)"
    proof (cases "db k")
      case (Some r)
      then have "upsert_all (xs @ ys) db k = Some (latest r (?f xs @ y # ys'))"
        using Cons by (auto simp: upsert_all_lookup split: list.splits)
      then show ?thesis using that [of r "?f xs"] db Some by blast
    next
      case None
      show ?thesis
      proof (cases "?f xs")
        case Nil
        then have "upsert_all (xs @ ys) db k = Some (latest y ys')" using Cons None by (simp add: upsert_all_lookup)
        moreover have "row_key y = k" using Cons by (metis (mono_tags, lifting) filter_eq_ConsD)
        ultimately show ?thesis using that [of y "[]"] by simp
      next
        case (Cons x xs')
        then have "upsert_all (xs @ ys) db k = Some (latest x (xs' @ y # ys'))"
          using None \<open>?f ys = y # ys'\<close> by (simp add: upsert_all_lookup)
        moreover have "row_key x = k" using Cons by (metis (mono_tags, lifting) filter_eq_ConsD)
        ultimately show ?thesis using that [of x xs'] Cons by auto
      qed
    qed
    have t: "\<forall>n \<in> set (zs @ y # ys'). row_table n = row_table r"
      using r(2,3) tab [of _ ys r] tab [of _ xs r] Cons by auto
    have "upsert_all ys (upsert_all (xs @ ys) db) k = Some (latest (latest r (zs @ y # ys')) (y # ys'))"
      using Cons r(1) by (simp add: upsert_all_lookup [of ys])
    then show ?thesis using latest_again [of zs "y # ys'" r] t r(1) by simp
  qed
qed

section \<open>Events that are processed again\<close>

text \<open>Processing history events again does no harm: when the last events \<open>ys\<close> are read from Redis once more,
  because the process ended after their rows were written and before they were deleted from the stream,
  all tables stay as they are.\<close>

theorem history_replay_changes_nothing:
  assumes "\<forall>k r. db k = Some r \<longrightarrow> row_key r = k"
  shows "upsert_all ys (upsert_all (xs @ ys) db) = upsert_all (xs @ ys) db"
  by (rule ext, rule upsert_all_again_lookup [OF assms])

definition sample_comment_row :: "bool \<Rightarrow> history_row" where
  "sample_comment_row removed = RCommentHistory
     \<lparr>ch_CommentId = Some [1], ch_Meta = \<lparr>htm_EnvironmentId = None, htm_EndpointId = None, htm_ObjectType = ''host'',
        htm_HostId = None, htm_ServiceId = None\<rparr>,
      ch_Upserter = \<lparr>ch_RemovedBy = null_string, ch_RemoveTime = 0, ch_HasBeenRemoved = MakeBool removed\<rparr>,
      ch_EntryTime = 0, ch_Author = [], ch_Comment = [], ch_EntryType = ''comment'', ch_IsPersistent = null_bool,
      ch_IsSticky = null_bool, ch_ExpireTime = 0\<rparr>"

theorem history_replay_changes_nothing_witness:
  "upsert_all [sample_comment_row False, sample_comment_row True]
     (upsert_all [sample_comment_row False, sample_comment_row True] Map.empty) (''comment_history'', Some [1]) =
   Some (sample_comment_row True)"
proof -
  have "upsert_all [sample_comment_row False, sample_comment_row True]
      (upsert_all ([] @ [sample_comment_row False, sample_comment_row True]) Map.empty) =
    upsert_all ([] @ [sample_comment_row False, sample_comment_row True]) Map.empty"
    by (rule history_replay_changes_nothing) simp
  then show ?thesis by (simp add: upsert_all_def upsert_history_row_def row_key_def sample_comment_row_def upsert_columns_def)
qed

end
