(* ===== verification/Migrate_Run.thy ===== *)
theory Migrate_Run
  imports Migrate_Events History_Tables
begin

text \<open>
  The migration of one history type, \<open>migrateOneType\<close> of \<open>cmd/icingadb-migrate/main.go\<close>: the IDO rows in
  bulks, each converted, written to Icinga DB stage by stage, and followed by the progress row. The
  locale \<open>stage_migration\<close> is what a conversion has to keep so that neither the bulks nor an
  interruption matter.
\<close>

section \<open>The loop\<close>

text \<open>The tables of Icinga DB and \<open>ido_migration_progress.last_ido_id\<close>.\<close>

record migration =
  mig_db :: history_db
  last_ido_id :: "nat option"

definition exec_stage :: "output_stage \<Rightarrow> history_db \<Rightarrow> history_db" where
  "exec_stage stage db = upsert_all (upsert_rows stage) (insert_all (insert_rows stage) db)"

definition migrate_rows ::
    "('row list \<Rightarrow> (string, output_stage list \<times> nat option) outcome) \<Rightarrow> 'row list \<Rightarrow> migration \<Rightarrow> (string, nat option \<times> migration) outcome" where
  "migrate_rows convertRows idoRows s =
     bind_outcome (convertRows idoRows)
       (\<lambda>(stages, lastIdoId).
          let s' = s\<lparr>mig_db := fold exec_stage stages (mig_db s)\<rparr> in
          Ok (lastIdoId, case lastIdoId of None \<Rightarrow> s' | Some i \<Rightarrow> s'\<lparr>last_ido_id := Some i\<rparr>))"

text \<open>
  The rows of the query: \<open>BETWEEN :fromid AND :toid\<close> and, for the types with a cache of previous hard
  states, up to its largest ID. No progress row is a last ID of 0.
\<close>

definition migration_table :: "('row \<Rightarrow> nat) \<Rightarrow> nat \<Rightarrow> nat \<Rightarrow> nat option \<Rightarrow> 'row list \<Rightarrow> 'row list" where
  "migration_table ident fromid toid cache_limit rows =
     filter (\<lambda>r. fromid \<le> ident r \<and> ident r \<le> toid \<and> (case cache_limit of None \<Rightarrow> True | Some l \<Rightarrow> ident r \<le> l)) rows"

definition lastId :: "migration \<Rightarrow> nat" where
  "lastId s = (case last_ido_id s of None \<Rightarrow> 0 | Some i \<Rightarrow> i)"

definition migrateOneType ::
    "('row \<Rightarrow> nat) \<Rightarrow> nat \<Rightarrow> ('row list \<Rightarrow> (string, output_stage list \<times> nat option) outcome) \<Rightarrow> 'row list \<Rightarrow> migration \<Rightarrow>
     (string, migration) outcome option" where
  "migrateOneType ident bulk convertRows table s =
     sliceIdoHistory (select_bulk (<) ident bulk table) (migrate_rows convertRows) (lastId s) s"

section \<open>Stages and tables\<close>

text \<open>The rows of one stage go to one table, each stage to its own.\<close>

lemma concat_pick: "j < n \<Longrightarrow> concat (map (\<lambda>i. if i = j then x else []) [0..<n]) = x"
proof (induction n)
  case (Suc n)
  have none: "concat (map (\<lambda>i. if i = n then x else []) [0..<n]) = []" by (induction n arbitrary: x) (auto simp: concat_eq_Nil_conv)
  show ?case
  proof (cases "j = n")
    case True
    then show ?thesis using none by simp
  next
    case False
    then show ?thesis using Suc by simp
  qed
qed simp

lemma filter_stage:
  assumes "distinct tables" and "\<forall>i < length tables. \<forall>x \<in> set (G i). row_table x = tables ! i" and "j < length tables"
  shows "filter (\<lambda>x. row_table x = tables ! j) (concat (map G [0..<length tables])) = G j"
proof -
  have "filter (\<lambda>x. row_table x = tables ! j) (G i) = (if i = j then G j else [])" if "i < length tables" for i
    using assms that nth_eq_iff_index_eq [OF assms(1) that assms(3)] by (auto simp: filter_id_conv filter_empty_conv)
  then have "map (filter (\<lambda>x. row_table x = tables ! j)) (map G [0..<length tables]) = map (\<lambda>i. if i = j then G j else []) [0..<length tables]"
    by simp
  then show ?thesis unfolding filter_concat by (simp only: concat_pick [OF assms(3)])
qed

lemma filter_no_stage:
  assumes "\<forall>i < length tables. \<forall>x \<in> set (G i). row_table x = tables ! i" and "t \<notin> set tables"
  shows "filter (\<lambda>x. row_table x = t) (concat (map G [0..<length tables])) = []"
  using assms by (auto simp: filter_empty_conv)

lemma find_filter: "(\<And>x. P x \<Longrightarrow> Q x) \<Longrightarrow> find P (filter Q xs) = find P xs"
  by (induction xs) auto

definition stages_ok :: "string list \<Rightarrow> history_row list list \<Rightarrow> bool" where
  "stages_ok tables es \<longleftrightarrow> length es = length tables \<and> (\<forall>i < length tables. \<forall>x \<in> set (es ! i). row_table x = tables ! i)"

definition by_stage :: "string list \<Rightarrow> history_row list list list \<Rightarrow> history_row list" where
  "by_stage tables ess = concat (map (\<lambda>i. concat (map (\<lambda>es. es ! i) ess)) [0..<length tables])"

text \<open>Stage by stage or row by row: the same row is the first one with a given key.\<close>

lemma find_by_stage:
  assumes d: "distinct tables" and ok: "\<forall>es \<in> set ess. stages_ok tables es"
  shows "find (\<lambda>r. row_key r = k) (by_stage tables ess) = find (\<lambda>r. row_key r = k) (concat (map concat ess))"
proof -
  have imp: "row_key x = k \<Longrightarrow> row_table x = fst k" for x by (auto simp: row_key_def)
  have G: "\<forall>i < length tables. \<forall>x \<in> set (concat (map (\<lambda>es. es ! i) ess)). row_table x = tables ! i"
    using ok by (auto simp: stages_ok_def)
  have row: "concat es = concat (map ((!) es) [0..<length tables])" if "es \<in> set ess" for es
    using ok that by (metis map_nth stages_ok_def)
  have rows: "concat (map concat ess) = concat (map (\<lambda>es. concat (map ((!) es) [0..<length tables])) ess)"
    using row by (metis (no_types, lifting) map_cong)
  have eq: "filter (\<lambda>x. row_table x = fst k) (by_stage tables ess) = filter (\<lambda>x. row_table x = fst k) (concat (map concat ess))"
  proof (cases "fst k \<in> set tables")
    case True
    then obtain j where j: "j < length tables" "fst k = tables ! j" by (auto simp: in_set_conv_nth)
    have "filter (\<lambda>x. row_table x = tables ! j) (concat (map ((!) es) [0..<length tables])) = es ! j" if "es \<in> set ess" for es
      by (rule filter_stage [OF d _ j(1)]) (use ok that in \<open>auto simp: stages_ok_def\<close>)
    then have pick: "map (\<lambda>es. filter (\<lambda>x. row_table x = tables ! j) (concat (map ((!) es) [0..<length tables]))) ess = map (\<lambda>es. es ! j) ess"
      by (intro map_cong refl)
    have "filter (\<lambda>x. row_table x = tables ! j) (concat (map concat ess)) =
        concat (map (filter (\<lambda>x. row_table x = tables ! j)) (map (\<lambda>es. concat (map ((!) es) [0..<length tables])) ess))"
      unfolding rows by (rule filter_concat)
    also have "\<dots> = concat (map (\<lambda>es. es ! j) ess)" by (simp only: map_map comp_def pick)
    finally have "filter (\<lambda>x. row_table x = tables ! j) (concat (map concat ess)) = concat (map (\<lambda>es. es ! j) ess)" .
    then show ?thesis using filter_stage [OF d G j(1)] by (simp add: by_stage_def j(2))
  next
    case False
    have "filter (\<lambda>x. row_table x = fst k) (concat (map ((!) es) [0..<length tables])) = []" if "es \<in> set ess" for es
      by (rule filter_no_stage [OF _ False]) (use ok that in \<open>auto simp: stages_ok_def\<close>)
    then have none: "map (\<lambda>es. filter (\<lambda>x. row_table x = fst k) (concat (map ((!) es) [0..<length tables]))) ess = map (\<lambda>es. []) ess"
      by (intro map_cong refl)
    have "filter (\<lambda>x. row_table x = fst k) (concat (map concat ess)) =
        concat (map (filter (\<lambda>x. row_table x = fst k)) (map (\<lambda>es. concat (map ((!) es) [0..<length tables])) ess))"
      unfolding rows by (rule filter_concat)
    also have "\<dots> = concat (map (\<lambda>es. []) ess)" by (simp only: map_map comp_def none)
    finally have "filter (\<lambda>x. row_table x = fst k) (concat (map concat ess)) = []" by (simp add: concat_eq_Nil_conv)
    then show ?thesis using filter_no_stage [OF G False] by (simp add: by_stage_def)
  qed
  have f: "find (\<lambda>r. row_key r = k) xs = find (\<lambda>r. row_key r = k) (filter (\<lambda>x. row_table x = fst k) xs)" for xs
    by (rule find_filter [symmetric], erule imp)
  show ?thesis by (simp only: f [of "by_stage tables ess"] f [of "concat (map concat ess)"] eq)
qed

lemma insert_by_stage:
  assumes "distinct tables" and "\<forall>es \<in> set ess. stages_ok tables es"
  shows "insert_all (by_stage tables ess) db = insert_all (concat (map concat ess)) db"
proof (rule ext)
  fix k
  show "insert_all (by_stage tables ess) db k = insert_all (concat (map concat ess)) db k"
    unfolding insert_all_lookup find_by_stage [OF assms, of k] ..
qed

text \<open>A part of a bulk that was written before an interruption is what the whole bulk writes.\<close>

lemma find_take: "find P (take n xs) = Some r \<Longrightarrow> find P xs = Some r"
  by (induction xs arbitrary: n) (auto simp: take_Cons split: nat.splits if_splits)

lemma find_first: "find P xs = Some r \<Longrightarrow> find P (xs @ ys) = Some r"
  by (induction xs) auto

lemma insert_after_part:
  assumes "distinct tables" and "\<forall>es \<in> set (ess @ ess'). stages_ok tables es"
  shows "insert_all (concat (map concat (ess @ ess'))) (insert_all (take n (by_stage tables ess)) db) =
    insert_all (concat (map concat (ess @ ess'))) db"
proof (rule ext)
  fix k
  have "find (\<lambda>r. row_key r = k) (concat (map concat (ess @ ess'))) = Some r"
    if "find (\<lambda>r. row_key r = k) (take n (by_stage tables ess)) = Some r" for r
  proof -
    have "find (\<lambda>r. row_key r = k) (concat (map concat ess)) = Some r"
      using find_take [OF that] find_by_stage [OF assms(1)] assms(2) by simp
    then show ?thesis using find_first by (simp only: map_append concat_append)
  qed
  then show "insert_all (concat (map concat (ess @ ess'))) (insert_all (take n (by_stage tables ess)) db) k =
    insert_all (concat (map concat (ess @ ess'))) db k"
    by (auto simp only: insert_all_lookup split: option.splits)
qed

section \<open>Conversions row by row\<close>

text \<open>
  A conversion makes of each row one list of rows per table, and of a bulk the stages that collect them.
\<close>

fun outcome_list :: "('row \<Rightarrow> ('e, 'b) outcome) \<Rightarrow> 'row list \<Rightarrow> ('e, 'b list) outcome" where
  "outcome_list f [] = Ok []"
| "outcome_list f (r # rs) = bind_outcome (f r) (\<lambda>b. bind_outcome (outcome_list f rs) (\<lambda>bs. Ok (b # bs)))"

lemma outcome_list_set: "outcome_list f rows = Ok bs \<Longrightarrow> \<forall>b \<in> set bs. \<exists>r \<in> set rows. f r = Ok b"
proof (induction rows arbitrary: bs)
  case (Cons r rows)
  then obtain b bs' where b: "f r = Ok b" "outcome_list f rows = Ok bs'" "bs = b # bs'" by (auto simp: bind_outcome_Ok_iff)
  from Cons.IH [OF b(2)] show ?case using b(1,3) by auto
qed simp

definition stage_list :: "string list \<Rightarrow> history_row list list list \<Rightarrow> output_stage list" where
  "stage_list tables ess = map (\<lambda>i. inserts (concat (map (\<lambda>es. es ! i) ess))) [0..<length tables]"

lemma exec_inserts: "fold exec_stage (map (\<lambda>i. inserts (F i)) is) db = insert_all (concat (map F is)) db"
  by (induction "is" arbitrary: db) (simp_all add: exec_stage_def inserts_def upsert_all_def)

lemma exec_stage_list: "fold exec_stage (stage_list tables ess) db = insert_all (by_stage tables ess) db"
  unfolding stage_list_def by_stage_def by (rule exec_inserts)

definition migrate_row :: "('row \<Rightarrow> nat) \<Rightarrow> ('row \<Rightarrow> (string, history_row list list) outcome) \<Rightarrow> 'row \<Rightarrow> migration \<Rightarrow> (string, migration) outcome" where
  "migrate_row ident row_stages r s =
     bind_outcome (row_stages r) (\<lambda>es. Ok (s\<lparr>mig_db := insert_all (concat es) (mig_db s), last_ido_id := Some (ident r)\<rparr>))"

lemma each_migrate_row:
  "each_row (migrate_row ident row_stages) rows s =
     bind_outcome (outcome_list row_stages rows)
       (\<lambda>ess. Ok (s\<lparr>mig_db := insert_all (concat (map concat ess)) (mig_db s),
          last_ido_id := (if rows = [] then last_ido_id s else Some (ident (last rows)))\<rparr>))"
proof (induction rows arbitrary: s)
  case (Cons r rows)
  show ?case
  proof (cases "row_stages r")
    case (Ok es)
    then show ?thesis using Cons.IH by (cases "outcome_list row_stages rows") (simp_all add: migrate_row_def)
  qed (simp_all add: migrate_row_def)
qed simp

locale stage_migration =
  fixes ident :: "'row \<Rightarrow> nat" and convertRows :: "'row list \<Rightarrow> (string, output_stage list \<times> nat option) outcome"
    and row_stages :: "'row \<Rightarrow> (string, history_row list list) outcome" and tables :: "string list"
  assumes tables_distinct: "distinct tables"
    and row_tables: "row_stages r = Ok es \<Longrightarrow> stages_ok tables es"
    and convert_stages: "rows \<noteq> [] \<Longrightarrow> sorted_wrt (\<lambda>x y. ident x < ident y) rows \<Longrightarrow>
      convertRows rows = bind_outcome (outcome_list row_stages rows) (\<lambda>ess. Ok (stage_list tables ess, Some (ident (last rows))))"
begin

lemma list_ok: "outcome_list row_stages rows = Ok ess \<Longrightarrow> \<forall>es \<in> set ess. stages_ok tables es"
  using outcome_list_set row_tables by fast

lemma migrate_rows_each:
  assumes "rows \<noteq> []" and "sorted_wrt (\<lambda>x y. ident x < ident y) rows"
  shows "migrate_rows convertRows rows s =
    bind_outcome (each_row (migrate_row ident row_stages) rows s) (\<lambda>s'. Ok (Some (ident (last rows)), s'))"
proof (cases "outcome_list row_stages rows")
  case (Ok ess)
  have "fold exec_stage (stage_list tables ess) (mig_db s) = insert_all (concat (map concat ess)) (mig_db s)"
    unfolding exec_stage_list by (rule insert_by_stage [OF tables_distinct list_ok [OF Ok]])
  then show ?thesis using Ok assms(1) convert_stages [OF assms] by (simp add: migrate_rows_def each_migrate_row)
qed (use convert_stages [OF assms] in \<open>simp_all add: migrate_rows_def each_migrate_row\<close>)

end

sublocale stage_migration \<subseteq> slice_consumer "(<)" ident "migrate_rows convertRows" "each_row (migrate_row ident row_stages)"
  by unfold_locales (use migrate_rows_each in \<open>auto simp: each_row_append\<close>)

context stage_migration
begin

lemma migrate_all:
  assumes "ordered table" and "0 < bulk"
  shows "migrateOneType ident bulk convertRows table s =
    Some (each_row (migrate_row ident row_stages) (filter (\<lambda>r. lastId s < ident r) table) s)"
  unfolding migrateOneType_def by (rule slice_all [OF assms])

lemma filter_progress:
  assumes "ordered (xs @ ys)" and "\<forall>r \<in> set (xs @ ys). 0 < ident r"
    and "each_row (migrate_row ident row_stages) xs s0 = Ok s" and "last_ido_id s0 = None"
  shows "filter (\<lambda>r. lastId s < ident r) (xs @ ys) = ys"
proof (cases "xs = []")
  case True
  then have "lastId s = 0" using assms(3,4) by (simp add: lastId_def)
  then show ?thesis using True assms(2) by (simp add: filter_id_conv)
next
  case False
  then have "lastId s = ident (last xs)"
    using assms(3) by (auto simp: each_migrate_row bind_outcome_Ok_iff lastId_def)
  then show ?thesis using filter_beyond [OF assms(1) False] by simp
qed

text \<open>
  The run ends in the middle of a bulk, after some of its rows were written; the next run starts from
  the progress row and arrives at the same tables.
\<close>

lemma migrate_interrupted:
  assumes ord: "ordered (xs @ ys @ zs)" and pos: "\<forall>r \<in> set (xs @ ys @ zs). 0 < ident r" and bulk: "0 < bulk" "0 < bulk'"
    and none: "last_ido_id s0 = None" and xs: "migrateOneType ident bulk convertRows xs s0 = Some (Ok s)"
    and ys: "convertRows ys = Ok (stages, cp)" "ys \<noteq> []"
  shows "migrateOneType ident bulk' convertRows (xs @ ys @ zs)
      (s\<lparr>mig_db := insert_all (take n (concat (map insert_rows stages))) (mig_db s)\<rparr>) =
    migrateOneType ident bulk convertRows (xs @ ys @ zs) s0"
proof -
  have sub: "ordered xs" "ordered ys" using ord by (simp_all add: sorted_wrt_append)
  have l0: "lastId s0 = 0" using none by (simp add: lastId_def)
  have posx: "filter (\<lambda>r. 0 < ident r) xs = xs" "filter (\<lambda>r. 0 < ident r) (xs @ ys @ zs) = xs @ ys @ zs"
    using pos by (simp_all add: filter_id_conv)
  have s: "each_row (migrate_row ident row_stages) xs s0 = Ok s"
    using xs migrate_all [OF sub(1) bulk(1), of s0] l0 posx(1) by simp
  obtain ess where ess: "outcome_list row_stages ys = Ok ess" "stages = stage_list tables ess"
    using convert_stages [OF ys(2) sub(2)] ys(1) by (cases "outcome_list row_stages ys") auto
  have part: "concat (map insert_rows stages) = by_stage tables ess"
    by (simp add: ess(2) stage_list_def by_stage_def inserts_def comp_def)
  let ?s = "s\<lparr>mig_db := insert_all (take n (by_stage tables ess)) (mig_db s)\<rparr>"
  have rest: "filter (\<lambda>r. lastId ?s < ident r) (xs @ ys @ zs) = ys @ zs"
    using filter_progress [OF ord pos s none] by (simp add: lastId_def)
  have "each_row (migrate_row ident row_stages) (ys @ zs) ?s = each_row (migrate_row ident row_stages) (ys @ zs) s"
  proof (cases "outcome_list row_stages zs")
    case (Ok ess')
    have all: "outcome_list row_stages (ys @ zs) = Ok (ess @ ess')"
      using ess(1) Ok by (induction ys arbitrary: ess) (auto simp: bind_outcome_Ok_iff)
    show ?thesis
      unfolding each_migrate_row all
      using insert_after_part [OF tables_distinct list_ok [OF all], of n "mig_db s"] by simp
  qed (simp_all add: each_row_append each_migrate_row ess(1))
  moreover have "each_row (migrate_row ident row_stages) (xs @ ys @ zs) s0 = each_row (migrate_row ident row_stages) (ys @ zs) s"
    using s by (simp add: each_row_append)
  ultimately show ?thesis
    unfolding part migrate_all [OF ord bulk(1)] migrate_all [OF ord bulk(2)] rest l0 posx by simp
qed

end

end
