(* ===== verification/Migrate_Types.thy ===== *)
theory Migrate_Types
  imports Migrate_Run
begin

text \<open>
  The history types whose stages go to one table each, as instances of \<open>stage_migration\<close>: downtimes,
  notifications and states (the entries of \<open>typesToMigrate\<close> in \<open>cmd/icingadb-migrate/misc.go\<close>).
\<close>

section \<open>Lemmas for the instances\<close>

lemma outcome_list_Ok [simp]: "outcome_list (\<lambda>r. Ok (g r)) rows = Ok (map g rows)"
  by (induction rows) simp_all

lemma convert_each_list: "convert_each f rows = bind_outcome (outcome_list f rows) (\<lambda>bs. Ok (concat bs))"
proof (induction rows)
  case (Cons r rows)
  then show ?case by (cases "f r"; cases "outcome_list f rows") simp_all
qed simp

lemma convert_each_cong: "(\<And>r. r \<in> set rows \<Longrightarrow> f r = g r) \<Longrightarrow> convert_each f rows = convert_each g rows"
  by (induction rows) simp_all

lemma outcome_list_bind:
  "outcome_list (\<lambda>r. bind_outcome (f r) (\<lambda>b. Ok (g b))) rows = bind_outcome (outcome_list f rows) (\<lambda>bs. Ok (map g bs))"
proof (induction rows)
  case (Cons r rows)
  then show ?case by (cases "f r"; cases "outcome_list f rows") simp_all
qed simp

lemma sorted_between:
  assumes "sorted_wrt (\<lambda>x y. ident x < (ident y :: nat)) rows" and "r \<in> set rows"
  shows "ident (hd rows) \<le> ident r \<and> ident r \<le> ident (last rows)"
proof -
  obtain k where k: "k < length rows" "rows ! k = r" using assms(2) by (auto simp: in_set_conv_nth)
  have "k = 0 \<or> ident (rows ! 0) < ident (rows ! k)" using sorted_wrt_nth_less [OF assms(1), of 0 k] k by auto
  moreover have "k = length rows - 1 \<or> ident (rows ! k) < ident (rows ! (length rows - 1))"
  proof (cases "k < length rows - 1")
    case True
    then show ?thesis using sorted_wrt_nth_less [OF assms(1), of k "length rows - 1"] by simp
  qed (use k in arith)
  moreover have "rows \<noteq> []" using k by auto
  ultimately show ?thesis using k by (auto simp: hd_conv_nth last_conv_nth)
qed

lemma cached_in_range:
  assumes "sorted_wrt (\<lambda>x y. ident x < (ident y :: nat)) rows" and "r \<in> set rows"
  shows "cached_between cache ident rows (ident r) = cache (ident r)"
  using sorted_between [OF assms] assms(2) by (auto simp: cached_between_def)

lemma stage_list_3:
  "stage_list [t0, t1, t2] ess = [inserts (concat (map (\<lambda>es. es ! 0) ess)), inserts (concat (map (\<lambda>es. es ! 1) ess)),
     inserts (concat (map (\<lambda>es. es ! 2) ess))]"
  by (simp add: stage_list_def upt_rec numeral_2_eq_2)

lemma stages_ok_3:
  "stages_ok [t0, t1, t2] [xs, ys, zs] \<longleftrightarrow>
     (\<forall>x \<in> set xs. row_table x = t0) \<and> (\<forall>x \<in> set ys. row_table x = t1) \<and> (\<forall>x \<in> set zs. row_table x = t2)"
  by (auto simp: stages_ok_def less_Suc_eq nth_Cons' numeral_2_eq_2 split: if_splits)

section \<open>Downtimes\<close>

definition downtime_stages :: "migrate_fns \<Rightarrow> string \<Rightarrow> binary \<Rightarrow> downtimeRow \<Rightarrow> (string, history_row list list) outcome" where
  "downtime_stages m env envId r =
     Ok (if downtime_started r
         then [[RDowntimeHistory (downtime_entry m env envId r)], map RHistoryDowntime (downtime_events m env envId r),
           [RSlaHistoryDowntime (downtime_sla m env envId r)]]
         else [[], [], []])"

lemma concat_filter: "concat (map (\<lambda>r. if P r then f r else []) rows) = concat (map f (filter P rows))"
  by (induction rows) auto

lemma concat_single: "concat (map (\<lambda>r. [f r]) rows) = map f rows"
  by (induction rows) auto

interpretation downtimes: stage_migration DowntimehistoryId "\<lambda>rows. Ok (convertDowntimeRows m env envId rows)"
  "downtime_stages m env envId" "[''downtime_history'', ''history'', ''sla_history_downtime'']"
proof
  show "stages_ok [''downtime_history'', ''history'', ''sla_history_downtime''] es" if "downtime_stages m env envId r = Ok es" for r es
    using that by (auto simp: downtime_stages_def stages_ok_3 split: if_splits)
next
  fix rows :: "downtimeRow list"
  assume "rows \<noteq> []"
  let ?g = "\<lambda>r. if downtime_started r
         then [[RDowntimeHistory (downtime_entry m env envId r)], map RHistoryDowntime (downtime_events m env envId r),
           [RSlaHistoryDowntime (downtime_sla m env envId r)]]
         else [[], [], []]"
  have sel: "?g r ! 0 = (if downtime_started r then [RDowntimeHistory (downtime_entry m env envId r)] else [])"
    "?g r ! 1 = (if downtime_started r then map RHistoryDowntime (downtime_events m env envId r) else [])"
    "?g r ! 2 = (if downtime_started r then [RSlaHistoryDowntime (downtime_sla m env envId r)] else [])" for r by auto
  have "outcome_list (downtime_stages m env envId) rows = Ok (map ?g rows)"
    using outcome_list_Ok [of ?g rows] by (simp only: downtime_stages_def [abs_def])
  moreover have "stage_list [''downtime_history'', ''history'', ''sla_history_downtime''] (map ?g rows) = fst (convertDowntimeRows m env envId rows)"
    unfolding stage_list_3 map_map comp_def sel concat_filter concat_single
    by (simp add: convertDowntimeRows_def Let_def comp_def)
  ultimately show "Ok (convertDowntimeRows m env envId rows) = bind_outcome (outcome_list (downtime_stages m env envId) rows)
      (\<lambda>ess. Ok (stage_list [''downtime_history'', ''history'', ''sla_history_downtime''] ess, Some (DowntimehistoryId (last rows))))"
    using \<open>rows \<noteq> []\<close> by (simp add: convertDowntimeRows_def Let_def last_id_def)
qed simp

section \<open>States\<close>

definition state_lists :: "(StateHistory \<times> HistoryState \<times> SlaHistoryState list) list \<Rightarrow> history_row list list" where
  "state_lists todo =
     [map (\<lambda>(e, h, s). RStateHistory e) todo, map (\<lambda>(e, h, s). RHistoryState h) todo,
      concat (map (\<lambda>(e, h, s). map RSlaHistoryState s) todo)]"

definition state_stages :: "migrate_fns \<Rightarrow> string \<Rightarrow> binary \<Rightarrow> (nat \<rightharpoonup> 8 word) \<Rightarrow> stateRow \<Rightarrow> (string, history_row list list) outcome" where
  "state_stages m env envId cache r = bind_outcome (convert_state m env envId cache r) (\<lambda>todo. Ok (state_lists todo))"

lemma concat_state_lists:
  "concat (map (\<lambda>t. state_lists t ! 0) ts) = map (\<lambda>(e, h, s). RStateHistory e) (concat ts)"
  "concat (map (\<lambda>t. state_lists t ! 1) ts) = map (\<lambda>(e, h, s). RHistoryState h) (concat ts)"
  "concat (map (\<lambda>t. state_lists t ! 2) ts) = concat (map (\<lambda>(e, h, s). map RSlaHistoryState s) (concat ts))"
  by (induction ts) (simp_all add: state_lists_def)

interpretation states: stage_migration sr_StatehistoryId "convertStateRows m env envId cache"
  "state_stages m env envId cache" "[''state_history'', ''history'', ''sla_history_state'']"
proof
  show "stages_ok [''state_history'', ''history'', ''sla_history_state''] es" if "state_stages m env envId cache r = Ok es" for r es
    using that by (auto simp: state_stages_def stages_ok_3 state_lists_def bind_outcome_Ok_iff)
next
  fix rows :: "stateRow list"
  assume ne: "rows \<noteq> []" and ord: "sorted_wrt (\<lambda>x y. sr_StatehistoryId x < sr_StatehistoryId y) rows"
  have "convert_each (convert_state m env envId (cached_between cache sr_StatehistoryId rows)) rows =
      convert_each (convert_state m env envId cache) rows"
    by (rule convert_each_cong) (simp add: convert_state_def cached_in_range [OF ord])
  then show "convertStateRows m env envId cache rows = bind_outcome (outcome_list (state_stages m env envId cache) rows)
      (\<lambda>ess. Ok (stage_list [''state_history'', ''history'', ''sla_history_state''] ess, Some (sr_StatehistoryId (last rows))))"
    unfolding state_stages_def [abs_def] outcome_list_bind convert_each_list convertStateRows_def
    using ne by (cases "outcome_list (convert_state m env envId cache) rows")
      (simp_all add: stage_list_3 last_id_def comp_def concat_state_lists del: One_nat_def)
qed simp

section \<open>Notifications\<close>

definition notification_lists :: "migrate_fns \<Rightarrow> (string set \<Rightarrow> string list) \<Rightarrow> string \<Rightarrow> binary \<Rightarrow> (nat \<times> string) list \<Rightarrow>
    (notificationRow \<times> 8 word \<times> string) list \<Rightarrow> history_row list list" where
  "notification_lists m order env envId contacts todo =
     [map (\<lambda>(r, p, t). RNotificationHistory (notification_entry m env envId r p t)) todo,
      concat (map (\<lambda>(r, p, t). map (\<lambda>c. RUserNotificationHistory (migrated_user_row m env envId r t c))
        (order (set (map snd (filter (\<lambda>c. fst c = nr_NotificationId r) contacts))))) todo),
      map (\<lambda>(r, p, t). RHistoryNotification (notification_event m env envId r t)) todo]"

definition notification_stages :: "migrate_fns \<Rightarrow> (string set \<Rightarrow> string list) \<Rightarrow> string \<Rightarrow> binary \<Rightarrow> (nat \<rightharpoonup> 8 word) \<Rightarrow> (nat \<times> string) list \<Rightarrow>
    notificationRow \<Rightarrow> (string, history_row list list) outcome" where
  "notification_stages m order env envId cache contacts r =
     Ok (notification_lists m order env envId contacts (notification_todo cache [r]))"

lemma concat_notification_lists:
  "concat (map (\<lambda>t. notification_lists m order env envId contacts t ! 0) ts) =
     map (\<lambda>(r, p, t). RNotificationHistory (notification_entry m env envId r p t)) (concat ts)"
  "concat (map (\<lambda>t. notification_lists m order env envId contacts t ! 1) ts) =
     concat (map (\<lambda>(r, p, t). map (\<lambda>c. RUserNotificationHistory (migrated_user_row m env envId r t c))
        (order (set (map snd (filter (\<lambda>c. fst c = nr_NotificationId r) contacts))))) (concat ts))"
  "concat (map (\<lambda>t. notification_lists m order env envId contacts t ! 2) ts) =
     map (\<lambda>(r, p, t). RHistoryNotification (notification_event m env envId r t)) (concat ts)"
  by (induction ts) (simp_all add: notification_lists_def)

lemma notification_todo_rows: "notification_todo cache rows = concat (map (\<lambda>r. notification_todo cache [r]) rows)"
  by (simp add: notification_todo_def)

lemma notification_todo_cong:
  assumes "\<And>r. r \<in> set rows \<Longrightarrow> c (nr_NotificationId r) = c' (nr_NotificationId r)"
  shows "notification_todo c rows = notification_todo c' rows"
  unfolding notification_todo_def using assms by (intro arg_cong [of _ _ concat] map_cong refl) auto

lemma notification_todo_set: "(r, p, t) \<in> set (notification_todo c rows) \<Longrightarrow> r \<in> set rows"
  by (auto simp: notification_todo_def split: if_splits option.splits)

lemma contacts_in_range:
  assumes "sorted_wrt (\<lambda>x y. nr_NotificationId x < nr_NotificationId y) rows" and "r \<in> set rows"
  shows "contactsById contacts rows (nr_NotificationId r) = set (map snd (filter (\<lambda>c. fst c = nr_NotificationId r) contacts))"
  using sorted_between [OF assms] by (auto simp: contactsById_def)

interpretation notifications: stage_migration nr_NotificationId
  "\<lambda>rows. Ok (convertNotificationRows m order env envId cache contacts rows)"
  "notification_stages m order env envId cache contacts" "[''notification_history'', ''user_notification_history'', ''history'']"
proof
  show "stages_ok [''notification_history'', ''user_notification_history'', ''history''] es"
    if "notification_stages m order env envId cache contacts r = Ok es" for r es
    using that by (auto simp: notification_stages_def stages_ok_3 notification_lists_def)
next
  fix rows :: "notificationRow list"
  assume ne: "rows \<noteq> []" and ord: "sorted_wrt (\<lambda>x y. nr_NotificationId x < nr_NotificationId y) rows"
  have todo: "notification_todo (cached_between cache nr_NotificationId rows) rows = notification_todo cache rows"
    by (rule notification_todo_cong) (rule cached_in_range [OF ord])
  have users: "map (\<lambda>(r, p, t). map (\<lambda>c. RUserNotificationHistory (migrated_user_row m env envId r t c))
        (order (contactsById contacts rows (nr_NotificationId r)))) (notification_todo cache rows) =
      map (\<lambda>(r, p, t). map (\<lambda>c. RUserNotificationHistory (migrated_user_row m env envId r t c))
        (order (set (map snd (filter (\<lambda>c. fst c = nr_NotificationId r) contacts))))) (notification_todo cache rows)"
    by (rule map_cong [OF refl]) (auto simp: contacts_in_range [OF ord] dest!: notification_todo_set)
  have "outcome_list (notification_stages m order env envId cache contacts) rows =
      Ok (map (notification_lists m order env envId contacts) (map (\<lambda>r. notification_todo cache [r]) rows))"
    unfolding notification_stages_def [abs_def] by simp
  then show "Ok (convertNotificationRows m order env envId cache contacts rows) =
      bind_outcome (outcome_list (notification_stages m order env envId cache contacts) rows)
      (\<lambda>ess. Ok (stage_list [''notification_history'', ''user_notification_history'', ''history''] ess, Some (nr_NotificationId (last rows))))"
    unfolding convertNotificationRows_def Let_def todo users
    using ne concat_notification_lists [of m order env envId contacts "map (\<lambda>r. notification_todo cache [r]) rows"]
      notification_todo_rows [of cache rows]
    by (simp add: stage_list_3 last_id_def comp_def del: One_nat_def)
qed simp

end
