(* ===== verification/Migrate_Props.thy ===== *)
theory Migrate_Props
  imports Migrate_Types
begin

text \<open>
  Properties of the history migration: what it writes is consistent, and an interrupted run can be
  continued.
\<close>

section \<open>References between rows\<close>

text \<open>The row of another table that a row refers to, a foreign key of the schema.\<close>

fun row_parent :: "history_row \<Rightarrow> (string \<times> binary) option" where
  "row_parent (RHistoryAck r) = Some (''acknowledgement_history'', AcknowledgementHistoryId r)"
| "row_parent (RHistoryComment r) = Some (''comment_history'', CommentHistoryId r)"
| "row_parent (RHistoryDowntime r) = Some (''downtime_history'', DowntimeHistoryId r)"
| "row_parent (RHistoryFlapping r) = Some (''flapping_history'', FlappingHistoryId r)"
| "row_parent (RHistoryNotification r) = Some (''notification_history'', hn_NotificationHistoryId r)"
| "row_parent (RUserNotificationHistory r) = Some (''notification_history'', unh_NotificationHistoryId r)"
| "row_parent (RHistoryState r) = Some (''state_history'', hs_StateHistoryId r)"
| "row_parent (RAcknowledgementHistory r) = None"
| "row_parent (RCommentHistory r) = None"
| "row_parent (RDowntimeHistory r) = None"
| "row_parent (RSlaHistoryDowntime r) = None"
| "row_parent (RFlappingHistory r) = None"
| "row_parent (RNotificationHistory r) = None"
| "row_parent (RStateHistory r) = None"
| "row_parent (RSlaHistoryState r) = None"

definition refs_closed :: "history_db \<Rightarrow> bool" where
  "refs_closed db \<longleftrightarrow> (\<forall>k r p. db k = Some r \<longrightarrow> row_parent r = Some p \<longrightarrow> db p \<noteq> None)"

text \<open>Every row of a stage refers to a row of an earlier one.\<close>

fun refs_ok :: "history_row list \<Rightarrow> output_stage list \<Rightarrow> bool" where
  "refs_ok seen [] = True"
| "refs_ok seen (st # sts) =
     ((\<forall>r \<in> set (insert_rows st @ upsert_rows st). \<forall>p. row_parent r = Some p \<longrightarrow> p \<in> row_key ` set seen) \<and>
      refs_ok (seen @ insert_rows st @ upsert_rows st) sts)"

lemma upsert_parent: "row_parent (upsert_columns n r) = row_parent r \<or> upsert_columns n r = n"
  by (auto simp: upsert_columns_def split: history_row.splits)

lemma insert_closed:
  assumes "refs_closed db" and "\<forall>p. row_parent r = Some p \<longrightarrow> db p \<noteq> None"
  shows "refs_closed (insert_ignore r db)" "dom db \<subseteq> dom (insert_ignore r db)" "row_key r \<in> dom (insert_ignore r db)"
  using assms by (auto simp: refs_closed_def insert_ignore_def)

lemma upsert_closed:
  assumes "refs_closed db" and "\<forall>p. row_parent r = Some p \<longrightarrow> db p \<noteq> None"
  shows "refs_closed (upsert_history_row r db)" "dom db \<subseteq> dom (upsert_history_row r db)" "row_key r \<in> dom (upsert_history_row r db)"
proof -
  show "refs_closed (upsert_history_row r db)"
    unfolding refs_closed_def
  proof (intro allI impI)
    fix k x p
    assume x: "upsert_history_row r db k = Some x" and p: "row_parent x = Some p"
    have "db p \<noteq> None"
    proof (cases "k = row_key r")
      case False
      then have "db k = Some x" using x by (simp add: upsert_history_row_def)
      then show ?thesis using p assms(1) unfolding refs_closed_def by blast
    next
      case True
      show ?thesis
      proof (cases "db (row_key r)")
        case None
        then show ?thesis using x p True assms(2) by (simp add: upsert_history_row_def)
      next
        case (Some y)
        then have "x = upsert_columns r y" using x True by (simp add: upsert_history_row_def)
        then have "row_parent y = Some p \<or> row_parent r = Some p" using upsert_parent [of r y] p by auto
        then show ?thesis using Some assms unfolding refs_closed_def by blast
      qed
    qed
    then show "upsert_history_row r db p \<noteq> None" by (simp add: upsert_history_row_def)
  qed
qed (auto simp: upsert_history_row_def)

lemma insert_all_closed:
  assumes "refs_closed db" and "\<forall>r \<in> set rows. \<forall>p. row_parent r = Some p \<longrightarrow> p \<in> dom db"
  shows "refs_closed (insert_all rows db) \<and> dom db \<union> row_key ` set rows \<subseteq> dom (insert_all rows db)"
  using assms
proof (induction rows arbitrary: db)
  case (Cons r rows)
  have "\<forall>p. row_parent r = Some p \<longrightarrow> db p \<noteq> None" using Cons.prems(2) by auto
  note i = insert_closed [OF Cons.prems(1) this]
  have "\<forall>r \<in> set rows. \<forall>p. row_parent r = Some p \<longrightarrow> p \<in> dom (insert_ignore r' db)" for r'
    using Cons.prems(2) by (auto simp: insert_ignore_def)
  from Cons.IH [OF i(1) this] i(2,3) show ?case unfolding insert_all_simps list.set image_insert by blast
qed simp

lemma upsert_all_closed:
  assumes "refs_closed db" and "\<forall>r \<in> set rows. \<forall>p. row_parent r = Some p \<longrightarrow> p \<in> dom db"
  shows "refs_closed (upsert_all rows db) \<and> dom db \<union> row_key ` set rows \<subseteq> dom (upsert_all rows db)"
  using assms
proof (induction rows arbitrary: db)
  case (Cons r rows)
  have "\<forall>p. row_parent r = Some p \<longrightarrow> db p \<noteq> None" using Cons.prems(2) by auto
  note i = upsert_closed [OF Cons.prems(1) this]
  have "\<forall>r \<in> set rows. \<forall>p. row_parent r = Some p \<longrightarrow> p \<in> dom (upsert_history_row r' db)" for r'
    using Cons.prems(2) by (auto simp: upsert_history_row_def)
  then have "refs_closed (upsert_all rows (upsert_history_row r db)) \<and>
      dom (upsert_history_row r db) \<union> row_key ` set rows \<subseteq> dom (upsert_all rows (upsert_history_row r db))" by (rule Cons.IH [OF i(1)])
  moreover have "upsert_all (r # rows) db = upsert_all rows (upsert_history_row r db)" by (simp add: upsert_all_def)
  ultimately show ?case using i(2,3) by (simp only: list.set image_insert) blast
qed (simp add: upsert_all_def)

lemma exec_stages_closed:
  assumes "refs_closed db" and "refs_ok seen stages" and "row_key ` set seen \<subseteq> dom db"
  shows "refs_closed (fold exec_stage (take n stages) db)"
  using assms
proof (induction stages arbitrary: seen db n)
  case (Cons st sts)
  show ?case
  proof (cases n)
    case (Suc k)
    have par1: "\<forall>r \<in> set (insert_rows st). \<forall>p. row_parent r = Some p \<longrightarrow> p \<in> dom db"
      using Cons.prems(2,3) unfolding refs_ok.simps set_append by blast
    have par2: "\<forall>r \<in> set (upsert_rows st). \<forall>p. row_parent r = Some p \<longrightarrow> p \<in> dom db"
      using Cons.prems(2,3) unfolding refs_ok.simps set_append by blast
    let ?d = "insert_all (insert_rows st) db"
    have 1: "refs_closed ?d \<and> dom db \<union> row_key ` set (insert_rows st) \<subseteq> dom ?d"
      by (rule insert_all_closed [OF Cons.prems(1) par1])
    then have par: "\<forall>r \<in> set (upsert_rows st). \<forall>p. row_parent r = Some p \<longrightarrow> p \<in> dom ?d" using par2 by blast
    have 2: "refs_closed (exec_stage st db) \<and> dom ?d \<union> row_key ` set (upsert_rows st) \<subseteq> dom (exec_stage st db)"
      unfolding exec_stage_def by (rule upsert_all_closed [OF conjunct1 [OF 1] par])
    have "dom db \<subseteq> dom ?d" "row_key ` set (insert_rows st) \<subseteq> dom ?d" using 1 unfolding Un_subset_iff by simp_all
    moreover have d: "dom ?d \<subseteq> dom (exec_stage st db)" "row_key ` set (upsert_rows st) \<subseteq> dom (exec_stage st db)"
      using 2 unfolding Un_subset_iff by simp_all
    ultimately have "row_key ` set (seen @ insert_rows st @ upsert_rows st) \<subseteq> dom (exec_stage st db)"
      unfolding set_append image_Un Un_subset_iff using subset_trans [OF Cons.prems(3)] subset_trans [OF _ d(1)] by (metis d(2))
    then show ?thesis using Cons.IH [of "exec_stage st db" "seen @ insert_rows st @ upsert_rows st" k] 2 Cons.prems(2) Suc by simp
  qed (use Cons.prems in simp)
qed simp

text \<open>The five conversions.\<close>

lemma refs_none:
  "\<forall>r \<in> set rows. row_parent r = None \<Longrightarrow> refs_ok (seen @ rows) sts \<Longrightarrow> refs_ok seen (inserts rows # sts)"
  by (simp add: inserts_def)

lemma refs_none_upsert:
  "\<forall>r \<in> set rows. row_parent r = None \<Longrightarrow> refs_ok (seen @ rows) sts \<Longrightarrow>
   refs_ok seen (\<lparr>insert_rows = [], upsert_rows = rows\<rparr> # sts)"
  by simp

lemma refs_found:
  assumes "\<forall>r \<in> set rows. \<exists>q \<in> set seen. row_parent r = Some (row_key q)" and "refs_ok (seen @ rows) sts"
  shows "refs_ok seen (inserts rows # sts)"
proof -
  have "p \<in> row_key ` set seen" if "r \<in> set rows" "row_parent r = Some p" for r p
  proof -
    obtain q where "q \<in> set seen" "row_parent r = Some (row_key q)" using assms(1) \<open>r \<in> set rows\<close> by blast
    then show ?thesis using \<open>row_parent r = Some p\<close> by (intro image_eqI [of _ _ q]) simp_all
  qed
  then show ?thesis using assms(2) by (simp add: inserts_def)
qed

lemma comment_refs: "refs_ok [] (fst (convertCommentRows m env envId rows))"
proof -
  have c: "\<forall>h \<in> set (comment_events m env envId r). row_parent (RHistoryComment h) = Some (row_key (RCommentHistory (comment_entry m env envId r)))" for r
    by (simp add: comment_events_def comment_entry_def row_key_def Let_def)
  have a: "\<forall>h \<in> set (ack_events m env envId r). row_parent (RHistoryAck h) = Some (row_key (RAcknowledgementHistory (ack_entry m env envId r)))" for r
    by (simp add: ack_events_def ack_entry_def row_key_def Let_def)
  show ?thesis
    unfolding convertCommentRows_def Let_def fst_conv
    by (rule refs_none, simp, rule refs_none, simp, rule refs_found, use c in fastforce, rule refs_found, use a in fastforce, simp)
qed

lemma downtime_refs: "refs_ok [] (fst (convertDowntimeRows m env envId rows))"
proof -
  have d: "\<forall>h \<in> set (downtime_events m env envId r). row_parent (RHistoryDowntime h) = Some (row_key (RDowntimeHistory (downtime_entry m env envId r)))" for r
    by (simp add: downtime_events_def downtime_entry_def row_key_def Let_def)
  show ?thesis
    unfolding convertDowntimeRows_def Let_def fst_conv
    by (rule refs_none, simp, rule refs_found, use d in fastforce, rule refs_none, simp, simp)
qed

lemma flapping_refs: "refs_ok [] (fst (convertFlappingRows m env envId cache rows))"
proof (cases "rows = []")
  case True
  then show ?thesis by (simp add: convertFlappingRows_def)
next
  case False
  have "row_parent (RHistoryFlapping (flapping_event m env envId r start)) =
      Some (row_key (RFlappingHistory (flapping_entry m env envId r start)))" for r start
    by (simp add: row_key_def flapping_event_def flapping_entry_def Let_def)
  then show ?thesis
    unfolding convertFlappingRows_def Let_def if_not_P [OF False] fst_conv
    by (intro refs_none refs_none_upsert refs_found refs_ok.simps(1) [THEN iffD2] TrueI) (fastforce split: prod.splits)+
qed

lemma notification_refs: "refs_ok [] (fst (convertNotificationRows m order env envId cache contacts rows))"
proof (cases "rows = []")
  case True
  then show ?thesis by (simp add: convertNotificationRows_def)
next
  case False
  have u: "row_parent (RUserNotificationHistory (migrated_user_row m env envId r t c)) =
      Some (row_key (RNotificationHistory (notification_entry m env envId r p t)))" for r p t c
    by (simp add: row_key_def migrated_user_row_def notification_entry_def Let_def)
  have e: "row_parent (RHistoryNotification (notification_event m env envId r t)) =
      Some (row_key (RNotificationHistory (notification_entry m env envId r p t)))" for r p t
    by (simp add: row_key_def notification_event_def notification_entry_def)
  let ?todo = "notification_todo (cached_between cache nr_NotificationId rows) rows"
  let ?n = "map (\<lambda>(r, p, t). RNotificationHistory (notification_entry m env envId r p t)) ?todo"
  have mem: "RNotificationHistory (notification_entry m env envId r p t) \<in> set ?n" if "(r, p, t) \<in> set ?todo" for r p t
    using that by force
  show ?thesis
    unfolding convertNotificationRows_def Let_def if_not_P [OF False] fst_conv
  proof (rule refs_none, force, rule refs_found, goal_cases)
    case 1
    show ?case
    proof
      fix x
      assume "x \<in> set (concat (map (\<lambda>(r, p, t). map (\<lambda>c. RUserNotificationHistory (migrated_user_row m env envId r t c))
        (order (contactsById contacts rows (nr_NotificationId r)))) ?todo))"
      then obtain r p t c where "(r, p, t) \<in> set ?todo" "x = RUserNotificationHistory (migrated_user_row m env envId r t c)" by auto
      then show "\<exists>q \<in> set ([] @ ?n). row_parent x = Some (row_key q)"
        using u [of r t c p] mem [of r p t]
        by (intro bexI [of _ "RNotificationHistory (notification_entry m env envId r p t)"]) (simp_all del: set_map row_parent.simps)
    qed
  next
    case 2
    show ?case
    proof (rule refs_found)
      show "\<forall>x \<in> set (map (\<lambda>(r, p, t). RHistoryNotification (notification_event m env envId r t)) ?todo).
          \<exists>q \<in> set (([] @ ?n) @ concat (map (\<lambda>(r, p, t). map (\<lambda>c. RUserNotificationHistory (migrated_user_row m env envId r t c))
            (order (contactsById contacts rows (nr_NotificationId r)))) ?todo)). row_parent x = Some (row_key q)"
      proof
        fix x
        assume "x \<in> set (map (\<lambda>(r, p, t). RHistoryNotification (notification_event m env envId r t)) ?todo)"
        then obtain r p t where "(r, p, t) \<in> set ?todo" "x = RHistoryNotification (notification_event m env envId r t)" by auto
        then have "row_parent x = Some (row_key (RNotificationHistory (notification_entry m env envId r p t))) \<and>
            RNotificationHistory (notification_entry m env envId r p t) \<in> set ?n"
          using e [of r t p] mem [of r p t] by simp
        then show "\<exists>q \<in> set (([] @ ?n) @ concat (map (\<lambda>(r, p, t). map (\<lambda>c. RUserNotificationHistory (migrated_user_row m env envId r t c))
            (order (contactsById contacts rows (nr_NotificationId r)))) ?todo)). row_parent x = Some (row_key q)"
          unfolding set_append by blast
      qed
    qed simp
  qed
qed

lemma convert_state_refs:
  assumes "convert_state m env envId cache r = Ok todo" and "(e, h, s) \<in> set todo"
  shows "row_parent (RHistoryState h) = Some (row_key (RStateHistory e))"
  using assms
  by (auto simp: convert_state_def bind_outcome_Ok_iff Let_def row_key_def state_entry_def state_event_def split: if_splits option.splits)

lemma state_refs:
  assumes "convertStateRows m env envId cache rows = Ok (stages, cp)"
  shows "refs_ok [] stages"
proof (cases "rows = []")
  case True
  then show ?thesis using assms by (simp add: convertStateRows_def)
next
  case False
  let ?f = "convert_state m env envId (cached_between cache sr_StatehistoryId rows)"
  obtain bs where bs: "outcome_list ?f rows = Ok bs" and st: "stages =
      [inserts (map (\<lambda>(e, h, s). RStateHistory e) (concat bs)), inserts (map (\<lambda>(e, h, s). RHistoryState h) (concat bs)),
       inserts (concat (map (\<lambda>(e, h, s). map RSlaHistoryState s) (concat bs)))]"
    using assms False unfolding convertStateRows_def convert_each_list by (auto simp: bind_outcome_Ok_iff)
  have "row_parent (RHistoryState h) = Some (row_key (RStateHistory e))" if "(e, h, s) \<in> set (concat bs)" for e h s
  proof -
    obtain b where b: "b \<in> set bs" "(e, h, s) \<in> set b" using \<open>(e, h, s) \<in> set (concat bs)\<close> by auto
    then obtain r where "?f r = Ok b" using outcome_list_set [OF bs] by blast
    then show ?thesis using convert_state_refs b(2) by blast
  qed
  then show ?thesis
    unfolding st by (intro refs_none refs_found refs_ok.simps(1) [THEN iffD2] TrueI) (fastforce split: prod.splits)+
qed

section \<open>Properties\<close>

text \<open>C11. At every moment of a migration, after any number of the stages of a bulk, every row of the history
  tables that refers to a row of another table (the foreign keys of the schema) finds it there, for all
  five history types.\<close>

theorem migration_keeps_references:
  assumes "refs_closed db"
    and "stages = fst (convertCommentRows m env envId comments) \<or>
      stages = fst (convertDowntimeRows m env envId downtimes) \<or>
      stages = fst (convertFlappingRows m env envId starts flappings) \<or>
      stages = fst (convertNotificationRows m order env envId hard contacts notifications) \<or>
      convertStateRows m env envId hard states = Ok (stages, cp)"
  shows "refs_closed (fold exec_stage (take n stages) db)"
proof -
  have "refs_ok [] stages"
    using assms(2) comment_refs downtime_refs flapping_refs notification_refs state_refs by metis
  then show ?thesis using exec_stages_closed [OF assms(1)] by simp
qed

text \<open>C10. The migration of the states can be interrupted: if a run ends in the middle of a bulk, after any
  number of its rows were written, the next run, which starts from the progress row and may use bulks of
  another size, ends as if the first one had not been interrupted.\<close>

theorem state_migration_resumable:
  assumes "sorted_wrt (\<lambda>x y. sr_StatehistoryId x < sr_StatehistoryId y) (xs @ ys @ zs)"
    and "\<forall>r \<in> set (xs @ ys @ zs). 0 < sr_StatehistoryId r" and "0 < bulk" and "0 < bulk'" and "last_ido_id s0 = None"
    and "migrateOneType sr_StatehistoryId bulk (convertStateRows m env envId cache) xs s0 = Some (Ok s)"
    and "convertStateRows m env envId cache ys = Ok (stages, cp)" and "ys \<noteq> []"
  shows "migrateOneType sr_StatehistoryId bulk' (convertStateRows m env envId cache) (xs @ ys @ zs)
      (s\<lparr>mig_db := insert_all (take n (concat (map insert_rows stages))) (mig_db s)\<rparr>) =
    migrateOneType sr_StatehistoryId bulk (convertStateRows m env envId cache) (xs @ ys @ zs) s0"
  by (rule states.migrate_interrupted [OF assms])

definition valid_state :: "string \<Rightarrow> 8 word \<Rightarrow> bool" where
  "valid_state typ s \<longleftrightarrow> s = 99 \<or> s \<le> (if typ = ''host'' then 1 else 3)"

lemma cap_state_le: "cap_state b s = 99 \<or> cap_state b s \<le> b"
  by (auto simp: cap_state_def)

text \<open>The states that the migration takes from the IDO row are valid: 0 to 1 for a host, 0 to 3 for a service,
  or 99 (pending), whatever the IDO holds, and the state type is soft or hard. The previous hard state is
  not among them: it is passed on as it is in the cache, although the IDO may hold values out of range.\<close>

theorem migrated_state_values:
  assumes "convert_state m env envId cache row = Ok todo" and "(e, h, s) \<in> set todo"
  shows "valid_state (htm_ObjectType (sh_Meta e)) (sh_SoftState e) \<and> valid_state (htm_ObjectType (sh_Meta e)) (sh_HardState e) \<and>
    valid_state (htm_ObjectType (sh_Meta e)) (sh_PreviousSoftState e) \<and> sh_StateType e \<in> {SoftState, HardState} \<and>
    Some (sh_PreviousHardState e) = cache (sr_StatehistoryId row) \<and>
    (s = [] \<longleftrightarrow> sh_StateType e = SoftState) \<and> (\<forall>x \<in> set s. ss_HardState x = sh_HardState e \<and> ss_Id x = sh_Id e)"
proof -
  obtain p bound t where p: "cache (sr_StatehistoryId row) = Some p" and b: "stateUpperBound (objectTypes (sr_ObjecttypeId row)) = Ok bound"
    and t: "convertStateType (sr_StateType row) = Ok t" and e: "e = state_entry m env envId row p t bound"
    and s: "s = (if t = HardState then [state_sla m env envId row e] else [])"
    using assms by (auto simp: convert_state_def bind_outcome_Ok_iff Let_def split: if_splits option.splits)
  have ty: "htm_ObjectType (sh_Meta e) = objectTypes (sr_ObjecttypeId row)" by (simp add: e state_entry_def table_meta_def)
  have "bound = (if htm_ObjectType (sh_Meta e) = ''host'' then 1 else 3)"
    using b unfolding ty by (auto simp: stateUpperBound_def split: if_splits)
  then have v: "valid_state (htm_ObjectType (sh_Meta e)) (cap_state bound x)" for x
    using cap_state_le [of bound x] by (auto simp: valid_state_def)
  have st: "t = SoftState \<or> t = HardState" using t by (auto simp: convertStateType_def split: if_splits)
  have ne: "SoftState \<noteq> HardState" by (simp add: SoftState_def HardState_def)
  have fields: "sh_SoftState e = cap_state bound (sr_State row)" "sh_PreviousSoftState e = cap_state bound (sr_LastState row)"
    "sh_HardState e = cap_state bound (if t = HardState then sr_State row else sr_LastHardState row)"
    "sh_StateType e = t" "sh_PreviousHardState e = p" by (simp_all add: e state_entry_def)
  show ?thesis
    unfolding fields p using v st ne s fields
    by (auto simp: state_sla_def e state_entry_def)
qed

definition unix_value :: "time \<Rightarrow> int option" where
  "unix_value t = (if time_is_zero t then None else Some (unix_milli t))"

definition end_events :: "('h \<Rightarrow> HistoryMeta) \<Rightarrow> string \<Rightarrow> 'h list \<Rightarrow> 'h list" where
  "end_events meta event hs = filter (\<lambda>h. hm_EventType (meta h) = event) hs"

text \<open>The ends of comments, acknowledgements and downtimes: the event for the end is written just if the IDO has
  an end time, and its event time is that time, never NULL. For a downtime the SLA table gets the same
  time; while it has not ended, the scheduled end, or NULL if it is marked as cancelled.\<close>

theorem migrated_end_times:
  shows "map (\<lambda>h. CommentEventTime_Value unix_value (Some h)) (end_events hc_Meta ''comment_remove'' (comment_events m env envId c)) =
      (let t = convertTime (cr_DeletionTime c) (cr_DeletionTimeUsec c) in if time_is_zero t then [] else [Some (unix_milli t)]) \<and>
    map (\<lambda>h. AckEventTime_Value unix_value (Some h)) (end_events hack_Meta ''ack_clear'' (ack_events m env envId c)) =
      (let t = convertTime (cr_DeletionTime c) (cr_DeletionTimeUsec c) in if time_is_zero t then [] else [Some (unix_milli t)]) \<and>
    map (\<lambda>h. DowntimeEventTime_Value unix_value (Some h)) (end_events hd_Meta ''downtime_end'' (downtime_events m env envId d)) =
      (let t = dt_actualEnd d in if time_is_zero t then [] else [SlaDowntimeEndTime_Value unix_value (downtime_sla m env envId d)]) \<and>
    SlaDowntimeEndTime_Value unix_value (downtime_sla m env envId d) =
      (if \<not> time_is_zero (dt_actualEnd d) then Some (unix_milli (dt_actualEnd d))
       else if dr_WasCancelled d \<noteq> 0 then None else unix_value (dt_scheduledEnd d))"
  by (auto simp: end_events_def comment_events_def ack_events_def downtime_events_def downtime_sla_def history_meta_def Let_def
      CommentEventTime_Value_def AckEventTime_Value_def DowntimeEventTime_Value_def SlaDowntimeEndTime_Value_def unix_value_def
      dt_cancelTime_def dt_endTime_def MakeBool_def)

lemma uint_small: "0 \<le> x \<Longrightarrow> x < 2 ^ 64 \<Longrightarrow> uint (word_of_int x :: 64 word) = x"
  by (simp add: uint_word_of_int take_bit_int_eq_self)

lemma wrap64_eq: "wrap64 x = take_bit 64 (x + 2 ^ 63) - 2 ^ 63"
  using signed_take_bit_eq_take_bit_shift [of 63 x] by (simp add: wrap64_def signed_of_int)

lemma wrap64_exact: "- (2 ^ 63) \<le> x \<Longrightarrow> x < 2 ^ 63 \<Longrightarrow> wrap64 x = x"
  unfolding wrap64_eq using take_bit_int_eq_self [of "x + 2 ^ 63" 64] by simp

lemma wrap64_over: "2 ^ 63 \<le> x \<Longrightarrow> x < 2 ^ 64 \<Longrightarrow> wrap64 x = x - 2 ^ 64"
proof -
  assume a: "2 ^ 63 \<le> x" "x < 2 ^ 64"
  have "(x - 2 ^ 63 + 2 ^ 64) mod 2 ^ 64 = (x - 2 ^ 63) mod 2 ^ 64" by (rule mod_add_self2)
  then have "take_bit 64 (x - 2 ^ 63 + 2 ^ 64) = x - 2 ^ 63" using a by (simp only: take_bit_eq_mod) simp
  moreover have "x + 2 ^ 63 = x - 2 ^ 63 + 2 ^ 64" by simp
  ultimately have eq: "take_bit 64 (x + 2 ^ 63) = x - 2 ^ 63" by (simp only:)
  show ?thesis by (simp only: wrap64_eq eq) simp
qed

text \<open>The durations of downtimes: the flexible duration in milliseconds never wraps around; it is 0 for
  negative values and for those too large. The scheduled end that is computed from a duration is exact for
  up to 9223372036 seconds; for the next larger durations the product overflows and the end is before the start.\<close>

theorem downtime_durations:
  assumes "- (2 ^ 63) \<le> dr_Duration row" and "dr_Duration row < 2 ^ 63"
  shows "unat (flexibleDuration (dr_Duration row)) =
      (if 0 \<le> dr_Duration row \<and> dr_Duration row < 18446744073709551 then nat (1000 * dr_Duration row) else 0) \<and>
    (dr_ScheduledEndTime row = 0 \<and> \<bar>dr_Duration row\<bar> \<le> 9223372036 \<longrightarrow>
      dt_scheduledEnd row = dt_scheduledStart row + dr_Duration row * second) \<and>
    (dr_ScheduledEndTime row = 0 \<and> 9223372037 \<le> dr_Duration row \<and> dr_Duration row < 18446744073 \<longrightarrow>
      dt_scheduledEnd row < dt_scheduledStart row)"
proof -
  let ?d = "dr_Duration row"
  have flex: "unat (flexibleDuration ?d) = nat (1000 * ?d)" if "0 \<le> ?d" "?d < 18446744073709551"
  proof -
    have "flexibleDuration ?d = word_of_int (1000 * ?d)" using that by (simp add: flexibleDuration_def mult.commute)
    then have "uint (flexibleDuration ?d) = 1000 * ?d" using uint_small [of "1000 * ?d"] that by simp
    then show ?thesis by (simp only: unat_eq_nat_uint)
  qed
  have zero: "convertTime 0 0 = zero_time" by (simp add: convertTime_def)
  have exact: "wrap64 (?d * second) = ?d * second" if "\<bar>?d\<bar> \<le> 9223372036"
    by (rule wrap64_exact) (use that in \<open>auto simp: second_def\<close>)
  have wrapped: "wrap64 (?d * second) < 0" if "9223372037 \<le> ?d" "?d < 18446744073"
  proof -
    have "wrap64 (?d * second) = ?d * second - 2 ^ 64" by (rule wrap64_over) (use that in \<open>auto simp: second_def\<close>)
    then show ?thesis using that by (simp add: second_def)
  qed
  have "flexibleDuration ?d = 0" if "\<not> (0 \<le> ?d \<and> ?d < 18446744073709551)" using that by (auto simp: flexibleDuration_def)
  then show ?thesis using flex exact wrapped by (auto simp: dt_scheduledEnd_def zero Let_def)
qed

section \<open>Witnesses\<close>

definition sample_fns :: migrate_fns where
  "sample_fns = \<lparr>hash_any = (\<lambda>_. [1]), float64 = of_int, float32 = id, user_checksum = id\<rparr>"

definition sample_state :: "nat \<Rightarrow> 8 word \<Rightarrow> 8 word \<Rightarrow> stateRow" where
  "sample_state i st typ =
     \<lparr>sr_StatehistoryId = i, sr_StateTime = \<lparr>int_val = 100, int_valid = True\<rparr>, sr_StateTimeUsec = 0, sr_State = st, sr_StateType = typ,
      sr_CurrentCheckAttempt = 1, sr_MaxCheckAttempts = 3, sr_LastState = 0, sr_LastHardState = 2,
      sr_Output = null_string, sr_LongOutput = null_string, sr_CheckSource = null_string,
      sr_ObjecttypeId = 1, sr_Name1 = ''a'', sr_Name2 = []\<rparr>"

definition sample_downtime :: "int \<Rightarrow> downtimeRow" where
  "sample_downtime d =
     \<lparr>DowntimehistoryId = 1, dr_EntryTime = 100, dr_AuthorName = [], dr_CommentData = [], dr_IsFixed = 0, dr_Duration = d,
      dr_ScheduledStartTime = \<lparr>int_val = 100, int_valid = True\<rparr>, dr_ScheduledEndTime = 0, dr_WasStarted = 1, dr_ActualStartTime = 100,
      dr_ActualStartTimeUsec = 0, dr_ActualEndTime = 0, dr_ActualEndTimeUsec = 0, dr_WasCancelled = 0, dr_TriggerTime = 0,
      dr_Name = ''d'', dr_ObjecttypeId = 1, dr_Name1 = ''a'', dr_Name2 = [], dr_TriggeredBy = []\<rparr>"

theorem migration_keeps_references_witness:
  "refs_closed (fold exec_stage (take 1 (fst (convertDowntimeRows sample_fns ''e'' None [sample_downtime 60]))) Map.empty)"
  by (rule migration_keeps_references [of Map.empty _ sample_fns "''e''" None "[]" "[sample_downtime 60]" Map.empty "[]" "\<lambda>_. []" Map.empty "[]" "[]" "[]" None])
    (simp_all add: refs_closed_def)

lemma sample_state_convert:
  "\<exists>todo. convert_state sample_fns ''e'' None [1 \<mapsto> 0] (sample_state 1 2 1) = Ok [todo]"
  by (simp add: convert_state_def sample_state_def objectTypes_def stateUpperBound_def convertStateType_def Let_def)

theorem migrated_state_values_witness:
  "\<exists>e h s. convert_state sample_fns ''e'' None [1 \<mapsto> 0] (sample_state 1 2 1) = Ok [(e, h, s)] \<and>
    valid_state (htm_ObjectType (sh_Meta e)) (sh_HardState e)"
proof -
  obtain e h s where "convert_state sample_fns ''e'' None [1 \<mapsto> 0] (sample_state 1 2 1) = Ok [(e, h, s)]"
    using sample_state_convert by (metis prod_cases3)
  then show ?thesis using migrated_state_values [of sample_fns "''e''" None "[1 \<mapsto> 0]" "sample_state 1 2 1" "[(e, h, s)]" e h s] by simp
qed

theorem state_migration_resumable_witness:
  "\<exists>stages. convertStateRows sample_fns ''e'' None [1 \<mapsto> 0] [sample_state 1 2 1] = Ok (stages, Some 1) \<and>
    migrateOneType sr_StatehistoryId 2 (convertStateRows sample_fns ''e'' None [1 \<mapsto> 0]) [sample_state 1 2 1]
      \<lparr>mig_db = insert_all (take 1 (concat (map insert_rows stages))) Map.empty, last_ido_id = None\<rparr> =
    migrateOneType sr_StatehistoryId 1 (convertStateRows sample_fns ''e'' None [1 \<mapsto> 0]) [sample_state 1 2 1]
      \<lparr>mig_db = Map.empty, last_ido_id = None\<rparr>"
proof -
  let ?f = "convertStateRows sample_fns ''e'' None [1 \<mapsto> 0]"
  let ?r = "sample_state 1 2 1"
  let ?s = "\<lparr>mig_db = Map.empty, last_ido_id = None\<rparr> :: migration"
  have "sr_StatehistoryId ?r = 1" by (simp add: sample_state_def)
  moreover have "cached_between [1 \<mapsto> 0] sr_StatehistoryId [?r] = ([1 \<mapsto> 0] :: nat \<rightharpoonup> 8 word)"
    using calculation by (auto simp: cached_between_def fun_eq_iff)
  ultimately obtain stages where st: "?f [?r] = Ok (stages, Some 1)"
    using sample_state_convert by (auto simp: convertStateRows_def last_id_def)
  have nil: "migrateOneType sr_StatehistoryId 1 ?f [] ?s = Some (Ok ?s)"
    by (simp add: migrateOneType_def select_bulk_def sliceIdoHistory.simps)
  show ?thesis
    using state_migration_resumable [of "[]" "[?r]" "[]" 1 2 ?s sample_fns "''e''" None "[1 \<mapsto> 0]" ?s stages "Some 1" 1] st nil
    by (intro exI [of _ stages]) (simp add: sample_state_def)
qed

theorem downtime_durations_witness:
  "unat (flexibleDuration 60) = 60000 \<and>
    dt_scheduledEnd (sample_downtime 9223372037) < dt_scheduledStart (sample_downtime 9223372037)"
  using downtime_durations [of "sample_downtime 60"] downtime_durations [of "sample_downtime 9223372037"]
  by (simp add: sample_downtime_def)

end
