(* ===== verification/Cleanup.thy ===== *)
theory Cleanup
  imports Stream_Id
begin

text \<open>
  Deleting old rows: \<open>pkg/icingadb/cleanup.go\<close>. A database is a list of rows for each table; the order in
  which it finds the rows that a statement with a limit deletes is the parameter \<open>scan\<close>. Attempts that
  \<open>retry.WithBackoff\<close> repeats are not steps of the model: \<open>failure\<close> gives the error of a round whose
  attempts all failed.
\<close>

section \<open>Tables and statements\<close>

text \<open>A row: its environment, its primary key and the columns that hold points in time, in milliseconds.\<close>

record cleanup_row =
  row_env :: binary
  row_pk :: bytes
  row_times :: "string \<Rightarrow> int option"

type_synonym cleanup_db = "string \<Rightarrow> cleanup_row list"

record CleanupStmt =
  cs_Table :: string
  cs_PK :: string
  cs_Column :: string

text \<open>
  \<open>DELETE ... LIMIT\<close>, and the deletion of the rows whose primary key a limited query returned.
\<close>

datatype cleanup_sql = DeleteLimit string string nat | DeleteIn string string string nat

definition build :: "CleanupStmt \<Rightarrow> string \<Rightarrow> nat \<Rightarrow> (string, cleanup_sql) outcome" where
  "build stmt driverName limit =
     (if driverName = ''mysql'' then Ok (DeleteLimit (cs_Table stmt) (cs_Column stmt) limit)
      else if driverName = ''postgres'' then Ok (DeleteIn (cs_PK stmt) (cs_Table stmt) (cs_Column stmt) limit)
      else Panic ''invalid database type'')"

text \<open>\<open>environment_id = :environment_id AND column < :time\<close>: a NULL is not smaller.\<close>

definition older :: "binary \<Rightarrow> string \<Rightarrow> int \<Rightarrow> cleanup_row \<Rightarrow> bool" where
  "older envId column time r \<longleftrightarrow>
     row_env r = envId \<and> (case row_times r column of None \<Rightarrow> False | Some x \<Rightarrow> x < time)"

definition delete_rows :: "(cleanup_row list \<Rightarrow> cleanup_row list) \<Rightarrow> string \<Rightarrow> (cleanup_row \<Rightarrow> bool) \<Rightarrow> nat \<Rightarrow> cleanup_db \<Rightarrow> cleanup_db \<times> nat" where
  "delete_rows scan table P limit db =
     (let victims = map row_pk (take limit (filter P (scan (db table))));
          rest = filter (\<lambda>r. row_pk r \<notin> set victims) (db table)
      in (db(table := rest), length (db table) - length rest))"

text \<open>The new tables and \<open>RowsAffected\<close>.\<close>

fun exec_cleanup :: "(cleanup_row list \<Rightarrow> cleanup_row list) \<Rightarrow> cleanup_sql \<Rightarrow> binary \<Rightarrow> int \<Rightarrow> cleanup_db \<Rightarrow> cleanup_db \<times> nat" where
  "exec_cleanup scan (DeleteLimit table column limit) envId time db = delete_rows scan table (older envId column time) limit db"
| "exec_cleanup scan (DeleteIn pk table column limit) envId time db = delete_rows scan table (older envId column time) limit db"

section \<open>The loop\<close>

text \<open>The callbacks get the deleted rows, of which only the number matters; the first error ends them.\<close>

fun run_callbacks :: "(nat \<Rightarrow> 's \<Rightarrow> 's \<times> string option) list \<Rightarrow> nat \<Rightarrow> 's \<Rightarrow> 's \<times> string option" where
  "run_callbacks [] n t = (t, None)"
| "run_callbacks (f # fs) n t = (case f n t of (t', Some e) \<Rightarrow> (t', Some e) | (t', None) \<Rightarrow> run_callbacks fs n t')"

text \<open>The result: the tables, the state of the callbacks, and the total or an error. \<open>None\<close> is a loop without end.\<close>

partial_function (option) cleanup_loop ::
    "(cleanup_db \<Rightarrow> cleanup_db \<times> nat) \<Rightarrow> (nat \<Rightarrow> string option) \<Rightarrow> (nat \<Rightarrow> 's \<Rightarrow> 's \<times> string option) list \<Rightarrow>
     nat \<Rightarrow> nat \<Rightarrow> nat \<Rightarrow> cleanup_db \<Rightarrow> 's \<Rightarrow> (cleanup_db \<times> 's \<times> (string, nat) outcome) option" where
  "cleanup_loop del failure onSuccess limit round counter db t =
     (case failure round of
        Some e \<Rightarrow> Some (db, t, Err e)
      | None \<Rightarrow>
          (let (db', rowsDeleted) = del db; (t', e) = run_callbacks onSuccess rowsDeleted t in
           case e of
             Some e \<Rightarrow> Some (db', t', Err e)
           | None \<Rightarrow>
               if rowsDeleted < limit then Some (db', t', Ok (counter + rowsDeleted))
               else cleanup_loop del failure onSuccess limit (Suc round) (counter + rowsDeleted) db' t'))"

definition CleanupOlderThan ::
    "(cleanup_row list \<Rightarrow> cleanup_row list) \<Rightarrow> string \<Rightarrow> (nat \<Rightarrow> string option) \<Rightarrow> (nat \<Rightarrow> 's \<Rightarrow> 's \<times> string option) list \<Rightarrow>
     CleanupStmt \<Rightarrow> binary \<Rightarrow> nat \<Rightarrow> time \<Rightarrow> cleanup_db \<Rightarrow> 's \<Rightarrow> (cleanup_db \<times> 's \<times> (string, nat) outcome) option" where
  "CleanupOlderThan scan driverName failure onSuccess stmt envId limit olderThan db t =
     (case build stmt driverName limit of
        Ok q \<Rightarrow> cleanup_loop (exec_cleanup scan q envId (unix_milli olderThan)) failure onSuccess limit 0 0 db t
      | Err e \<Rightarrow> Some (db, t, Err e)
      | Panic p \<Rightarrow> Some (db, t, Panic p))"

section \<open>One statement\<close>

lemma length_partition: "length xs - length (filter P xs) = length (filter (\<lambda>x. \<not> P x) xs)"
  using sum_length_filter_compl [of P xs] by simp

lemma deleted_count: "snd (delete_rows scan table P limit db) =
    length (filter (\<lambda>r. row_pk r \<in> row_pk ` set (take limit (filter P (scan (db table))))) (db table))"
  by (simp add: delete_rows_def Let_def length_partition)

text \<open>The keys of the table identify the rows.\<close>

definition victims :: "(cleanup_row list \<Rightarrow> cleanup_row list) \<Rightarrow> (cleanup_row \<Rightarrow> bool) \<Rightarrow> nat \<Rightarrow> cleanup_row list \<Rightarrow> cleanup_row set" where
  "victims scan P limit rows = set (take limit (filter P (scan rows)))"

lemma victims_sub:
  assumes "\<And>xs. mset (scan xs) = mset xs" and "r \<in> victims scan P limit rows"
  shows "r \<in> set rows \<and> P r"
proof -
  have "r \<in> set (filter P (scan rows))" using assms(2) unfolding victims_def by (rule in_set_takeD)
  then show ?thesis using mset_eq_setD [OF assms(1) [of rows]] by simp
qed

lemma victims_count:
  assumes d: "distinct (map row_pk rows)" and scan: "\<And>xs. mset (scan xs) = mset xs"
  shows "length (filter (\<lambda>r. r \<in> victims scan P limit rows) rows) = min limit (length (filter P rows))"
proof -
  let ?v = "take limit (filter P (scan rows))"
  have "distinct (scan rows)" using d scan by (metis distinct_map mset_eq_imp_distinct_iff)
  then have dist: "distinct ?v" by simp
  have "set ?v \<subseteq> set rows" using victims_sub [OF scan, of _ P limit rows] unfolding victims_def by blast
  then have "set (filter (\<lambda>r. r \<in> set ?v) rows) = set ?v" by auto
  moreover have "distinct (filter (\<lambda>r. r \<in> set ?v) rows)" using d by (simp add: distinct_map)
  ultimately have "length (filter (\<lambda>r. r \<in> set ?v) rows) = length ?v" by (metis dist distinct_card)
  moreover have "length (filter P (scan rows)) = length (filter P rows)" using scan by (metis mset_filter size_mset)
  ultimately show ?thesis by (simp add: victims_def min.commute)
qed

lemma deleted_rows:
  assumes d: "distinct (map row_pk (db table))" and scan: "\<And>xs. mset (scan xs) = mset xs"
  shows "delete_rows scan table P limit db =
    (db(table := filter (\<lambda>r. r \<notin> victims scan P limit (db table)) (db table)), min limit (length (filter P (db table))))"
proof -
  let ?v = "victims scan P limit (db table)"
  have key: "row_pk r \<in> row_pk ` ?v \<longleftrightarrow> r \<in> ?v" if "r \<in> set (db table)" for r
  proof -
    have "?v \<subseteq> set (db table)" using victims_sub [OF scan, of _ P limit "db table"] by blast
    moreover have "inj_on row_pk (set (db table))" using d by (simp add: distinct_map)
    ultimately show ?thesis using that inj_on_image_mem_iff by metis
  qed
  then have "filter (\<lambda>r. row_pk r \<in> row_pk ` ?v) (db table) = filter (\<lambda>r. r \<in> ?v) (db table)"
    "filter (\<lambda>r. row_pk r \<notin> row_pk ` ?v) (db table) = filter (\<lambda>r. r \<notin> ?v) (db table)"
    by (auto intro: filter_cong)
  then show ?thesis
    using victims_count [OF assms, of P limit] deleted_count [of scan table P limit db]
    by (simp add: delete_rows_def Let_def victims_def)
qed

section \<open>The whole cleanup\<close>

text \<open>What every round keeps, whatever fails: rows that are not older stay, and no row appears.\<close>

definition cleaned :: "string \<Rightarrow> (cleanup_row \<Rightarrow> bool) \<Rightarrow> cleanup_db \<Rightarrow> cleanup_db \<Rightarrow> bool" where
  "cleaned table P db db' \<longleftrightarrow>
     (\<forall>t. t \<noteq> table \<longrightarrow> db' t = db t) \<and> (\<exists>Q. db' table = filter Q (db table) \<and> (\<forall>r. \<not> P r \<longrightarrow> r \<in> set (db table) \<longrightarrow> Q r))"

lemma cleaned_refl [simp]: "cleaned table P db db"
  unfolding cleaned_def by (intro conjI exI [of _ "\<lambda>r. True"]) simp_all

lemma cleaned_trans: "cleaned table P a b \<Longrightarrow> cleaned table P b c \<Longrightarrow> cleaned table P a c"
proof -
  assume "cleaned table P a b" "cleaned table P b c"
  then obtain Q R where o: "\<forall>t. t \<noteq> table \<longrightarrow> b t = a t" "\<forall>t. t \<noteq> table \<longrightarrow> c t = b t"
    and Q: "b table = filter Q (a table)" "\<forall>r. \<not> P r \<longrightarrow> r \<in> set (a table) \<longrightarrow> Q r"
    and R: "c table = filter R (b table)" "\<forall>r. \<not> P r \<longrightarrow> r \<in> set (b table) \<longrightarrow> R r"
    unfolding cleaned_def by blast
  have "c table = filter (\<lambda>r. Q r \<and> R r) (a table)" using Q R by simp
  moreover have "\<forall>r. \<not> P r \<longrightarrow> r \<in> set (a table) \<longrightarrow> Q r \<and> R r" using Q R by auto
  ultimately show ?thesis using o unfolding cleaned_def by auto
qed

lemma cleaned_keeps: "cleaned table P db db' \<Longrightarrow> r \<in> set (db t) \<Longrightarrow> r \<notin> set (db' t) \<Longrightarrow> t = table \<and> P r"
  unfolding cleaned_def by (cases "t = table") auto

lemma cleaned_distinct: "cleaned table P db db' \<Longrightarrow> distinct (map row_pk (db t)) \<Longrightarrow> distinct (map row_pk (db' t))"
  unfolding cleaned_def by (cases "t = table") (auto intro: distinct_map_filter)

lemma delete_cleaned:
  assumes "distinct (map row_pk (db table))" and "\<And>xs. mset (scan xs) = mset xs"
  shows "cleaned table P db (fst (delete_rows scan table P limit db))"
  unfolding deleted_rows [where scan = scan and db = db, OF assms] cleaned_def fst_conv
proof (intro conjI exI [of _ "\<lambda>r. r \<notin> victims scan P limit (db table)"])
  show "\<forall>r. \<not> P r \<longrightarrow> r \<in> set (db table) \<longrightarrow> r \<notin> victims scan P limit (db table)"
    using victims_sub [OF assms(2)] by blast
qed simp_all

lemma loop_cleaned:
  assumes "cleanup_loop del failure onSuccess limit round counter db t = Some y"
    and "\<And>d. distinct (map row_pk (d table)) \<Longrightarrow> cleaned table P d (fst (del d))" and "distinct (map row_pk (db table))"
  shows "cleaned table P db (fst y)"
proof -
  let ?P = "\<lambda>del failure onSuccess limit round counter db t y.
    (\<forall>d. distinct (map row_pk (d table)) \<longrightarrow> cleaned table P d (fst (del d))) \<longrightarrow> distinct (map row_pk (db table)) \<longrightarrow> cleaned table P db (fst y)"
  have "?P del failure onSuccess limit round counter db t y"
  proof (rule cleanup_loop.raw_induct [where P = ?P, OF _ assms(1)], intro impI, goal_cases)
    case (1 loop del failure onSuccess limit round counter db t y)
    obtain db' n where d: "del db = (db', n)" by fastforce
    obtain t' e where t: "run_callbacks onSuccess n t = (t', e)" by fastforce
    have c: "cleaned table P db db'" using d 1(3,4) by fastforce
    show ?case
    proof (cases "failure round = None \<and> e = None \<and> \<not> n < limit")
      case True
      then have "loop del failure onSuccess limit (Suc round) (counter + n) db' t' = Some y" using 1(2) d t by simp
      then have "cleaned table P db' (fst y)" using 1(1,3) cleaned_distinct [OF c 1(4)] by blast
      then show ?thesis by (rule cleaned_trans [OF c])
    next
      case False
      then have "fst y = db \<or> fst y = db'" using 1(2) d t by (auto split: option.splits if_splits)
      then show ?thesis using c by auto
    qed
  qed
  then show ?thesis using assms(2,3) by blast
qed

text \<open>Without failures the loop ends when fewer rows than the limit are left, with none of them.\<close>

lemma callbacks_ok: "(\<And>f n t. f \<in> set onSuccess \<Longrightarrow> snd (f n t) = None) \<Longrightarrow> \<exists>t'. run_callbacks onSuccess n t = (t', None)"
proof (induction onSuccess arbitrary: t)
  case (Cons f fs)
  then have "snd (f n t) = None" by simp
  then obtain t' where "f n t = (t', None)" by (metis prod.collapse)
  then show ?case using Cons by simp
qed simp

lemma loop_complete:
  assumes "0 < limit" and "\<And>n. failure n = None" and "\<And>f n t. f \<in> set onSuccess \<Longrightarrow> snd (f n t) = None"
    and "\<And>xs. mset (scan xs) = mset xs" and "distinct (map row_pk (db table))"
  shows "\<exists>t'. cleanup_loop (delete_rows scan table P limit) failure onSuccess limit round counter db t =
    Some (db(table := filter (\<lambda>r. \<not> P r) (db table)), t', Ok (counter + length (filter P (db table))))"
  using assms(5)
proof (induction "length (filter P (db table))" arbitrary: db round counter t rule: less_induct)
  case less
  let ?v = "victims scan P limit (db table)"
  let ?rest = "filter (\<lambda>r. r \<notin> ?v) (db table)"
  have del: "delete_rows scan table P limit db = (db(table := ?rest), min limit (length (filter P (db table))))"
    by (rule deleted_rows [where scan = scan and db = db, OF less.prems assms(4)])
  have cb: "\<exists>t'. run_callbacks onSuccess n t = (t', None)" for n t
    by (rule callbacks_ok) (rule assms(3))
  obtain t' where t': "run_callbacks onSuccess (min limit (length (filter P (db table)))) t = (t', None)" using cb by blast
  have sub: "\<And>r. r \<in> ?v \<Longrightarrow> P r" using victims_sub [OF assms(4)] by blast
  have "length (filter (\<lambda>r. r \<in> ?v) (filter P (db table))) = length (filter (\<lambda>r. r \<in> ?v) (db table))"
    unfolding filter_filter by (rule arg_cong [where f = length], rule filter_cong) (use sub in auto)
  then have l: "length (filter P (db table)) = min limit (length (filter P (db table))) + length (filter P ?rest)"
    using sum_length_filter_compl [of "\<lambda>r. r \<in> ?v" "filter P (db table)"] victims_count [OF less.prems assms(4), of P limit]
    by (simp add: conj_commute)
  have keep: "filter (\<lambda>r. \<not> P r) ?rest = filter (\<lambda>r. \<not> P r) (db table)"
    unfolding filter_filter by (rule filter_cong) (use sub in auto)
  show ?case
  proof (cases "length (filter P (db table)) < limit")
    case True
    then have "filter P ?rest = []" using l by simp
    then have "\<forall>x \<in> set ?rest. \<not> P x" by (simp only: filter_empty_conv)
    then have "filter (\<lambda>r. \<not> P r) ?rest = ?rest" by (simp only: filter_id_conv)
    then show ?thesis using keep True del t' assms(2) by (simp add: cleanup_loop.simps min_def)
  next
    case False
    then have n: "min limit (length (filter P (db table))) = limit" by simp
    let ?db = "db(table := ?rest)"
    have "distinct (map row_pk (?db table))" using less.prems by (simp add: distinct_map_filter)
    moreover have "length (filter P (?db table)) < length (filter P (db table))" using l n assms(1) by simp
    ultimately obtain t'' where "cleanup_loop (delete_rows scan table P limit) failure onSuccess limit (Suc round) (counter + limit) ?db t' =
        Some (?db(table := filter (\<lambda>r. \<not> P r) (?db table)), t'', Ok (counter + limit + length (filter P (?db table))))"
      using less.hyps by blast
    moreover have "?db(table := filter (\<lambda>r. \<not> P r) (?db table)) = db(table := filter (\<lambda>r. \<not> P r) (db table))"
      using keep by simp
    moreover have "counter + limit + length (filter P (?db table)) = counter + length (filter P (db table))" using l n by simp
    ultimately have "cleanup_loop (delete_rows scan table P limit) failure onSuccess limit (Suc round) (counter + limit) ?db t' =
        Some (db(table := filter (\<lambda>r. \<not> P r) (db table)), t'', Ok (counter + length (filter P (db table))))" by (simp only:)
    then show ?thesis using del t' n assms(2) by (subst cleanup_loop.simps) simp
  qed
qed

text \<open>With a limit of 0 the number of deleted rows is never below it.\<close>

lemma loop_endless:
  assumes "\<And>n. failure n = None" and "\<And>f n t. f \<in> set onSuccess \<Longrightarrow> snd (f n t) = None"
    and "\<And>xs. mset (scan xs) = mset xs" and "distinct (map row_pk (db table))"
  shows "cleanup_loop (delete_rows scan table P 0) failure onSuccess 0 round counter db t = None"
proof (rule ccontr)
  let ?P = "\<lambda>del fl os limit (round :: nat) (counter :: nat) db t y. del = delete_rows scan table P 0 \<longrightarrow> fl = failure \<longrightarrow> os = onSuccess \<longrightarrow>
    limit = (0 :: nat) \<longrightarrow> distinct (map row_pk (db table)) \<longrightarrow> False"
  assume "\<not> ?thesis"
  then obtain y where y: "cleanup_loop (delete_rows scan table P 0) failure onSuccess 0 round counter db t = Some y" by auto
  have "?P (delete_rows scan table P 0) failure onSuccess 0 round counter db t y"
  proof (rule cleanup_loop.raw_induct [where P = ?P, OF _ y], intro impI, goal_cases)
    case (1 loop del fl os limit round counter db t y)
    then have same: "del = delete_rows scan table P 0" "fl = failure" "os = onSuccess" "limit = 0"
      and d: "distinct (map row_pk (db table))" by simp_all
    obtain t' where "run_callbacks onSuccess 0 t = (t', None)" using callbacks_ok [of onSuccess 0 t] assms(2) by blast
    moreover have "fst (del db) = db(table := filter (\<lambda>r. r \<notin> victims scan P 0 (db table)) (db table))" "snd (del db) = 0"
      using deleted_rows [where scan = scan and db = db, OF d assms(3)] by (simp_all add: same)
    moreover have "filter (\<lambda>r. r \<notin> victims scan P 0 (db table)) (db table) = db table" by (simp add: victims_def)
    ultimately have "loop del fl os limit (Suc round) counter db t' = Some y"
      using 1(2) assms(1) same by (cases "del db") simp
    then show False using 1(1) same d by blast
  qed
  then show False using assms(4) by blast
qed

section \<open>Properties\<close>

lemma build_exec:
  "driverName \<in> {''mysql'', ''postgres''} \<Longrightarrow>
   \<exists>q. build stmt driverName limit = Ok q \<and>
     exec_cleanup scan q envId time = delete_rows scan (cs_Table stmt) (older envId (cs_Column stmt) time) limit"
  by (auto simp: build_def fun_eq_iff)

lemma cleanup_result:
  assumes "driverName \<in> {''mysql'', ''postgres''}" and "\<And>n. failure n = None"
    and "\<And>f n t. f \<in> set onSuccess \<Longrightarrow> snd (f n t) = None" and "\<And>xs. mset (scan xs) = mset xs"
    and "distinct (map row_pk (db (cs_Table stmt)))"
  shows "if limit = 0 then CleanupOlderThan scan driverName failure onSuccess stmt envId limit olderThan db t = None
    else \<exists>t'. CleanupOlderThan scan driverName failure onSuccess stmt envId limit olderThan db t =
      Some (db(cs_Table stmt := filter (\<lambda>r. \<not> older envId (cs_Column stmt) (unix_milli olderThan) r) (db (cs_Table stmt))),
        t', Ok (length (filter (older envId (cs_Column stmt) (unix_milli olderThan)) (db (cs_Table stmt)))))"
proof -
  obtain q where "build stmt driverName limit = Ok q"
    "exec_cleanup scan q envId (unix_milli olderThan) = delete_rows scan (cs_Table stmt) (older envId (cs_Column stmt) (unix_milli olderThan)) limit"
    using build_exec [OF assms(1)] by metis
  then have c: "CleanupOlderThan scan driverName failure onSuccess stmt envId limit olderThan db t =
      cleanup_loop (delete_rows scan (cs_Table stmt) (older envId (cs_Column stmt) (unix_milli olderThan)) limit) failure onSuccess limit 0 0 db t"
    by (simp add: CleanupOlderThan_def)
  show ?thesis
  proof (cases "limit = 0")
    case True
    have "cleanup_loop (delete_rows scan (cs_Table stmt) (older envId (cs_Column stmt) (unix_milli olderThan)) 0) failure onSuccess 0 0 0 db t = None"
      by (rule loop_endless) (fact assms)+
    then show ?thesis unfolding c using True by simp
  next
    case False
    have "\<exists>t'. cleanup_loop (delete_rows scan (cs_Table stmt) (older envId (cs_Column stmt) (unix_milli olderThan)) limit) failure onSuccess limit 0 0 db t =
      Some (db(cs_Table stmt := filter (\<lambda>r. \<not> older envId (cs_Column stmt) (unix_milli olderThan) r) (db (cs_Table stmt))),
        t', Ok (0 + length (filter (older envId (cs_Column stmt) (unix_milli olderThan)) (db (cs_Table stmt)))))"
      by (rule loop_complete [where failure = failure and onSuccess = onSuccess and scan = scan]) (use False assms in auto)
    then show ?thesis unfolding c using False by simp
  qed
qed

lemma cleanup_cleaned:
  assumes "CleanupOlderThan scan driverName failure onSuccess stmt envId limit olderThan db t = Some (db', t', r)"
    and "\<And>xs. mset (scan xs) = mset xs" and "distinct (map row_pk (db (cs_Table stmt)))"
  shows "cleaned (cs_Table stmt) (older envId (cs_Column stmt) (unix_milli olderThan)) db db'"
proof (cases "driverName \<in> {''mysql'', ''postgres''}")
  case True
  obtain q where "build stmt driverName limit = Ok q"
    "exec_cleanup scan q envId (unix_milli olderThan) = delete_rows scan (cs_Table stmt) (older envId (cs_Column stmt) (unix_milli olderThan)) limit"
    using build_exec [OF True] by metis
  then have "cleanup_loop (delete_rows scan (cs_Table stmt) (older envId (cs_Column stmt) (unix_milli olderThan)) limit) failure onSuccess limit 0 0 db t = Some (db', t', r)"
    using assms(1) by (simp add: CleanupOlderThan_def)
  then have "cleaned (cs_Table stmt) (older envId (cs_Column stmt) (unix_milli olderThan)) db (fst (db', t', r))"
    by (rule loop_cleaned) (use delete_cleaned [where scan = scan, OF _ assms(2)] assms(3) in auto)
  then show ?thesis by simp
next
  case False
  then show ?thesis using assms(1) by (auto simp: CleanupOlderThan_def build_def)
qed

text \<open>C25. The cleanup returns, for both databases and whatever rows each statement finds first: afterwards no row of the
  environment is left that is older than the given time, every other row is still there, and the result is the
  number of deleted rows. With a limit of 0, which the configuration does not allow, it would never return.\<close>

theorem cleanup_returns:
  assumes "driverName \<in> {''mysql'', ''postgres''}" and "\<And>n. failure n = None"
    and "\<And>f n t. f \<in> set onSuccess \<Longrightarrow> snd (f n t) = None" and "\<And>xs. mset (scan xs) = mset xs"
    and "distinct (map row_pk (db (cs_Table stmt)))"
  shows "if limit = 0 then CleanupOlderThan scan driverName failure onSuccess stmt envId limit olderThan db t = None
    else \<exists>t'. CleanupOlderThan scan driverName failure onSuccess stmt envId limit olderThan db t =
      Some (db(cs_Table stmt := filter (\<lambda>r. \<not> older envId (cs_Column stmt) (unix_milli olderThan) r) (db (cs_Table stmt))),
        t', Ok (length (filter (older envId (cs_Column stmt) (unix_milli olderThan)) (db (cs_Table stmt)))))"
  by (rule cleanup_result) (fact assms)+

definition sample_cleanup_row :: "8 word \<Rightarrow> int \<Rightarrow> cleanup_row" where
  "sample_cleanup_row i t = \<lparr>row_env = Some [1], row_pk = [i], row_times = (\<lambda>c. Some t)\<rparr>"

theorem cleanup_returns_witness:
  "\<exists>t'. CleanupOlderThan id ''mysql'' (\<lambda>n. None) [] \<lparr>cs_Table = ''state_history'', cs_PK = ''id'', cs_Column = ''event_time''\<rparr> (Some [1]) 1
      (from_unix_milli 5) (\<lambda>_. [sample_cleanup_row 1 3, sample_cleanup_row 2 7, sample_cleanup_row 3 4]) () =
    Some ((\<lambda>_. [sample_cleanup_row 1 3, sample_cleanup_row 2 7, sample_cleanup_row 3 4])(''state_history'' := [sample_cleanup_row 2 7]), t', Ok 2)"
  using cleanup_returns [of "''mysql''" "\<lambda>n. None" "[]" id "\<lambda>_. [sample_cleanup_row 1 3, sample_cleanup_row 2 7, sample_cleanup_row 3 4]"
    "\<lparr>cs_Table = ''state_history'', cs_PK = ''id'', cs_Column = ''event_time''\<rparr>" 1 "Some [1]" "from_unix_milli 5" "()"]
  by (simp add: sample_cleanup_row_def older_def)

end
