(* ===== verification/Retention.thy ===== *)
theory Retention
  imports Cleanup
begin

text \<open>
  The history retention: \<open>pkg/icingadb/history/retention.go\<close>, and the check of its configuration in
  \<open>internal/config/config.go\<close>. \<open>addDays\<close> stands for \<open>time.Time.AddDate(0, 0, days)\<close>, which depends on
  the local time zone.
\<close>

section \<open>Categories\<close>

datatype RetentionType = RetentionHistory | RetentionSla

record retentionStatement =
  rs_CleanupStmt :: CleanupStmt
  rs_RetentionType :: RetentionType
  rs_Category :: string

definition retention_stmt :: "RetentionType \<Rightarrow> string \<Rightarrow> string \<Rightarrow> string \<Rightarrow> string \<Rightarrow> retentionStatement" where
  "retention_stmt typ category table pk column =
     \<lparr>rs_CleanupStmt = \<lparr>cs_Table = table, cs_PK = pk, cs_Column = column\<rparr>, rs_RetentionType = typ, rs_Category = category\<rparr>"

definition RetentionStatements :: "retentionStatement list" where
  "RetentionStatements =
     [retention_stmt RetentionHistory ''acknowledgement'' ''acknowledgement_history'' ''id'' ''clear_time'',
      retention_stmt RetentionHistory ''comment'' ''comment_history'' ''comment_id'' ''remove_time'',
      retention_stmt RetentionHistory ''downtime'' ''downtime_history'' ''downtime_id'' ''end_time'',
      retention_stmt RetentionHistory ''flapping'' ''flapping_history'' ''id'' ''end_time'',
      retention_stmt RetentionHistory ''notification'' ''notification_history'' ''id'' ''send_time'',
      retention_stmt RetentionHistory ''state'' ''state_history'' ''id'' ''event_time'',
      retention_stmt RetentionSla ''sla_downtime'' ''sla_history_downtime'' ''downtime_id'' ''downtime_end'',
      retention_stmt RetentionSla ''sla_state'' ''sla_history_state'' ''id'' ''event_time'']"

section \<open>Options\<close>

type_synonym RetentionOptions = "string \<rightharpoonup> 16 word"

text \<open>\<open>strings.SplitSeq\<close> with a separator of one character, and \<open>strings.Cut\<close>.\<close>

fun split_seq :: "char \<Rightarrow> string \<Rightarrow> string list" where
  "split_seq c [] = [[]]"
| "split_seq c (x # xs) = (if x = c then [] # split_seq c xs else (case split_seq c xs of [] \<Rightarrow> [[x]] | y # ys \<Rightarrow> (x # y) # ys))"

fun cut_at :: "char \<Rightarrow> string \<Rightarrow> (string \<times> string) option" where
  "cut_at c [] = None"
| "cut_at c (x # xs) = (if x = c then Some ([], xs) else map_option (\<lambda>(a, b). (x # a, b)) (cut_at c xs))"

fun unmarshal_pairs :: "string list \<Rightarrow> RetentionOptions \<Rightarrow> (string, RetentionOptions) outcome" where
  "unmarshal_pairs [] m = Ok m"
| "unmarshal_pairs (pair # pairs) m =
     (case cut_at CHR '':'' pair of
        None \<Rightarrow> Err ''entry cannot be unmarshalled as a history-category:retention-period pair''
      | Some (key, value) \<Rightarrow>
          (case ParseUint 16 value of
             Inl e \<Rightarrow> Err ''failed to parse as a uint16 retention period in days''
           | Inr days \<Rightarrow> unmarshal_pairs pairs (m(key \<mapsto> of_nat days))))"

definition RetentionOptions_UnmarshalText :: "string \<Rightarrow> (string, RetentionOptions) outcome" where
  "RetentionOptions_UnmarshalText text = unmarshal_pairs (split_seq CHR '','' text) Map.empty"

definition RetentionOptions_Validate :: "RetentionOptions \<Rightarrow> (string, unit) outcome" where
  "RetentionOptions_Validate opts =
     (let allowedCategories = map rs_Category (filter (\<lambda>s. rs_RetentionType s = RetentionHistory) RetentionStatements) in
      if dom opts \<subseteq> set allowedCategories then Ok () else Err ''invalid key for history retention'')"

record RetentionConfig =
  rc_HistoryDays :: "16 word"
  rc_SlaDays :: "16 word"
  rc_Interval :: duration
  rc_Count :: nat
  rc_Options :: RetentionOptions

definition RetentionConfig_Validate :: "RetentionConfig \<Rightarrow> (string, unit) outcome" where
  "RetentionConfig_Validate r =
     (if rc_Interval r \<le> 0 then Err ''retention interval must be positive''
      else if rc_Count r = 0 then Err ''count must be greater than zero''
      else RetentionOptions_Validate (rc_Options r))"

section \<open>Running\<close>

definition retention_days :: "RetentionConfig \<Rightarrow> retentionStatement \<Rightarrow> 16 word" where
  "retention_days r stmt =
     (case rs_RetentionType stmt of
        RetentionHistory \<Rightarrow> (case rc_Options r (rs_Category stmt) of Some d \<Rightarrow> d | None \<Rightarrow> rc_HistoryDays r)
      | RetentionSla \<Rightarrow> rc_SlaDays r)"

definition retention_started :: "RetentionConfig \<Rightarrow> retentionStatement list" where
  "retention_started r = filter (\<lambda>stmt. 1 \<le> retention_days r stmt) RetentionStatements"

definition retention_cutoff :: "(time \<Rightarrow> int \<Rightarrow> time) \<Rightarrow> RetentionConfig \<Rightarrow> retentionStatement \<Rightarrow> time \<Rightarrow> time" where
  "retention_cutoff addDays r stmt now = addDays now (- int (unat (retention_days r stmt)))"

text \<open>
  The ticks of all started statements, in the order in which they come: the time and the failures of its
  rounds. The callback counts the deleted rows. The first error ends the retention.
\<close>

definition count_cleanup :: "nat \<Rightarrow> nat \<Rightarrow> nat \<times> string option" where
  "count_cleanup n stats = (stats + n, None)"

fun retention_run ::
    "(cleanup_row list \<Rightarrow> cleanup_row list) \<Rightarrow> string \<Rightarrow> (time \<Rightarrow> int \<Rightarrow> time) \<Rightarrow> RetentionConfig \<Rightarrow> binary \<Rightarrow>
     (retentionStatement \<times> time \<times> (nat \<Rightarrow> string option)) list \<Rightarrow> cleanup_db \<Rightarrow> nat \<Rightarrow> (cleanup_db \<times> nat \<times> (string, unit) outcome) option" where
  "retention_run scan driverName addDays r envId [] db stats = Some (db, stats, Ok ())"
| "retention_run scan driverName addDays r envId ((stmt, now, failure) # ticks) db stats =
     (if stmt \<notin> set (retention_started r) then retention_run scan driverName addDays r envId ticks db stats
      else
        (case CleanupOlderThan scan driverName failure [count_cleanup] (rs_CleanupStmt stmt) envId (rc_Count r)
            (retention_cutoff addDays r stmt now) db stats of
           None \<Rightarrow> None
         | Some (db', stats', Ok deleted) \<Rightarrow> retention_run scan driverName addDays r envId ticks db' stats'
         | Some (db', stats', Err e) \<Rightarrow> Some (db', stats', Err e)
         | Some (db', stats', Panic p) \<Rightarrow> Some (db', stats', Panic p)))"

text \<open>A row that a tick is for.\<close>

definition row_expired :: "(time \<Rightarrow> int \<Rightarrow> time) \<Rightarrow> RetentionConfig \<Rightarrow> binary \<Rightarrow> retentionStatement \<Rightarrow> time \<Rightarrow> cleanup_row \<Rightarrow> bool" where
  "row_expired addDays r envId stmt now = older envId (cs_Column (rs_CleanupStmt stmt)) (unix_milli (retention_cutoff addDays r stmt now))"

definition rt_table :: "retentionStatement \<Rightarrow> string" where
  "rt_table stmt = cs_Table (rs_CleanupStmt stmt)"

definition expired_at :: "(time \<Rightarrow> int \<Rightarrow> time) \<Rightarrow> RetentionConfig \<Rightarrow> binary \<Rightarrow> (retentionStatement \<times> time \<times> (nat \<Rightarrow> string option)) list \<Rightarrow>
    string \<Rightarrow> cleanup_row \<Rightarrow> bool" where
  "expired_at addDays r envId ticks table row \<longleftrightarrow>
     (\<exists>x \<in> set ticks. fst x \<in> set (retention_started r) \<and> rt_table (fst x) = table \<and> row_expired addDays r envId (fst x) (fst (snd x)) row)"

lemma expired_at_Cons:
  "expired_at addDays r envId ((stmt, now, failure) # ticks) table row \<longleftrightarrow>
    (stmt \<in> set (retention_started r) \<and> rt_table stmt = table \<and> row_expired addDays r envId stmt now row) \<or>
    expired_at addDays r envId ticks table row"
  by (simp add: expired_at_def)

lemma run_keeps:
  assumes "retention_run scan driverName addDays r envId ticks db stats = Some (db', stats', res)"
    and scan: "\<And>xs. mset (scan xs) = mset xs" and "\<And>t. distinct (map row_pk (db t))"
    and "row \<in> set (db table)" and "row \<notin> set (db' table)"
  shows "expired_at addDays r envId ticks table row"
  using assms(1,3-)
proof (induction ticks arbitrary: db stats)
  case (Cons x ticks)
  obtain stmt now failure where x: "x = (stmt, now, failure)" by (cases x)
  show ?case
  proof (cases "stmt \<in> set (retention_started r)")
    case False
    then have "retention_run scan driverName addDays r envId ticks db stats = Some (db', stats', res)"
      using Cons.prems(1) x by simp
    then have "expired_at addDays r envId ticks table row" by (rule Cons.IH) (fact Cons.prems)+
    then show ?thesis by (simp add: x expired_at_Cons)
  next
    case True
    then obtain d t o1 where d: "CleanupOlderThan scan driverName failure [count_cleanup] (rs_CleanupStmt stmt) envId (rc_Count r)
        (retention_cutoff addDays r stmt now) db stats = Some (d, t, o1)"
      using Cons.prems(1) x by (auto split: option.splits)
    have c: "cleaned (rt_table stmt) (row_expired addDays r envId stmt now) db d"
      unfolding rt_table_def row_expired_def by (rule cleanup_cleaned [OF d]) (fact scan, fact Cons.prems(2))
    show ?thesis
    proof (cases "row \<in> set (d table)")
      case False
      then show ?thesis using cleaned_keeps [OF c Cons.prems(3) False] True by (simp add: x expired_at_Cons)
    next
      case kept: True
      then have "is_ok o1" using Cons.prems(1,4) True x d by (cases o1) auto
      then have "retention_run scan driverName addDays r envId ticks d t = Some (db', stats', res)"
        using Cons.prems(1) True x d by (cases o1) auto
      then have "expired_at addDays r envId ticks table row"
        by (rule Cons.IH) (rule cleaned_distinct [OF c Cons.prems(2)], fact kept, fact Cons.prems(4))
      then show ?thesis by (simp add: x expired_at_Cons)
    qed
  qed
qed simp

lemma run_complete:
  assumes "driverName \<in> {''mysql'', ''postgres''}" and count: "rc_Count r \<noteq> 0"
    and scan: "\<And>xs. mset (scan xs) = mset xs" and "\<And>t. distinct (map row_pk (db t))"
    and "\<And>x n. x \<in> set ticks \<Longrightarrow> snd (snd x) n = None"
  shows "\<exists>stats'. retention_run scan driverName addDays r envId ticks db stats =
    Some ((\<lambda>t. filter (\<lambda>row. \<not> expired_at addDays r envId ticks t row) (db t)), stats', Ok ())"
  using assms(4,5)
proof (induction ticks arbitrary: db stats)
  case Nil
  then show ?case by (simp add: expired_at_def)
next
  case (Cons x ticks)
  obtain stmt now failure where x: "x = (stmt, now, failure)" by (cases x)
  have fl: "failure n = None" for n using Cons.prems(2) [of x n] x by simp
  have rest: "snd (snd x) n = None" if "x \<in> set ticks" for x n using Cons.prems(2) [of x n] that by simp
  show ?case
  proof (cases "stmt \<in> set (retention_started r)")
    case False
    then have "expired_at addDays r envId (x # ticks) t row = expired_at addDays r envId ticks t row" for t row
      by (simp add: x expired_at_Cons)
    moreover have "\<exists>stats'. retention_run scan driverName addDays r envId ticks db stats =
      Some ((\<lambda>t. filter (\<lambda>row. \<not> expired_at addDays r envId ticks t row) (db t)), stats', Ok ())"
      by (rule Cons.IH) (fact Cons.prems(1), fact rest)
    ultimately show ?thesis using False x by simp
  next
    case True
    let ?d = "db(rt_table stmt := filter (\<lambda>row. \<not> row_expired addDays r envId stmt now row) (db (rt_table stmt)))"
    have "if rc_Count r = 0 then CleanupOlderThan scan driverName failure [count_cleanup] (rs_CleanupStmt stmt) envId (rc_Count r)
          (retention_cutoff addDays r stmt now) db stats = None
      else \<exists>t'. CleanupOlderThan scan driverName failure [count_cleanup] (rs_CleanupStmt stmt) envId (rc_Count r)
          (retention_cutoff addDays r stmt now) db stats =
        Some (?d, t', Ok (length (filter (row_expired addDays r envId stmt now) (db (rt_table stmt)))))"
      unfolding rt_table_def row_expired_def
      by (rule cleanup_result) (use assms(1) fl scan Cons.prems(1) in \<open>auto simp: count_cleanup_def\<close>)
    then obtain t' n where c: "CleanupOlderThan scan driverName failure [count_cleanup] (rs_CleanupStmt stmt) envId (rc_Count r)
          (retention_cutoff addDays r stmt now) db stats = Some (?d, t', Ok n)"
      using count by auto
    have "distinct (map row_pk (?d t))" for t using Cons.prems(1) by (simp add: distinct_map_filter)
    then obtain stats' where "retention_run scan driverName addDays r envId ticks ?d t' =
      Some ((\<lambda>t. filter (\<lambda>row. \<not> expired_at addDays r envId ticks t row) (?d t)), stats', Ok ())"
      using Cons.IH [of ?d t'] rest by blast
    moreover have "(\<lambda>t. filter (\<lambda>row. \<not> expired_at addDays r envId ticks t row) (?d t)) =
      (\<lambda>t. filter (\<lambda>row. \<not> expired_at addDays r envId (x # ticks) t row) (db t))"
      by (rule ext) (auto simp: x expired_at_Cons True intro: filter_cong)
    ultimately show ?thesis using True c x by simp
  qed
qed

section \<open>Properties\<close>

text \<open>C33. The retention deletes only what has expired: whatever fails, in whatever order the ticks come, a row that is
  gone belonged to the environment and to the table of a category that is switched on, and its time was before the
  retention period of that category at the moment of one of its ticks.\<close>

theorem retention_deletes_expired_only:
  assumes "retention_run scan driverName addDays r envId ticks db stats = Some (db', stats', res)"
    and "\<And>xs. mset (scan xs) = mset xs" and "\<And>t. distinct (map row_pk (db t))"
    and "row \<in> set (db table)" and "row \<notin> set (db' table)"
  shows "\<exists>(stmt, now, failure) \<in> set ticks. stmt \<in> set RetentionStatements \<and> cs_Table (rs_CleanupStmt stmt) = table \<and>
    retention_days r stmt \<noteq> 0 \<and> row_env row = envId \<and>
    (\<exists>x. row_times row (cs_Column (rs_CleanupStmt stmt)) = Some x \<and> x < unix_milli (addDays now (- int (unat (retention_days r stmt)))))"
proof -
  obtain stmt now failure where t: "(stmt, now, failure) \<in> set ticks" "stmt \<in> set (retention_started r)" "rt_table stmt = table"
    "row_expired addDays r envId stmt now row"
    using run_keeps [OF assms] unfolding expired_at_def by force
  have "stmt \<in> set RetentionStatements" "retention_days r stmt \<noteq> 0" using t(2) by (auto simp: retention_started_def)
  moreover have "row_env row = envId \<and> (\<exists>x. row_times row (cs_Column (rs_CleanupStmt stmt)) = Some x \<and>
      x < unix_milli (addDays now (- int (unat (retention_days r stmt)))))"
    using t(4) by (auto simp: row_expired_def older_def retention_cutoff_def split: option.splits)
  ultimately show ?thesis using t(1,3) by (intro bexI [OF _ t(1)]) (simp add: rt_table_def)
qed

text \<open>With a configuration that passes its check, and as long as nothing fails, every tick returns and all ticks
  together delete exactly the expired rows.\<close>

theorem retention_deletes_all_expired:
  assumes "RetentionConfig_Validate r = Ok ()" and "driverName \<in> {''mysql'', ''postgres''}"
    and "\<And>xs. mset (scan xs) = mset xs" and "\<And>t. distinct (map row_pk (db t))"
    and "\<And>x n. x \<in> set ticks \<Longrightarrow> snd (snd x) n = None"
  shows "\<exists>stats'. retention_run scan driverName addDays r envId ticks db stats =
    Some ((\<lambda>t. filter (\<lambda>row. \<not> expired_at addDays r envId ticks t row) (db t)), stats', Ok ())"
proof (rule run_complete)
  show "rc_Count r \<noteq> 0" using assms(1) by (auto simp: RetentionConfig_Validate_def split: if_splits)
qed (fact assms)+

text \<open>Writing options as text.\<close>

fun join_pairs :: "(string \<times> 16 word) list \<Rightarrow> string" where
  "join_pairs [] = []"
| "join_pairs [(c, d)] = c @ '':'' @ format_nat (unat d)"
| "join_pairs ((c, d) # ps) = c @ '':'' @ format_nat (unat d) @ '','' @ join_pairs ps"

lemma split_seq_plain: "c \<notin> set xs \<Longrightarrow> split_seq c xs = [xs]"
  by (induction xs) auto

lemma split_seq_append: "c \<notin> set xs \<Longrightarrow> split_seq c (xs @ c # ys) = xs # split_seq c ys"
  by (induction xs) auto

lemma cut_at_append: "c \<notin> set xs \<Longrightarrow> cut_at c (xs @ c # ys) = Some (xs, ys)"
  by (induction xs) auto

lemma no_comma: "CHR '','' \<notin> set (format_nat n)"
  using format_nat_digits [of "CHR '',''" n] by (auto simp: is_digit_def)

lemma unmarshal_pair:
  "CHR '':'' \<notin> set c \<Longrightarrow> unmarshal_pairs ((c @ CHR '':'' # format_nat (unat d)) # ps) m = unmarshal_pairs ps (m(c \<mapsto> d))"
proof -
  have "unat d < 2 ^ 16" using unsigned_less [of d] by simp
  then show "CHR '':'' \<notin> set c \<Longrightarrow> ?thesis" by (simp add: cut_at_append ParseUint_format)
qed

lemma unmarshal_join:
  assumes "ps \<noteq> []" and "\<And>c d. (c, d) \<in> set ps \<Longrightarrow> CHR '','' \<notin> set c \<and> CHR '':'' \<notin> set c"
  shows "unmarshal_pairs (split_seq CHR '','' (join_pairs ps)) m = Ok (m ++ map_of (rev ps))"
  using assms
proof (induction ps arbitrary: m rule: join_pairs.induct)
  case (2 c d)
  then have nc: "CHR '','' \<notin> set c" "CHR '':'' \<notin> set c" by auto
  then have "split_seq CHR '','' (join_pairs [(c, d)]) = [c @ CHR '':'' # format_nat (unat d)]"
    using no_comma by (simp add: split_seq_plain)
  moreover have "m(c \<mapsto> d) = m ++ map_of (rev [(c, d)])" by simp
  ultimately show ?case by (simp only: unmarshal_pair [OF nc(2)] unmarshal_pairs.simps(1))
next
  case (3 c d p ps)
  then have nc: "CHR '','' \<notin> set c" "CHR '':'' \<notin> set c" by auto
  have "split_seq CHR '','' (join_pairs ((c, d) # p # ps)) = (c @ CHR '':'' # format_nat (unat d)) # split_seq CHR '','' (join_pairs (p # ps))"
    using split_seq_append [of "CHR '',''" "c @ CHR '':'' # format_nat (unat d)" "join_pairs (p # ps)"] nc no_comma by simp
  moreover have "unmarshal_pairs (split_seq CHR '','' (join_pairs (p # ps))) (m(c \<mapsto> d)) = Ok (m(c \<mapsto> d) ++ map_of (rev (p # ps)))"
    by (rule "3.IH") (use "3.prems" in auto)
  moreover have "m(c \<mapsto> d) ++ map_of (rev (p # ps)) = m ++ map_of (rev ((c, d) # p # ps))" by simp
  ultimately show ?case by (simp only: unmarshal_pair [OF nc(2)])
qed simp

text \<open>Options that are written as text, category by category, are read back as they were, the last entry of a category
  counts; and they are accepted if and only if every category is one of the six of the history, not of the SLA tables.\<close>

theorem retention_options_roundtrip:
  assumes "ps \<noteq> []" and "\<And>c d. (c, d) \<in> set ps \<Longrightarrow> CHR '','' \<notin> set c \<and> CHR '':'' \<notin> set c"
  shows "RetentionOptions_UnmarshalText (join_pairs ps) = Ok (map_of (rev ps)) \<and>
    (RetentionOptions_Validate (map_of (rev ps)) = Ok () \<longleftrightarrow>
      fst ` set ps \<subseteq> {''acknowledgement'', ''comment'', ''downtime'', ''flapping'', ''notification'', ''state''})"
proof -
  have "RetentionOptions_UnmarshalText (join_pairs ps) = Ok (map_of (rev ps))"
    unfolding RetentionOptions_UnmarshalText_def using unmarshal_join [where m = Map.empty, OF assms] by simp
  moreover have "dom (map_of (rev ps)) = fst ` set ps" by (simp add: dom_map_of_conv_image_fst)
  moreover have "set (map rs_Category (filter (\<lambda>s. rs_RetentionType s = RetentionHistory) RetentionStatements)) =
      {''acknowledgement'', ''comment'', ''downtime'', ''flapping'', ''notification'', ''state''}"
    by (simp add: RetentionStatements_def retention_stmt_def)
  ultimately show ?thesis by (simp add: RetentionOptions_Validate_def Let_def)
qed

section \<open>Witnesses\<close>

definition sample_retention :: RetentionConfig where
  "sample_retention = \<lparr>rc_HistoryDays = 0, rc_SlaDays = 2, rc_Interval = second, rc_Count = 1, rc_Options = Map.empty\<rparr>"

definition add_days :: "time \<Rightarrow> int \<Rightarrow> time" where
  "add_days t d = t + d * 86400 * second"

definition sample_sla :: retentionStatement where
  "sample_sla = retention_stmt RetentionSla ''sla_state'' ''sla_history_state'' ''id'' ''event_time''"

definition sample_tick :: "retentionStatement \<times> time \<times> (nat \<Rightarrow> string option)" where
  "sample_tick = (sample_sla, from_unix_milli 172800005, \<lambda>n. None)"

definition sample_tables :: cleanup_db where
  "sample_tables = (\<lambda>t. [sample_cleanup_row 1 3, sample_cleanup_row 2 7])"

lemma sample_started: "sample_sla \<in> set (retention_started sample_retention)"
  by (simp add: retention_started_def RetentionStatements_def sample_sla_def retention_stmt_def retention_days_def sample_retention_def)

lemma sample_expired: "row_expired add_days sample_retention (Some [1]) sample_sla (from_unix_milli 172800005) (sample_cleanup_row i x) \<longleftrightarrow> x < 5"
  by (simp add: row_expired_def older_def sample_cleanup_row_def retention_cutoff_def retention_days_def sample_sla_def retention_stmt_def
      sample_retention_def add_days_def from_unix_milli_def unix_milli_def nanos_per_milli_def second_def)

theorem retention_deletes_all_expired_witness:
  "\<exists>stats'. retention_run id ''mysql'' add_days sample_retention (Some [1]) [sample_tick] sample_tables 0 =
    Some ((\<lambda>t. filter (\<lambda>row. \<not> expired_at add_days sample_retention (Some [1]) [sample_tick] t row) (sample_tables t)), stats', Ok ())"
  by (rule retention_deletes_all_expired)
    (auto simp: RetentionConfig_Validate_def RetentionOptions_Validate_def sample_retention_def second_def sample_tables_def
      sample_cleanup_row_def sample_tick_def)

theorem retention_deletes_expired_only_witness:
  "\<exists>db' stats'. retention_run id ''mysql'' add_days sample_retention (Some [1]) [sample_tick] sample_tables 0 = Some (db', stats', Ok ()) \<and>
    sample_cleanup_row 1 3 \<notin> set (db' ''sla_history_state'') \<and> sample_cleanup_row 1 3 \<in> set (sample_tables ''sla_history_state'') \<and>
    row_env (sample_cleanup_row 1 3) = Some [1]"
proof -
  let ?db = "\<lambda>t. filter (\<lambda>row. \<not> expired_at add_days sample_retention (Some [1]) [sample_tick] t row) (sample_tables t)"
  obtain stats' where run: "retention_run id ''mysql'' add_days sample_retention (Some [1]) [sample_tick] sample_tables 0 = Some (?db, stats', Ok ())"
    using run_complete [of "''mysql''" sample_retention id sample_tables "[sample_tick]" add_days "Some [1]" 0]
    by (auto simp: sample_retention_def sample_tables_def sample_cleanup_row_def sample_tick_def)
  have "rt_table sample_sla = ''sla_history_state''" by (simp add: rt_table_def sample_sla_def retention_stmt_def)
  then have gone: "sample_cleanup_row 1 3 \<notin> set (?db ''sla_history_state'')"
    using sample_started sample_expired by (simp add: expired_at_def sample_tick_def)
  have here: "sample_cleanup_row 1 3 \<in> set (sample_tables ''sla_history_state'')" by (simp add: sample_tables_def)
  have "row_env (sample_cleanup_row 1 3) = Some [1]"
    using retention_deletes_expired_only [OF run _ _ here gone] by (auto simp: sample_tables_def sample_cleanup_row_def)
  then show ?thesis using run gone here by blast
qed

theorem retention_options_roundtrip_witness:
  "RetentionOptions_UnmarshalText (join_pairs [(''state'', 7), (''sla_state'', 65535)]) = Ok [''state'' \<mapsto> 7, ''sla_state'' \<mapsto> 65535] \<and>
    RetentionOptions_Validate [''state'' \<mapsto> 7, ''sla_state'' \<mapsto> 65535] \<noteq> Ok ()"
proof -
  have "(map_of (rev [(''state'', 7 :: 16 word), (''sla_state'', 65535)])) = [''state'' \<mapsto> 7, ''sla_state'' \<mapsto> 65535]" by auto
  moreover have "\<And>c d. (c, d) \<in> set [(''state'', 7 :: 16 word), (''sla_state'', 65535)] \<Longrightarrow> CHR '','' \<notin> set c \<and> CHR '':'' \<notin> set c"
    by auto
  ultimately show ?thesis using retention_options_roundtrip [of "[(''state'', 7), (''sla_state'', 65535)]"] by simp
qed

end
