(* ===== verification/Schema_Check.thy ===== *)
theory Schema_Check
  imports Idb_Prelude
begin

text \<open>
  The check of the database schema and its import, \<open>pkg/icingadb/schema.go\<close>, their use at start-up in
  \<open>cmd/icingadb/main.go\<close>, and the check of the Redis schema there.
\<close>

section \<open>Checking\<close>

text \<open>Errors that are told apart, possibly wrapped; the text of a mismatch is the case it reports.\<close>

datatype schema_mismatch = NoVersion | MissingVersion "16 word" | WrongVersion "16 word"

datatype schema_error = ErrSchemaNotExists | ErrSchemaMismatch schema_mismatch | ErrOther string

text \<open>
  The database: its driver, whether there is a table \<open>icingadb_schema\<close>, or an error, and its rows, of which
  the query returns the versions in ascending order. The column has no unique index.
\<close>

record schema_db =
  sc_driver :: string
  sc_table :: "(string, bool) outcome"
  sc_rows :: "(string, 16 word list) outcome"

definition expectedSchemaVersion :: "string \<Rightarrow> 16 word option" where
  "expectedSchemaVersion driver =
     (if driver = ''mysql'' then Some 7 else if driver = ''postgres'' then Some 5 else None)"

text \<open>The loop over neighbouring versions; the subtraction is that of a \<open>uint16\<close>.\<close>

fun missing_version :: "16 word list \<Rightarrow> 16 word option" where
  "missing_version (v # w # vs) = (if v \<noteq> w - 1 then Some (v + 1) else missing_version (w # vs))"
| "missing_version vs = None"

definition check_versions :: "16 word \<Rightarrow> 16 word list \<Rightarrow> (schema_error, unit) outcome" where
  "check_versions expected versions =
     (if versions = [] then Err (ErrSchemaMismatch NoVersion)
      else
        (case missing_version versions of
           Some v \<Rightarrow> Err (ErrSchemaMismatch (MissingVersion v))
         | None \<Rightarrow> if last versions \<noteq> expected then Err (ErrSchemaMismatch (WrongVersion (last versions))) else Ok ()))"

fun wrap_error :: "(string, 'a) outcome \<Rightarrow> (schema_error, 'a) outcome" where
  "wrap_error (Ok a) = Ok a"
| "wrap_error (Err e) = Err (ErrOther e)"
| "wrap_error (Panic p) = Panic p"

definition CheckSchema :: "schema_db \<Rightarrow> (schema_error, unit) outcome" where
  "CheckSchema db =
     (case expectedSchemaVersion (sc_driver db) of
        None \<Rightarrow> Err (ErrOther ''unsupported database driver'')
      | Some expected \<Rightarrow>
          bind_outcome (wrap_error (sc_table db))
            (\<lambda>hasSchemaTable.
               if \<not> hasSchemaTable then Err ErrSchemaNotExists
               else bind_outcome (wrap_error (sc_rows db)) (\<lambda>rows. check_versions expected (sort rows))))"

section \<open>Importing\<close>

text \<open>
  \<open>readFile\<close> reads a file, \<open>split\<close> is \<open>database.MysqlSplitStatements\<close>, \<open>execQuery\<close> executes a statement. All run
  in a transaction, so an error leaves the database as it was.
\<close>

fun exec_queries :: "(string \<Rightarrow> 'd \<Rightarrow> (string, 'd) outcome) \<Rightarrow> string list \<Rightarrow> 'd \<Rightarrow> (string, 'd) outcome" where
  "exec_queries execQuery [] d = Ok d"
| "exec_queries execQuery (q # qs) d = bind_outcome (execQuery q d) (exec_queries execQuery qs)"

definition ImportSchema ::
    "('d \<Rightarrow> string) \<Rightarrow> (string \<Rightarrow> (string, string) outcome) \<Rightarrow> (string \<Rightarrow> string list) \<Rightarrow> (string \<Rightarrow> 'd \<Rightarrow> (string, 'd) outcome) \<Rightarrow>
     string \<Rightarrow> 'd \<Rightarrow> (string, 'd) outcome" where
  "ImportSchema driver readFile split execQuery databaseSchemaDir d =
     (let part = (if driver d = ''mysql'' then Some ''mysql'' else if driver d = ''postgres'' then Some ''pgsql'' else None) in
      case part of
        None \<Rightarrow> Err ''unsupported database driver''
      | Some dir \<Rightarrow>
          bind_outcome (readFile (databaseSchemaDir @ ''/'' @ dir @ ''/schema.sql''))
            (\<lambda>schema. exec_queries execQuery (if driver d = ''mysql'' then split schema else [schema]) d))"

text \<open>
  The start of the daemon: a missing schema is imported if that is allowed, any other error is fatal. A
  fatal error ends the process.
\<close>

definition start_schema ::
    "bool \<Rightarrow> (schema_db \<Rightarrow> (string, schema_db) outcome) \<Rightarrow> schema_db \<Rightarrow> (string, schema_db) outcome" where
  "start_schema autoImport importSchema db =
     (case CheckSchema db of
        Ok u \<Rightarrow> Ok db
      | Err e \<Rightarrow>
          (if e = ErrSchemaNotExists then
             (if \<not> autoImport then Err ''The database schema is missing''
              else (case importSchema db of
                      Ok db' \<Rightarrow> Ok db'
                    | Err e \<Rightarrow> Err ''Can't import database schema''
                    | Panic p \<Rightarrow> Panic p))
           else Err ''CheckSchema'')
      | Panic p \<Rightarrow> Panic p)"

section \<open>The Redis schema\<close>

text \<open>The first message of the stream after \<open>pos\<close>, or the error of reading; its ID is the next position.\<close>

definition checkRedisSchema :: "(string, xmessage) outcome \<Rightarrow> (string, string) outcome" where
  "checkRedisSchema read =
     bind_outcome read
       (\<lambda>message. if msg_Values message ''version'' = Some (AString ''6'') then Ok (msg_ID message)
                  else Err ''unexpected Redis schema version'')"

text \<open>
  The check at start-up and the goroutine that repeats it: the messages read one after the other, up to
  the first that is fatal.
\<close>

fun monitorRedisSchema :: "(string, xmessage) outcome list \<Rightarrow> string \<Rightarrow> (string, string) outcome" where
  "monitorRedisSchema [] pos = Ok pos"
| "monitorRedisSchema (read # reads) pos = bind_outcome (checkRedisSchema read) (monitorRedisSchema reads)"

section \<open>Properties\<close>

lemma word_successor:
  assumes "v \<le> (w :: 16 word)"
  shows "v = w - 1 \<longleftrightarrow> unat w = Suc (unat v)"
proof
  assume v: "v = w - 1"
  then have w: "w = 1 + v" by simp
  have "w \<noteq> 0"
  proof
    assume "w = 0"
    then show False using assms v by simp
  qed
  then show "unat w = Suc (unat v)" unfolding w by (rule unatSuc)
next
  assume "unat w = Suc (unat v)"
  then have "(of_nat (unat w) :: 16 word) = of_nat (Suc (unat v))" by simp
  then show "v = w - 1" by simp
qed

lemma missing_None:
  "sorted vs \<Longrightarrow> vs \<noteq> [] \<Longrightarrow> missing_version vs = None \<longleftrightarrow> map unat vs = [unat (hd vs)..<Suc (unat (last vs))]"
proof (induction vs rule: missing_version.induct)
  case (1 v w vs)
  let ?l = "last (w # vs)"
  have le: "v \<le> w" "w \<le> ?l" using "1.prems" by (auto simp: last_in_set)
  then have "unat v \<le> unat ?l" by (meson le_trans word_le_nat_alt)
  then have upt: "[unat v..<Suc (unat ?l)] = unat v # [Suc (unat v)..<Suc (unat ?l)]" by (simp add: upt_rec)
  have hd: "hd [Suc (unat v)..<Suc (unat ?l)] = Suc (unat v)" if "[Suc (unat v)..<Suc (unat ?l)] \<noteq> []"
    using that by (simp add: upt_rec split: if_splits)
  show ?case
  proof (cases "v = w - 1")
    case True
    then have "unat w = Suc (unat v)" using word_successor [OF le(1)] by simp
    then show ?thesis using 1 True upt by simp
  next
    case False
    then have "unat w \<noteq> Suc (unat v)" using word_successor [OF le(1)] by simp
    moreover have "unat w = Suc (unat v)" if "map unat (v # w # vs) = [unat v..<Suc (unat ?l)]"
    proof -
      have "unat w # map unat vs = [Suc (unat v)..<Suc (unat ?l)]" using that upt by simp
      then show ?thesis using hd by (metis list.distinct(1) list.sel(1))
    qed
    ultimately have "map unat (v # w # vs) \<noteq> [unat v..<Suc (unat ?l)]" by blast
    moreover have "missing_version (v # w # vs) \<noteq> None" "hd (v # w # vs) = v" "last (v # w # vs) = ?l" using False by simp_all
    ultimately show ?thesis by (simp only: simp_thms)
  qed
qed simp_all

lemma next_version: "v < (w :: 16 word) \<Longrightarrow> unat (v + 1) = Suc (unat v)"
proof -
  assume less: "v < w"
  have "1 + v \<noteq> 0"
  proof
    assume "1 + v = 0"
    then have "v = - 1" by (simp add: eq_neg_iff_add_eq_0 add.commute)
    then show False using less by simp
  qed
  then show ?thesis using unatSuc [of v] by (simp add: add.commute)
qed

lemma missing_Some:
  "sorted vs \<Longrightarrow> distinct vs \<Longrightarrow> missing_version vs = Some m \<Longrightarrow> m \<notin> set vs \<and> (\<exists>v \<in> set vs. unat m = Suc (unat v))"
proof (induction vs rule: missing_version.induct)
  case (1 v w vs)
  have less: "v < w" and rest: "\<And>u. u \<in> set (w # vs) \<Longrightarrow> w \<le> u" using "1.prems"(1,2) by (auto simp: order.strict_iff_order)
  show ?case
  proof (cases "v = w - 1")
    case True
    then have "m \<notin> set (w # vs) \<and> (\<exists>v \<in> set (w # vs). unat m = Suc (unat v))" using 1 by simp
    moreover from this obtain u where "u \<in> set (w # vs)" "unat m = Suc (unat u)" by blast
    then have "unat v < unat m" using less rest [of u] by (simp add: word_less_nat_alt word_le_nat_alt)
    ultimately show ?thesis by auto
  next
    case False
    then have m: "unat m = Suc (unat v)" using "1.prems"(3) next_version [OF less] by simp
    moreover have "unat w \<noteq> Suc (unat v)" using False word_successor [of v w] less by simp
    moreover have "unat v < unat w" using less by (simp add: word_less_nat_alt)
    ultimately have "unat m < unat w" by linarith
    have "m \<notin> set (w # vs)"
    proof
      assume "m \<in> set (w # vs)"
      then have "unat w \<le> unat m" using rest by (simp only: word_le_nat_alt [symmetric])
      then show False using \<open>unat m < unat w\<close> by simp
    qed
    then show ?thesis using m by auto
  qed
qed simp_all

lemma check_versions_Ok:
  assumes "sorted vs"
  shows "check_versions expected vs = Ok () \<longleftrightarrow> (\<exists>first \<le> unat expected. map unat vs = [first..<Suc (unat expected)])"
proof (cases "vs = []")
  case False
  have "last vs = expected" "unat (hd vs) = first" if "map unat vs = [first..<Suc (unat expected)]" "first \<le> unat expected" for first
  proof -
    have "unat (last vs) = last (map unat vs)" using False by (simp add: last_map)
    also have "\<dots> = unat expected" using that by simp
    finally show "last vs = expected" by (simp add: word_unat_eq_iff)
    have "unat (hd vs) = hd (map unat vs)" using False by (simp add: hd_map)
    also have "\<dots> = first" using that by (simp add: upt_rec)
    finally show "unat (hd vs) = first" .
  qed
  note ends = this
  have le: "unat (hd vs) \<le> unat (last vs)"
    using assms False by (cases vs) (auto simp: word_le_nat_alt [symmetric])
  have ok: "check_versions expected vs = Ok () \<longleftrightarrow> missing_version vs = None \<and> last vs = expected"
    using False by (simp add: check_versions_def split: option.splits)
  show ?thesis
  proof
    assume "check_versions expected vs = Ok ()"
    then have m: "missing_version vs = None" and l: "last vs = expected" using ok by simp_all
    have "map unat vs = [unat (hd vs)..<Suc (unat expected)]" using m missing_None [OF assms False] unfolding l by blast
    then show "\<exists>first \<le> unat expected. map unat vs = [first..<Suc (unat expected)]" using le l by blast
  next
    assume "\<exists>first \<le> unat expected. map unat vs = [first..<Suc (unat expected)]"
    then obtain first where f: "map unat vs = [first..<Suc (unat expected)]" "first \<le> unat expected" by blast
    then have "map unat vs = [unat (hd vs)..<Suc (unat (last vs))]" using ends [OF f] by (simp only:)
    then have "missing_version vs = None" using missing_None [OF assms False] by blast
    then show "check_versions expected vs = Ok ()" using ok ends [OF f] by blast
  qed
qed (auto simp: check_versions_def)

lemma wrap_error_Ok: "wrap_error x = Ok a \<longleftrightarrow> x = Ok a"
  by (cases x) simp_all

text \<open>C32. The schema check succeeds if and only if the database is of a known kind, has the table, and the stored versions
  are, each one once and in any order, those from some first version to the expected one without a gap. If it reports a
  missing version, then that version is indeed not among the stored ones, provided that none is stored twice.\<close>

theorem schema_check_correct:
  "(CheckSchema db = Ok () \<longleftrightarrow>
      (\<exists>expected rows first. expectedSchemaVersion (sc_driver db) = Some expected \<and> sc_table db = Ok True \<and> sc_rows db = Ok rows \<and>
        first \<le> unat expected \<and> mset (map unat rows) = mset [first..<Suc (unat expected)])) \<and>
    (\<forall>m rows. CheckSchema db = Err (ErrSchemaMismatch (MissingVersion m)) \<longrightarrow> sc_rows db = Ok rows \<longrightarrow> distinct rows \<longrightarrow> m \<notin> set rows)"
  (is "?ok \<and> _")
proof -
  have sorted: "map unat (sort rows) = [first..<Suc n] \<longleftrightarrow> mset (map unat rows) = mset [first..<Suc n]" for rows :: "16 word list" and first n
  proof
    assume "map unat (sort rows) = [first..<Suc n]"
    then have "mset (map unat (sort rows)) = mset [first..<Suc n]" by (simp only:)
    then show "mset (map unat rows) = mset [first..<Suc n]" by simp
  next
    assume "mset (map unat rows) = mset [first..<Suc n]"
    then have "mset (map unat (sort rows)) = mset [first..<Suc n]" by simp
    moreover have "sorted (map unat (sort rows))" using sorted_sort [of rows] by (simp add: sorted_map flip: word_le_nat_alt)
    ultimately have "map unat (sort rows) = sort [first..<Suc n]" by (metis properties_for_sort)
    then show "map unat (sort rows) = [first..<Suc n]" by (simp add: sorted_sort_id del: upt_Suc)
  qed
  have "(\<exists>first. first \<le> unat e \<and> mset (map unat rows) = mset [first..<Suc (unat e)]) \<longleftrightarrow> check_versions e (sort rows) = Ok ()" for e rows
    unfolding sorted [symmetric] check_versions_Ok [OF sorted_sort] ..
  then have ?ok by (auto simp: CheckSchema_def bind_outcome_Ok_iff wrap_error_Ok split: option.splits if_splits)
  moreover have "m \<notin> set rows"
    if a: "CheckSchema db = Err (ErrSchemaMismatch (MissingVersion m))" "sc_rows db = Ok rows" "distinct rows" for m rows
  proof -
    have "missing_version (sort rows) = Some m"
      using a(1,2) by (cases "sc_table db") (auto simp: CheckSchema_def check_versions_def split: option.splits if_splits)
    then show ?thesis using missing_Some [OF sorted_sort, of rows m] a(3) by simp
  qed
  ultimately show ?thesis by blast
qed

definition sample_schema :: "16 word list \<Rightarrow> schema_db" where
  "sample_schema rows = \<lparr>sc_driver = ''mysql'', sc_table = Ok True, sc_rows = Ok rows\<rparr>"

theorem schema_check_correct_witness:
  "CheckSchema (sample_schema [7, 6, 5]) = Ok () \<and> CheckSchema (sample_schema [5, 7]) = Err (ErrSchemaMismatch (MissingVersion 6))"
proof -
  have "mset (map unat [7, 6, 5 :: 16 word]) = mset [5..<Suc (unat (7 :: 16 word))]" by (simp add: upt_rec)
  moreover have "5 \<le> unat (7 :: 16 word)" by simp
  moreover have "expectedSchemaVersion (sc_driver (sample_schema [7, 6, 5])) = Some 7" "sc_table (sample_schema [7, 6, 5]) = Ok True"
    "sc_rows (sample_schema [7, 6, 5]) = Ok [7, 6, 5]" by (simp_all add: sample_schema_def expectedSchemaVersion_def)
  ultimately have "CheckSchema (sample_schema [7, 6, 5]) = Ok ()"
    using schema_check_correct [of "sample_schema [7, 6, 5]"] by blast
  then show ?thesis
    by (simp add: CheckSchema_def check_versions_def sample_schema_def expectedSchemaVersion_def)
qed

text \<open>A version that is stored twice, which the table allows, is reported as another one that is not missing at all.\<close>

lemma schema_duplicate_version:
  "CheckSchema (sample_schema [5, 5, 6, 7]) = Err (ErrSchemaMismatch (MissingVersion 6))"
  by (simp add: CheckSchema_def check_versions_def sample_schema_def expectedSchemaVersion_def)

text \<open>The daemon starts only on a database that passes the check, given that the imported schema does.\<close>

lemma start_checked:
  assumes "start_schema autoImport importSchema db = Ok db'" and "\<And>d d'. importSchema d = Ok d' \<Longrightarrow> CheckSchema d' = Ok ()"
  shows "CheckSchema db' = Ok ()"
  using assms(1) by (auto simp: start_schema_def split: outcome.splits if_splits intro: assms(2))

end
