(* ===== verification/Overdue.thy ===== *)
theory Overdue
  imports Complex_Main Idb_Prelude "HOL-Library.List_Lexorder" "HOL-Library.Char_ord"
begin

text \<open>
  The overdue indicators: \<open>pkg/icingadb/overdue/sync.go\<close>, its script \<open>get_overdues.lua\<close> and the entities of
  \<open>pkg/icingadb/v1/overdue\<close>, for one object type. Parameters: \<open>encode\<close> and \<open>decode\<close> are the text form of a
  \<open>types.Binary\<close>, \<open>order\<close> the order in which Redis returns the members of a set.
\<close>

section \<open>State\<close>

text \<open>
  The sorted set \<open>icinga:nextupdate:*\<close> of Icinga 2, the set \<open>icingadb:overdue:*\<close>, and the column \<open>is_overdue\<close> of
  the rows of the state table.
\<close>

record overdue_state =
  nextupdate :: "string \<rightharpoonup> rat"
  marked :: "string set"
  is_overdue :: "bytes \<rightharpoonup> bool"

section \<open>Initialisation\<close>

text \<open>\<open>SADD\<close> in portions of 100.\<close>

fun sadd_portions :: "string list \<Rightarrow> string list \<Rightarrow> string set \<Rightarrow> string set" where
  "sadd_portions ids [] key = (if ids = [] then key else key \<union> set ids)"
| "sadd_portions ids (i # rows) key =
     (let ids' = ids @ [i] in
      if length ids' = 100 then sadd_portions [] rows (key \<union> set ids') else sadd_portions ids' rows key)"

lemma sadd_portions_all: "sadd_portions ids rows key = key \<union> set ids \<union> set rows"
  by (induction ids rows key rule: sadd_portions.induct) (auto simp: Let_def)

text \<open>\<open>rows\<close> is what the query returns: the IDs of the overdue rows.\<close>

definition initSync :: "(bytes \<Rightarrow> string) \<Rightarrow> bytes list \<Rightarrow> overdue_state \<Rightarrow> overdue_state" where
  "initSync encode rows s = s\<lparr>marked := sadd_portions [] (map encode rows) {}\<rparr>"

definition overdue_rows :: "overdue_state \<Rightarrow> bytes set" where
  "overdue_rows s = {b. is_overdue s b = Some True}"

section \<open>One round\<close>

text \<open>The script: what is overdue but not marked, and what is marked but not overdue. The score limit is exclusive.\<close>

definition tempOverdue :: "rat \<Rightarrow> overdue_state \<Rightarrow> string set" where
  "tempOverdue now s = {i. case nextupdate s i of None \<Rightarrow> False | Some t \<Rightarrow> t < now}"

datatype redis_reply = RString string | RList "redis_reply list" | ROther string

definition luaGetOverdues :: "(string set \<Rightarrow> string list) \<Rightarrow> rat \<Rightarrow> overdue_state \<Rightarrow> redis_reply" where
  "luaGetOverdues order now s =
     RList [RList (map RString (order (tempOverdue now s - marked s))), RList (map RString (order (marked s - tempOverdue now s)))]"

text \<open>The type assertions on the reply.\<close>

fun parse_overdues :: "redis_reply \<Rightarrow> (string, redis_reply list \<times> redis_reply list) outcome" where
  "parse_overdues (RList elems) =
     (if length elems < 2 then Err ''2 elements required''
      else (case elems ! 0 of
              RList a \<Rightarrow> (case elems ! 1 of RList b \<Rightarrow> Ok (a, b) | _ \<Rightarrow> Err ''second root element is not []any'')
            | _ \<Rightarrow> Err ''first root element is not []any''))"
| "parse_overdues r = Err ''overdues is not []any''"

text \<open>\<open>NewHostState\<close> and \<open>NewServiceState\<close>, and the update of the row with this ID, if there is one.\<close>

definition NewOverdueState :: "(string \<Rightarrow> (string, bytes) outcome) \<Rightarrow> string \<Rightarrow> bool \<Rightarrow> (string, bytes \<times> bool) outcome" where
  "NewOverdueState decode i overdue = bind_outcome (decode i) (\<lambda>b. Ok (b, overdue))"

definition update_overdue_row :: "bytes \<times> bool \<Rightarrow> (bytes \<rightharpoonup> bool) \<Rightarrow> bytes \<rightharpoonup> bool" where
  "update_overdue_row e db = (if fst e \<in> dom db then db(fst e \<mapsto> snd e) else db)"

fun updateDb :: "(string \<Rightarrow> (string, bytes) outcome) \<Rightarrow> bool \<Rightarrow> redis_reply list \<Rightarrow> (bytes \<rightharpoonup> bool) \<Rightarrow> (bytes \<rightharpoonup> bool) \<times> (string, unit) outcome" where
  "updateDb decode overdue [] db = (db, Ok ())"
| "updateDb decode overdue (r # ids) db =
     (case r of
        RString i \<Rightarrow>
          (case NewOverdueState decode i overdue of
             Ok e \<Rightarrow> updateDb decode overdue ids (update_overdue_row e db)
           | Err e \<Rightarrow> (db, Err e)
           | Panic p \<Rightarrow> (db, Panic p))
      | _ \<Rightarrow> (db, Err ''id is not string''))"

fun reply_strings :: "redis_reply list \<Rightarrow> string list" where
  "reply_strings [] = []"
| "reply_strings (RString i # rs) = i # reply_strings rs"
| "reply_strings (r # rs) = reply_strings rs"

lemma reply_strings_map [simp]: "reply_strings (map RString is) = is"
  by (induction "is") simp_all

definition updateOverdue :: "(string \<Rightarrow> (string, bytes) outcome) \<Rightarrow> redis_reply list \<Rightarrow> bool \<Rightarrow> overdue_state \<Rightarrow> overdue_state \<times> (string, unit) outcome" where
  "updateOverdue decode ids overdue s =
     (if ids = [] then (s, Ok ())
      else
        (case updateDb decode overdue ids (is_overdue s) of
           (db, Ok u) \<Rightarrow>
             (s\<lparr>is_overdue := db,
                marked := (if overdue then marked s \<union> set (reply_strings ids) else marked s - set (reply_strings ids))\<rparr>, Ok ())
         | (db, Err e) \<Rightarrow> (s\<lparr>is_overdue := db\<rparr>, Err e)
         | (db, Panic p) \<Rightarrow> (s\<lparr>is_overdue := db\<rparr>, Panic p)))"

text \<open>
  The two updates of a round run at the same time, but on different IDs; the model has them one after the
  other.
\<close>

definition overdue_round :: "(string set \<Rightarrow> string list) \<Rightarrow> (string \<Rightarrow> (string, bytes) outcome) \<Rightarrow> rat \<Rightarrow> overdue_state \<Rightarrow>
    overdue_state \<times> (string, unit) outcome" where
  "overdue_round order decode now s =
     (case parse_overdues (luaGetOverdues order now s) of
        Err e \<Rightarrow> (s, Err e)
      | Panic p \<Rightarrow> (s, Panic p)
      | Ok roots \<Rightarrow>
          (case updateOverdue decode (fst roots) True s of
             (s', Ok u) \<Rightarrow> updateOverdue decode (snd roots) False s'
           | (s', Err e) \<Rightarrow> (s', Err e)
           | (s', Panic p) \<Rightarrow> (s', Panic p)))"

section \<open>What a round does\<close>

text \<open>The IDs are text forms of binaries, and the text form is unique.\<close>

locale id_text =
  fixes encode :: "bytes \<Rightarrow> string" and decode :: "string \<Rightarrow> (string, bytes) outcome" and order :: "string set \<Rightarrow> string list"
  assumes decode_encode: "decode (encode b) = Ok b"
    and order_set: "finite I \<Longrightarrow> set (order I) = I"
begin

lemma encode_inj: "encode a = encode b \<longleftrightarrow> a = b"
  using decode_encode by (metis outcome.inject(1))

lemma updateDb_ids:
  "set is \<subseteq> range encode \<Longrightarrow> updateDb decode overdue (map RString is) db =
    ((\<lambda>b. if encode b \<in> set is \<and> b \<in> dom db then Some overdue else db b), Ok ())"
proof (induction "is" arbitrary: db)
  case (Cons i "is")
  then obtain b where b: "i = encode b" by auto
  let ?db = "update_overdue_row (b, overdue) db"
  have "updateDb decode overdue (map RString (i # is)) db = updateDb decode overdue (map RString is) ?db"
    by (simp add: b NewOverdueState_def decode_encode)
  also have "\<dots> = ((\<lambda>c. if encode c \<in> set is \<and> c \<in> dom ?db then Some overdue else ?db c), Ok ())"
    using Cons by simp
  also have "(\<lambda>c. if encode c \<in> set is \<and> c \<in> dom ?db then Some overdue else ?db c) =
      (\<lambda>c. if encode c \<in> set (i # is) \<and> c \<in> dom db then Some overdue else db c)"
    by (auto simp: fun_eq_iff update_overdue_row_def b encode_inj)
  finally show ?case .
qed auto

lemma updateOverdue_ids:
  "set is \<subseteq> range encode \<Longrightarrow> updateOverdue decode (map RString is) overdue s =
    (s\<lparr>is_overdue := (\<lambda>b. if encode b \<in> set is \<and> b \<in> dom (is_overdue s) then Some overdue else is_overdue s b),
       marked := (if overdue then marked s \<union> set is else marked s - set is)\<rparr>, Ok ())"
  by (cases "is = []") (simp_all add: updateOverdue_def updateDb_ids)

text \<open>The marks are the overdue rows.\<close>

definition in_step :: "overdue_state \<Rightarrow> bool" where
  "in_step s \<longleftrightarrow> (\<forall>b v. is_overdue s b = Some v \<longrightarrow> v = (encode b \<in> marked s)) \<and> marked s \<subseteq> range encode \<and> finite (marked s)"

definition known_ids :: "overdue_state \<Rightarrow> bool" where
  "known_ids s \<longleftrightarrow> dom (nextupdate s) \<subseteq> range encode \<and> finite (dom (nextupdate s))"

lemma init_in_step: "set rows = overdue_rows s \<Longrightarrow> in_step (initSync encode rows s)"
proof -
  assume rows: "set rows = overdue_rows s"
  have "finite (overdue_rows s)" unfolding rows [symmetric] by simp
  then show ?thesis using rows by (auto simp: in_step_def initSync_def sadd_portions_all overdue_rows_def encode_inj image_iff)
qed

lemma temp_known: "known_ids s \<Longrightarrow> tempOverdue now s \<subseteq> range encode \<and> finite (tempOverdue now s)"
proof -
  assume k: "known_ids s"
  have "tempOverdue now s \<subseteq> dom (nextupdate s)" by (auto simp: tempOverdue_def split: option.splits)
  then show ?thesis using k finite_subset unfolding known_ids_def by blast
qed

lemma round_update:
  assumes m: "marked s \<subseteq> range encode" "finite (marked s)" and "known_ids s"
  shows "overdue_round order decode now s =
    (s\<lparr>is_overdue := (\<lambda>b. if encode b \<in> marked s - tempOverdue now s \<and> b \<in> dom (is_overdue s) then Some False
        else if encode b \<in> tempOverdue now s - marked s \<and> b \<in> dom (is_overdue s) then Some True else is_overdue s b),
      marked := tempOverdue now s\<rparr>, Ok ())"
proof -
  let ?t = "tempOverdue now s"
  have t: "?t \<subseteq> range encode" "finite ?t" using temp_known [OF assms(3)] by auto
  have new: "set (order (?t - marked s)) = ?t - marked s" and gone: "set (order (marked s - ?t)) = marked s - ?t"
    using t(2) m(2) by (simp_all add: order_set)
  have "set (order (?t - marked s)) \<subseteq> range encode" "set (order (marked s - ?t)) \<subseteq> range encode" using new gone t(1) m(1) by auto
  note up = updateOverdue_ids [OF this(1)] updateOverdue_ids [OF this(2)]
  let ?s1 = "s\<lparr>is_overdue := (\<lambda>b. if encode b \<in> ?t - marked s \<and> b \<in> dom (is_overdue s) then Some True else is_overdue s b),
      marked := marked s \<union> (?t - marked s)\<rparr>"
  have dom: "dom (is_overdue ?s1) = dom (is_overdue s)" by (auto simp: dom_def)
  have "marked ?s1 - (marked s - ?t) = ?t" by auto
  then have "updateOverdue decode (map RString (order (marked s - ?t))) False ?s1 =
    (s\<lparr>is_overdue := (\<lambda>b. if encode b \<in> marked s - ?t \<and> b \<in> dom (is_overdue s) then Some False else is_overdue ?s1 b), marked := ?t\<rparr>, Ok ())"
    using up(2) [of False ?s1] unfolding gone dom by simp
  moreover have "updateOverdue decode (map RString (order (?t - marked s))) True s = (?s1, Ok ())"
    using up(1) [of True s] unfolding new by simp
  ultimately show ?thesis by (simp add: overdue_round_def luaGetOverdues_def cong: if_cong)
qed

lemma round_result:
  assumes "in_step s" and "known_ids s"
  shows "overdue_round order decode now s =
    (s\<lparr>is_overdue := (\<lambda>b. if b \<in> dom (is_overdue s) then Some (encode b \<in> tempOverdue now s) else None), marked := tempOverdue now s\<rparr>, Ok ())"
proof -
  have m: "marked s \<subseteq> range encode" "finite (marked s)" using assms(1) by (auto simp: in_step_def)
  have flag: "is_overdue s b = Some v \<Longrightarrow> v = (encode b \<in> marked s)" for b v using assms(1) by (simp add: in_step_def)
  have "(\<lambda>b. if encode b \<in> marked s - tempOverdue now s \<and> b \<in> dom (is_overdue s) then Some False
      else if encode b \<in> tempOverdue now s - marked s \<and> b \<in> dom (is_overdue s) then Some True else is_overdue s b) =
    (\<lambda>b. if b \<in> dom (is_overdue s) then Some (encode b \<in> tempOverdue now s) else None)"
    using flag by (auto simp: fun_eq_iff domIff)
  then show ?thesis using round_update [OF m assms(2), of now] by (simp only:)
qed

lemma round_in_step: "in_step s \<Longrightarrow> known_ids s \<Longrightarrow> in_step (fst (overdue_round order decode now s))"
  using temp_known [of s now] by (simp add: round_result) (auto simp: in_step_def split: if_splits)

end

section \<open>Running\<close>

text \<open>
  What happens to the state: Icinga 2 writes its set, rounds, a restart of the synchronisation after a
  failure that left some rows of a round updated, and rows that the other synchronisations delete and
  insert. An inserted row is not overdue, the default of the column.
\<close>

inductive overdue_step :: "(bytes \<Rightarrow> string) \<Rightarrow> (string \<Rightarrow> (string, bytes) outcome) \<Rightarrow> (string set \<Rightarrow> string list) \<Rightarrow>
    overdue_state \<Rightarrow> overdue_state \<Rightarrow> bool" for encode decode order where
  icinga: "dom next \<subseteq> range encode \<Longrightarrow> finite (dom next) \<Longrightarrow> overdue_step encode decode order s (s\<lparr>nextupdate := next\<rparr>)"
| round: "overdue_round order decode now s = (s', Ok ()) \<Longrightarrow> overdue_step encode decode order s s'"
| restart: "s1 = s\<lparr>is_overdue := (\<lambda>b. if b \<in> D then is_overdue (fst (overdue_round order decode now s)) b else is_overdue s b)\<rparr> \<Longrightarrow>
    set rows = overdue_rows s1 \<Longrightarrow> overdue_step encode decode order s (initSync encode rows s1)"
| row_deleted: "overdue_step encode decode order s (s\<lparr>is_overdue := (is_overdue s)(b := None)\<rparr>)"
| row_inserted: "is_overdue s b = None \<Longrightarrow> encode b \<notin> marked s \<Longrightarrow> overdue_step encode decode order s (s\<lparr>is_overdue := (is_overdue s)(b \<mapsto> False)\<rparr>)"

inductive overdue_reach :: "(bytes \<Rightarrow> string) \<Rightarrow> (string \<Rightarrow> (string, bytes) outcome) \<Rightarrow> (string set \<Rightarrow> string list) \<Rightarrow>
    overdue_state \<Rightarrow> overdue_state \<Rightarrow> bool" for encode decode order where
  init: "overdue_reach encode decode order s s"
| step: "overdue_reach encode decode order s t \<Longrightarrow> overdue_step encode decode order t u \<Longrightarrow> overdue_reach encode decode order s u"

context id_text
begin

lemma step_invariant: "overdue_step encode decode order s s' \<Longrightarrow> in_step s \<and> known_ids s \<Longrightarrow> in_step s' \<and> known_ids s'"
proof (induction rule: overdue_step.induct)
  case (icinga "next" s)
  then show ?case by (simp add: in_step_def known_ids_def)
next
  case (round now s s')
  then have "s' = fst (overdue_round order decode now s)" by simp
  then show ?case using round round_in_step [of s now] by (auto simp: round_result known_ids_def)
next
  case (restart s1 s D now rows)
  then have "known_ids (initSync encode rows s1)" by (simp add: known_ids_def initSync_def)
  then show ?case using init_in_step [OF restart.hyps(2)] by blast
next
  case (row_deleted s b)
  then show ?case by (auto simp: in_step_def known_ids_def)
next
  case (row_inserted s b)
  then show ?case by (auto simp: in_step_def known_ids_def)
qed

lemma reach_invariant: "overdue_reach encode decode order s s' \<Longrightarrow> in_step s \<and> known_ids s \<Longrightarrow> in_step s' \<and> known_ids s'"
  by (induction rule: overdue_reach.induct) (use step_invariant in blast)+

lemma init_reach: "set rows = overdue_rows s \<Longrightarrow> known_ids s \<Longrightarrow> overdue_reach encode decode order (initSync encode rows s) t \<Longrightarrow>
  in_step t \<and> known_ids t"
  using reach_invariant [of "initSync encode rows s" t] init_in_step [of rows s] by (simp add: known_ids_def initSync_def)

lemma round_after_run:
  assumes "set rows = overdue_rows s" and "known_ids s" and "overdue_reach encode decode order (initSync encode rows s) t"
  shows "overdue_round order decode now t =
    (t\<lparr>is_overdue := (\<lambda>b. if b \<in> dom (is_overdue t) then Some (encode b \<in> tempOverdue now t) else None), marked := tempOverdue now t\<rparr>, Ok ())"
  using init_reach [OF assms] round_result by blast

end

section \<open>Properties\<close>

text \<open>C12. The overdue indicators of the database and the marks in Redis do not drift apart: whatever the database held at the
  start, after any number of rounds, of restarts in the middle of a round, and of changes by Icinga 2, a round makes
  exactly those rows overdue whose next update is past, and marks exactly the overdue objects. Rows may be deleted
  and inserted in between, unless a row is inserted for an object that is marked already.\<close>

theorem overdue_round_correct:
  assumes "\<And>b. decode (encode b) = Ok b" and "\<And>I. finite I \<Longrightarrow> set (order I) = I"
    and "set rows = overdue_rows s" and "dom (nextupdate s) \<subseteq> range encode" and "finite (dom (nextupdate s))"
    and "overdue_reach encode decode order (initSync encode rows s) t"
  shows "\<exists>u. overdue_round order decode now t = (u, Ok ()) \<and> dom (is_overdue u) = dom (is_overdue t) \<and>
    (\<forall>b \<in> dom (is_overdue t). is_overdue u b = Some (\<exists>next. nextupdate t (encode b) = Some next \<and> next < now)) \<and>
    marked u = {i. \<exists>next. nextupdate t i = Some next \<and> next < now}"
proof -
  have l: "id_text encode decode order" using assms(1,2) by unfold_locales
  have "id_text.known_ids encode s" using assms(4,5) by (simp add: id_text.known_ids_def [OF l])
  note r = id_text.round_after_run [OF l assms(3) this assms(6), of now]
  have t: "tempOverdue now t = {i. \<exists>next. nextupdate t i = Some next \<and> next < now}"
    by (auto simp: tempOverdue_def split: option.splits)
  let ?u = "t\<lparr>is_overdue := (\<lambda>b. if b \<in> dom (is_overdue t) then Some (encode b \<in> tempOverdue now t) else None), marked := tempOverdue now t\<rparr>"
  have "overdue_round order decode now t = (?u, Ok ())" by (rule r)
  moreover have "dom (is_overdue ?u) = dom (is_overdue t)" by (auto simp: dom_def)
  ultimately show ?thesis by (intro exI [of _ ?u]) (simp add: t)
qed

text \<open>C40. A row that is inserted after its object was marked is not repaired: the synchronisation of the states may insert the
  row of a host only after a round has found the host overdue and the update has met no row. Then the row says that the
  host is not overdue, and no round changes that as long as the host stays overdue.\<close>

theorem overdue_row_inserted_late:
  assumes "\<And>b. decode (encode b) = Ok b" and "\<And>I. finite I \<Longrightarrow> set (order I) = I"
    and "set rows = overdue_rows s" and "dom (nextupdate s) \<subseteq> range encode" and "finite (dom (nextupdate s))"
    and "overdue_reach encode decode order (initSync encode rows s) t"
    and "encode b \<in> marked t" and "nextupdate t (encode b) = Some due" and "due < now"
  shows "\<exists>u. overdue_round order decode now (t\<lparr>is_overdue := (is_overdue t)(b \<mapsto> False)\<rparr>) = (u, Ok ()) \<and>
    is_overdue u b = Some False \<and> encode b \<in> marked u"
proof -
  have l: "id_text encode decode order" using assms(1,2) by unfold_locales
  have k: "id_text.known_ids encode s" using assms(4,5) by (simp add: id_text.known_ids_def [OF l])
  have t: "id_text.in_step encode t" "id_text.known_ids encode t" using id_text.init_reach [OF l assms(3) k assms(6)] by auto
  let ?t = "t\<lparr>is_overdue := (is_overdue t)(b \<mapsto> False)\<rparr>"
  have "marked ?t \<subseteq> range encode" "finite (marked ?t)" using t(1) by (simp_all add: id_text.in_step_def [OF l])
  moreover have "id_text.known_ids encode ?t" using t(2) by (simp add: id_text.known_ids_def [OF l])
  moreover have "encode b \<in> tempOverdue now ?t" using assms(8,9) by (simp add: tempOverdue_def)
  ultimately show ?thesis using id_text.round_update [OF l, of ?t now] assms(7) by simp
qed

section \<open>Witnesses\<close>

text \<open>A text form with one character for a byte, and the members in alphabetic order.\<close>

definition byte_text :: "bytes \<Rightarrow> string" where
  "byte_text b = map (\<lambda>x. char_of (unat x)) b"

definition text_bytes :: "string \<Rightarrow> (string, bytes) outcome" where
  "text_bytes s = Ok (map (\<lambda>c. of_nat (of_char c)) s)"

lemma text_byte [simp]: "text_bytes (byte_text b) = Ok b"
proof -
  have "(of_nat (of_char (char_of (unat x) :: char)) :: 8 word) = x" for x :: "8 word"
  proof -
    have "unat x < 256" using unsigned_less [of x] by simp
    then show ?thesis by (simp add: of_char_of)
  qed
  then show ?thesis by (simp add: text_bytes_def byte_text_def map_idI)
qed

interpretation byte_ids: id_text byte_text text_bytes sorted_list_of_set
  by unfold_locales simp_all

definition sample_overdue :: overdue_state where
  "sample_overdue = \<lparr>nextupdate = [byte_text [1] \<mapsto> 5, byte_text [2] \<mapsto> 9], marked = {}, is_overdue = [[1] \<mapsto> False, [2] \<mapsto> True]\<rparr>"

lemma sample_rows: "set [[2]] = overdue_rows sample_overdue"
  by (auto simp: overdue_rows_def sample_overdue_def)

theorem overdue_round_correct_witness:
  "\<exists>u. overdue_round sorted_list_of_set text_bytes 7 (initSync byte_text [[2]] sample_overdue) = (u, Ok ()) \<and>
    is_overdue u [1] = Some True \<and> is_overdue u [2] = Some False"
proof -
  let ?t = "initSync byte_text [[2]] sample_overdue"
  obtain u where "overdue_round sorted_list_of_set text_bytes 7 ?t = (u, Ok ())"
    "\<forall>b \<in> dom (is_overdue ?t). is_overdue u b = Some (\<exists>next. nextupdate ?t (byte_text b) = Some next \<and> next < 7)"
    using overdue_round_correct [of text_bytes byte_text sorted_list_of_set "[[2]]" sample_overdue ?t 7] sample_rows overdue_reach.init
    by (auto simp: sample_overdue_def)
  then show ?thesis by (intro exI [of _ u]) (simp add: initSync_def sample_overdue_def byte_ids.encode_inj)
qed

definition sample_unknown :: overdue_state where
  "sample_unknown = \<lparr>nextupdate = [byte_text [1] \<mapsto> 5], marked = {}, is_overdue = Map.empty\<rparr>"

theorem overdue_row_inserted_late_witness:
  "\<exists>t u. overdue_step byte_text text_bytes sorted_list_of_set (initSync byte_text [] sample_unknown) t \<and>
    overdue_round sorted_list_of_set text_bytes 8 (t\<lparr>is_overdue := (is_overdue t)([1] \<mapsto> False)\<rparr>) = (u, Ok ()) \<and> is_overdue u [1] = Some False"
proof -
  let ?s = "initSync byte_text [] sample_unknown"
  have rows: "set [] = overdue_rows sample_unknown" by (simp add: overdue_rows_def sample_unknown_def)
  have ids: "dom (nextupdate sample_unknown) \<subseteq> range byte_text" "finite (dom (nextupdate sample_unknown))" by (auto simp: sample_unknown_def)
  let ?t = "?s\<lparr>marked := {byte_text [1]}\<rparr>"
  have "tempOverdue 7 ?s = {byte_text [1]}" by (auto simp: tempOverdue_def initSync_def sample_unknown_def)
  then have "overdue_round sorted_list_of_set text_bytes 7 ?s = (?t, Ok ())"
    using byte_ids.round_update [of ?s 7] ids by (simp add: byte_ids.known_ids_def initSync_def sample_unknown_def)
  then have step: "overdue_step byte_text text_bytes sorted_list_of_set ?s ?t" by (rule overdue_step.round)
  then have reach: "overdue_reach byte_text text_bytes sorted_list_of_set ?s ?t" by (rule overdue_reach.step [OF overdue_reach.init])
  have "\<exists>u. overdue_round sorted_list_of_set text_bytes 8 (?t\<lparr>is_overdue := (is_overdue ?t)([1] \<mapsto> False)\<rparr>) = (u, Ok ()) \<and>
      is_overdue u [1] = Some False \<and> byte_text [1] \<in> marked u"
    by (rule overdue_row_inserted_late [OF _ _ rows ids reach, where due = 5]) (simp_all add: initSync_def sample_unknown_def)
  then show ?thesis using step by blast
qed

end
