(* ===== verification/Runtime_Updates.thy ===== *)
theory Runtime_Updates
  imports Delta
begin

text \<open>
  The runtime updates: \<open>pkg/icingadb/runtime_updates.go\<close>. A reader takes the messages of a Redis stream in
  order and gives each to the lane of its object type; a lane turns it into an upsert or a delete, which
  two workers execute. There is a reader with lanes for the database and, with \<open>WithRUUpsert\<close>, another one
  for the callback. Parameter: \<open>structifier\<close>, the decoding of a message into an entity.
\<close>

section \<open>Messages\<close>

datatype ru_op = RUpsert entity | RDelete bytes

text \<open>\<open>structifyStream\<close>, one message.\<close>

definition structify_message :: "((string \<rightharpoonup> any) \<Rightarrow> (string, entity) outcome) \<Rightarrow> xmessage \<Rightarrow> (string, ru_op) outcome" where
  "structify_message structifier message =
     bind_outcome (structifier (msg_Values message))
       (\<lambda>entity.
          case msg_Values message ''runtime_type'' of
            None \<Rightarrow> Err ''stream message missing 'runtime_type' key''
          | Some runtimeType \<Rightarrow>
              if runtimeType = AString ''upsert'' then Ok (RUpsert entity)
              else if runtimeType = AString ''delete'' then Ok (RDelete (id_key entity))
              else Err ''invalid runtime type'')"

text \<open>\<open>xRead\<close>: the channel that a message is sent to.\<close>

definition message_channel :: "string set \<Rightarrow> xmessage \<Rightarrow> (string, string) outcome" where
  "message_channel updateMessagesByKey message =
     (case msg_Values message ''redis_key'' of
        Some (AString redisKey) \<Rightarrow>
          if redisKey \<in> updateMessagesByKey then Ok redisKey else Err ''no object type found''
      | _ \<Rightarrow> Err ''redis_key stream message key is not string'')"

section \<open>A lane\<close>

text \<open>
  The channel of messages, whether \<open>structifyStream\<close> waits for the serializer, the channels \<open>upsertEntities\<close> and
  \<open>deleteIds\<close> with what the workers have taken from them, and the state that the workers change.
\<close>

record 's lane =
  ln_in :: "xmessage list"
  ln_wait :: bool
  ln_upserts :: "entity list"
  ln_deletes :: "bytes list"
  ln_state :: 's

definition new_lane :: "'s \<Rightarrow> 's lane" where
  "new_lane s = \<lparr>ln_in = [], ln_wait = False, ln_upserts = [], ln_deletes = [], ln_state = s\<rparr>"

fun dispatch_op :: "ru_op \<Rightarrow> 's lane \<Rightarrow> 's lane" where
  "dispatch_op (RUpsert e) l = l\<lparr>ln_upserts := ln_upserts l @ [e]\<rparr>"
| "dispatch_op (RDelete i) l = l\<lparr>ln_deletes := ln_deletes l @ [i]\<rparr>"

text \<open>Without a serializer the receive from the closed channel returns at once.\<close>

inductive lane_step :: "((string \<rightharpoonup> any) \<Rightarrow> (string, entity) outcome) \<Rightarrow> (ru_op \<Rightarrow> 's \<Rightarrow> 's) \<Rightarrow> bool \<Rightarrow> 's lane \<Rightarrow> 's lane \<Rightarrow> bool"
  for structifier exec serialized where
  structify: "\<not> ln_wait l \<Longrightarrow> ln_in l = m # ms \<Longrightarrow> structify_message structifier m = Ok op \<Longrightarrow>
    lane_step structifier exec serialized l (dispatch_op op (l\<lparr>ln_in := ms, ln_wait := serialized\<rparr>))"
| upsert: "ln_upserts l = e # es \<Longrightarrow>
    lane_step structifier exec serialized l (l\<lparr>ln_upserts := es, ln_state := exec (RUpsert e) (ln_state l), ln_wait := False\<rparr>)"
| delete: "ln_deletes l = i # is \<Longrightarrow>
    lane_step structifier exec serialized l (l\<lparr>ln_deletes := is, ln_state := exec (RDelete i) (ln_state l), ln_wait := False\<rparr>)"

text \<open>The workers of the database execute statements on the table of the type; those of the callback call it for upserts.\<close>

fun exec_table :: "ru_op \<Rightarrow> (bytes \<rightharpoonup> entity) \<Rightarrow> bytes \<rightharpoonup> entity" where
  "exec_table (RUpsert e) table = table(id_key e \<mapsto> e)"
| "exec_table (RDelete i) table = table(i := None)"

fun exec_callback :: "ru_op \<Rightarrow> entity list \<Rightarrow> entity list" where
  "exec_callback (RUpsert e) calls = calls @ [e]"
| "exec_callback (RDelete i) calls = calls"

section \<open>Reader and lanes\<close>

text \<open>How many messages were sent to the lanes and how many acknowledged.\<close>

record 's consumer =
  cs_sent :: nat
  cs_acked :: nat
  cs_lanes :: "string \<rightharpoonup> 's lane"

inductive consumer_step :: "((string \<rightharpoonup> any) \<Rightarrow> (string, entity) outcome) \<Rightarrow> (ru_op \<Rightarrow> 's \<Rightarrow> 's) \<Rightarrow> bool \<Rightarrow> xmessage list \<Rightarrow>
    's consumer \<Rightarrow> 's consumer \<Rightarrow> bool" for structifier exec serialized stream where
  send: "cs_sent c < length stream \<Longrightarrow> cs_acked c = cs_sent c \<Longrightarrow>
    message_channel (dom (cs_lanes c)) (stream ! cs_sent c) = Ok k \<Longrightarrow> cs_lanes c k = Some l \<Longrightarrow>
    consumer_step structifier exec serialized stream c
      (c\<lparr>cs_sent := Suc (cs_sent c), cs_lanes := (cs_lanes c)(k \<mapsto> l\<lparr>ln_in := ln_in l @ [stream ! cs_sent c]\<rparr>)\<rparr>)"
| ack: "cs_acked c < cs_sent c \<Longrightarrow> consumer_step structifier exec serialized stream c (c\<lparr>cs_acked := Suc (cs_acked c)\<rparr>)"
| lane: "cs_lanes c k = Some l \<Longrightarrow> lane_step structifier exec serialized l l' \<Longrightarrow>
    consumer_step structifier exec serialized stream c (c\<lparr>cs_lanes := (cs_lanes c)(k \<mapsto> l')\<rparr>)"

definition new_consumer :: "(string \<rightharpoonup> 's) \<Rightarrow> 's consumer" where
  "new_consumer states = \<lparr>cs_sent = 0, cs_acked = 0, cs_lanes = (\<lambda>k. map_option new_lane (states k))\<rparr>"

section \<open>The whole synchronisation\<close>

text \<open>
  The stream since \<open>ClearStreams\<close>, how many of its messages were deleted, the consumer of the database and
  that of the callback. \<open>XDelOnAllConsumersAck\<close> deletes a message that all consumers have acknowledged.
\<close>

record ru_sync =
  ru_stream :: "xmessage list"
  ru_deleted :: nat
  ru_main :: "(bytes \<rightharpoonup> entity) consumer"
  ru_callback :: "entity list consumer option"

inductive ru_step :: "((string \<rightharpoonup> any) \<Rightarrow> (string, entity) outcome) \<Rightarrow> bool \<Rightarrow> ru_sync \<Rightarrow> ru_sync \<Rightarrow> bool"
  for structifier allowParallel where
  xadd: "ru_step structifier allowParallel s (s\<lparr>ru_stream := ru_stream s @ [m]\<rparr>)"
| main: "consumer_step structifier exec_table (\<not> allowParallel) (ru_stream s) (ru_main s) c \<Longrightarrow>
    ru_step structifier allowParallel s (s\<lparr>ru_main := c\<rparr>)"
| callback: "ru_callback s = Some c \<Longrightarrow> consumer_step structifier exec_callback True (ru_stream s) c c' \<Longrightarrow>
    ru_step structifier allowParallel s (s\<lparr>ru_callback := Some c'\<rparr>)"
| xdel: "ru_deleted s < cs_acked (ru_main s) \<Longrightarrow> (\<forall>c. ru_callback s = Some c \<longrightarrow> ru_deleted s < cs_acked c) \<Longrightarrow>
    ru_step structifier allowParallel s (s\<lparr>ru_deleted := Suc (ru_deleted s)\<rparr>)"

definition ru_start :: "(string \<rightharpoonup> bytes \<rightharpoonup> entity) \<Rightarrow> bool \<Rightarrow> ru_sync" where
  "ru_start tables upsertFn =
     \<lparr>ru_stream = [], ru_deleted = 0, ru_main = new_consumer tables,
      ru_callback = (if upsertFn then Some (new_consumer (\<lambda>k. map_option (\<lambda>_. []) (tables k))) else None)\<rparr>"

inductive ru_reach :: "((string \<rightharpoonup> any) \<Rightarrow> (string, entity) outcome) \<Rightarrow> bool \<Rightarrow> ru_sync \<Rightarrow> ru_sync \<Rightarrow> bool"
  for structifier allowParallel where
  start: "ru_reach structifier allowParallel s s"
| step: "ru_reach structifier allowParallel s t \<Longrightarrow> ru_step structifier allowParallel t u \<Longrightarrow> ru_reach structifier allowParallel s u"

inductive_cases lane_stepE: "lane_step structifier exec serialized l l'"

section \<open>The order of a lane\<close>

definition message_ops :: "((string \<rightharpoonup> any) \<Rightarrow> (string, entity) outcome) \<Rightarrow> xmessage \<Rightarrow> ru_op list" where
  "message_ops structifier m = (case structify_message structifier m of Ok op \<Rightarrow> [op] | Err e \<Rightarrow> [] | Panic p \<Rightarrow> [])"

definition ru_ops :: "((string \<rightharpoonup> any) \<Rightarrow> (string, entity) outcome) \<Rightarrow> xmessage list \<Rightarrow> ru_op list" where
  "ru_ops structifier ms = concat (map (message_ops structifier) ms)"

lemma ru_ops_append [simp]: "ru_ops structifier (xs @ ys) = ru_ops structifier xs @ ru_ops structifier ys"
  by (simp add: ru_ops_def)

lemma ru_ops_Nil [simp]: "ru_ops structifier [] = []"
  by (simp add: ru_ops_def)

definition lane_pending :: "((string \<rightharpoonup> any) \<Rightarrow> (string, entity) outcome) \<Rightarrow> 's lane \<Rightarrow> ru_op list" where
  "lane_pending structifier l = map RUpsert (ln_upserts l) @ map RDelete (ln_deletes l) @ ru_ops structifier (ln_in l)"

text \<open>At most one operation is under way, or there are only upserts.\<close>

definition lane_ordered :: "((string \<rightharpoonup> any) \<Rightarrow> (string, entity) outcome) \<Rightarrow> bool \<Rightarrow> 's lane \<Rightarrow> bool" where
  "lane_ordered structifier serialized l \<longleftrightarrow>
     (if serialized then length (ln_upserts l) + length (ln_deletes l) = (if ln_wait l then 1 else 0)
      else ln_deletes l = [] \<and> (\<forall>i. RDelete i \<notin> set (ru_ops structifier (ln_in l))))"

lemma lane_step_order:
  assumes "lane_step structifier exec serialized l l'" and "lane_ordered structifier serialized l"
  shows "lane_ordered structifier serialized l' \<and>
    fold exec (lane_pending structifier l') (ln_state l') = fold exec (lane_pending structifier l) (ln_state l)"
  using assms
proof (cases rule: lane_step.cases)
  case (structify m ms op)
  have ops: "ru_ops structifier (ln_in l) = op # ru_ops structifier ms"
    using structify by (simp add: ru_ops_def message_ops_def)
  show ?thesis
  proof (cases op)
    case (RUpsert e)
    have "ln_deletes l = []" using assms(2) structify(2) by (auto simp: lane_ordered_def split: if_splits)
    then show ?thesis using assms(2) structify RUpsert ops by (auto simp: lane_ordered_def lane_pending_def split: if_splits)
  next
    case (RDelete i)
    have s: serialized using assms(2) RDelete ops by (auto simp: lane_ordered_def split: if_splits)
    then have "ln_upserts l = []" "ln_deletes l = []" using assms(2) structify(2) by (auto simp: lane_ordered_def)
    then show ?thesis using s structify RDelete ops by (simp add: lane_ordered_def lane_pending_def)
  qed
next
  case (upsert e es)
  then show ?thesis using assms(2) by (auto simp: lane_ordered_def lane_pending_def split: if_splits)
next
  case (delete i "is")
  then have "serialized" "ln_upserts l = []" "is = []" using assms(2) by (auto simp: lane_ordered_def split: if_splits)
  then show ?thesis using delete by (simp add: lane_ordered_def lane_pending_def)
qed

section \<open>The order of a consumer\<close>

definition lane_messages :: "string set \<Rightarrow> string \<Rightarrow> xmessage list \<Rightarrow> xmessage list" where
  "lane_messages keys k ms = filter (\<lambda>m. message_channel keys m = Ok k) ms"

definition only_upserts :: "((string \<rightharpoonup> any) \<Rightarrow> (string, entity) outcome) \<Rightarrow> xmessage list \<Rightarrow> bool" where
  "only_upserts structifier ms \<longleftrightarrow> (\<forall>i. RDelete i \<notin> set (ru_ops structifier ms))"

lemma only_upserts_append [simp]:
  "only_upserts structifier (xs @ ys) \<longleftrightarrow> only_upserts structifier xs \<and> only_upserts structifier ys"
  by (auto simp: only_upserts_def)

definition consumer_inv :: "((string \<rightharpoonup> any) \<Rightarrow> (string, entity) outcome) \<Rightarrow> (ru_op \<Rightarrow> 's \<Rightarrow> 's) \<Rightarrow> bool \<Rightarrow> (string \<rightharpoonup> 's) \<Rightarrow> xmessage list \<Rightarrow>
    's consumer \<Rightarrow> bool" where
  "consumer_inv structifier exec serialized states stream c \<longleftrightarrow>
     dom (cs_lanes c) = dom states \<and> cs_acked c \<le> cs_sent c \<and> cs_sent c \<le> length stream \<and>
     (\<forall>k s0. states k = Some s0 \<longrightarrow> (serialized \<or> only_upserts structifier (lane_messages (dom states) k (take (cs_sent c) stream))) \<longrightarrow>
        (\<exists>l. cs_lanes c k = Some l \<and> lane_ordered structifier serialized l \<and>
          fold exec (lane_pending structifier l) (ln_state l) =
            fold exec (ru_ops structifier (lane_messages (dom states) k (take (cs_sent c) stream))) s0))"

lemma new_consumer_inv: "consumer_inv structifier exec serialized states stream (new_consumer states)"
proof -
  have "dom (\<lambda>k. map_option new_lane (states k)) = dom states" by (auto simp: dom_def)
  then show ?thesis
    by (auto simp: consumer_inv_def new_consumer_def new_lane_def lane_messages_def lane_ordered_def lane_pending_def)
qed

lemma consumer_inv_xadd:
  "consumer_inv structifier exec serialized states stream c \<Longrightarrow> consumer_inv structifier exec serialized states (stream @ [m]) c"
  by (simp add: consumer_inv_def)

lemma consumer_step_inv:
  assumes "consumer_step structifier exec serialized stream c c'" and inv: "consumer_inv structifier exec serialized states stream c"
  shows "consumer_inv structifier exec serialized states stream c'"
  using assms(1)
proof cases
  case (send k l)
  let ?m = "stream ! cs_sent c"
  have dom: "dom (cs_lanes c) = dom states" using inv by (simp add: consumer_inv_def)
  have take: "take (Suc (cs_sent c)) stream = take (cs_sent c) stream @ [?m]" using send(2) by (rule take_Suc_conv_app_nth)
  have msgs: "lane_messages (dom states) k' (take (Suc (cs_sent c)) stream) =
      lane_messages (dom states) k' (take (cs_sent c) stream) @ (if k' = k then [?m] else [])" for k'
    using send(4) dom by (auto simp: take lane_messages_def)
  have "\<exists>l'. cs_lanes c' k' = Some l' \<and> lane_ordered structifier serialized l' \<and>
      fold exec (lane_pending structifier l') (ln_state l') =
        fold exec (ru_ops structifier (lane_messages (dom states) k' (take (cs_sent c') stream))) s0"
    if st: "states k' = Some s0" "serialized \<or> only_upserts structifier (lane_messages (dom states) k' (take (cs_sent c') stream))" for k' s0
  proof -
    have sent: "cs_sent c' = Suc (cs_sent c)" using send(1) by simp
    have "serialized \<or> only_upserts structifier (lane_messages (dom states) k' (take (cs_sent c) stream))"
      using st(2) unfolding sent msgs by auto
    then obtain l0 where l0: "cs_lanes c k' = Some l0" "lane_ordered structifier serialized l0"
      "fold exec (lane_pending structifier l0) (ln_state l0) = fold exec (ru_ops structifier (lane_messages (dom states) k' (take (cs_sent c) stream))) s0"
      using inv st(1) unfolding consumer_inv_def by blast
    show ?thesis
    proof (cases "k' = k")
      case True
      have new: "serialized \<or> only_upserts structifier [?m]" using st(2) True unfolding sent msgs by auto
      have "lane_ordered structifier serialized (l0\<lparr>ln_in := ln_in l0 @ [?m]\<rparr>)"
        using l0(2) new by (auto simp: lane_ordered_def only_upserts_def)
      then show ?thesis using l0 send(1,5) True unfolding sent msgs by (simp add: lane_pending_def)
    next
      case False
      then show ?thesis using l0 send(1) unfolding sent msgs by simp
    qed
  qed
  moreover have "dom (cs_lanes c') = dom states" using send(1,5) dom by auto
  ultimately show ?thesis using send(1,2,3) by (simp add: consumer_inv_def)
next
  case ack
  then show ?thesis using inv by (auto simp: consumer_inv_def)
next
  case (lane k l l')
  have "\<exists>x. cs_lanes c' k' = Some x \<and> lane_ordered structifier serialized x \<and>
      fold exec (lane_pending structifier x) (ln_state x) =
        fold exec (ru_ops structifier (lane_messages (dom states) k' (take (cs_sent c') stream))) s0"
    if st: "states k' = Some s0" "serialized \<or> only_upserts structifier (lane_messages (dom states) k' (take (cs_sent c') stream))" for k' s0
  proof -
    obtain l0 where l0: "cs_lanes c k' = Some l0" "lane_ordered structifier serialized l0"
      "fold exec (lane_pending structifier l0) (ln_state l0) = fold exec (ru_ops structifier (lane_messages (dom states) k' (take (cs_sent c) stream))) s0"
      using inv st lane(1) unfolding consumer_inv_def by fastforce
    show ?thesis
    proof (cases "k' = k")
      case True
      then have "l0 = l" using l0(1) lane(2) by simp
      then show ?thesis using lane_step_order [OF lane(3)] l0 True lane(1) by simp
    qed (use l0 lane(1) in simp)
  qed
  moreover have "dom (cs_lanes c') = dom states" using inv lane(1,2) by (auto simp: consumer_inv_def)
  ultimately show ?thesis using inv lane(1) by (simp add: consumer_inv_def)
qed

definition callback_states :: "(string \<rightharpoonup> 's) \<Rightarrow> string \<rightharpoonup> entity list" where
  "callback_states tables = (\<lambda>k. map_option (\<lambda>_. []) (tables k))"

definition ru_inv :: "((string \<rightharpoonup> any) \<Rightarrow> (string, entity) outcome) \<Rightarrow> bool \<Rightarrow> (string \<rightharpoonup> bytes \<rightharpoonup> entity) \<Rightarrow> ru_sync \<Rightarrow> bool" where
  "ru_inv structifier allowParallel tables s \<longleftrightarrow>
     consumer_inv structifier exec_table (\<not> allowParallel) tables (ru_stream s) (ru_main s) \<and> ru_deleted s \<le> cs_acked (ru_main s) \<and>
     (\<forall>c. ru_callback s = Some c \<longrightarrow> consumer_inv structifier exec_callback True (callback_states tables) (ru_stream s) c \<and>
        ru_deleted s \<le> cs_acked c)"

lemma acked_mono: "consumer_step structifier exec serialized stream c c' \<Longrightarrow> cs_acked c \<le> cs_acked c'"
  by (induction rule: consumer_step.induct) simp_all

lemma ru_step_inv: "ru_step structifier allowParallel s s' \<Longrightarrow> ru_inv structifier allowParallel tables s \<Longrightarrow> ru_inv structifier allowParallel tables s'"
proof (induction rule: ru_step.induct)
  case (main s c)
  then show ?case using consumer_step_inv [OF main.hyps] acked_mono [OF main.hyps] by (auto simp: ru_inv_def)
next
  case (callback s c c')
  then show ?case using consumer_step_inv [OF callback.hyps(2)] acked_mono [OF callback.hyps(2)] by (auto simp: ru_inv_def)
qed (auto simp: ru_inv_def consumer_inv_xadd)

lemma ru_reach_inv: "ru_reach structifier allowParallel s s' \<Longrightarrow> ru_inv structifier allowParallel tables s \<Longrightarrow> ru_inv structifier allowParallel tables s'"
  by (induction rule: ru_reach.induct) (use ru_step_inv in blast)+

lemma ru_start_inv: "ru_inv structifier allowParallel tables (ru_start tables upsertFn)"
  using new_consumer_inv [of structifier exec_callback True "callback_states tables" "[]"]
    new_consumer_inv [of structifier exec_table "\<not> allowParallel" tables "[]"]
  by (auto simp: ru_inv_def ru_start_def callback_states_def new_consumer_def)

section \<open>Properties\<close>

definition lane_idle :: "'s lane \<Rightarrow> bool" where
  "lane_idle l \<longleftrightarrow> ln_in l = [] \<and> ln_upserts l = [] \<and> ln_deletes l = []"

lemma idle_pending [simp]: "lane_idle l \<Longrightarrow> lane_pending structifier l = []"
  by (simp add: lane_idle_def lane_pending_def)

lemma main_in_order:
  assumes "ru_reach structifier allowParallel (ru_start tables upsertFn) s"
    and "tables k = Some t0" and "cs_lanes (ru_main s) k = Some l" and "lane_idle l"
    and "\<not> allowParallel \<or> only_upserts structifier (lane_messages (dom tables) k (take (cs_sent (ru_main s)) (ru_stream s)))"
  shows "ln_state l = fold exec_table (ru_ops structifier (lane_messages (dom tables) k (take (cs_sent (ru_main s)) (ru_stream s)))) t0"
proof -
  have "consumer_inv structifier exec_table (\<not> allowParallel) tables (ru_stream s) (ru_main s)"
    using ru_reach_inv [OF assms(1) ru_start_inv] by (simp add: ru_inv_def)
  then obtain x where "cs_lanes (ru_main s) k = Some x" "fold exec_table (lane_pending structifier x) (ln_state x) =
      fold exec_table (ru_ops structifier (lane_messages (dom tables) k (take (cs_sent (ru_main s)) (ru_stream s)))) t0"
    using assms(2,5) unfolding consumer_inv_def by blast
  then show ?thesis using assms(3,4) by simp
qed

text \<open>Runtime updates are applied in order: whenever the lane of a type has nothing left to do, its table is what the messages
  sent to it make of the table it began with, one after the other in the order of the stream, unless both
  \<open>WithAllowParallel\<close> is set and there are deletes. And no message is deleted from Redis before it was sent to its
  lane, in both consumers.\<close>

theorem runtime_updates_in_order:
  assumes "ru_reach structifier allowParallel (ru_start tables upsertFn) s"
    and "tables k = Some t0" and "cs_lanes (ru_main s) k = Some l" and "lane_idle l"
    and "\<not> allowParallel \<or> only_upserts structifier (lane_messages (dom tables) k (take (cs_sent (ru_main s)) (ru_stream s)))"
  shows "ln_state l = fold exec_table (ru_ops structifier (lane_messages (dom tables) k (take (cs_sent (ru_main s)) (ru_stream s)))) t0 \<and>
    ru_deleted s \<le> cs_sent (ru_main s) \<and> (\<forall>c. ru_callback s = Some c \<longrightarrow> ru_deleted s \<le> cs_sent c)"
proof -
  have "ru_inv structifier allowParallel tables s" by (rule ru_reach_inv [OF assms(1) ru_start_inv])
  then have "ru_deleted s \<le> cs_sent (ru_main s)" "\<forall>c. ru_callback s = Some c \<longrightarrow> ru_deleted s \<le> cs_sent c"
    unfolding ru_inv_def consumer_inv_def by (meson le_trans)+
  then show ?thesis using main_in_order [OF assms] by blast
qed

text \<open>The callback of \<open>WithRUUpsert\<close> is called for each upsert of a type exactly once and in the order of the stream, also
  when the database works in parallel.\<close>

theorem runtime_callback_in_order:
  assumes "ru_reach structifier allowParallel (ru_start tables True) s"
    and "tables k = Some t0" and "ru_callback s = Some c" and "cs_lanes c k = Some l" and "lane_idle l"
  shows "ln_state l = concat (map (\<lambda>op. case op of RUpsert e \<Rightarrow> [e] | RDelete i \<Rightarrow> [])
    (ru_ops structifier (lane_messages (dom tables) k (take (cs_sent c) (ru_stream s)))))"
proof -
  have d: "dom (callback_states tables) = dom tables" by (auto simp: callback_states_def)
  have "consumer_inv structifier exec_callback True (callback_states tables) (ru_stream s) c"
    using ru_reach_inv [OF assms(1) ru_start_inv] assms(3) by (simp add: ru_inv_def)
  moreover have "callback_states tables k = Some []" using assms(2) by (simp add: callback_states_def)
  ultimately obtain x where "cs_lanes c k = Some x" "fold exec_callback (lane_pending structifier x) (ln_state x) =
      fold exec_callback (ru_ops structifier (lane_messages (dom tables) k (take (cs_sent c) (ru_stream s)))) []"
    unfolding consumer_inv_def d by blast
  moreover have "fold exec_callback ops calls = calls @ concat (map (\<lambda>op. case op of RUpsert e \<Rightarrow> [e] | RDelete i \<Rightarrow> []) ops)" for ops calls
    by (induction ops arbitrary: calls) (auto split: ru_op.splits)
  ultimately show ?thesis using assms(4,5) by simp
qed

text \<open>What an operation touches.\<close>

fun ru_key :: "ru_op \<Rightarrow> bytes" where
  "ru_key (RUpsert e) = id_key e"
| "ru_key (RDelete i) = i"

lemma fold_untouched: "i \<notin> ru_key ` set ops \<Longrightarrow> fold exec_table ops t i = t i"
proof (induction ops arbitrary: t)
  case (Cons op ops)
  then show ?case by (cases op) simp_all
qed simp

lemma fold_touched: "i \<in> ru_key ` set ops \<Longrightarrow> fold exec_table ops t i = fold exec_table ops u i"
proof (induction ops arbitrary: t u)
  case (Cons op ops)
  show ?case
  proof (cases "i \<in> ru_key ` set ops")
    case False
    then show ?thesis using Cons.prems by (cases op) (simp_all add: fold_untouched)
  qed (use Cons in simp)
qed simp

lemma catch_up_row:
  assumes "t i = fold exec_table (take n ops) h i"
  shows "fold exec_table ops t i = fold exec_table ops h i"
proof (cases "i \<in> ru_key ` set ops")
  case True
  then show ?thesis by (rule fold_touched)
next
  case False
  then have "i \<notin> ru_key ` set (take n ops)" using set_take_subset [of n ops] by blast
  then show ?thesis using assms False by (simp add: fold_untouched)
qed

text \<open>The synchronisation misses nothing: the streams are cleared first, then the rows are synchronised while Icinga 2 goes on
  changing them in Redis, so that each row may come from another moment, and then the runtime updates since the
  clearing are applied. When they are done, the table is the final content of Redis.\<close>

theorem runtime_updates_catch_up:
  assumes "ru_reach structifier False (ru_start tables upsertFn) s"
    and "changes = ru_ops structifier (lane_messages (dom tables) k (ru_stream s))"
    and "tables k = Some (\<lambda>i. fold exec_table (take (moment i) changes) redis i)"
    and "cs_sent (ru_main s) = length (ru_stream s)" and "cs_lanes (ru_main s) k = Some l" and "lane_idle l"
  shows "ln_state l = fold exec_table changes redis"
proof -
  have "ln_state l = fold exec_table changes (\<lambda>i. fold exec_table (take (moment i) changes) redis i)"
    using main_in_order [OF assms(1,3,5,6)] assms(4) by (simp add: assms(2))
  also have "\<dots> = fold exec_table changes redis" by (rule ext) (rule catch_up_row [OF refl])
  finally show ?thesis .
qed

section \<open>Runs with one type\<close>

definition host_key :: string where
  "host_key = ''icinga:host''"

definition host_message :: "string \<Rightarrow> xmessage" where
  "host_message typ = \<lparr>msg_ID = ''1-1'', msg_Values = [''redis_key'' \<mapsto> AString host_key, ''runtime_type'' \<mapsto> AString typ]\<rparr>"

definition host_structifier :: "(string \<rightharpoonup> any) \<Rightarrow> (string, entity) outcome" where
  "host_structifier v = Ok (sample_entity 1 1)"

definition host_sync :: "xmessage list \<Rightarrow> nat \<Rightarrow> nat \<Rightarrow> (bytes \<rightharpoonup> entity) lane \<Rightarrow> entity list consumer option \<Rightarrow> ru_sync" where
  "host_sync stream n a l cb = \<lparr>ru_stream = stream, ru_deleted = 0,
     ru_main = \<lparr>cs_sent = n, cs_acked = a, cs_lanes = [host_key \<mapsto> l]\<rparr>, ru_callback = cb\<rparr>"

definition host_lane :: "xmessage list \<Rightarrow> bool \<Rightarrow> entity list \<Rightarrow> bytes list \<Rightarrow> 's \<Rightarrow> 's lane" where
  "host_lane ms w es is t = \<lparr>ln_in = ms, ln_wait = w, ln_upserts = es, ln_deletes = is, ln_state = t\<rparr>"

lemma host_message_channel [simp]: "message_channel {host_key} (host_message typ) = Ok host_key"
  by (simp add: message_channel_def host_message_def)

lemma host_upsert [simp]: "structify_message host_structifier (host_message ''upsert'') = Ok (RUpsert (sample_entity 1 1))"
  by (simp add: structify_message_def host_structifier_def host_message_def)

lemma host_delete [simp]: "structify_message host_structifier (host_message ''delete'') = Ok (RDelete (id_key (sample_entity 1 1)))"
  by (simp add: structify_message_def host_structifier_def host_message_def)

lemma host_start: "ru_start [host_key \<mapsto> t] False = host_sync [] 0 0 (host_lane [] False [] [] t) None"
  by (auto simp: ru_start_def host_sync_def host_lane_def new_consumer_def new_lane_def)

lemma host_xadd: "ru_reach f p s (host_sync ms n a l cb) \<Longrightarrow> ru_reach f p s (host_sync (ms @ [m]) n a l cb)"
  by (drule ru_reach.step, rule ru_step.xadd [where m = m]) (simp add: host_sync_def)

lemma host_send:
  assumes "ru_reach f p s (host_sync ms n n l cb)" and "n < length ms" and "ms ! n = host_message typ"
  shows "ru_reach f p s (host_sync ms (Suc n) n (l\<lparr>ln_in := ln_in l @ [host_message typ]\<rparr>) cb)"
proof -
  have "consumer_step f exec_table (\<not> p) ms \<lparr>cs_sent = n, cs_acked = n, cs_lanes = [host_key \<mapsto> l]\<rparr>
      \<lparr>cs_sent = Suc n, cs_acked = n, cs_lanes = [host_key \<mapsto> l\<lparr>ln_in := ln_in l @ [host_message typ]\<rparr>]\<rparr>"
    using consumer_step.send [of "\<lparr>cs_sent = n, cs_acked = n, cs_lanes = [host_key \<mapsto> l]\<rparr>" ms host_key l f exec_table "\<not> p"] assms(2,3)
    by simp
  then have "ru_step f p (host_sync ms n n l cb) (host_sync ms (Suc n) n (l\<lparr>ln_in := ln_in l @ [host_message typ]\<rparr>) cb)"
    using ru_step.main [of f p "host_sync ms n n l cb"] by (simp add: host_sync_def)
  then show ?thesis by (rule ru_reach.step [OF assms(1)])
qed

lemma host_ack:
  assumes "ru_reach f p s (host_sync ms n a l cb)" and "a < n"
  shows "ru_reach f p s (host_sync ms n (Suc a) l cb)"
proof -
  have "consumer_step f exec_table (\<not> p) ms \<lparr>cs_sent = n, cs_acked = a, cs_lanes = [host_key \<mapsto> l]\<rparr>
      \<lparr>cs_sent = n, cs_acked = Suc a, cs_lanes = [host_key \<mapsto> l]\<rparr>"
    using consumer_step.ack [of "\<lparr>cs_sent = n, cs_acked = a, cs_lanes = [host_key \<mapsto> l]\<rparr>" f exec_table "\<not> p" ms] assms(2) by simp
  then have "ru_step f p (host_sync ms n a l cb) (host_sync ms n (Suc a) l cb)"
    using ru_step.main [of f p "host_sync ms n a l cb"] by (simp add: host_sync_def)
  then show ?thesis by (rule ru_reach.step [OF assms(1)])
qed

lemma host_lane_step:
  assumes "ru_reach f p s (host_sync ms n a l cb)" and "lane_step f exec_table (\<not> p) l l'"
  shows "ru_reach f p s (host_sync ms n a l' cb)"
proof -
  have "consumer_step f exec_table (\<not> p) ms \<lparr>cs_sent = n, cs_acked = a, cs_lanes = [host_key \<mapsto> l]\<rparr>
      \<lparr>cs_sent = n, cs_acked = a, cs_lanes = [host_key \<mapsto> l']\<rparr>"
    using consumer_step.lane [of "\<lparr>cs_sent = n, cs_acked = a, cs_lanes = [host_key \<mapsto> l]\<rparr>" host_key l f exec_table "\<not> p" l' ms] assms(2)
    by simp
  then have "ru_step f p (host_sync ms n a l cb) (host_sync ms n a l' cb)"
    using ru_step.main [of f p "host_sync ms n a l cb"] by (simp add: host_sync_def)
  then show ?thesis by (rule ru_reach.step [OF assms(1)])
qed

lemma lane_take_upsert:
  "lane_step host_structifier exec w (host_lane (host_message ''upsert'' # ms) False es is t)
    (host_lane ms w (es @ [sample_entity 1 1]) is t)"
  using lane_step.structify [of "host_lane (host_message ''upsert'' # ms) False es is t" "host_message ''upsert''" ms host_structifier
    "RUpsert (sample_entity 1 1)" exec w] by (simp add: host_lane_def)

lemma lane_take_delete:
  "lane_step host_structifier exec w (host_lane (host_message ''delete'' # ms) False es is t)
    (host_lane ms w es (is @ [id_key (sample_entity 1 1)]) t)"
  using lane_step.structify [of "host_lane (host_message ''delete'' # ms) False es is t" "host_message ''delete''" ms host_structifier
    "RDelete (id_key (sample_entity 1 1))" exec w] by (simp add: host_lane_def)

lemma lane_upsert: "lane_step f exec w (host_lane ms v (e # es) is t) (host_lane ms False es is (exec (RUpsert e) t))"
  using lane_step.upsert [of "host_lane ms v (e # es) is t" e es f exec w] by (simp add: host_lane_def)

lemma lane_delete: "lane_step f exec w (host_lane ms v es (i # is) t) (host_lane ms False es is (exec (RDelete i) t))"
  using lane_step.delete [of "host_lane ms v es (i # is) t" i "is" f exec w] by (simp add: host_lane_def)

lemma lane_add: "(host_lane ms w es is t)\<lparr>ln_in := xs\<rparr> = host_lane xs w es is t" "ln_in (host_lane ms w es is t) = ms"
  by (simp_all add: host_lane_def)

text \<open>With \<open>WithAllowParallel\<close> the order of an upsert and a delete of the same row is not kept: after an upsert and
  then a delete of a new row, with everything done, the row may be in the table.\<close>

theorem parallel_updates_reorder:
  "\<exists>s l. ru_reach host_structifier True (ru_start [host_key \<mapsto> Map.empty] False) s \<and>
    ru_stream s = [host_message ''upsert'', host_message ''delete''] \<and> cs_sent (ru_main s) = 2 \<and>
    cs_lanes (ru_main s) host_key = Some l \<and> lane_idle l \<and> ln_state l = [[1] \<mapsto> sample_entity 1 1]"
proof -
  let ?ms = "[host_message ''upsert'', host_message ''delete'']"
  let ?e = "sample_entity 1 1"
  let ?s = "ru_start [host_key \<mapsto> Map.empty] False"
  have "ru_reach host_structifier True ?s (host_sync ([] @ [host_message ''upsert'']) 0 0 (host_lane [] False [] [] Map.empty) None)"
    by (rule host_xadd) (unfold host_start, rule ru_reach.start)
  then have "ru_reach host_structifier True ?s (host_sync (([] @ [host_message ''upsert'']) @ [host_message ''delete'']) 0 0
    (host_lane [] False [] [] Map.empty) None)" by (rule host_xadd)
  then have "ru_reach host_structifier True ?s (host_sync ?ms 0 0 (host_lane [] False [] [] Map.empty) None)" by simp
  from host_send [OF this, of "''upsert''"] have "ru_reach host_structifier True ?s (host_sync ?ms 1 0 (host_lane [host_message ''upsert''] False [] [] Map.empty) None)"
    by (simp add: lane_add)
  from host_ack [OF this] have "ru_reach host_structifier True ?s (host_sync ?ms 1 1 (host_lane [host_message ''upsert''] False [] [] Map.empty) None)" by simp
  from host_send [OF this, of "''delete''"] have "ru_reach host_structifier True ?s (host_sync ?ms (Suc 1) 1 (host_lane ?ms False [] [] Map.empty) None)"
    by (simp add: lane_add)
  from host_lane_step [OF this lane_take_upsert]
  have "ru_reach host_structifier True ?s (host_sync ?ms (Suc 1) 1 (host_lane [host_message ''delete''] False ([] @ [?e]) [] Map.empty) None)" by simp
  from host_lane_step [OF this lane_take_delete]
  have "ru_reach host_structifier True ?s (host_sync ?ms (Suc 1) 1 (host_lane [] False ([] @ [?e]) ([] @ [id_key ?e]) Map.empty) None)" by simp
  then have "ru_reach host_structifier True ?s (host_sync ?ms (Suc 1) 1 (host_lane [] False [?e] [id_key ?e] Map.empty) None)" by simp
  from host_lane_step [OF this lane_delete] have "ru_reach host_structifier True ?s (host_sync ?ms (Suc 1) 1 (host_lane [] False [?e] [] (exec_table (RDelete (id_key ?e)) Map.empty)) None)" .
  from host_lane_step [OF this lane_upsert]
  have "ru_reach host_structifier True ?s (host_sync ?ms (Suc 1) 1 (host_lane [] False [] [] (exec_table (RUpsert ?e) (exec_table (RDelete (id_key ?e)) Map.empty))) None)" .
  then show ?thesis
    by (intro exI [of _ "host_sync ?ms (Suc 1) 1 (host_lane [] False [] [] (exec_table (RUpsert ?e) (exec_table (RDelete (id_key ?e)) Map.empty))) None"]
        exI [of _ "host_lane [] False [] [] (exec_table (RUpsert ?e) (exec_table (RDelete (id_key ?e)) Map.empty))"] conjI, assumption)
      (simp_all add: host_sync_def host_lane_def lane_idle_def sample_entity_def bytes_of_def)
qed

section \<open>Witnesses\<close>

text \<open>One upsert, with a serializer.\<close>

lemma host_upsert_run:
  "ru_reach host_structifier False (ru_start [host_key \<mapsto> t] False)
    (host_sync [host_message ''upsert''] 1 0 (host_lane [] False [] [] (t([1] \<mapsto> sample_entity 1 1))) None)"
proof -
  let ?ms = "[host_message ''upsert'']"
  let ?e = "sample_entity 1 1"
  let ?s = "ru_start [host_key \<mapsto> t] False"
  have "ru_reach host_structifier False ?s (host_sync ([] @ [host_message ''upsert'']) 0 0 (host_lane [] False [] [] t) None)"
    by (rule host_xadd) (unfold host_start, rule ru_reach.start)
  then have "ru_reach host_structifier False ?s (host_sync ?ms 0 0 (host_lane [] False [] [] t) None)" by simp
  from host_send [OF this, of "''upsert''"] have "ru_reach host_structifier False ?s (host_sync ?ms 1 0 (host_lane ?ms False [] [] t) None)"
    by (simp add: lane_add)
  from host_lane_step [OF this lane_take_upsert]
  have "ru_reach host_structifier False ?s (host_sync ?ms 1 0 (host_lane [] True [?e] [] t) None)" by simp
  from host_lane_step [OF this lane_upsert] show ?thesis by (simp add: sample_entity_def bytes_of_def)
qed

lemma host_lane_messages [simp]: "lane_messages {host_key} host_key [host_message typ] = [host_message typ]"
  by (simp add: lane_messages_def)

lemma host_ops [simp]: "ru_ops host_structifier [host_message ''upsert''] = [RUpsert (sample_entity 1 1)]"
  by (simp add: ru_ops_def message_ops_def)

theorem runtime_updates_in_order_witness:
  "\<exists>s l. ru_reach host_structifier False (ru_start [host_key \<mapsto> Map.empty] False) s \<and> cs_lanes (ru_main s) host_key = Some l \<and>
    ln_state l = fold exec_table [RUpsert (sample_entity 1 1)] Map.empty"
proof -
  let ?l = "host_lane [] False [] [] [[1] \<mapsto> sample_entity 1 1]"
  let ?s = "host_sync [host_message ''upsert''] 1 0 ?l None"
  have "ln_state ?l = fold exec_table [RUpsert (sample_entity 1 1)] Map.empty"
    using runtime_updates_in_order [OF host_upsert_run [of Map.empty], of host_key Map.empty ?l]
    by (simp add: host_sync_def host_lane_def lane_idle_def)
  then show ?thesis using host_upsert_run [of Map.empty] by (intro exI [of _ ?s] exI [of _ ?l]) (simp add: host_sync_def)
qed

theorem runtime_updates_catch_up_witness:
  "\<exists>s l. ru_reach host_structifier False (ru_start [host_key \<mapsto> Map.empty] False) s \<and> cs_lanes (ru_main s) host_key = Some l \<and>
    ln_state l = [[1] \<mapsto> sample_entity 1 1]"
proof -
  let ?l = "host_lane [] False [] [] [[1] \<mapsto> sample_entity 1 1]"
  let ?s = "host_sync [host_message ''upsert''] 1 0 ?l None"
  have "ln_state ?l = fold exec_table [RUpsert (sample_entity 1 1)] Map.empty"
    by (rule runtime_updates_catch_up [OF host_upsert_run [of Map.empty], of _ host_key "\<lambda>i. 0"])
      (simp_all add: host_sync_def host_lane_def lane_idle_def)
  then show ?thesis using host_upsert_run [of Map.empty]
    by (intro exI [of _ ?s] exI [of _ ?l]) (simp add: host_sync_def host_lane_def)
qed

text \<open>The callback of a run in which nothing has arrived.\<close>

theorem runtime_callback_in_order_witness:
  "\<exists>c l. ru_callback (ru_start [host_key \<mapsto> Map.empty] True) = Some c \<and> cs_lanes c host_key = Some l \<and> ln_state l = []"
proof -
  let ?s = "ru_start [host_key \<mapsto> Map.empty] True"
  let ?c = "new_consumer [host_key \<mapsto> []] :: entity list consumer"
  have "map_option (\<lambda>_. []) \<circ> [host_key \<mapsto> Map.empty] = [host_key \<mapsto> []]" by auto
  then have c: "ru_callback ?s = Some ?c" by (auto simp: ru_start_def new_consumer_def fun_eq_iff)
  have l: "cs_lanes ?c host_key = Some (new_lane [])" by (simp add: new_consumer_def)
  have "ln_state (new_lane [] :: entity list lane) = []"
    using runtime_callback_in_order [OF ru_reach.start [of host_structifier False] _ c l, of Map.empty]
    by (simp add: ru_start_def lane_messages_def lane_idle_def new_lane_def)
  then show ?thesis using c l by blast
qed

end
