(* ===== verification/Notify_Fetch.thy ===== *)
theory Notify_Fetch
  imports Idb_Prelude "HOL-Library.AList"
begin

text \<open>
  What an event of the notifications source knows about its host and service, and how more of it is
  fetched (\<open>pkg/notifications/fetch.go\<close>): the relations of an object, the queries to Redis and to the
  database, the provider that completes the relations along the segments of a JSONPath, and the
  well-formedness of the relations, which the provider relies on and keeps.

  As in the other theories an ID stands for its hexadecimal form. The parser of JSONPaths is not part
  of the repository: it is the parameter \<open>parse\<close>, which gives for each segment its selectors, printed.
\<close>

section \<open>Objects and the data they are read from\<close>

record 'j icingaObject =
  Name :: string
  DisplayName :: string
  Vars :: "(string \<rightharpoonup> 'j) option"
  IsVolatile :: go_bool
  isVolatile :: bool

text \<open>
  The queries of this file, as the database may fail on each of them, and the tables they read. The
  table of members and that of custom variables are indexed by the name of the type they belong to.
\<close>

datatype sql_query =
    QServiceIds binary
  | QGroups string binary bool
  | QCustomVars string "binary list"

text \<open>
  The surroundings: the Redis hashes, the failures of Redis (of a command on a key and fields, after
  all retries), the decoding of JSON, the order in which a map of objects is visited, and the tables.
\<close>

record 'j fetch_env =
  redis_hash :: "string \<Rightarrow> bytes \<rightharpoonup> string"
  redis_fails :: "string \<Rightarrow> bytes list \<Rightarrow> string option"
  json_object :: "string \<Rightarrow> string + 'j icingaObject"
  json_value :: "string \<Rightarrow> string + 'j"
  range_order :: "bytes list \<Rightarrow> bytes list"
  sql_fails :: "sql_query \<Rightarrow> string option"
  service_rows :: "(bytes \<times> bytes) list"
  group_rows :: "string \<Rightarrow> (bytes \<times> string \<times> string) list"
  member_rows :: "string \<Rightarrow> (bytes \<times> bytes) list"
  customvar_rows :: "(bytes \<times> string \<times> string) list"
  object_customvar_rows :: "string \<Rightarrow> (bytes \<times> bytes) list"

section \<open>Queries\<close>

definition panicForInvalidType :: "string list \<Rightarrow> string \<Rightarrow> (string, unit) outcome" where
  "panicForInvalidType allowList request =
     (if request \<in> set allowList then Ok ()
      else Panic (''unexpected and unsupported object type '' @ request))"

text \<open>
  One attempt of \<open>streamRedisHashObjects\<close>: the fields the hash has are decoded and visited in turn,
  until one of them fails. The retries around it start over; their outcome is that of the last one.
\<close>

fun visit_pairs ::
  "(string \<Rightarrow> string + 'o) \<Rightarrow> ('o \<Rightarrow> bytes \<Rightarrow> 's \<Rightarrow> (string, 's) outcome) \<Rightarrow>
   (bytes \<times> string) list \<Rightarrow> 's \<Rightarrow> (string, 's) outcome" where
  "visit_pairs decode visitor [] s = Ok s"
| "visit_pairs decode visitor ((field, v) # pairs) s =
     (case decode v of
        Inl e \<Rightarrow> Err (''cannot JSON unmarshal Redis HMGET result: '' @ e)
      | Inr obj \<Rightarrow> bind_outcome (visitor obj field s) (visit_pairs decode visitor pairs))"

definition hmget_pairs :: "'j fetch_env \<Rightarrow> string \<Rightarrow> bytes list \<Rightarrow> (bytes \<times> string) list" where
  "hmget_pairs env key ids =
     List.map_filter (\<lambda>i. case redis_hash env key i of None \<Rightarrow> None | Some v \<Rightarrow> Some (i, v)) ids"

definition streamRedisHashObjects ::
  "'j fetch_env \<Rightarrow> (string \<Rightarrow> string + 'o) \<Rightarrow> string \<Rightarrow>
   ('o \<Rightarrow> bytes \<Rightarrow> 's \<Rightarrow> (string, 's) outcome) \<Rightarrow> bytes list \<Rightarrow> 's \<Rightarrow> (string, 's) outcome" where
  "streamRedisHashObjects env decode key visitor ids s =
     (case redis_fails env key ids of
        Some e \<Rightarrow> Err e
      | None \<Rightarrow> visit_pairs decode visitor (hmget_pairs env key ids) s)"

text \<open>
  The visitor that collects objects: the decoded flag \<open>IsVolatile\<close> moves to the internal one. A Go map
  is kept as an association list, whose keys are the fields in the order they first came.
\<close>

definition collect_object ::
  "'j icingaObject \<Rightarrow> bytes \<Rightarrow> (bytes \<times> 'j icingaObject) list \<Rightarrow>
   (string, (bytes \<times> 'j icingaObject) list) outcome" where
  "collect_object obj field objects =
     Ok (AList.update field
           (obj\<lparr>isVolatile := bool_true (IsVolatile obj), IsVolatile := null_bool\<rparr>) objects)"

definition fetchObjectsFromRedis ::
  "'j fetch_env \<Rightarrow> string \<Rightarrow> binary list \<Rightarrow> (string, (bytes \<times> 'j icingaObject) list) outcome" where
  "fetchObjectsFromRedis env typ ids =
     bind_outcome (panicForInvalidType [''host'', ''service''] typ) (\<lambda>_.
       if ids = [] then Ok []
       else streamRedisHashObjects env (json_object env) (''icinga:'' @ typ) collect_object
              (map bytes_of ids) [])"

definition fetchObjectFromRedis ::
  "'j fetch_env \<Rightarrow> string \<Rightarrow> binary \<Rightarrow> (string, 'j icingaObject) outcome" where
  "fetchObjectFromRedis env typ i =
     bind_outcome (fetchObjectsFromRedis env typ [i]) (\<lambda>multi.
       case map_of multi (bytes_of i) of
         None \<Rightarrow> Err (''HMGET '' @ typ @ '' has an empty result'')
       | Some obj \<Rightarrow> Ok obj)"

text \<open>\<open>fetchObjectFromSql\<close>: the rows of a query, or the error that remained after the retries.\<close>

definition fetchObjectFromSql :: "'j fetch_env \<Rightarrow> sql_query \<Rightarrow> 'r list \<Rightarrow> (string, 'r list) outcome" where
  "fetchObjectFromSql env q rows = (case sql_fails env q of Some e \<Rightarrow> Err e | None \<Rightarrow> Ok rows)"

definition fetchServiceIdsFromSql :: "'j fetch_env \<Rightarrow> binary \<Rightarrow> (string, binary list) outcome" where
  "fetchServiceIdsFromSql env i =
     fetchObjectFromSql env (QServiceIds i)
       [Some sid. (sid, hid) \<leftarrow> service_rows env, i = Some hid]"

text \<open>
  \<open>fetchGroupsFromSql\<close>: the groups joined with their members, and these with the services of the host
  where \<open>hostIdForServices\<close> is set; \<open>GROUP BY\<close> gives each pair of names once.
\<close>

definition group_object :: "string \<times> string \<Rightarrow> 'j icingaObject" where
  "group_object nd = \<lparr>Name = fst nd, DisplayName = snd nd, Vars = None, IsVolatile = null_bool,
     isVolatile = False\<rparr>"

definition groups_rows :: "'j fetch_env \<Rightarrow> string \<Rightarrow> binary \<Rightarrow> bool \<Rightarrow> (string \<times> string) list" where
  "groups_rows env typ i hostIdForServices =
     (if hostIdForServices
      then [nd. (gid, nd) \<leftarrow> group_rows env typ, (mg, member) \<leftarrow> member_rows env typ, mg = gid,
                (sid, hid) \<leftarrow> service_rows env, member = sid, i = Some hid]
      else [nd. (gid, nd) \<leftarrow> group_rows env typ, (mg, member) \<leftarrow> member_rows env typ, mg = gid,
                i = Some member])"

definition fetchGroupsFromSql ::
  "'j fetch_env \<Rightarrow> string \<Rightarrow> binary \<Rightarrow> bool \<Rightarrow> (string, 'j icingaObject list) outcome" where
  "fetchGroupsFromSql env typ i hostIdForServices =
     bind_outcome (panicForInvalidType [''hostgroup'', ''servicegroup''] typ) (\<lambda>_.
       fetchObjectFromSql env (QGroups typ i hostIdForServices)
         (map group_object (remdups (groups_rows env typ i hostIdForServices))))"

text \<open>\<open>fetchMultiCustomVarsFromSql\<close>: the loop over the rows, from one object's variables to the next.\<close>

fun collect_customvars ::
  "(string \<Rightarrow> string + 'j) \<Rightarrow> (bytes \<times> string \<times> string) list \<Rightarrow>
   (bytes \<rightharpoonup> (string \<rightharpoonup> 'j)) \<Rightarrow> (string, bytes \<rightharpoonup> (string \<rightharpoonup> 'j)) outcome" where
  "collect_customvars decode [] vars = Ok vars"
| "collect_customvars decode ((typId, name, v) # rows) vars =
     (let customVarMap = (case vars typId of None \<Rightarrow> Map.empty | Some m \<Rightarrow> m)
      in case decode v of
           Inl e \<Rightarrow> Err (''cannot unmarshal JSON value of custom var '' @ name @ '': '' @ e)
         | Inr customVarValue \<Rightarrow>
             collect_customvars decode rows (vars(typId \<mapsto> customVarMap(name \<mapsto> customVarValue))))"

definition customvars_rows :: "'j fetch_env \<Rightarrow> string \<Rightarrow> binary list \<Rightarrow> (bytes \<times> string \<times> string) list" where
  "customvars_rows env typ ids =
     [(oid, nv). (oid, ocv) \<leftarrow> object_customvar_rows env typ, (cv, nv) \<leftarrow> customvar_rows env,
                 ocv = cv, Some oid \<in> set ids]"

definition fetchMultiCustomVarsFromSql ::
  "'j fetch_env \<Rightarrow> string \<Rightarrow> binary list \<Rightarrow> (string, bytes \<rightharpoonup> (string \<rightharpoonup> 'j)) outcome" where
  "fetchMultiCustomVarsFromSql env typ ids =
     bind_outcome (panicForInvalidType [''host'', ''service''] typ) (\<lambda>_.
       if ids = [] then Ok Map.empty
       else bind_outcome (fetchObjectFromSql env (QCustomVars typ ids) (customvars_rows env typ ids))
              (\<lambda>customVars. collect_customvars (json_value env) customVars Map.empty))"

definition fetchCustomVarsFromSql ::
  "'j fetch_env \<Rightarrow> string \<Rightarrow> binary \<Rightarrow> (string, (string \<rightharpoonup> 'j) option) outcome" where
  "fetchCustomVarsFromSql env typ i =
     bind_outcome (fetchMultiCustomVarsFromSql env typ [i]) (\<lambda>multi. Ok (multi (bytes_of i)))"

text \<open>
  Two calls in the goroutines of an \<open>errgroup\<close>: the group waits for both and has the error of the one
  that failed, of the first one where both did.
\<close>

fun errgroup2 :: "(string, 'a) outcome \<Rightarrow> (string, 'b) outcome \<Rightarrow> (string, 'a \<times> 'b) outcome" where
  "errgroup2 (Panic p) b = Panic p"
| "errgroup2 (Err e) (Panic p) = Panic p"
| "errgroup2 (Ok a) (Panic p) = Panic p"
| "errgroup2 (Err e) (Ok b) = Err e"
| "errgroup2 (Err e) (Err e') = Err e"
| "errgroup2 (Ok a) (Err e) = Err e"
| "errgroup2 (Ok a) (Ok b) = Ok (a, b)"

definition Wrap :: "string \<Rightarrow> string \<Rightarrow> string" where
  "Wrap msg e = msg @ '': '' @ e"

section \<open>Relations\<close>

text \<open>
  \<open>completeRelations\<close> names what has been fetched, in the order it was. A nil slice of objects is the
  empty list: the code only ever looks at its length. The field \<open>provider\<close> is always
  \<open>Client.relationsProvider\<close> outside the tests and has no counterpart here.
\<close>

record 'j relations =
  hostId :: binary
  serviceId :: binary
  completeRelations :: "string list"
  ObjectType :: string
  Host :: "'j icingaObject option"
  Services :: "'j icingaObject list"
  Hostgroups :: "'j icingaObject list"
  Servicegroups :: "'j icingaObject list"

definition append_new :: "string \<Rightarrow> string list \<Rightarrow> string list" where
  "append_new k ks = (if k \<in> set ks then ks else ks @ [k])"

definition populateObject :: "'j relations \<Rightarrow> 'j relations" where
  "populateObject rel = rel\<lparr>
     ObjectType := (if serviceId rel = None then ''host'' else ''service''),
     completeRelations := append_new ''object.type'' (completeRelations rel)\<rparr>"

datatype 'j relation_value =
    RObjectType string
  | RObject "'j icingaObject"
  | RObjects "'j icingaObject list"

definition unless_empty :: "string \<Rightarrow> 'j icingaObject list \<Rightarrow> (string \<rightharpoonup> 'j relation_value) \<Rightarrow> (string \<rightharpoonup> 'j relation_value)" where
  "unless_empty k objs m = (if objs = [] then m else m(k \<mapsto> RObjects objs))"

definition asMap :: "'j relations \<Rightarrow> (string \<rightharpoonup> 'j relation_value)" where
  "asMap rel =
     (let out = [''object'' \<mapsto> RObjectType (ObjectType rel)];
          out = (case Host rel of None \<Rightarrow> out | Some h \<Rightarrow> out(''host'' \<mapsto> RObject h));
          out = unless_empty ''services'' (Services rel) out;
          out = unless_empty ''hostgroups'' (Hostgroups rel) out
      in unless_empty ''servicegroups'' (Servicegroups rel) out)"

section \<open>The provider\<close>

text \<open>A selector prints a name with quotes around it, and the wildcard as an asterisk.\<close>

definition quoted :: "string \<Rightarrow> string" where
  "quoted s = CHR 0x22 # s @ [CHR 0x22]"

definition wildcard :: string where
  "wildcard = ''*''"

text \<open>The two flags \<open>fetchObject\<close> and \<open>fetchCustomVars\<close>, set by the selectors of the field.\<close>

definition scan_selector :: "string \<Rightarrow> bool \<times> bool \<Rightarrow> bool \<times> bool" where
  "scan_selector selector flags =
     (if selector = quoted ''vars'' then (fst flags, True)
      else if selector = wildcard then (True, True)
      else (True, snd flags))"

definition wanted :: "string \<Rightarrow> string list list \<Rightarrow> bool \<times> bool" where
  "wanted rootSelector childSegments =
     (case childSegments of
        [] \<Rightarrow> (True, True)
      | first # others \<Rightarrow>
          if rootSelector = quoted ''host'' then fold scan_selector first (False, False)
          else (case others of
                  [] \<Rightarrow> (True, True)
                | field # _ \<Rightarrow> fold scan_selector field (False, False)))"

definition newRelations :: "bool \<Rightarrow> bool \<Rightarrow> bool \<Rightarrow> string list" where
  "newRelations fetchObject fetchCustomVars isGroup =
     (if fetchObject then [''name'', ''display_name''] else []) @
     (if fetchCustomVars \<and> \<not> isGroup then [''vars''] else [])"

definition updateCompleteRelations ::
  "bool \<Rightarrow> bool \<Rightarrow> string \<Rightarrow> bool \<Rightarrow> 'j relations \<Rightarrow> 'j relations" where
  "updateCompleteRelations fetchObject fetchCustomVars prefix isGroup rel =
     rel\<lparr>completeRelations :=
       fold (\<lambda>r. append_new (prefix @ ''.'' @ r)) (newRelations fetchObject fetchCustomVars isGroup)
         (completeRelations rel)\<rparr>"

text \<open>
  A step of the provider gives its error, if any, and the relations as it left them, since they are
  changed in place: those of the selectors before a failing one stay.
\<close>

type_synonym 'j provided = "(string, unit) outcome \<times> 'j relations"

fun provided :: "'j relations \<Rightarrow> string \<Rightarrow> (string, 'a) outcome \<Rightarrow> ('a \<Rightarrow> 'j provided) \<Rightarrow> 'j provided" where
  "provided rel msg (Ok a) f = f a"
| "provided rel msg (Err e) f = (Err (Wrap msg e), rel)"
| "provided rel msg (Panic p) f = (Panic p, rel)"

definition is_complete :: "string \<Rightarrow> 'j relations \<Rightarrow> bool" where
  "is_complete k rel \<longleftrightarrow> k \<in> set (completeRelations rel)"

text \<open>
  The flags for a single object, after what is complete has been taken away. Custom variables need
  the main object.
\<close>

definition single_flags :: "string \<Rightarrow> bool \<times> bool \<Rightarrow> 'j relations \<Rightarrow> bool \<times> bool" where
  "single_flags prefix flags rel =
     (let fetchObject = (fst flags \<and> \<not> is_complete (prefix @ ''.name'') rel);
          fetchCustomVars = (snd flags \<and> \<not> is_complete (prefix @ ''.vars'') rel);
          fetchObject = (fetchObject \<or>
            (fetchCustomVars \<and> \<not> fetchObject \<and> \<not> is_complete (prefix @ ''.name'') rel))
      in (fetchObject, fetchCustomVars))"

text \<open>
  The two goroutines that fetch a single object and its custom variables, each only where it is
  wanted; \<open>known\<close> is the object the relations have already. A nil object panics when its variables are
  set.
\<close>

definition fetch_single ::
  "'j fetch_env \<Rightarrow> string \<Rightarrow> binary \<Rightarrow> bool \<times> bool \<Rightarrow> 'j icingaObject option \<Rightarrow>
   (string, 'j icingaObject option \<times> (string \<rightharpoonup> 'j) option) outcome" where
  "fetch_single env typ i flags known =
     errgroup2
       (if fst flags then bind_outcome (fetchObjectFromRedis env typ i) (\<lambda>obj. Ok (Some obj)) else Ok known)
       (if snd flags then fetchCustomVarsFromSql env typ i else Ok None)"

definition provide_host :: "'j fetch_env \<Rightarrow> bool \<times> bool \<Rightarrow> 'j relations \<Rightarrow> 'j provided" where
  "provide_host env wants rel =
     (let known = (if is_complete ''host.name'' rel then Host rel else None);
          flags = single_flags ''host'' wants rel
      in if \<not> fst flags \<and> \<not> snd flags then (Ok (), rel)
         else provided rel ''cannot fetch host information'' (fetch_single env ''host'' (hostId rel) flags known)
                (\<lambda>(hostObj, hostCustomVars).
                   case hostObj of
                     None \<Rightarrow> (Panic ''nil host'', rel)
                   | Some obj \<Rightarrow>
                       (Ok (), (updateCompleteRelations (fst flags) (snd flags) ''host'' False rel)
                                 \<lparr>Host := Some (obj\<lparr>Vars := hostCustomVars\<rparr>)\<rparr>)))"

definition provide_service :: "'j fetch_env \<Rightarrow> bool \<times> bool \<Rightarrow> 'j relations \<Rightarrow> 'j provided" where
  "provide_service env wants rel =
     (if is_complete ''services[*].name'' rel \<and> Services rel = []
      then (Panic ''index out of range'', rel)
      else
        (let known = (if is_complete ''services[*].name'' rel then Some (hd (Services rel)) else None);
             flags = single_flags ''services[*]'' wants rel
         in if \<not> fst flags \<and> \<not> snd flags then (Ok (), rel)
            else provided rel ''cannot fetch service information''
                   (fetch_single env ''service'' (serviceId rel) flags known)
                   (\<lambda>(serviceObj, serviceCustomVars).
                      case serviceObj of
                        None \<Rightarrow> (Panic ''nil service'', rel)
                      | Some obj \<Rightarrow>
                          (Ok (), (updateCompleteRelations (fst flags) (snd flags) ''services[*]'' False rel)
                                    \<lparr>Services := [obj\<lparr>Vars := serviceCustomVars\<rparr>]\<rparr>))))"

text \<open>
  For a host, all its services: the map of objects is turned into a slice in the order Go visits it,
  each object with its variables. No variables at all leave the objects as they are.
\<close>

definition services_slice ::
  "(bytes list \<Rightarrow> bytes list) \<Rightarrow> (bytes \<times> 'j icingaObject) list \<Rightarrow> (bytes \<rightharpoonup> (string \<rightharpoonup> 'j)) \<Rightarrow>
   'j icingaObject list" where
  "services_slice order serviceObjs serviceCustomVars =
     List.map_filter
       (\<lambda>i. case map_of serviceObjs i of
              None \<Rightarrow> None
            | Some service \<Rightarrow>
                Some (if serviceCustomVars \<noteq> Map.empty then service\<lparr>Vars := serviceCustomVars i\<rparr> else service))
       (order (map fst serviceObjs))"

definition provide_host_services :: "'j fetch_env \<Rightarrow> bool \<times> bool \<Rightarrow> 'j relations \<Rightarrow> 'j provided" where
  "provide_host_services env wants rel =
     (if is_complete ''services[*].name'' rel \<and> \<not> snd wants then (Ok (), rel)
      else if is_complete ''services[*].vars'' rel then (Ok (), rel)
      else
        provided rel ''cannot fetch host services'' (fetchServiceIdsFromSql env (hostId rel))
          (\<lambda>serviceIds.
             let fetchCustomVars = snd wants;
                 fetchObject = (fst wants \<or> fetchCustomVars)
             in provided rel ''cannot fetch host service information''
                  (errgroup2
                     (if fetchObject then fetchObjectsFromRedis env ''service'' serviceIds else Ok [])
                     (if fetchCustomVars then fetchMultiCustomVarsFromSql env ''service'' serviceIds
                      else Ok Map.empty))
                  (\<lambda>(serviceObjs, serviceCustomVars).
                     (Ok (), (updateCompleteRelations fetchObject fetchCustomVars ''services[*]'' False rel)
                               \<lparr>Services := services_slice (range_order env) serviceObjs serviceCustomVars\<rparr>))))"

definition provide_hostgroups :: "'j fetch_env \<Rightarrow> bool \<times> bool \<Rightarrow> 'j relations \<Rightarrow> 'j provided" where
  "provide_hostgroups env wants rel =
     (if is_complete ''hostgroups[*].name'' rel then (Ok (), rel)
      else provided rel ''cannot fetch hostgroups'' (fetchGroupsFromSql env ''hostgroup'' (hostId rel) False)
             (\<lambda>hostGroups.
                (Ok (), (updateCompleteRelations (fst wants) (snd wants) ''hostgroups[*]'' True rel)
                          \<lparr>Hostgroups := hostGroups\<rparr>)))"

definition provide_servicegroups :: "'j fetch_env \<Rightarrow> bool \<times> bool \<Rightarrow> 'j relations \<Rightarrow> 'j provided" where
  "provide_servicegroups env wants rel =
     (if is_complete ''servicegroups[*].name'' rel then (Ok (), rel)
      else provided rel ''cannot fetch servicegroups''
             (if serviceId rel \<noteq> None then fetchGroupsFromSql env ''servicegroup'' (serviceId rel) False
              else fetchGroupsFromSql env ''servicegroup'' (hostId rel) True)
             (\<lambda>serviceGroups.
                (Ok (), (updateCompleteRelations (fst wants) (snd wants) ''servicegroups[*]'' True rel)
                          \<lparr>Servicegroups := serviceGroups\<rparr>)))"

definition provide_selector ::
  "'j fetch_env \<Rightarrow> string list list \<Rightarrow> string \<Rightarrow> 'j relations \<Rightarrow> 'j provided" where
  "provide_selector env childSegments rootSelector rel =
     (let wants = wanted rootSelector childSegments
      in if rootSelector = quoted ''object'' then (Ok (), rel)
         else if rootSelector = quoted ''host'' then provide_host env wants rel
         else if rootSelector = quoted ''services''
           then (if serviceId rel \<noteq> None then provide_service env wants rel
                 else provide_host_services env wants rel)
         else if rootSelector = quoted ''hostgroups'' then provide_hostgroups env wants rel
         else if rootSelector = quoted ''servicegroups'' then provide_servicegroups env wants rel
         else (Err (''unsupported JSONPath root segment selector '' @ rootSelector), rel))"

text \<open>A Go loop over the elements of a slice that returns at the first error.\<close>

fun until_error :: "('a \<Rightarrow> 'j relations \<Rightarrow> 'j provided) \<Rightarrow> 'a list \<Rightarrow> 'j relations \<Rightarrow> 'j provided" where
  "until_error f [] rel = (Ok (), rel)"
| "until_error f (x # xs) rel =
     (case f x rel of
        (Ok u, rel') \<Rightarrow> until_error f xs rel'
      | (Err e, rel') \<Rightarrow> (Err e, rel')
      | (Panic p, rel') \<Rightarrow> (Panic p, rel'))"

definition relationsProvider ::
  "'j fetch_env \<Rightarrow> string list list \<Rightarrow> 'j relations \<Rightarrow> 'j provided" where
  "relationsProvider env segments rel =
     (case segments of
        [] \<Rightarrow> (Err ''cannot provide relations for empty query'', rel)
      | selectors # childSegments \<Rightarrow> until_error (provide_selector env childSegments) selectors rel)"

definition rel_complete ::
  "'j fetch_env \<Rightarrow> (string \<Rightarrow> string + string list list) \<Rightarrow> string \<Rightarrow> 'j relations \<Rightarrow> 'j provided" where
  "rel_complete env parse query rel =
     (case parse query of
        Inl e \<Rightarrow> (Err (Wrap (''cannot parse JSONPath '' @ query) e), rel)
      | Inr segments \<Rightarrow> relationsProvider env segments rel)"

text \<open>
  \<open>fetchHostServiceData\<close>; its timeout is among the failures of Redis and of the database. The dollar
  sign is the root of a JSONPath.
\<close>

definition start_relations :: "binary \<Rightarrow> binary \<Rightarrow> 'j relations" where
  "start_relations h s = populateObject \<lparr>hostId = h, serviceId = s, completeRelations = [], ObjectType = [],
     Host = None, Services = [], Hostgroups = [], Servicegroups = []\<rparr>"

definition fetchHostServiceData ::
  "'j fetch_env \<Rightarrow> (string \<Rightarrow> string + string list list) \<Rightarrow> binary \<Rightarrow> binary \<Rightarrow>
   (string, 'j relations) outcome" where
  "fetchHostServiceData env parse h s =
     (case until_error (rel_complete env parse)
             (''$.host.name'' # (if s \<noteq> None then [''$.services[*].name''] else []))
             (start_relations h s) of
        (Ok u, rel) \<Rightarrow> Ok rel
      | (Err e, rel) \<Rightarrow> Err e
      | (Panic p, rel) \<Rightarrow> Panic p)"

end
