(* ===== verification/Notify_Relations.thy ===== *)
theory Notify_Relations
  imports Notify_Fetch
begin

text \<open>
  The well-formedness of the relations: what \<open>completeRelations\<close> says is there, and nothing is there
  that it does not say. The provider takes it for granted (it reads the first service and writes to the
  host without looking) and keeps it, whatever the queries give. What is complete stays complete.
\<close>

section \<open>What is complete\<close>

lemma set_append_new [simp]: "set (append_new k ks) = insert k (set ks)"
  by (auto simp: append_new_def)

lemma distinct_append_new [simp]: "distinct (append_new k ks) = distinct ks"
  by (simp add: append_new_def)

definition is_new :: "bool \<Rightarrow> bool \<Rightarrow> string \<Rightarrow> bool \<Rightarrow> string \<Rightarrow> bool" where
  "is_new fo fv prefix isGroup k \<longleftrightarrow>
     fo \<and> (k = prefix @ ''.name'' \<or> k = prefix @ ''.display_name'') \<or>
     fv \<and> \<not> isGroup \<and> k = prefix @ ''.vars''"

lemma set_update_complete:
  "set (completeRelations (updateCompleteRelations fo fv prefix isGroup rel)) =
     set (completeRelations rel) \<union> {k. is_new fo fv prefix isGroup k}"
  by (auto simp: updateCompleteRelations_def newRelations_def is_new_def)

lemma is_complete_update [simp]:
  "is_complete k (updateCompleteRelations fo fv prefix isGroup rel) \<longleftrightarrow>
     is_complete k rel \<or> is_new fo fv prefix isGroup k"
  by (simp add: is_complete_def set_update_complete)

lemma distinct_update_complete [simp]:
  "distinct (completeRelations (updateCompleteRelations fo fv prefix isGroup rel)) =
     distinct (completeRelations rel)"
  by (simp add: updateCompleteRelations_def newRelations_def)

lemma fields_update_complete [simp]:
  "Host (updateCompleteRelations fo fv prefix isGroup rel) = Host rel"
  "Services (updateCompleteRelations fo fv prefix isGroup rel) = Services rel"
  "Hostgroups (updateCompleteRelations fo fv prefix isGroup rel) = Hostgroups rel"
  "Servicegroups (updateCompleteRelations fo fv prefix isGroup rel) = Servicegroups rel"
  "hostId (updateCompleteRelations fo fv prefix isGroup rel) = hostId rel"
  "serviceId (updateCompleteRelations fo fv prefix isGroup rel) = serviceId rel"
  "ObjectType (updateCompleteRelations fo fv prefix isGroup rel) = ObjectType rel"
  by (simp_all add: updateCompleteRelations_def)

lemma is_complete_other_fields [simp]:
  "is_complete k (rel\<lparr>Host := h\<rparr>) = is_complete k rel"
  "is_complete k (rel\<lparr>Services := objs\<rparr>) = is_complete k rel"
  "is_complete k (rel\<lparr>Hostgroups := objs\<rparr>) = is_complete k rel"
  "is_complete k (rel\<lparr>Servicegroups := objs\<rparr>) = is_complete k rel"
  by (simp_all add: is_complete_def)

section \<open>Well-formed relations\<close>

definition known_relations :: "string list" where
  "known_relations = [''object.type'', ''host.name'', ''host.display_name'', ''host.vars'',
     ''services[*].name'', ''services[*].display_name'', ''services[*].vars'',
     ''hostgroups[*].name'', ''hostgroups[*].display_name'',
     ''servicegroups[*].name'', ''servicegroups[*].display_name'']"

definition names_wf :: "string \<Rightarrow> 'j relations \<Rightarrow> bool" where
  "names_wf prefix rel \<longleftrightarrow>
     (is_complete (prefix @ ''.display_name'') rel \<longleftrightarrow> is_complete (prefix @ ''.name'') rel) \<and>
     (is_complete (prefix @ ''.vars'') rel \<longrightarrow> is_complete (prefix @ ''.name'') rel)"

definition base_wf :: "'j relations \<Rightarrow> bool" where
  "base_wf rel \<longleftrightarrow>
     distinct (completeRelations rel) \<and> set (completeRelations rel) \<subseteq> set known_relations \<and>
     is_complete ''object.type'' rel \<and>
     ObjectType rel = (if serviceId rel = None then ''host'' else ''service'')"

definition host_wf :: "'j relations \<Rightarrow> bool" where
  "host_wf rel \<longleftrightarrow> names_wf ''host'' rel \<and>
     (case Host rel of
        None \<Rightarrow> \<not> is_complete ''host.name'' rel
      | Some h \<Rightarrow> is_complete ''host.name'' rel \<and> (Vars h = None \<or> is_complete ''host.vars'' rel))"

definition services_wf :: "'j relations \<Rightarrow> bool" where
  "services_wf rel \<longleftrightarrow> names_wf ''services[*]'' rel \<and>
     (\<not> is_complete ''services[*].name'' rel \<longrightarrow> Services rel = []) \<and>
     (serviceId rel \<noteq> None \<and> is_complete ''services[*].name'' rel \<longrightarrow>
        (case Services rel of
           [s] \<Rightarrow> Vars s = None \<or> is_complete ''services[*].vars'' rel
         | _ \<Rightarrow> False))"

definition groups_wf :: "'j relations \<Rightarrow> bool" where
  "groups_wf rel \<longleftrightarrow> names_wf ''hostgroups[*]'' rel \<and> names_wf ''servicegroups[*]'' rel \<and>
     list_all (\<lambda>g. Vars g = None) (Hostgroups rel) \<and> list_all (\<lambda>g. Vars g = None) (Servicegroups rel)"

definition rel_wf :: "'j relations \<Rightarrow> bool" where
  "rel_wf rel \<longleftrightarrow> base_wf rel \<and> host_wf rel \<and> services_wf rel \<and> groups_wf rel"

text \<open>What a step of the provider keeps: the shape, and everything that is complete.\<close>

definition grows :: "'j relations \<Rightarrow> 'j relations \<Rightarrow> bool" where
  "grows rel rel' \<longleftrightarrow> set (completeRelations rel) \<subseteq> set (completeRelations rel') \<and>
     hostId rel' = hostId rel \<and> serviceId rel' = serviceId rel"

definition sound_step :: "'j relations \<Rightarrow> 'j provided \<Rightarrow> bool" where
  "sound_step rel p \<longleftrightarrow> rel_wf (snd p) \<and> grows rel (snd p) \<and> \<not> is_panic (fst p)"

lemma grows_refl [simp]: "grows rel rel"
  by (simp add: grows_def)

lemma grows_trans [trans]: "grows a b \<Longrightarrow> grows b c \<Longrightarrow> grows a c"
  by (auto simp: grows_def)

lemma sound_step_same [simp]: "sound_step rel (Ok (), rel) = rel_wf rel" "sound_step rel (Err e, rel) = rel_wf rel"
  by (simp_all add: sound_step_def)

lemma sound_provided:
  assumes "rel_wf rel" "\<not> is_panic m" "\<And>a. m = Ok a \<Longrightarrow> sound_step rel (f a)"
  shows "sound_step rel (provided rel msg m f)"
  using assms by (cases m) auto

lemma is_new_known:
  "is_new fo fv ''host'' False k \<Longrightarrow> k \<in> set known_relations"
  "is_new fo fv ''services[*]'' False k \<Longrightarrow> k \<in> set known_relations"
  "is_new fo fv ''hostgroups[*]'' True k \<Longrightarrow> k \<in> set known_relations"
  "is_new fo fv ''servicegroups[*]'' True k \<Longrightarrow> k \<in> set known_relations"
  by (auto simp: is_new_def known_relations_def)

text \<open>An update of one part leaves the keys of the other parts alone.\<close>

lemma is_new_host_other [simp]:
  "\<not> is_new fo fv ''host'' g ''object.type''"
  "\<not> is_new fo fv ''host'' g (''services[*]'' @ x)" "\<not> is_new fo fv ''host'' g (''hostgroups[*]'' @ x)"
  "\<not> is_new fo fv ''host'' g (''servicegroups[*]'' @ x)"
  by (simp_all add: is_new_def)

lemma is_new_services_other [simp]:
  "\<not> is_new fo fv ''services[*]'' g ''object.type''"
  "\<not> is_new fo fv ''services[*]'' g (''host'' @ x)" "\<not> is_new fo fv ''services[*]'' g (''hostgroups[*]'' @ x)"
  "\<not> is_new fo fv ''services[*]'' g (''servicegroups[*]'' @ x)"
  by (simp_all add: is_new_def)

lemma is_new_hostgroups_other [simp]:
  "\<not> is_new fo fv ''hostgroups[*]'' g ''object.type''"
  "\<not> is_new fo fv ''hostgroups[*]'' g (''host.'' @ x)" "\<not> is_new fo fv ''hostgroups[*]'' g (''services[*]'' @ x)"
  "\<not> is_new fo fv ''hostgroups[*]'' g (''servicegroups[*]'' @ x)"
  by (simp_all add: is_new_def)

lemma is_new_servicegroups_other [simp]:
  "\<not> is_new fo fv ''servicegroups[*]'' g ''object.type''"
  "\<not> is_new fo fv ''servicegroups[*]'' g (''host.'' @ x)" "\<not> is_new fo fv ''servicegroups[*]'' g (''services[*]'' @ x)"
  "\<not> is_new fo fv ''servicegroups[*]'' g (''hostgroups[*]'' @ x)"
  by (simp_all add: is_new_def)

section \<open>The queries\<close>

lemma panicForInvalidType_ok [simp]: "t \<in> set ts \<Longrightarrow> panicForInvalidType ts t = Ok ()"
  by (simp add: panicForInvalidType_def)

lemma is_panic_bind: "is_panic (bind_outcome m f) \<longleftrightarrow> is_panic m \<or> (\<exists>a. m = Ok a \<and> is_panic (f a))"
  by (cases m) auto

lemma visit_pairs_no_panic:
  assumes "\<And>obj field s. \<not> is_panic (visitor obj field s)"
  shows "\<not> is_panic (visit_pairs decode visitor pairs s)"
  by (induction pairs arbitrary: s) (auto simp: is_panic_bind assms split: sum.splits)

lemma fetchObjectsFromRedis_no_panic:
  "typ = ''host'' \<or> typ = ''service'' \<Longrightarrow> \<not> is_panic (fetchObjectsFromRedis env typ ids)"
  by (auto simp: fetchObjectsFromRedis_def streamRedisHashObjects_def collect_object_def split: option.splits
      intro!: visit_pairs_no_panic)

lemma fetchObjectFromRedis_no_panic:
  "typ = ''host'' \<or> typ = ''service'' \<Longrightarrow> \<not> is_panic (fetchObjectFromRedis env typ i)"
  by (auto simp: fetchObjectFromRedis_def is_panic_bind fetchObjectsFromRedis_no_panic split: option.splits)

lemma fetchObjectFromSql_no_panic [simp]: "\<not> is_panic (fetchObjectFromSql env q rows)"
  by (simp add: fetchObjectFromSql_def split: option.splits)

lemma fetchServiceIdsFromSql_no_panic [simp]: "\<not> is_panic (fetchServiceIdsFromSql env i)"
  by (simp add: fetchServiceIdsFromSql_def)

lemma fetchGroupsFromSql_no_panic:
  "typ = ''hostgroup'' \<or> typ = ''servicegroup'' \<Longrightarrow> \<not> is_panic (fetchGroupsFromSql env typ i forHost)"
  by (auto simp: fetchGroupsFromSql_def)

lemma fetchGroupsFromSql_no_vars:
  assumes "fetchGroupsFromSql env typ i forHost = Ok groups"
  shows "list_all (\<lambda>g. Vars g = None) groups"
  using assms by (auto simp: fetchGroupsFromSql_def panicForInvalidType_def fetchObjectFromSql_def group_object_def
      list_all_iff split: if_splits option.splits)

lemma collect_customvars_no_panic [simp]: "\<not> is_panic (collect_customvars decode rows vars)"
  by (induction rows arbitrary: vars) (auto simp: Let_def split: sum.splits)

lemma fetchMultiCustomVarsFromSql_no_panic:
  "typ = ''host'' \<or> typ = ''service'' \<Longrightarrow> \<not> is_panic (fetchMultiCustomVarsFromSql env typ ids)"
  by (auto simp: fetchMultiCustomVarsFromSql_def is_panic_bind)

lemma fetchCustomVarsFromSql_no_panic:
  "typ = ''host'' \<or> typ = ''service'' \<Longrightarrow> \<not> is_panic (fetchCustomVarsFromSql env typ i)"
  by (auto simp: fetchCustomVarsFromSql_def is_panic_bind fetchMultiCustomVarsFromSql_no_panic)

lemma is_panic_errgroup2 [simp]: "is_panic (errgroup2 a b) \<longleftrightarrow> is_panic a \<or> is_panic b"
  by (cases a; cases b) auto

lemma errgroup2_Ok: "errgroup2 a b = Ok x \<longleftrightarrow> (\<exists>u v. a = Ok u \<and> b = Ok v \<and> x = (u, v))"
  by (cases a; cases b) auto

lemma fetch_single_no_panic:
  "typ = ''host'' \<or> typ = ''service'' \<Longrightarrow> \<not> is_panic (fetch_single env typ i flags known)"
  by (auto simp: fetch_single_def is_panic_bind fetchCustomVarsFromSql_no_panic fetchObjectFromRedis_no_panic)

lemma fetch_single_Ok:
  assumes "fetch_single env typ i flags known = Ok (obj, vars)"
  shows "(fst flags \<longrightarrow> obj \<noteq> None) \<and> (\<not> fst flags \<longrightarrow> obj = known) \<and> (\<not> snd flags \<longrightarrow> vars = None)"
  using assms by (auto simp: fetch_single_def errgroup2_Ok bind_outcome_Ok_iff split: if_splits)

lemmas fetch_no_panic = fetchObjectsFromRedis_no_panic fetchGroupsFromSql_no_panic
  fetchMultiCustomVarsFromSql_no_panic fetch_single_no_panic

section \<open>Every step is sound\<close>

lemma single_flags_cases:
  assumes "names_wf prefix rel" "flags = single_flags prefix wants rel"
  shows "fst flags \<Longrightarrow> \<not> is_complete (prefix @ ''.name'') rel"
    and "snd flags \<Longrightarrow> \<not> is_complete (prefix @ ''.vars'') rel"
    and "\<not> fst flags \<Longrightarrow> snd flags \<Longrightarrow> is_complete (prefix @ ''.name'') rel"
    and "fst flags \<Longrightarrow> \<not> snd flags \<Longrightarrow> \<not> is_complete (prefix @ ''.vars'') rel"
  using assms by (auto simp: single_flags_def names_wf_def Let_def)

lemma base_wf_update:
  assumes "base_wf rel" "\<And>k. is_new fo fv prefix g k \<Longrightarrow> k \<in> set known_relations"
  shows "base_wf (updateCompleteRelations fo fv prefix g rel)"
  using assms by (auto simp: base_wf_def set_update_complete)

lemma base_wf_fields [simp]:
  "base_wf (rel\<lparr>Host := h\<rparr>) = base_wf rel"
  "base_wf (rel\<lparr>Services := objs\<rparr>) = base_wf rel"
  "base_wf (rel\<lparr>Hostgroups := objs\<rparr>) = base_wf rel"
  "base_wf (rel\<lparr>Servicegroups := objs\<rparr>) = base_wf rel"
  by (simp_all add: base_wf_def)

lemma grows_update [simp]: "grows rel (updateCompleteRelations fo fv prefix g rel)"
  by (auto simp: grows_def set_update_complete)

lemma grows_fields [simp]:
  "grows rel (rel'\<lparr>Host := h\<rparr>) = grows rel rel'"
  "grows rel (rel'\<lparr>Services := objs\<rparr>) = grows rel rel'"
  "grows rel (rel'\<lparr>Hostgroups := objs\<rparr>) = grows rel rel'"
  "grows rel (rel'\<lparr>Servicegroups := objs\<rparr>) = grows rel rel'"
  by (simp_all add: grows_def)

lemmas part_wf_defs = host_wf_def services_wf_def groups_wf_def names_wf_def

lemma provide_host_sound:
  assumes "rel_wf rel"
  shows "sound_step rel (provide_host env wants rel)"
proof -
  define flags where "flags = single_flags ''host'' wants rel"
  define known where "known = (if is_complete ''host.name'' rel then Host rel else None)"
  have wf: "base_wf rel" "host_wf rel" "services_wf rel" "groups_wf rel"
    using assms by (simp_all add: rel_wf_def)
  have n: "names_wf ''host'' rel" using wf(2) by (simp add: host_wf_def)
  note f = single_flags_cases [OF n flags_def, simplified]
  have step: "sound_step rel (case x of (hostObj, hostCustomVars) \<Rightarrow>
      (case hostObj of None \<Rightarrow> (Panic ''nil host'', rel)
        | Some obj \<Rightarrow> (Ok (), (updateCompleteRelations (fst flags) (snd flags) ''host'' False rel)
                         \<lparr>Host := Some (obj\<lparr>Vars := hostCustomVars\<rparr>)\<rparr>)))"
    if some: "fst flags \<or> snd flags" and x: "fetch_single env ''host'' (hostId rel) flags known = Ok x" for x
  proof -
    obtain obj' vars where x': "x = (obj', vars)" by force
    note r = fetch_single_Ok [OF x [unfolded x']]
    have "obj' \<noteq> None"
      using r f(3) some wf(2) by (auto simp: known_def host_wf_def split: option.splits)
    then obtain obj where obj: "obj' = Some obj" by auto
    let ?rel' = "(updateCompleteRelations (fst flags) (snd flags) ''host'' False rel)
                   \<lparr>Host := Some (obj\<lparr>Vars := vars\<rparr>)\<rparr>"
    have "base_wf ?rel'" using wf(1) by (auto intro!: base_wf_update is_new_known(1))
    moreover have "host_wf ?rel'"
      using f n r some by (auto simp: host_wf_def names_wf_def is_new_def)
    moreover have "services_wf ?rel' = services_wf rel" "groups_wf ?rel' = groups_wf rel"
      by (simp_all add: services_wf_def groups_wf_def names_wf_def is_new_def cong: list.case_cong)
    ultimately show ?thesis
      using wf obj x' by (simp add: sound_step_def rel_wf_def)
  qed
  show ?thesis
  proof (cases "fst flags \<or> snd flags")
    case True
    then show ?thesis
      unfolding provide_host_def Let_def flags_def [symmetric] known_def [symmetric]
      using assms step by (auto intro!: sound_provided simp: fetch_single_no_panic)
  next
    case False
    then show ?thesis
      using assms by (simp add: provide_host_def Let_def flags_def [symmetric])
  qed
qed

lemma provide_service_sound:
  assumes "rel_wf rel" "serviceId rel \<noteq> None"
  shows "sound_step rel (provide_service env wants rel)"
proof -
  define flags where "flags = single_flags ''services[*]'' wants rel"
  define known where "known = (if is_complete ''services[*].name'' rel then Some (hd (Services rel)) else None)"
  have wf: "base_wf rel" "host_wf rel" "services_wf rel" "groups_wf rel"
    using assms(1) by (simp_all add: rel_wf_def)
  have n: "names_wf ''services[*]'' rel" using wf(3) by (simp add: services_wf_def)
  have there: "\<not> (is_complete ''services[*].name'' rel \<and> Services rel = [])"
    using wf(3) assms(2) by (auto simp: services_wf_def)
  note f = single_flags_cases [OF n flags_def, simplified]
  have step: "sound_step rel (case x of (serviceObj, serviceCustomVars) \<Rightarrow>
      (case serviceObj of None \<Rightarrow> (Panic ''nil service'', rel)
        | Some obj \<Rightarrow> (Ok (), (updateCompleteRelations (fst flags) (snd flags) ''services[*]'' False rel)
                         \<lparr>Services := [obj\<lparr>Vars := serviceCustomVars\<rparr>]\<rparr>)))"
    if some: "fst flags \<or> snd flags" and x: "fetch_single env ''service'' (serviceId rel) flags known = Ok x" for x
  proof -
    obtain obj' vars where x': "x = (obj', vars)" by force
    note r = fetch_single_Ok [OF x [unfolded x']]
    have "obj' \<noteq> None" using r f(3) some by (auto simp: known_def)
    then obtain obj where obj: "obj' = Some obj" by auto
    let ?rel' = "(updateCompleteRelations (fst flags) (snd flags) ''services[*]'' False rel)
                   \<lparr>Services := [obj\<lparr>Vars := vars\<rparr>]\<rparr>"
    have "base_wf ?rel'" using wf(1) by (auto intro!: base_wf_update is_new_known(2))
    moreover have "services_wf ?rel'"
      using f n r some by (auto simp: services_wf_def names_wf_def is_new_def)
    moreover have "host_wf ?rel' = host_wf rel" "groups_wf ?rel' = groups_wf rel"
      by (simp_all add: host_wf_def groups_wf_def names_wf_def is_new_def cong: option.case_cong)
    ultimately show ?thesis
      using wf obj x' by (simp add: sound_step_def rel_wf_def)
  qed
  show ?thesis
    unfolding provide_service_def Let_def flags_def [symmetric] known_def [symmetric]
    using assms step there by (auto intro!: sound_provided simp: fetch_single_no_panic)
qed

lemma provide_host_services_sound:
  assumes "rel_wf rel" "serviceId rel = None"
  shows "sound_step rel (provide_host_services env wants rel)"
proof -
  have wf: "base_wf rel" "host_wf rel" "services_wf rel" "groups_wf rel"
    using assms(1) by (simp_all add: rel_wf_def)
  have step: "sound_step rel (Ok (),
      (updateCompleteRelations (fst wants \<or> snd wants) (snd wants) ''services[*]'' False rel)
        \<lparr>Services := objs\<rparr>)"
    if some: "fst wants \<or> snd wants" for objs
  proof -
    let ?rel' = "(updateCompleteRelations (fst wants \<or> snd wants) (snd wants) ''services[*]'' False rel)
                   \<lparr>Services := objs\<rparr>"
    have "base_wf ?rel'" using wf(1) by (auto intro!: base_wf_update is_new_known(2))
    moreover have "services_wf ?rel'"
      using wf(3) some assms(2) by (auto simp: services_wf_def names_wf_def is_new_def)
    moreover have "host_wf ?rel' = host_wf rel" "groups_wf ?rel' = groups_wf rel"
      by (simp_all add: host_wf_def groups_wf_def names_wf_def is_new_def cong: option.case_cong)
    ultimately show ?thesis using wf by (simp add: sound_step_def rel_wf_def)
  qed
  have same: "sound_step rel (Ok (), (updateCompleteRelations False False ''services[*]'' False rel)\<lparr>Services := []\<rparr>)"
    if "\<not> is_complete ''services[*].name'' rel"
  proof -
    have "(updateCompleteRelations False False ''services[*]'' False rel)\<lparr>Services := []\<rparr> = rel"
      using wf(3) that by (simp add: services_wf_def updateCompleteRelations_def newRelations_def)
    then show ?thesis using assms by simp
  qed
  have last: "sound_step rel (Ok (),
      (updateCompleteRelations (fst wants \<or> snd wants) (snd wants) ''services[*]'' False rel)
        \<lparr>Services := services_slice order objs vars\<rparr>)"
    if "fst wants \<or> snd wants \<or> \<not> is_complete ''services[*].name'' rel \<and> objs = []" for order objs vars
  proof (cases "fst wants \<or> snd wants")
    case True
    then show ?thesis by (rule step)
  next
    case False
    then show ?thesis using that same by (simp add: services_slice_def map_filter_simps map_filter_def)
  qed
  show ?thesis
    unfolding provide_host_services_def Let_def
    using assms by (auto intro!: sound_provided last simp: fetch_no_panic errgroup2_Ok split: if_splits)
qed

lemma provide_hostgroups_sound:
  assumes "rel_wf rel"
  shows "sound_step rel (provide_hostgroups env wants rel)"
proof -
  have wf: "base_wf rel" "host_wf rel" "services_wf rel" "groups_wf rel"
    using assms by (simp_all add: rel_wf_def)
  have step: "sound_step rel (Ok (),
      (updateCompleteRelations (fst wants) (snd wants) ''hostgroups[*]'' True rel)\<lparr>Hostgroups := groups\<rparr>)"
    if "list_all (\<lambda>g. Vars g = None) groups" for groups
  proof -
    let ?rel' = "(updateCompleteRelations (fst wants) (snd wants) ''hostgroups[*]'' True rel)\<lparr>Hostgroups := groups\<rparr>"
    have "base_wf ?rel'" using wf(1) by (auto intro!: base_wf_update is_new_known(3))
    moreover have "groups_wf ?rel'" using wf(4) that by (auto simp: groups_wf_def names_wf_def is_new_def)
    moreover have "host_wf ?rel' = host_wf rel" "services_wf ?rel' = services_wf rel"
      by (simp_all add: host_wf_def services_wf_def names_wf_def is_new_def cong: option.case_cong list.case_cong)
    ultimately show ?thesis using wf by (simp add: sound_step_def rel_wf_def)
  qed
  show ?thesis
    unfolding provide_hostgroups_def
    using assms by (auto intro!: sound_provided step simp: fetch_no_panic dest: fetchGroupsFromSql_no_vars)
qed

lemma provide_servicegroups_sound:
  assumes "rel_wf rel"
  shows "sound_step rel (provide_servicegroups env wants rel)"
proof -
  have wf: "base_wf rel" "host_wf rel" "services_wf rel" "groups_wf rel"
    using assms by (simp_all add: rel_wf_def)
  have step: "sound_step rel (Ok (),
      (updateCompleteRelations (fst wants) (snd wants) ''servicegroups[*]'' True rel)\<lparr>Servicegroups := groups\<rparr>)"
    if "list_all (\<lambda>g. Vars g = None) groups" for groups
  proof -
    let ?rel' = "(updateCompleteRelations (fst wants) (snd wants) ''servicegroups[*]'' True rel)\<lparr>Servicegroups := groups\<rparr>"
    have "base_wf ?rel'" using wf(1) by (auto intro!: base_wf_update is_new_known(4))
    moreover have "groups_wf ?rel'" using wf(4) that by (auto simp: groups_wf_def names_wf_def is_new_def)
    moreover have "host_wf ?rel' = host_wf rel" "services_wf ?rel' = services_wf rel"
      by (simp_all add: host_wf_def services_wf_def names_wf_def is_new_def cong: option.case_cong list.case_cong)
    ultimately show ?thesis using wf by (simp add: sound_step_def rel_wf_def)
  qed
  show ?thesis
    unfolding provide_servicegroups_def
    using assms by (auto intro!: sound_provided step simp: fetch_no_panic dest: fetchGroupsFromSql_no_vars)
qed

lemmas provide_sound = provide_host_sound provide_service_sound provide_host_services_sound
  provide_hostgroups_sound provide_servicegroups_sound

lemma provide_selector_sound: "rel_wf rel \<Longrightarrow> sound_step rel (provide_selector env childSegments sel rel)"
  by (auto simp: provide_selector_def Let_def intro: provide_sound)

lemma until_error_sound:
  assumes "\<And>x rel. rel_wf rel \<Longrightarrow> sound_step rel (f x rel)" "rel_wf rel"
  shows "sound_step rel (until_error f xs rel)"
  using assms(2)
proof (induction xs arbitrary: rel)
  case Nil
  then show ?case by simp
next
  case (Cons x xs)
  obtain r rel' where fx: "f x rel = (r, rel')" by force
  have s: "sound_step rel (r, rel')" using assms(1) [OF Cons.prems, of x] fx by simp
  show ?case
  proof (cases r)
    case (Ok u)
    have "sound_step rel' (until_error f xs rel')" using s by (intro Cons.IH) (simp add: sound_step_def)
    then show ?thesis using s Ok fx by (auto simp: sound_step_def intro: grows_trans)
  qed (use s fx in \<open>auto simp: sound_step_def\<close>)
qed

lemma relationsProvider_sound: "rel_wf rel \<Longrightarrow> sound_step rel (relationsProvider env segments rel)"
  by (auto simp: relationsProvider_def intro: until_error_sound provide_selector_sound split: list.splits)

lemma rel_complete_sound: "rel_wf rel \<Longrightarrow> sound_step rel (rel_complete env parse query rel)"
  by (auto simp: rel_complete_def intro: relationsProvider_sound split: sum.splits)

lemma start_relations_wf: "rel_wf (start_relations h s)"
  by (simp add: start_relations_def populateObject_def append_new_def rel_wf_def base_wf_def part_wf_defs
      is_complete_def known_relations_def)

lemma fetchHostServiceData_sound:
  "case fetchHostServiceData env parse h s of
     Ok rel \<Rightarrow> rel_wf rel \<and> hostId rel = h \<and> serviceId rel = s
   | Err e \<Rightarrow> True
   | Panic p \<Rightarrow> False"
proof -
  let ?queries = "''$.host.name'' # (if s \<noteq> None then [''$.services[*].name''] else [])"
  obtain r rel' where run: "until_error (rel_complete env parse) ?queries (start_relations h s) = (r, rel')"
    by force
  have "sound_step (start_relations h s) (r, rel')"
    unfolding run [symmetric] by (rule until_error_sound [OF rel_complete_sound start_relations_wf])
  then show ?thesis
    unfolding fetchHostServiceData_def run
    by (cases r) (auto simp: sound_step_def grows_def start_relations_def populateObject_def)
qed

end
