(* ===== verification/Notify_Event.thy ===== *)
theory Notify_Event
  imports Notify_Relations History_Types Stream_Id
begin

text \<open>
  From an entity to an event and to the Icinga Notifications API (\<open>pkg/notifications/notifications.go\<close>):
  the common part of an event, the event of a host or service state, the builders for history entries,
  which are unfinished in the code, and \<open>Client.Submit\<close> with the negotiation of attributes inside the
  retries.

  The API client and the event type come from a library. The model has the fields the code sets; what
  the server answers is the parameter \<open>process\<close>, on a state of the world it may look at and change.
\<close>

section \<open>States and events\<close>

record v1_state =
  s_EnvironmentId :: binary
  HardState :: "8 word"
  PreviousHardState :: "8 word"
  StateType :: string
  InDowntime :: go_bool
  IsAcknowledged :: go_bool
  IsFlapping :: go_bool
  LastUpdate :: time
  Output :: go_string
  LongOutput :: go_string

record DowntimeHistoryMeta =
  dhm_History :: DowntimeHistory
  dhm_Meta :: HistoryMeta

text \<open>The types \<open>Submit\<close> tells apart; a host state has an ID of its own and that of its host.\<close>

datatype notify_entity =
    NHostState (hs_Id: binary) (hs_HostId: binary) (hs_State: v1_state)
  | NServiceState (ss_Id: binary) (ss_ServiceId: binary) (ss_HostId: binary) (ss_State: v1_state)
  | NAcknowledgement AcknowledgementHistory
  | NDowntime DowntimeHistoryMeta
  | NFlapping FlappingHistory
  | NDependencyEdgeState
  | NRedundancygroupState
  | NUnsupported string

datatype severity = SeverityNone | SeverityOK | SeverityWarning | SeverityErr | SeverityCrit

record 'j event =
  ev_ID :: string
  ev_Name :: string
  ev_URL :: string
  ev_Tags :: "string \<rightharpoonup> string"
  ev_Message :: string
  ev_Severity :: severity
  ev_Muted :: go_bool
  ev_MutedReason :: string
  ev_Incident :: go_bool
  ev_Close :: go_bool
  ev_Notify :: go_bool
  ev_Relations :: "string \<rightharpoonup> 'j relation_value"
  ev_CompleteRelations :: "string list"

definition IsMuted :: "'j event \<Rightarrow> bool" where
  "IsMuted ev = bool_true (ev_Muted ev)"

record 'j fetchableEvent =
  fe_Event :: "'j event"
  fe_relations :: "'j relations"

section \<open>The common part of an event\<close>

definition Binary_String :: "binary \<Rightarrow> string" where
  "Binary_String b = hex_EncodeToString (bytes_of b)"

text \<open>
  What the client is configured with, and the functions of libraries it calls: the parser of
  JSONPaths, the encoding of names in URLs, the validation of events and the clock.
\<close>

record 'j notify_client =
  parse :: "string \<Rightarrow> string + string list list"
  RawUrlEncode :: "string \<Rightarrow> string"
  Validate :: "'j event \<Rightarrow> string option"
  now_milli :: int
  DefaultRelations :: "string list"

definition common_event ::
  "'j notify_client \<Rightarrow> 'j relations \<Rightarrow> string \<Rightarrow> string \<Rightarrow> (string \<rightharpoonup> string) \<Rightarrow> 'j fetchableEvent" where
  "common_event client rel objectName objectUrl objectTags = \<lparr>
     fe_Event = \<lparr>ev_ID = objectName @ ''!'' @ FormatInt (now_milli client), ev_Name = objectName,
       ev_URL = objectUrl, ev_Tags = objectTags, ev_Message = [], ev_Severity = SeverityNone,
       ev_Muted = null_bool, ev_MutedReason = [], ev_Incident = null_bool, ev_Close = null_bool,
       ev_Notify = null_bool, ev_Relations = Map.empty, ev_CompleteRelations = []\<rparr>,
     fe_relations = rel\<rparr>"

definition buildCommonEvent ::
  "'j notify_client \<Rightarrow> 'j fetch_env \<Rightarrow> binary \<Rightarrow> binary \<Rightarrow> (string, 'j fetchableEvent) outcome" where
  "buildCommonEvent client env h s =
     bind_outcome (fetchHostServiceData env (parse client) h s) (\<lambda>rel.
       case Host rel of
         None \<Rightarrow> Err ''relations does not contain a host''
       | Some host \<Rightarrow>
           if s \<noteq> None then
             (case Services rel of
                [] \<Rightarrow> Err ''relations does not contain a service''
              | service # _ \<Rightarrow>
                  Ok (common_event client rel (DisplayName host @ '': '' @ DisplayName service)
                    (''/icingadb/service?name='' @ RawUrlEncode client (Name service) @
                     ''&host.name='' @ RawUrlEncode client (Name host))
                    [''host'' \<mapsto> Name host, ''service'' \<mapsto> Name service]))
           else
             Ok (common_event client rel (DisplayName host)
               (''/icingadb/host?name='' @ RawUrlEncode client (Name host))
               [''host'' \<mapsto> Name host]))"

section \<open>The event of a state\<close>

datatype event_error = ErrNonVolatileNonHardState | EventError string

definition StateToSeverity :: "v1_state \<Rightarrow> bool \<Rightarrow> (string, severity) outcome" where
  "StateToSeverity s isService =
     (if isService then
        (if HardState s = 0 then Ok SeverityOK
         else if HardState s = 1 then Ok SeverityWarning
         else if HardState s = 2 then Ok SeverityCrit
         else if HardState s = 3 then Ok SeverityErr
         else Err (''unexpected service state '' @ FormatInt (uint (HardState s))))
      else
        (if HardState s = 0 then Ok SeverityOK
         else if HardState s = 1 then Ok SeverityCrit
         else Err (''unexpected host state '' @ FormatInt (uint (HardState s)))))"

definition mutedReason :: "bool \<Rightarrow> bool \<Rightarrow> bool \<Rightarrow> string" where
  "mutedReason inDowntime isAcked isFlapping =
     (if inDowntime \<or> isAcked \<or> isFlapping then
        ''Checkable is muted due to'' @
        (if inDowntime then '' currently active downtime'' else []) @
        (if isAcked \<and> inDowntime then '', and an acknowledgement''
         else if isAcked then '' an acknowledgement'' else []) @
        (if isFlapping \<and> (inDowntime \<or> isAcked) then '', and flapping as well''
         else if isFlapping then '' flapping state'' else []) @ ''.''
      else ''Checkable is not muted (no active downtime, no acknowledgement, and not flapping)'')"

definition state_message :: "v1_state \<Rightarrow> string" where
  "state_message s = (if str_valid (Output s) then str_val (Output s) else []) @
     (if str_valid (LongOutput s) then CHR 0x0A # str_val (LongOutput s) else [])"

definition checkable_volatile :: "'j relations \<Rightarrow> binary \<Rightarrow> (string, bool) outcome" where
  "checkable_volatile rel service =
     (if service \<noteq> None
      then (case Services rel of [] \<Rightarrow> Panic ''index out of range'' | obj # _ \<Rightarrow> Ok (isVolatile obj))
      else (case Host rel of None \<Rightarrow> Panic ''nil host'' | Some obj \<Rightarrow> Ok (isVolatile obj)))"

fun map_error :: "('e \<Rightarrow> 'f) \<Rightarrow> ('e, 'a) outcome \<Rightarrow> ('f, 'a) outcome" where
  "map_error f (Ok a) = Ok a"
| "map_error f (Err e) = Err (f e)"
| "map_error f (Panic p) = Panic p"

text \<open>The flags of an event, from its severity and whether the checkable is muted.\<close>

definition state_flags :: "v1_state \<Rightarrow> 'j event \<Rightarrow> 'j event" where
  "state_flags s ev =
     (let ev = ev\<lparr>ev_Incident := MakeBool True\<rparr>
      in if ev_Severity ev = SeverityOK \<and> \<not> IsMuted ev then ev\<lparr>ev_Close := MakeBool True\<rparr>
         else if PreviousHardState s = HardState s then ev\<lparr>ev_Notify := MakeBool True\<rparr>
         else ev)"

definition buildStateEvent ::
  "'j notify_client \<Rightarrow> 'j fetch_env \<Rightarrow> v1_state \<Rightarrow> binary \<Rightarrow> binary \<Rightarrow>
   (event_error, 'j fetchableEvent) outcome" where
  "buildStateEvent client env s h service =
     bind_outcome
       (map_error (\<lambda>e. EventError (Wrap ''cannot build event'' e)) (buildCommonEvent client env h service)) (\<lambda>fe.
     let ev = (fe_Event fe)\<lparr>
           ev_Tags := (ev_Tags (fe_Event fe))(''environment'' \<mapsto> Binary_String (s_EnvironmentId s)),
           ev_Message := state_message s\<rparr>
     in bind_outcome (map_error EventError (checkable_volatile (fe_relations fe) service)) (\<lambda>volatile.
          if StateType s \<noteq> ''hard'' \<and> \<not> volatile then Err ErrNonVolatileNonHardState
          else bind_outcome (map_error EventError (StateToSeverity s (service \<noteq> None))) (\<lambda>sev.
            let inDowntime = bool_true (InDowntime s);
                isAcked = bool_true (IsAcknowledged s);
                isFlap = bool_true (IsFlapping s);
                ev = ev\<lparr>ev_Severity := sev, ev_Muted := MakeBool (inDowntime \<or> isAcked \<or> isFlap),
                        ev_MutedReason := mutedReason inDowntime isAcked isFlap\<rparr>
            in Ok (fe\<lparr>fe_Event := state_flags s ev\<rparr>))))"

end
