(* ===== verification/Notify_Submit.thy ===== *)
theory Notify_Submit
  imports Notify_Event
begin

text \<open>
  \<open>Client.Submit\<close>: the builders for history entries, the completion of an event, the negotiation of
  attributes with the server, the retries around it, and the signals for the HA component.
\<close>

section \<open>History entries\<close>

text \<open>
  Each of these builders defers a panic, which replaces whatever the builder returned. The floats in
  the messages are printed by \<open>show_float\<close>, two digits after the point.
\<close>

fun deferred_panic :: "string \<Rightarrow> ('e, 'a) outcome \<Rightarrow> ('e, 'a) outcome" where
  "deferred_panic p r = Panic p"

definition with_message :: "string \<Rightarrow> 'j fetchableEvent \<Rightarrow> 'j fetchableEvent" where
  "with_message m fe = fe\<lparr>fe_Event := (fe_Event fe)\<lparr>ev_Message := m\<rparr>\<rparr>"

definition buildDowntimeHistoryMetaEvent ::
  "'j notify_client \<Rightarrow> 'j fetch_env \<Rightarrow> DowntimeHistoryMeta \<Rightarrow> (string, 'j fetchableEvent) outcome" where
  "buildDowntimeHistoryMetaEvent client env h =
     deferred_panic ''downtime history event generation is incomplete and not yet implemented''
       (bind_outcome (map_error (Wrap ''cannot build event'')
            (buildCommonEvent client env (hm_HostId (dhm_Meta h)) (hm_ServiceId (dhm_Meta h)))) (\<lambda>fe.
          let up = dh_Upserter (dhm_History h)
          in if hm_EventType (dhm_Meta h) = ''downtime_start'' then Ok (with_message (dh_Comment (dhm_History h)) fe)
             else if hm_EventType (dhm_Meta h) = ''downtime_end'' then
               Ok (with_message
                     (if bool_true (dh_HasBeenCancelled up)
                      then ''Downtime was cancelled'' @
                        (if str_valid (dh_CancelledBy up) then '' (cancelled by '' @ str_val (dh_CancelledBy up) @ '')'' else [])
                      else ''Downtime expired'') fe)
             else Err (''unexpected event type '' @ hm_EventType (dhm_Meta h))))"

definition buildFlappingHistoryEvent ::
  "'j notify_client \<Rightarrow> 'j fetch_env \<Rightarrow> (rat \<Rightarrow> string) \<Rightarrow> FlappingHistory \<Rightarrow> (string, 'j fetchableEvent) outcome" where
  "buildFlappingHistoryEvent client env show_float h =
     deferred_panic ''flapping history event generation is incomplete and not yet implemented''
       (bind_outcome (map_error (Wrap ''cannot build event'')
            (buildCommonEvent client env (htm_HostId (fh_Meta h)) (htm_ServiceId (fh_Meta h)))) (\<lambda>fe.
          let up = fh_Upserter h
          in if flt_valid (fh_PercentStateChangeEnd up) then
               Ok (with_message (''Checkable stopped flapping (Current flapping value '' @
                     show_float (flt_val (fh_PercentStateChangeEnd up)) @ ''% < low threshold '' @
                     show_float (fh_FlappingThresholdLow up) @ ''%)'') fe)
             else if flt_valid (fh_PercentStateChangeStart h) then
               Ok (with_message (''Checkable started flapping (Current flapping value '' @
                     show_float (flt_val (fh_PercentStateChangeStart h)) @ ''% > high threshold '' @
                     show_float (fh_FlappingThresholdHigh up) @ ''%)'') fe)
             else Err ''flapping history entry has neither percent_state_change_start nor percent_state_change_end''))"

definition buildAcknowledgementHistoryEvent ::
  "'j notify_client \<Rightarrow> 'j fetch_env \<Rightarrow> AcknowledgementHistory \<Rightarrow> (string, 'j fetchableEvent) outcome" where
  "buildAcknowledgementHistoryEvent client env h =
     deferred_panic ''acknowledgement history event generation is incomplete and not yet implemented''
       (bind_outcome (map_error (Wrap ''cannot build event'')
            (buildCommonEvent client env (htm_HostId (ah_Meta h)) (htm_ServiceId (ah_Meta h)))) (\<lambda>fe.
          let up = ah_Upserter h
          in if \<not> time_is_zero (ah_ClearTime up) then
               Ok (with_message (''Acknowledgement was cleared'' @
                     (if str_valid (ah_ClearedBy up) then '' (cleared by '' @ str_val (ah_ClearedBy up) @ '')'' else [])) fe)
             else if \<not> time_is_zero (ah_SetTime h) then
               Ok (with_message
                     (if str_valid (ah_Comment h) then str_val (ah_Comment h) else ''Checkable was acknowledged'') fe)
             else Err ''acknowledgment history entry has neither a set_time nor a clear_time''))"

section \<open>Completing an event\<close>

text \<open>The error of the failing attribute is wrapped; the relations keep what was fetched before it.\<close>

definition complete_attribute ::
  "'j notify_client \<Rightarrow> 'j fetch_env \<Rightarrow> string \<Rightarrow> 'j relations \<Rightarrow> 'j provided" where
  "complete_attribute client env attribute rel =
     (case rel_complete env (parse client) attribute rel of
        (r, rel') \<Rightarrow> (map_error (Wrap (''cannot complete relations for attribute '' @ attribute)) r, rel'))"

definition completeAndUpdate ::
  "'j notify_client \<Rightarrow> 'j fetch_env \<Rightarrow> string list \<Rightarrow> 'j fetchableEvent \<Rightarrow>
   (string, unit) outcome \<times> 'j fetchableEvent" where
  "completeAndUpdate client env attributes fe =
     (case until_error (complete_attribute client env) attributes (fe_relations fe) of
        (Ok u, rel') \<Rightarrow>
          (Ok (), fe\<lparr>fe_relations := rel',
             fe_Event := (fe_Event fe)\<lparr>ev_Relations := asMap rel', ev_CompleteRelations := completeRelations rel'\<rparr>\<rparr>)
      | (Err e, rel') \<Rightarrow> (Err e, fe\<lparr>fe_relations := rel'\<rparr>)
      | (Panic p, rel') \<Rightarrow> (Panic p, fe\<lparr>fe_relations := rel'\<rparr>))"

section \<open>Negotiation and retries\<close>

text \<open>
  A reply of the server: the attributes it returned and its error. The world may change with every
  request (\<open>process\<close>) and while the code waits before it tries again (\<open>backoff_wait\<close>); it determines
  what the queries find (\<open>fetch_of\<close>).
\<close>

datatype process_error = NoError | ErrAttrsNegotiation | ProcessError string

record ('w, 'j) server =
  process :: "'w \<Rightarrow> 'j event \<Rightarrow> 'w \<times> string list \<times> process_error"
  backoff_wait :: "'w \<Rightarrow> 'w"
  fetch_of :: "'w \<Rightarrow> 'j fetch_env"

record ('w, 'j) submission_state =
  ss_event :: "'j fetchableEvent"
  ss_attributes :: "string list"
  ss_world :: 'w

text \<open>One round of the inner loop: \<open>None\<close> where the loop goes on.\<close>

definition negotiation_round ::
  "'j notify_client \<Rightarrow> ('w, 'j) server \<Rightarrow> ('w, 'j) submission_state \<Rightarrow>
   (string, unit) outcome option \<times> ('w, 'j) submission_state" where
  "negotiation_round client srv st =
     (case completeAndUpdate client (fetch_of srv (ss_world st)) (ss_attributes st) (ss_event st) of
        (Err e, fe) \<Rightarrow> (Some (Err e), st\<lparr>ss_event := fe\<rparr>)
      | (Panic p, fe) \<Rightarrow> (Some (Panic p), st\<lparr>ss_event := fe\<rparr>)
      | (Ok u, fe) \<Rightarrow>
          (case process srv (ss_world st) (fe_Event fe) of
             (w', attributes, err) \<Rightarrow>
               (case err of ErrAttrsNegotiation \<Rightarrow> None | NoError \<Rightarrow> Some (Ok ()) | ProcessError e \<Rightarrow> Some (Err e),
                \<lparr>ss_event = fe, ss_attributes = attributes, ss_world = w'\<rparr>)))"

partial_function (option) negotiate ::
  "'j notify_client \<Rightarrow> ('w, 'j) server \<Rightarrow> ('w, 'j) submission_state \<Rightarrow>
   ((string, unit) outcome \<times> ('w, 'j) submission_state) option" where
  "negotiate client srv st =
     (case negotiation_round client srv st of
        (None, st') \<Rightarrow> negotiate client srv st'
      | (Some r, st') \<Rightarrow> Some (r, st'))"

text \<open>
  \<open>sendHeartbeat\<close> sends on an unbuffered channel unless nobody receives: \<open>hb_ready\<close> says for each of the
  coming signals whether the HA component is waiting for one; a signal it does not wait for is lost.
\<close>

record signals =
  hb_sent :: "bool list"
  hb_ready :: "bool list"
  NotificationSync :: nat

definition sendHeartbeat :: "bool \<Rightarrow> signals \<Rightarrow> signals" where
  "sendHeartbeat alive s =
     (case hb_ready s of
        [] \<Rightarrow> s
      | ready # later \<Rightarrow> s\<lparr>hb_sent := (if ready then hb_sent s @ [alive] else hb_sent s), hb_ready := later\<rparr>)"

text \<open>
  \<open>retry.WithBackoff\<close> where every error is retried and there is no timeout: it ends with success or with
  the context. \<open>attempts\<close> is the number of attempts the context allows. The outer \<open>None\<close> is an attempt
  that never ends.
\<close>

fun retry_submit ::
  "'j notify_client \<Rightarrow> ('w, 'j) server \<Rightarrow> nat \<Rightarrow> ('w, 'j) submission_state \<Rightarrow> signals \<Rightarrow>
   ((string, unit) outcome \<times> ('w, 'j) submission_state \<times> signals) option" where
  "retry_submit client srv 0 st sig = Some (Err ''context ended'', st, sig)"
| "retry_submit client srv (Suc attempts) st sig =
     (case negotiate client srv st of
        None \<Rightarrow> None
      | Some (Ok u, st') \<Rightarrow>
          Some (Ok (), st', (sendHeartbeat True sig)\<lparr>NotificationSync := NotificationSync sig + 1\<rparr>)
      | Some (Err e, st') \<Rightarrow>
          retry_submit client srv attempts (st'\<lparr>ss_world := backoff_wait srv (ss_world st')\<rparr>) (sendHeartbeat False sig)
      | Some (Panic p, st') \<Rightarrow> Some (Panic p, st', sig))"

section \<open>Submit\<close>

definition canIgnoreStateUpdate :: "v1_state \<Rightarrow> bool" where
  "canIgnoreStateUpdate s \<longleftrightarrow> HardState s = 99 \<or> HardState s = 0 \<and> PreviousHardState s = 99"

text \<open>The type switch: \<open>None\<close> for an entity that is passed over without looking at it.\<close>

fun event_of ::
  "'j notify_client \<Rightarrow> 'j fetch_env \<Rightarrow> (rat \<Rightarrow> string) \<Rightarrow> notify_entity \<Rightarrow>
   (event_error, 'j fetchableEvent) outcome option" where
  "event_of client env show_float (NAcknowledgement h) =
     Some (map_error EventError (buildAcknowledgementHistoryEvent client env h))"
| "event_of client env show_float (NDowntime h) =
     Some (map_error EventError (buildDowntimeHistoryMetaEvent client env h))"
| "event_of client env show_float (NFlapping h) =
     Some (map_error EventError (buildFlappingHistoryEvent client env show_float h))"
| "event_of client env show_float (NHostState i h s) =
     (if canIgnoreStateUpdate s then None else Some (buildStateEvent client env s i None))"
| "event_of client env show_float (NServiceState i sid h s) =
     (if canIgnoreStateUpdate s then None else Some (buildStateEvent client env s h sid))"
| "event_of client env show_float NDependencyEdgeState = None"
| "event_of client env show_float NRedundancygroupState = None"
| "event_of client env show_float (NUnsupported t) = None"

text \<open>
  Errors in building the event and invalid events are logged and skipped: \<open>Submit\<close> then returns nil.
\<close>

definition Submit ::
  "'j notify_client \<Rightarrow> ('w, 'j) server \<Rightarrow> (rat \<Rightarrow> string) \<Rightarrow> nat \<Rightarrow> notify_entity \<Rightarrow> 'w \<Rightarrow> signals \<Rightarrow>
   ((string, unit) outcome \<times> 'w \<times> signals) option" where
  "Submit client srv show_float attempts entity w sig =
     (case event_of client (fetch_of srv w) show_float entity of
        None \<Rightarrow> Some (Ok (), w, sig)
      | Some (Panic p) \<Rightarrow> Some (Panic p, w, sig)
      | Some (Err e) \<Rightarrow> Some (Ok (), w, sig)
      | Some (Ok fe) \<Rightarrow>
          if Validate client (fe_Event fe) \<noteq> None then Some (Ok (), w, sig)
          else map_option (\<lambda>(r, st', sig'). (r, ss_world st', sig'))
                 (retry_submit client srv attempts
                    \<lparr>ss_event = fe, ss_attributes = DefaultRelations client, ss_world = w\<rparr> sig))"

end
