(* ===== verification/Notify_Sync.thy ===== *)
theory Notify_Sync
  imports Notify_Submit Delta
begin

text \<open>
  The incidents of the environment and what the client does with them
  (\<open>pkg/notifications/notifications.go\<close>): fetching them, applying the delta of an initial sync, syncing
  the check outputs, and the callback for the history pipelines.
\<close>

section \<open>Incidents\<close>

record incident =
  ObjectTags :: "string \<rightharpoonup> string"
  in_Severity :: severity
  in_IsMuted :: bool

text \<open>
  The client's cache: \<open>None\<close> is the nil map. A map of incidents is an association list from object IDs.
\<close>

type_synonym incidents = "(bytes \<times> incident) list"

record incident_cache =
  incidentsByObjId :: "incidents option"

definition ClearIncidents :: "incident_cache \<Rightarrow> incident_cache" where
  "ClearIncidents c = c\<lparr>incidentsByObjId := None\<rparr>"

text \<open>
  The ID of an object is the hash of the packed strings. \<open>pack\<close> (\<open>objectpacker.PackAny\<close>) gives what it
  writes to the hash and whether it failed; on a failure the code does not reset the hash.
\<close>

definition idTags :: "string \<Rightarrow> incident \<Rightarrow> string list" where
  "idTags environment incident =
     (let host = (case ObjectTags incident ''host'' of None \<Rightarrow> [] | Some h \<Rightarrow> h)
      in [environment,
          case ObjectTags incident ''service'' of None \<Rightarrow> host | Some service \<Rightarrow> host @ ''!'' @ service])"

fun collect_incidents ::
  "(string list \<Rightarrow> bytes \<times> bool) \<Rightarrow> (bytes \<Rightarrow> bytes) \<Rightarrow> string \<Rightarrow> incident list \<Rightarrow> bytes \<Rightarrow>
   incidents \<Rightarrow> incidents" where
  "collect_incidents pack sha1 environment [] hashed incidentsByID = incidentsByID"
| "collect_incidents pack sha1 environment (incident # later) hashed incidentsByID =
     (case pack (idTags environment incident) of
        (written, failed) \<Rightarrow>
          if failed then collect_incidents pack sha1 environment later (hashed @ written) incidentsByID
          else collect_incidents pack sha1 environment later []
                 (AList.update (sha1 (hashed @ written)) incident incidentsByID))"

text \<open>
  What the API yields: incidents, then possibly an error. The incidents before an error are kept.
\<close>

definition retrieveEnvironmentIncidents ::
  "(string list \<Rightarrow> bytes \<times> bool) \<Rightarrow> (bytes \<Rightarrow> bytes) \<Rightarrow> string \<Rightarrow> incident list \<times> string option \<Rightarrow>
   signals \<Rightarrow> incidents \<times> signals" where
  "retrieveEnvironmentIncidents pack sha1 environment yielded sig =
     (collect_incidents pack sha1 environment (fst yielded) [] [],
      if snd yielded \<noteq> None then sendHeartbeat False sig else sig)"

section \<open>Applying the delta of a sync\<close>

fun state_of :: "notify_entity \<Rightarrow> (v1_state \<times> bool) option" where
  "state_of (NHostState i h s) = Some (s, False)"
| "state_of (NServiceState i sid h s) = Some (s, True)"
| "state_of (NAcknowledgement h) = None"
| "state_of (NDowntime h) = None"
| "state_of (NFlapping h) = None"
| "state_of NDependencyEdgeState = None"
| "state_of NRedundancygroupState = None"
| "state_of (NUnsupported t) = None"

definition HaveSameState :: "incident \<Rightarrow> notify_entity \<Rightarrow> (string, bool) outcome" where
  "HaveSameState incident e =
     (case state_of e of
        None \<Rightarrow> Err ''unsupported entity type''
      | Some (s, isService) \<Rightarrow>
          bind_outcome (StateToSeverity s isService) (\<lambda>sev.
            if in_Severity incident \<noteq> sev then Ok False
            else Ok (in_IsMuted incident =
                       (bool_true (InDowntime s) \<or> bool_true (IsAcknowledged s) \<or> bool_true (IsFlapping s)))))"

text \<open>The ID of a state is that of its host or service.\<close>

fun entity_key :: "notify_entity \<Rightarrow> bytes" where
  "entity_key (NHostState i h s) = bytes_of i"
| "entity_key (NServiceState i sid h s) = bytes_of i"
| "entity_key (NAcknowledgement h) = bytes_of (ah_Id h)"
| "entity_key (NDowntime h) = bytes_of (dh_DowntimeId (dhm_History h))"
| "entity_key (NFlapping h) = bytes_of (fh_Id h)"
| "entity_key NDependencyEdgeState = []"
| "entity_key NRedundancygroupState = []"
| "entity_key (NUnsupported t) = []"

datatype subject_kind = HostStates | ServiceStates | OtherEntities

text \<open>
  The first goroutine: the entities come from Redis in turn; one that no incident agrees with is
  submitted with a context of three seconds (\<open>attempts\<close> of them), whatever comes of it. The list of
  submitted entities is kept for the lemmas.
\<close>

type_synonym 'w submitter = "notify_entity \<Rightarrow> 'w \<Rightarrow> signals \<Rightarrow> ((string, unit) outcome \<times> 'w \<times> signals) option"

fun apply_entities ::
  "'w submitter \<Rightarrow> incidents \<Rightarrow> notify_entity list \<Rightarrow> 'w \<Rightarrow> signals \<Rightarrow> notify_entity list \<Rightarrow>
   ((string, unit) outcome \<times> notify_entity list \<times> 'w \<times> signals) option" where
  "apply_entities submit known [] w sig sent = Some (Ok (), sent, w, sig)"
| "apply_entities submit known (entity # later) w sig sent =
     (let same = (case map_of known (entity_key entity) of
                    None \<Rightarrow> Ok False
                  | Some incident \<Rightarrow> HaveSameState incident entity)
      in case same of
           Err e \<Rightarrow> Some (Err e, sent, w, sig)
         | Panic p \<Rightarrow> Some (Panic p, sent, w, sig)
         | Ok True \<Rightarrow> apply_entities submit known later w sig sent
         | Ok False \<Rightarrow>
             (case submit entity w sig of
                None \<Rightarrow> None
              | Some (Panic p, w', sig') \<Rightarrow> Some (Panic p, sent @ [entity], w', sig')
              | Some (Ok u, w', sig') \<Rightarrow> apply_entities submit known later w' sig' (sent @ [entity])
              | Some (Err e, w', sig') \<Rightarrow> apply_entities submit known later w' sig' (sent @ [entity])))"

text \<open>The second goroutine: the tags of the incidents that are closed in bulk.\<close>

definition is_obsolete :: "subject_kind \<Rightarrow> delta \<Rightarrow> bytes \<times> incident \<Rightarrow> bool" where
  "is_obsolete kind d idIncident =
     (let isServiceIncident = (ObjectTags (snd idIncident) ''service'' \<noteq> None);
          isServiceState = (kind = ServiceStates);
          deleted = (actual d (fst idIncident) \<noteq> None);
          isInRedis = (fst idIncident \<in> RedisSnapshot d)
      in deleted \<or> \<not> isInRedis \<and> isServiceState = isServiceIncident)"

definition close_filter :: "subject_kind \<Rightarrow> delta \<Rightarrow> incidents \<Rightarrow> (string \<rightharpoonup> string) list" where
  "close_filter kind d known = map (\<lambda>p. ObjectTags (snd p)) (List.filter (is_obsolete kind d) known)"

record 'w apply_result =
  ap_error :: "(string, unit) outcome"
  ap_sent :: "notify_entity list"
  ap_closed :: "(string \<rightharpoonup> string) list option"
  ap_cache :: incident_cache
  ap_world :: 'w
  ap_signals :: signals

text \<open>
  \<open>ApplyDelta\<close>: \<open>retrieved\<close> is what a fetch of the incidents would give, \<open>stream_error\<close> the error of the
  goroutines that read the entities from Redis and decode them, after \<open>entities\<close>. \<open>ap_closed\<close> is the
  filter of the bulk request, if one is made; a failing request is only logged.
\<close>

definition client_ApplyDelta ::
  "'w submitter \<Rightarrow> (signals \<Rightarrow> incidents \<times> signals) \<Rightarrow> subject_kind \<Rightarrow> delta \<Rightarrow> notify_entity list \<Rightarrow>
   string option \<Rightarrow> incident_cache \<Rightarrow> 'w \<Rightarrow> signals \<Rightarrow> 'w apply_result option" where
  "client_ApplyDelta submit retrieved kind d entities stream_error cache w sig =
     (if kind = OtherEntities
      then Some \<lparr>ap_error = Ok (), ap_sent = [], ap_closed = None, ap_cache = cache, ap_world = w, ap_signals = sig\<rparr>
      else
        (let (known, sig') =
               (case incidentsByObjId cache of Some known \<Rightarrow> (known, sig) | None \<Rightarrow> retrieved sig);
             cache' = cache\<lparr>incidentsByObjId := Some known\<rparr>
         in if known = []
            then Some \<lparr>ap_error = Ok (), ap_sent = [], ap_closed = None, ap_cache = cache', ap_world = w,
                       ap_signals = sig'\<rparr>
            else
              (case apply_entities submit known entities w sig' [] of
                 None \<Rightarrow> None
               | Some (r, sent, w', sig'') \<Rightarrow>
                   let closed = close_filter kind d known
                   in Some \<lparr>ap_error = (case (r, stream_error) of (Ok u, Some e) \<Rightarrow> Err e | _ \<Rightarrow> r),
                        ap_sent = sent, ap_closed = (if closed = [] then None else Some closed),
                        ap_cache = cache', ap_world = w', ap_signals = sig''\<rparr>)))"

section \<open>Check outputs\<close>

text \<open>The filter of a request maps a tag to a value or to nil, which matches its absence.\<close>

type_synonym tag_filter = "string \<rightharpoonup> string option"

definition output_message :: "v1_state \<Rightarrow> string" where
  "output_message s = str_val (Output s) @
     (if str_valid (LongOutput s) then CHR 0x0A # str_val (LongOutput s) else [])"

definition output_filter :: "(string \<rightharpoonup> string) \<Rightarrow> tag_filter" where
  "output_filter tags =
     (let all = (\<lambda>k. map_option Some (tags k))
      in if tags ''service'' = None then all(''service'' \<mapsto> None) else all)"

text \<open>
  \<open>modify\<close>: the request for a state, if it needs one. Its retries send a signal for every attempt, and
  end with the first success.
\<close>

definition modify :: "time \<Rightarrow> v1_state \<Rightarrow> (string \<rightharpoonup> string) \<Rightarrow> (string \<times> tag_filter) option" where
  "modify lastSync s tags =
     (if \<not> str_valid (Output s) \<or> LastUpdate s < lastSync then None
      else Some (output_message s, output_filter tags))"

fun modify_attempts :: "bool list \<Rightarrow> signals \<Rightarrow> (string, unit) outcome \<times> signals" where
  "modify_attempts [] sig = (Err ''context ended'', sig)"
| "modify_attempts (succeeded # later) sig =
     (if succeeded then (Ok (), sendHeartbeat True sig) else modify_attempts later (sendHeartbeat False sig))"

text \<open>
  One tick: the incidents are split by the tag of the service, the states of the objects are read from
  Redis, and each may lead to a request. The tags of an ID without incident are the nil map. Both
  kinds are processed in parallel; the requests of each kind are in order.
\<close>

definition split_incidents :: "incidents \<Rightarrow> incidents \<times> incidents" where
  "split_incidents known =
     (List.filter (\<lambda>p. ObjectTags (snd p) ''service'' = None) known,
      List.filter (\<lambda>p. ObjectTags (snd p) ''service'' \<noteq> None) known)"

definition output_requests ::
  "time \<Rightarrow> incidents \<Rightarrow> (bytes \<times> v1_state) list \<Rightarrow> (string \<times> tag_filter) list" where
  "output_requests lastSync known states =
     (if known = [] then []
      else List.map_filter (\<lambda>(i, s). modify lastSync s
             (case map_of known i of None \<Rightarrow> Map.empty | Some incident \<Rightarrow> ObjectTags incident)) states)"

record outputs_tick =
  tick_at :: time
  tick_incidents :: incidents
  tick_host_states :: "bytes \<rightharpoonup> v1_state"
  tick_service_states :: "bytes \<rightharpoonup> v1_state"

definition states_of :: "incidents \<Rightarrow> (bytes \<rightharpoonup> v1_state) \<Rightarrow> (bytes \<times> v1_state) list" where
  "states_of known found = List.map_filter (\<lambda>i. map_option (Pair i) (found i)) (map fst known)"

definition tick_requests :: "time \<Rightarrow> outputs_tick \<Rightarrow> (string \<times> tag_filter) list" where
  "tick_requests lastSync tick =
     (let (hosts, services) = split_incidents (tick_incidents tick)
      in output_requests lastSync hosts (states_of hosts (tick_host_states tick)) @
         output_requests lastSync services (states_of services (tick_service_states tick)))"

text \<open>The loop over the ticks: the requests of each, with the time of the tick before it.\<close>

fun SyncCheckOutputs :: "time \<Rightarrow> outputs_tick list \<Rightarrow> (string \<times> tag_filter) list list" where
  "SyncCheckOutputs lastSync [] = []"
| "SyncCheckOutputs lastSync (tick # later) =
     tick_requests lastSync tick # SyncCheckOutputs (tick_at tick) later"

section \<open>The callback of the history pipelines\<close>

text \<open>
  \<open>SyncExtraStages\<close> gives the same stage to three pipelines; its callback decodes the message into the
  entity of the pipeline (\<open>make_entity\<close>) and submits it.
\<close>

definition extra_stage_keys :: "string list" where
  "extra_stage_keys = [''acknowledgement'', ''downtime'', ''flapping'']"

definition sorterCallback ::
  "'w submitter \<Rightarrow> (string \<Rightarrow> (string \<rightharpoonup> any) \<Rightarrow> (string, notify_entity) outcome) \<Rightarrow> xmessage \<Rightarrow> string \<Rightarrow>
   'w \<Rightarrow> signals \<Rightarrow> ((string, bool) outcome \<times> 'w \<times> signals) option" where
  "sorterCallback submit make_entity msg key w sig =
     (if key \<notin> set extra_stage_keys then Some (Ok False, w, sig)
      else
        (case make_entity key (msg_Values msg) of
           Err e \<Rightarrow> Some (Ok False, w, sig)
         | Panic p \<Rightarrow> Some (Panic p, w, sig)
         | Ok entity \<Rightarrow>
             map_option (\<lambda>(r, w', sig'). (case r of Ok u \<Rightarrow> Ok True | Err e \<Rightarrow> Ok False | Panic p \<Rightarrow> Panic p, w', sig'))
               (submit entity w sig)))"

end
