(* ===== verification/Notify_Content.thy ===== *)
theory Notify_Content
  imports Notify_Relations
begin

text \<open>
  What is in the relations of an event: whatever \<open>completeRelations\<close> lists has the content that Redis and
  the database had at one of the moments at which it was fetched. The content is described from the hashes
  and tables themselves, not by the queries of \<open>Notify_Fetch\<close>.
\<close>

section \<open>The content of Redis and of the tables\<close>

definition redis_object :: "'j fetch_env \<Rightarrow> string \<Rightarrow> bytes \<Rightarrow> 'j icingaObject option" where
  "redis_object env typ i =
     (case redis_hash env (''icinga:'' @ typ) i of
        None \<Rightarrow> None
      | Some v \<Rightarrow>
          (case json_object env v of
             Inl e \<Rightarrow> None
           | Inr obj \<Rightarrow> Some (obj\<lparr>isVolatile := bool_true (IsVolatile obj), IsVolatile := null_bool\<rparr>)))"

text \<open>The custom variables of an object, a later row of the same name winning; no row at all is the nil map.\<close>

definition object_vars_rows :: "'j fetch_env \<Rightarrow> string \<Rightarrow> bytes \<Rightarrow> (string \<times> string) list" where
  "object_vars_rows env typ i =
     [nv. (oid, ocv) \<leftarrow> object_customvar_rows env typ, (cv, nv) \<leftarrow> customvar_rows env, ocv = cv \<and> oid = i]"

definition custom_vars :: "'j fetch_env \<Rightarrow> string \<Rightarrow> bytes \<Rightarrow> (string \<rightharpoonup> 'j) option" where
  "custom_vars env typ i =
     (let rows = object_vars_rows env typ i
      in if rows = [] then None else Some (map_of (rev (map (\<lambda>(n, v). (n, projr (json_value env v))) rows))))"

definition vars_of_id :: "'j fetch_env \<Rightarrow> string \<Rightarrow> binary \<Rightarrow> (string \<rightharpoonup> 'j) option" where
  "vars_of_id env typ i = (case i of None \<Rightarrow> None | Some b \<Rightarrow> custom_vars env typ b)"

definition host_services :: "'j fetch_env \<Rightarrow> binary \<Rightarrow> bytes set" where
  "host_services env h = {sid. \<exists>hid. (sid, hid) \<in> set (service_rows env) \<and> h = Some hid}"

text \<open>The pairs of name and display name of the groups one of whose members is in a set.\<close>

definition groups_of :: "'j fetch_env \<Rightarrow> string \<Rightarrow> bytes set \<Rightarrow> (string \<times> string) set" where
  "groups_of env typ members =
     {nd. \<exists>gid member. (gid, nd) \<in> set (group_rows env typ) \<and> (gid, member) \<in> set (member_rows env typ) \<and> member \<in> members}"

definition names_of :: "'j icingaObject list \<Rightarrow> (string \<times> string) list" where
  "names_of objs = map (\<lambda>g. (Name g, DisplayName g)) objs"

section \<open>The content of the relations\<close>

text \<open>
  An object and its variables, which may have been fetched at different moments: \<open>E\<close> are the surroundings
  of all of them.
\<close>

definition object_content :: "'j fetch_env set \<Rightarrow> string \<Rightarrow> binary \<Rightarrow> bool \<Rightarrow> 'j icingaObject \<Rightarrow> bool" where
  "object_content E typ i vars_listed h \<longleftrightarrow>
     (\<exists>env\<in>E. \<exists>obj. redis_object env typ (bytes_of i) = Some obj \<and> h\<lparr>Vars := None\<rparr> = obj\<lparr>Vars := None\<rparr>) \<and>
     (vars_listed \<longrightarrow> (\<exists>env\<in>E. Vars h = vars_of_id env typ i))"

definition host_content :: "'j fetch_env set \<Rightarrow> 'j relations \<Rightarrow> bool" where
  "host_content E rel \<longleftrightarrow> (is_complete ''host.name'' rel \<longrightarrow>
     (\<exists>h. Host rel = Some h \<and> object_content E ''host'' (hostId rel) (is_complete ''host.vars'' rel) h))"

text \<open>
  The services of a host: those of the table that Redis knows, each once, in the order Go visits them; where
  no service of the host has variables, their objects stay as they were decoded.
\<close>

definition service_of :: "'j fetch_env \<Rightarrow> binary \<Rightarrow> bool \<Rightarrow> bytes \<Rightarrow> 'j icingaObject" where
  "service_of env h vars_listed i =
     (let obj = the (redis_object env ''service'' i)
      in if vars_listed \<and> (\<exists>j\<in>host_services env h. custom_vars env ''service'' j \<noteq> None)
         then obj\<lparr>Vars := custom_vars env ''service'' i\<rparr> else obj)"

definition host_services_content :: "'j fetch_env \<Rightarrow> binary \<Rightarrow> bool \<Rightarrow> 'j icingaObject list \<Rightarrow> bool" where
  "host_services_content env h vars_listed objs \<longleftrightarrow>
     (\<exists>ks. distinct ks \<and> set ks = {i \<in> host_services env h. redis_object env ''service'' i \<noteq> None} \<and>
        objs = map (service_of env h vars_listed) (filter (\<lambda>i. i \<in> set ks) (range_order env ks)))"

definition services_content :: "'j fetch_env set \<Rightarrow> 'j relations \<Rightarrow> bool" where
  "services_content E rel \<longleftrightarrow> (is_complete ''services[*].name'' rel \<longrightarrow>
     (if serviceId rel \<noteq> None
      then \<exists>s. Services rel = [s] \<and> object_content E ''service'' (serviceId rel) (is_complete ''services[*].vars'' rel) s
      else \<exists>env\<in>E. host_services_content env (hostId rel) (is_complete ''services[*].vars'' rel) (Services rel)))"

definition groups_content :: "'j fetch_env set \<Rightarrow> 'j relations \<Rightarrow> bool" where
  "groups_content E rel \<longleftrightarrow>
     (is_complete ''hostgroups[*].name'' rel \<longrightarrow>
       (\<exists>env\<in>E. distinct (names_of (Hostgroups rel)) \<and>
          set (names_of (Hostgroups rel)) = groups_of env ''hostgroup'' (set_option (hostId rel)))) \<and>
     (is_complete ''servicegroups[*].name'' rel \<longrightarrow>
       (\<exists>env\<in>E. distinct (names_of (Servicegroups rel)) \<and>
          set (names_of (Servicegroups rel)) = groups_of env ''servicegroup''
            (if serviceId rel \<noteq> None then set_option (serviceId rel) else host_services env (hostId rel))))"

definition rel_content :: "'j fetch_env set \<Rightarrow> 'j relations \<Rightarrow> bool" where
  "rel_content E rel \<longleftrightarrow> host_content E rel \<and> services_content E rel \<and> groups_content E rel"

section \<open>What the queries give\<close>

lemma hmget_pairs_hash: "(k, v) \<in> set (hmget_pairs env key ids) \<longleftrightarrow> k \<in> set ids \<and> redis_hash env key k = Some v"
  by (induction ids) (auto simp: hmget_pairs_def List.map_filter_simps split: option.splits)

lemma visit_collect:
  assumes "visit_pairs (json_object env) collect_object pairs acc = Ok objs" "distinct (map fst acc)"
    "\<And>k v. (k, v) \<in> set pairs \<Longrightarrow> redis_hash env (''icinga:'' @ typ) k = Some v"
  shows "distinct (map fst objs) \<and>
    (\<forall>k. map_of objs k = (if k \<in> fst ` set pairs then redis_object env typ k else map_of acc k))"
  using assms
proof (induction pairs arbitrary: acc)
  case (Cons p pairs)
  obtain k v where p: "p = (k, v)" by force
  obtain obj where obj: "json_object env v = Inr obj"
    using Cons.prems(1) p by (cases "json_object env v") auto
  let ?obj = "obj\<lparr>isVolatile := bool_true (IsVolatile obj), IsVolatile := null_bool\<rparr>"
  have "redis_object env typ k = Some ?obj"
    using Cons.prems(3) [of k v] p obj by (simp add: redis_object_def)
  moreover have "distinct (map fst objs) \<and>
      (\<forall>k'. map_of objs k' = (if k' \<in> fst ` set pairs then redis_object env typ k' else map_of (AList.update k ?obj acc) k'))"
    using Cons.prems p obj by (intro Cons.IH) (auto simp: collect_object_def distinct_update)
  ultimately show ?case using p by (auto simp: update_conv')
qed simp

lemma fetchObjectsFromRedis_content:
  assumes "fetchObjectsFromRedis env typ ids = Ok objs"
  shows "distinct (map fst objs) \<and> (\<forall>k. map_of objs k = (if k \<in> bytes_of ` set ids then redis_object env typ k else None))"
proof (cases "ids = []")
  case True
  then show ?thesis using assms by (auto simp: fetchObjectsFromRedis_def bind_outcome_Ok_iff)
next
  case False
  let ?pairs = "hmget_pairs env (''icinga:'' @ typ) (map bytes_of ids)"
  have "visit_pairs (json_object env) collect_object ?pairs [] = Ok objs"
    using assms False
    by (auto simp: fetchObjectsFromRedis_def bind_outcome_Ok_iff streamRedisHashObjects_def split: option.splits)
  then have r: "distinct (map fst objs) \<and> (\<forall>k. map_of objs k = (if k \<in> fst ` set ?pairs then redis_object env typ k else map_of [] k))"
    by (rule visit_collect) (simp_all add: hmget_pairs_hash)
  have "k \<in> fst ` set ?pairs \<longleftrightarrow> k \<in> bytes_of ` set ids \<and> redis_hash env (''icinga:'' @ typ) k \<noteq> None" for k
    by (auto simp: image_iff Bex_def split_paired_Ex hmget_pairs_hash)
  then show ?thesis using r by (auto simp: redis_object_def)
qed

lemma fetchObjectFromRedis_content:
  assumes "fetchObjectFromRedis env typ i = Ok obj"
  shows "redis_object env typ (bytes_of i) = Some obj"
proof -
  obtain objs where "fetchObjectsFromRedis env typ [i] = Ok objs" "map_of objs (bytes_of i) = Some obj"
    using assms by (auto simp: fetchObjectFromRedis_def bind_outcome_Ok_iff split: option.splits)
  then show ?thesis using fetchObjectsFromRedis_content [of env "typ" "[i]" objs] by simp
qed

lemma fetchServiceIdsFromSql_content:
  "fetchServiceIdsFromSql env h = Ok ids \<Longrightarrow> set ids = Some ` host_services env h"
  by (auto simp: fetchServiceIdsFromSql_def fetchObjectFromSql_def host_services_def split: option.splits if_splits)

lemma set_groups_rows:
  "set (groups_rows env typ i False) = groups_of env typ (set_option i)"
  "set (groups_rows env typ i True) = groups_of env typ (host_services env i)"
  by (fastforce simp: groups_rows_def groups_of_def host_services_def)+

lemma names_of_groups [simp]: "names_of (map group_object nds) = nds"
  by (simp add: names_of_def group_object_def comp_def)

lemma fetchGroupsFromSql_content:
  assumes "fetchGroupsFromSql env typ i forHost = Ok groups"
  shows "distinct (names_of groups) \<and>
    set (names_of groups) = groups_of env typ (if forHost then host_services env i else set_option i)"
proof -
  have "groups = map group_object (remdups (groups_rows env typ i forHost))"
    using assms by (auto simp: fetchGroupsFromSql_def bind_outcome_Ok_iff fetchObjectFromSql_def split: option.splits)
  then show ?thesis using set_groups_rows [of env "typ" i] by (cases forHost) simp_all
qed

text \<open>The loop over the rows gives each object the map of its own rows.\<close>

lemma collect_customvars_content:
  assumes "collect_customvars decode rows vars = Ok vars'"
  shows "vars' i = (let own = map snd (filter (\<lambda>r. fst r = i) rows)
    in if own = [] then vars i
       else Some ((case vars i of None \<Rightarrow> Map.empty | Some m \<Rightarrow> m) ++ map_of (rev (map (\<lambda>(n, v). (n, projr (decode v))) own))))"
  using assms
proof (induction rows arbitrary: vars)
  case (Cons row rows)
  obtain j n v where row: "row = (j, n, v)" by (cases row)
  obtain x where x: "decode v = Inr x"
    using Cons.prems row by (cases "decode v") (auto simp: Let_def)
  let ?m = "case vars j of None \<Rightarrow> Map.empty | Some m \<Rightarrow> m"
  have "collect_customvars decode rows (vars(j \<mapsto> ?m(n \<mapsto> x))) = Ok vars'"
    using Cons.prems row x by (simp add: Let_def)
  note IH = Cons.IH [OF this]
  show ?case
  proof (cases "j = i")
    case True
    then show ?thesis using IH row x by (simp add: Let_def)
  next
    case False
    then show ?thesis using IH row by (simp add: Let_def)
  qed
qed (simp add: Let_def)

lemma customvars_rows_own:
  assumes "Some i \<in> set ids"
  shows "map snd (filter (\<lambda>r. fst r = i) (customvars_rows env typ ids)) = object_vars_rows env typ i"
proof -
  have inner: "map snd (filter (\<lambda>r. fst r = i) (concat (map (\<lambda>(cv, nv). if ocv = cv then if Some oid \<in> set ids then [(oid, nv)] else [] else []) rows))) =
      concat (map (\<lambda>(cv, nv). if ocv = cv \<and> oid = i then [nv] else []) rows)"
    for oid ocv :: bytes and rows :: "(bytes \<times> string \<times> string) list"
    using assms by (induction rows) auto
  have "map snd (filter (\<lambda>r. fst r = i) (concat (map (\<lambda>(oid, ocv).
        concat (map (\<lambda>(cv, nv). if ocv = cv then if Some oid \<in> set ids then [(oid, nv)] else [] else []) (customvar_rows env))) rows))) =
      concat (map (\<lambda>(oid, ocv). concat (map (\<lambda>(cv, nv). if ocv = cv \<and> oid = i then [nv] else []) (customvar_rows env))) rows)"
    for rows :: "(bytes \<times> bytes) list"
    by (induction rows) (auto simp: inner)
  then show ?thesis by (simp only: customvars_rows_def object_vars_rows_def)
qed

lemma fetchMultiCustomVarsFromSql_content:
  assumes "fetchMultiCustomVarsFromSql env typ ids = Ok vars"
  shows "vars i = (if Some i \<in> set ids then custom_vars env typ i else None)"
proof (cases "ids = []")
  case True
  then show ?thesis using assms by (auto simp: fetchMultiCustomVarsFromSql_def bind_outcome_Ok_iff)
next
  case False
  then have "collect_customvars (json_value env) (customvars_rows env typ ids) Map.empty = Ok vars"
    using assms
    by (auto simp: fetchMultiCustomVarsFromSql_def bind_outcome_Ok_iff fetchObjectFromSql_def split: option.splits)
  note c = collect_customvars_content [OF this, of i]
  show ?thesis
  proof (cases "Some i \<in> set ids")
    case True
    then show ?thesis using c customvars_rows_own [OF True, of env "typ"] by (simp add: custom_vars_def Let_def)
  next
    case False
    then have "filter (\<lambda>r. fst r = i) (customvars_rows env typ ids) = []"
      by (auto simp: customvars_rows_def filter_empty_conv)
    then show ?thesis using c False by simp
  qed
qed

lemma fetchCustomVarsFromSql_content:
  assumes "fetchCustomVarsFromSql env typ i = Ok vars"
  shows "vars = vars_of_id env typ i"
proof -
  obtain multi where "fetchMultiCustomVarsFromSql env typ [i] = Ok multi" "vars = multi (bytes_of i)"
    using assms by (auto simp: fetchCustomVarsFromSql_def bind_outcome_Ok_iff)
  then show ?thesis
    using fetchMultiCustomVarsFromSql_content [of env "typ" "[i]" multi "bytes_of i"]
    by (cases i) (auto simp: vars_of_id_def bytes_of_def)
qed

section \<open>Every step keeps the content\<close>

lemma object_content_strip: "object_content E typ i b (h\<lparr>Vars := v\<rparr>) \<longleftrightarrow>
    object_content E typ i False h \<and> (b \<longrightarrow> (\<exists>env\<in>E. v = vars_of_id env typ i))"
  by (simp add: object_content_def)

lemma fetch_single_content:
  assumes "fetch_single env typ i flags known = Ok (Some obj, vars)" "env \<in> E"
    "\<not> fst flags \<Longrightarrow> \<exists>k. known = Some k \<and> object_content E typ i False k"
  shows "object_content E typ i (snd flags) (obj\<lparr>Vars := vars\<rparr>)"
proof -
  have "object_content E typ i False obj"
  proof (cases "fst flags")
    case True
    then have "redis_object env typ (bytes_of i) = Some obj"
      using assms(1) by (auto simp: fetch_single_def errgroup2_Ok bind_outcome_Ok_iff dest: fetchObjectFromRedis_content)
    then show ?thesis using assms(2) by (auto simp: object_content_def)
  next
    case False
    then show ?thesis using assms(1,3) by (auto simp: fetch_single_def errgroup2_Ok)
  qed
  moreover have "snd flags \<longrightarrow> vars = vars_of_id env typ i"
    using assms(1) by (auto simp: fetch_single_def errgroup2_Ok dest: fetchCustomVarsFromSql_content)
  ultimately show ?thesis using assms(2) by (auto simp: object_content_strip)
qed

lemma object_content_weaken: "object_content E typ i b h \<Longrightarrow> object_content E typ i False h"
  by (simp add: object_content_def)

lemma provided_content:
  assumes "rel_content E rel" "\<And>a. m = Ok a \<Longrightarrow> rel_content E (snd (f a))"
  shows "rel_content E (snd (provided rel msg m f))"
  using assms by (cases m) auto

text \<open>An update of one part leaves the content of the others alone.\<close>

lemma content_of_others:
  "services_content E ((updateCompleteRelations fo fv ''host'' g rel)\<lparr>Host := x\<rparr>) = services_content E rel"
  "groups_content E ((updateCompleteRelations fo fv ''host'' g rel)\<lparr>Host := x\<rparr>) = groups_content E rel"
  "host_content E ((updateCompleteRelations fo fv ''services[*]'' g rel)\<lparr>Services := objs\<rparr>) = host_content E rel"
  "groups_content E ((updateCompleteRelations fo fv ''services[*]'' g rel)\<lparr>Services := objs\<rparr>) = groups_content E rel"
  "host_content E ((updateCompleteRelations fo fv ''hostgroups[*]'' g rel)\<lparr>Hostgroups := objs\<rparr>) = host_content E rel"
  "services_content E ((updateCompleteRelations fo fv ''hostgroups[*]'' g rel)\<lparr>Hostgroups := objs\<rparr>) = services_content E rel"
  "host_content E ((updateCompleteRelations fo fv ''servicegroups[*]'' g rel)\<lparr>Servicegroups := objs\<rparr>) = host_content E rel"
  "services_content E ((updateCompleteRelations fo fv ''servicegroups[*]'' g rel)\<lparr>Servicegroups := objs\<rparr>) = services_content E rel"
  by (simp_all add: host_content_def services_content_def groups_content_def is_new_def)

lemma provide_host_content:
  assumes "rel_wf rel" "rel_content E rel" "env \<in> E"
  shows "rel_content E (snd (provide_host env wants rel))"
proof -
  define flags where "flags = single_flags ''host'' wants rel"
  define known where "known = (if is_complete ''host.name'' rel then Host rel else None)"
  have n: "names_wf ''host'' rel" using assms(1) by (simp add: rel_wf_def host_wf_def)
  note f = single_flags_cases [OF n flags_def, simplified]
  have step: "rel_content E ((updateCompleteRelations (fst flags) (snd flags) ''host'' False rel)\<lparr>Host := Some (obj\<lparr>Vars := vars\<rparr>)\<rparr>)"
    if some: "fst flags \<or> snd flags" and x: "fetch_single env ''host'' (hostId rel) flags known = Ok (Some obj, vars)" for obj vars
  proof -
    have "object_content E ''host'' (hostId rel) (snd flags) (obj\<lparr>Vars := vars\<rparr>)"
    proof (rule fetch_single_content [OF x assms(3)])
      assume no: "\<not> fst flags"
      then have "is_complete ''host.name'' rel" using f(3) some by blast
      then show "\<exists>k. known = Some k \<and> object_content E ''host'' (hostId rel) False k"
        using assms(2) by (auto simp: known_def rel_content_def host_content_def intro: object_content_weaken)
    qed
    moreover have "is_complete ''host.vars'' rel \<or> is_new (fst flags) (snd flags) ''host'' False ''host.vars'' \<longleftrightarrow> snd flags"
      using some f(4) by (auto simp: is_new_def)
    ultimately show ?thesis
      using assms(2) by (simp add: rel_content_def content_of_others) (simp add: host_content_def)
  qed
  show ?thesis
    unfolding provide_host_def Let_def flags_def [symmetric] known_def [symmetric]
    using assms(2) step by (auto intro!: provided_content split: option.splits)
qed

lemma provide_service_content:
  assumes "rel_wf rel" "serviceId rel \<noteq> None" "rel_content E rel" "env \<in> E"
  shows "rel_content E (snd (provide_service env wants rel))"
proof -
  define flags where "flags = single_flags ''services[*]'' wants rel"
  define known where "known = (if is_complete ''services[*].name'' rel then Some (hd (Services rel)) else None)"
  have n: "names_wf ''services[*]'' rel" using assms(1) by (simp add: rel_wf_def services_wf_def)
  note f = single_flags_cases [OF n flags_def, simplified]
  have step: "rel_content E ((updateCompleteRelations (fst flags) (snd flags) ''services[*]'' False rel)\<lparr>Services := [obj\<lparr>Vars := vars\<rparr>]\<rparr>)"
    if some: "fst flags \<or> snd flags" and x: "fetch_single env ''service'' (serviceId rel) flags known = Ok (Some obj, vars)" for obj vars
  proof -
    have "object_content E ''service'' (serviceId rel) (snd flags) (obj\<lparr>Vars := vars\<rparr>)"
    proof (rule fetch_single_content [OF x assms(4)])
      assume no: "\<not> fst flags"
      then have "is_complete ''services[*].name'' rel" using f(3) some by blast
      then show "\<exists>k. known = Some k \<and> object_content E ''service'' (serviceId rel) False k"
        using assms(2,3) by (auto simp: known_def rel_content_def services_content_def intro: object_content_weaken)
    qed
    moreover have "is_complete ''services[*].vars'' rel \<or> is_new (fst flags) (snd flags) ''services[*]'' False ''services[*].vars'' \<longleftrightarrow> snd flags"
      using some f(4) by (auto simp: is_new_def)
    ultimately show ?thesis
      using assms(2,3) by (simp add: rel_content_def content_of_others) (simp add: services_content_def)
  qed
  show ?thesis
    unfolding provide_service_def Let_def flags_def [symmetric] known_def [symmetric]
    using assms(3) step by (auto intro!: provided_content split: option.splits)
qed

lemma map_filter_objects:
  "List.map_filter (\<lambda>i. case f i of None \<Rightarrow> None | Some x \<Rightarrow> Some (g i x)) is =
   map (\<lambda>i. g i (the (f i))) (filter (\<lambda>i. f i \<noteq> None) is)"
  by (induction "is") (auto simp: List.map_filter_simps)

lemma services_slice_content:
  assumes "fetchServiceIdsFromSql env h = Ok ids" "fetchObjectsFromRedis env ''service'' ids = Ok objs"
    "if vars_wanted then fetchMultiCustomVarsFromSql env ''service'' ids = Ok vars else vars = Map.empty"
  shows "host_services_content env h vars_wanted (services_slice (range_order env) objs vars)"
proof -
  note ids = fetchServiceIdsFromSql_content [OF assms(1)]
  have o: "distinct (map fst objs)" "\<And>k. map_of objs k = (if k \<in> host_services env h then redis_object env ''service'' k else None)"
    using fetchObjectsFromRedis_content [OF assms(2)] by (auto simp: ids image_image bytes_of_def)
  have ks: "set (map fst objs) = {i \<in> host_services env h. redis_object env ''service'' i \<noteq> None}"
    using o(2) by (auto simp: dom_map_of_conv_image_fst [symmetric] dom_def split: if_splits)
  have v: "vars i = (if i \<in> host_services env h then custom_vars env ''service'' i else None)" if vars_wanted for i
    using fetchMultiCustomVarsFromSql_content [of env "''service''" ids vars i] assms(3) that ids by auto
  have some: "vars \<noteq> Map.empty \<longleftrightarrow> (\<exists>j\<in>host_services env h. custom_vars env ''service'' j \<noteq> None)" if vars_wanted
    using v [OF that] by (force simp: fun_eq_iff)
  have obj: "(if vars \<noteq> Map.empty then the (map_of objs i)\<lparr>Vars := vars i\<rparr> else the (map_of objs i)) = service_of env h vars_wanted i"
    if "i \<in> set (map fst objs)" for i
  proof (cases vars_wanted)
    case True
    have "i \<in> host_services env h" using that ks by blast
    then show ?thesis using True o(2) v [OF True] some [OF True] by (simp add: service_of_def)
  next
    case False
    then show ?thesis using assms(3) o(2) that ks by (auto simp: service_of_def)
  qed
  have in_ks: "map_of objs i \<noteq> None \<longleftrightarrow> i \<in> set (map fst objs)" for i by (simp add: map_of_eq_None_iff)
  have "services_slice (range_order env) objs vars = map (service_of env h vars_wanted)
      (filter (\<lambda>i. i \<in> set (map fst objs)) (range_order env (map fst objs)))"
    unfolding services_slice_def map_filter_objects [where g = "\<lambda>i service. if vars \<noteq> Map.empty then service\<lparr>Vars := vars i\<rparr> else service"] in_ks
    by (rule map_cong [OF refl]) (use obj in simp)
  then show ?thesis using o(1) ks unfolding host_services_content_def by blast
qed

lemma provide_host_services_content:
  assumes "rel_wf rel" "serviceId rel = None" "rel_content E rel" "env \<in> E"
  shows "rel_content E (snd (provide_host_services env wants rel))"
proof -
  have n: "is_complete ''services[*].vars'' rel \<longrightarrow> is_complete ''services[*].name'' rel"
    using assms(1) by (simp add: rel_wf_def services_wf_def names_wf_def)
  have step: "rel_content E ((updateCompleteRelations (fst wants \<or> snd wants) (snd wants) ''services[*]'' False rel)
        \<lparr>Services := services_slice (range_order env) objs vars\<rparr>)"
    if ids: "fetchServiceIdsFromSql env (hostId rel) = Ok ids"
      and objs: "(if fst wants \<or> snd wants then fetchObjectsFromRedis env ''service'' ids else Ok []) = Ok objs"
      and vars: "(if snd wants then fetchMultiCustomVarsFromSql env ''service'' ids else Ok Map.empty) = Ok vars"
      and name: "\<not> (is_complete ''services[*].name'' rel \<and> \<not> snd wants)" and novars: "\<not> is_complete ''services[*].vars'' rel"
    for ids objs vars
  proof (cases "fst wants \<or> snd wants")
    case True
    have "host_services_content env (hostId rel) (snd wants) (services_slice (range_order env) objs vars)"
      by (rule services_slice_content [OF ids]) (use objs vars True in auto)
    moreover have "is_complete ''services[*].vars'' rel \<or> is_new (fst wants \<or> snd wants) (snd wants) ''services[*]'' False ''services[*].vars'' \<longleftrightarrow> snd wants"
      using novars by (auto simp: is_new_def)
    ultimately show ?thesis
      using assms by (simp add: rel_content_def content_of_others) (auto simp: services_content_def)
  next
    case False
    then show ?thesis
      using assms(3) name n novars by (simp add: rel_content_def content_of_others) (simp add: services_content_def is_new_def)
  qed
  show ?thesis
    unfolding provide_host_services_def Let_def
    using assms(3) step by (auto intro!: provided_content simp: errgroup2_Ok)
qed

lemma provide_hostgroups_content:
  assumes "rel_content E rel" "env \<in> E"
  shows "rel_content E (snd (provide_hostgroups env wants rel))"
proof -
  have step: "rel_content E ((updateCompleteRelations (fst wants) (snd wants) ''hostgroups[*]'' True rel)\<lparr>Hostgroups := groups\<rparr>)"
    if "fetchGroupsFromSql env ''hostgroup'' (hostId rel) False = Ok groups" for groups
    using assms fetchGroupsFromSql_content [OF that]
    by (simp add: rel_content_def content_of_others) (auto simp: groups_content_def is_new_def)
  show ?thesis
    unfolding provide_hostgroups_def using assms(1) step by (auto intro!: provided_content)
qed

lemma provide_servicegroups_content:
  assumes "rel_content E rel" "env \<in> E"
  shows "rel_content E (snd (provide_servicegroups env wants rel))"
proof -
  have step: "rel_content E ((updateCompleteRelations (fst wants) (snd wants) ''servicegroups[*]'' True rel)\<lparr>Servicegroups := groups\<rparr>)"
    if "(if serviceId rel \<noteq> None then fetchGroupsFromSql env ''servicegroup'' (serviceId rel) False
         else fetchGroupsFromSql env ''servicegroup'' (hostId rel) True) = Ok groups" for groups
  proof (cases "serviceId rel")
    case None
    then have "fetchGroupsFromSql env ''servicegroup'' (hostId rel) True = Ok groups" using that by simp
    from fetchGroupsFromSql_content [OF this] show ?thesis
      using None assms by (simp add: rel_content_def content_of_others) (auto simp: groups_content_def is_new_def)
  next
    case (Some i)
    then have "fetchGroupsFromSql env ''servicegroup'' (serviceId rel) False = Ok groups" using that by simp
    from fetchGroupsFromSql_content [OF this] show ?thesis
      using Some assms by (simp add: rel_content_def content_of_others) (auto simp: groups_content_def is_new_def)
  qed
  show ?thesis
  proof (cases "is_complete ''servicegroups[*].name'' rel")
    case False
    then have "provide_servicegroups env wants rel = provided rel ''cannot fetch servicegroups''
        (if serviceId rel \<noteq> None then fetchGroupsFromSql env ''servicegroup'' (serviceId rel) False
         else fetchGroupsFromSql env ''servicegroup'' (hostId rel) True)
        (\<lambda>groups. (Ok (), (updateCompleteRelations (fst wants) (snd wants) ''servicegroups[*]'' True rel)\<lparr>Servicegroups := groups\<rparr>))"
      unfolding provide_servicegroups_def by (simp only: if_False)
    then show ?thesis
      by (simp only:) (rule provided_content [OF assms(1)], simp only: snd_conv, rule step)
  qed (use assms(1) in \<open>simp add: provide_servicegroups_def\<close>)
qed

lemma provide_selector_content:
  "rel_wf rel \<Longrightarrow> rel_content E rel \<Longrightarrow> env \<in> E \<Longrightarrow> rel_content E (snd (provide_selector env childSegments sel rel))"
  by (simp add: provide_selector_def Let_def provide_host_content provide_service_content provide_host_services_content
      provide_hostgroups_content provide_servicegroups_content)

section \<open>Sequences of steps\<close>

lemma until_error_content:
  assumes step: "\<And>x rel. rel_wf rel \<Longrightarrow> sound_step rel (f x rel)"
    "\<And>x rel. rel_wf rel \<Longrightarrow> rel_content E rel \<Longrightarrow> rel_content E (snd (f x rel))"
    and "rel_wf rel" "rel_content E rel"
  shows "rel_content E (snd (until_error f xs rel))"
  using assms(3,4)
proof (induction xs arbitrary: rel)
  case (Cons x xs)
  obtain r rel' where fx: "f x rel = (r, rel')" by force
  have "rel_wf rel'" "rel_content E rel'" using step [OF Cons.prems(1), of x] Cons.prems(2) fx by (simp_all add: sound_step_def)
  then show ?case using Cons.IH [of rel'] fx by (cases r) simp_all
qed simp

lemma rel_complete_content:
  "rel_wf rel \<Longrightarrow> rel_content E rel \<Longrightarrow> env \<in> E \<Longrightarrow> rel_content E (snd (rel_complete env parse query rel))"
  by (auto simp: rel_complete_def relationsProvider_def intro!: until_error_content provide_selector_sound
      provide_selector_content split: sum.splits list.splits)

lemma content_mono:
  assumes "E \<subseteq> E'"
  shows "object_content E typ i b h \<Longrightarrow> object_content E' typ i b h"
    and "host_content E rel \<Longrightarrow> host_content E' rel" "services_content E rel \<Longrightarrow> services_content E' rel"
    and "groups_content E rel \<Longrightarrow> groups_content E' rel"
proof -
  have obj: "object_content E t i b h \<Longrightarrow> object_content E' t i b h" for t i b h
    using assms unfolding object_content_def by blast
  then show "object_content E typ i b h \<Longrightarrow> object_content E' typ i b h" .
  show "host_content E rel \<Longrightarrow> host_content E' rel" using obj unfolding host_content_def by blast
  show "services_content E rel \<Longrightarrow> services_content E' rel"
    using assms obj unfolding services_content_def by (cases "serviceId rel = None") auto
  show "groups_content E rel \<Longrightarrow> groups_content E' rel" using assms unfolding groups_content_def by blast
qed

lemma rel_content_mono:
  assumes "rel_content E rel" "E \<subseteq> E'"
  shows "rel_content E' rel"
  using assms(1) content_mono(2-4) [OF assms(2), of rel] by (simp add: rel_content_def)

lemma fetchHostServiceData_content:
  assumes "fetchHostServiceData env parse h s = Ok rel"
  shows "rel_content {env} rel"
proof -
  let ?queries = "''$.host.name'' # (if s \<noteq> None then [''$.services[*].name''] else [])"
  have "rel_content {env} (start_relations h s)"
    by (simp add: rel_content_def host_content_def services_content_def groups_content_def start_relations_def
        populateObject_def append_new_def is_complete_def)
  then have "rel_content {env} (snd (until_error (rel_complete env parse) ?queries (start_relations h s)))"
    by (intro until_error_content rel_complete_sound rel_complete_content start_relations_wf) simp_all
  then show ?thesis using assms by (auto simp: fetchHostServiceData_def split: prod.splits outcome.splits)
qed

end
