(* ===== verification/Notify_Props.thy ===== *)
theory Notify_Props
  imports Notify_Sync Notify_Content
begin

text \<open>
  Properties of the notifications source: the relations of an event are well-formed at any time, hold what
  they list, and nothing panics on them, the negotiation of attributes ends with a server that asks for what can be
  provided, and what \<open>Submit\<close>, \<open>ApplyDelta\<close> and \<open>SyncCheckOutputs\<close> send.
\<close>

section \<open>What a request for attributes provides\<close>

definition relation_keys :: "string \<Rightarrow> bool \<Rightarrow> bool \<Rightarrow> string list" where
  "relation_keys prefix fo fv = map (\<lambda>r. prefix @ ''.'' @ r) (newRelations fo fv False)"

definition promised_by :: "string list list \<Rightarrow> string \<Rightarrow> string list" where
  "promised_by childSegments rootSelector =
     (let (fo, fv) = wanted rootSelector childSegments
      in if rootSelector = quoted ''host'' then relation_keys ''host'' (fo \<or> fv) fv
         else if rootSelector = quoted ''services'' then relation_keys ''services[*]'' (fo \<or> fv) fv
         else if rootSelector = quoted ''hostgroups'' then relation_keys ''hostgroups[*]'' fo False
         else if rootSelector = quoted ''servicegroups'' then relation_keys ''servicegroups[*]'' fo False
         else [])"

definition promised :: "'j notify_client \<Rightarrow> string \<Rightarrow> string list" where
  "promised client attribute =
     (case parse client attribute of
        Inr (selectors # childSegments) \<Rightarrow> concat (map (promised_by childSegments) selectors)
      | _ \<Rightarrow> [])"

lemma quoted_eq [simp]: "quoted a = quoted b \<longleftrightarrow> a = b"
  by (simp add: quoted_def)

lemma provided_Ok:
  assumes "provided rel msg m f = (Ok u, rel')"
  obtains a where "m = Ok a" "f a = (Ok u, rel')"
  using assms by (cases m) auto

lemma in_relation_keys [simp]: "k \<in> set (relation_keys prefix fo fv) \<longleftrightarrow> is_new fo fv prefix False k"
  by (auto simp: relation_keys_def newRelations_def is_new_def)

lemma provide_host_promise:
  assumes "rel_wf rel" "provide_host env (fo, fv) rel = (Ok u, rel')" "is_new (fo \<or> fv) fv ''host'' False k"
  shows "is_complete k rel'"
proof -
  have n: "names_wf ''host'' rel" using assms(1) by (simp add: rel_wf_def host_wf_def)
  show ?thesis
    using assms(2,3) n
    by (auto simp: provide_host_def Let_def single_flags_def names_wf_def is_new_def
        split: if_splits option.splits elim!: provided_Ok)
qed

lemma provide_service_promise:
  assumes "rel_wf rel" "provide_service env (fo, fv) rel = (Ok u, rel')" "is_new (fo \<or> fv) fv ''services[*]'' False k"
  shows "is_complete k rel'"
proof -
  have n: "names_wf ''services[*]'' rel" using assms(1) by (simp add: rel_wf_def services_wf_def)
  show ?thesis
    using assms(2,3) n
    by (auto simp: provide_service_def Let_def single_flags_def names_wf_def is_new_def
        split: if_splits option.splits elim!: provided_Ok)
qed

lemma provide_host_services_promise:
  assumes "rel_wf rel" "provide_host_services env (fo, fv) rel = (Ok u, rel')"
    "is_new (fo \<or> fv) fv ''services[*]'' False k"
  shows "is_complete k rel'"
proof -
  have n: "names_wf ''services[*]'' rel" using assms(1) by (simp add: rel_wf_def services_wf_def)
  show ?thesis
    using assms(2,3) n
    by (auto simp: provide_host_services_def Let_def names_wf_def is_new_def
        split: if_splits option.splits elim!: provided_Ok)
qed

lemma provide_groups_promise:
  assumes "rel_wf rel"
  shows "provide_hostgroups env (fo, fv) rel = (Ok u, rel') \<Longrightarrow> is_new fo False ''hostgroups[*]'' False k \<Longrightarrow>
      is_complete k rel'"
    and "provide_servicegroups env (fo, fv) rel = (Ok u, rel') \<Longrightarrow> is_new fo False ''servicegroups[*]'' False k \<Longrightarrow>
      is_complete k rel'"
proof -
  have n: "names_wf ''hostgroups[*]'' rel" "names_wf ''servicegroups[*]'' rel"
    using assms by (simp_all add: rel_wf_def groups_wf_def)
  show "is_complete k rel'"
    if "provide_hostgroups env (fo, fv) rel = (Ok u, rel')" "is_new fo False ''hostgroups[*]'' False k"
    using that n by (auto simp: provide_hostgroups_def names_wf_def is_new_def split: if_splits elim!: provided_Ok)
  show "is_complete k rel'"
    if "provide_servicegroups env (fo, fv) rel = (Ok u, rel')" "is_new fo False ''servicegroups[*]'' False k"
    using that n by (auto simp: provide_servicegroups_def names_wf_def is_new_def split: if_splits elim!: provided_Ok)
qed

lemma provide_selector_promise:
  assumes "rel_wf rel" "provide_selector env childSegments sel rel = (Ok u, rel')"
    "k \<in> set (promised_by childSegments sel)"
  shows "is_complete k rel'"
proof -
  obtain fo fv where w: "wanted sel childSegments = (fo, fv)" by force
  show ?thesis
    using assms w
    by (auto simp: provide_selector_def promised_by_def Let_def split: if_splits
        intro: provide_host_promise provide_service_promise provide_host_services_promise provide_groups_promise)
qed

lemma until_error_promise:
  assumes step: "\<And>x rel u rel' k. x \<in> set xs \<Longrightarrow> rel_wf rel \<Longrightarrow> f x rel = (Ok u, rel') \<Longrightarrow> k \<in> P x \<Longrightarrow> is_complete k rel'"
    and sound: "\<And>x rel. rel_wf rel \<Longrightarrow> sound_step rel (f x rel)"
    and "rel_wf rel" "until_error f xs rel = (Ok u, rel')" "x \<in> set xs" "k \<in> P x"
  shows "is_complete k rel'"
  using assms(3-5) step
proof (induction xs arbitrary: rel)
  case Nil
  then show ?case by simp
next
  case (Cons y ys)
  obtain r rel1 where fy: "f y rel = (r, rel1)" by force
  obtain v where r: "r = Ok v" and rest: "until_error f ys rel1 = (Ok u, rel')"
    using Cons.prems(2) fy by (cases r) auto
  have s: "rel_wf rel1" using sound [OF Cons.prems(1), of y] fy by (simp add: sound_step_def)
  have later: "grows rel1 rel'"
    using until_error_sound [of f, OF sound s, of ys] rest by (simp add: sound_step_def)
  show ?case
  proof (cases "x = y")
    case True
    then have "is_complete k rel1"
      using Cons.prems(1,4) fy r assms(6) by auto
    then show ?thesis using later by (auto simp: grows_def is_complete_def)
  next
    case False
    then show ?thesis
      using Cons.IH [OF s rest] Cons.prems(3,4) by auto
  qed
qed

lemma rel_complete_promise:
  assumes "rel_wf rel" "rel_complete env (parse client) attribute rel = (Ok u, rel')"
    "k \<in> set (promised client attribute)"
  shows "is_complete k rel'"
proof -
  obtain selectors childSegments where p: "parse client attribute = Inr (selectors # childSegments)"
    using assms(3) by (cases "parse client attribute"; cases "projr (parse client attribute)") (auto simp: promised_def)
  obtain sel where "sel \<in> set selectors" "k \<in> set (promised_by childSegments sel)"
    using assms(3) p by (auto simp: promised_def)
  then show ?thesis
    using assms(1,2) p
    by (auto simp: rel_complete_def relationsProvider_def
        intro: until_error_promise [where P = "\<lambda>x. set (promised_by childSegments x)"]
          provide_selector_promise provide_selector_sound)
qed

lemma map_error_Ok [simp]: "map_error f m = Ok a \<longleftrightarrow> m = Ok a" "is_panic (map_error f m) = is_panic m"
  by (cases m; simp)+

lemma complete_attribute_sound: "rel_wf rel \<Longrightarrow> sound_step rel (complete_attribute client env attribute rel)"
  using rel_complete_sound [of rel env "parse client" attribute]
  by (auto simp: complete_attribute_def sound_step_def split: prod.splits)

lemma complete_attribute_content:
  "rel_wf rel \<Longrightarrow> rel_content E rel \<Longrightarrow> env \<in> E \<Longrightarrow> rel_content E (snd (complete_attribute client env attribute rel))"
  using rel_complete_content [of rel E env "parse client" attribute]
  by (auto simp: complete_attribute_def split: prod.splits)

lemma complete_attribute_promise:
  assumes "rel_wf rel" "complete_attribute client env attribute rel = (Ok u, rel')"
    "k \<in> set (promised client attribute)"
  shows "is_complete k rel'"
  using assms by (auto simp: complete_attribute_def split: prod.splits intro: rel_complete_promise)

section \<open>The negotiation\<close>

text \<open>The loop in numbered rounds: the state after \<open>n\<close> of them, whether or not they would be run.\<close>

definition after_rounds ::
  "'j notify_client \<Rightarrow> ('w, 'j) server \<Rightarrow> nat \<Rightarrow> ('w, 'j) submission_state \<Rightarrow> ('w, 'j) submission_state" where
  "after_rounds client srv n st = ((\<lambda>s. snd (negotiation_round client srv s)) ^^ n) st"

definition ss_relations :: "('w, 'j) submission_state \<Rightarrow> 'j relations" where
  "ss_relations st = fe_relations (ss_event st)"

definition missing :: "'j relations \<Rightarrow> nat" where
  "missing rel = card (set known_relations - set (completeRelations rel))"

text \<open>
  A useful request: one of its attributes promises something that is not complete yet. A server that
  only makes useful requests asks for what the source can provide, and not again for what it got.
\<close>

definition useful :: "'j notify_client \<Rightarrow> string list \<Rightarrow> string list \<Rightarrow> bool" where
  "useful client attributes done_keys \<longleftrightarrow> \<not> set (concat (map (promised client) attributes)) \<subseteq> set done_keys"

lemma completeAndUpdate_cases:
  assumes "rel_wf (fe_relations fe)"
  obtains (ok) fe' where "completeAndUpdate client env attributes fe = (Ok (), fe')"
      "rel_wf (fe_relations fe')" "grows (fe_relations fe) (fe_relations fe')"
      "ev_CompleteRelations (fe_Event fe') = completeRelations (fe_relations fe')"
      "set (concat (map (promised client) attributes)) \<subseteq> set (completeRelations (fe_relations fe'))"
  | (err) e fe' where "completeAndUpdate client env attributes fe = (Err e, fe')"
      "rel_wf (fe_relations fe')" "grows (fe_relations fe) (fe_relations fe')"
proof -
  obtain r rel' where run: "until_error (complete_attribute client env) attributes (fe_relations fe) = (r, rel')"
    by force
  have s: "rel_wf rel'" "grows (fe_relations fe) rel'" "\<not> is_panic r"
    using until_error_sound [where f = "complete_attribute client env" and xs = attributes,
        OF complete_attribute_sound assms] run
    by (simp_all add: sound_step_def)
  show thesis
  proof (cases r)
    case (Ok u)
    have "k \<in> set (completeRelations rel')" if "a \<in> set attributes" "k \<in> set (promised client a)" for a k
      using until_error_promise [where f = "complete_attribute client env" and P = "\<lambda>a. set (promised client a)",
          OF complete_attribute_promise complete_attribute_sound assms run [unfolded Ok] that]
      by (simp add: is_complete_def)
    then have "set (concat (map (promised client) attributes)) \<subseteq> set (completeRelations rel')"
      by auto
    then show thesis
      using run Ok s by (intro ok) (auto simp: completeAndUpdate_def)
  next
    case (Err e)
    then show thesis using run s by (intro err) (auto simp: completeAndUpdate_def)
  next
    case (Panic p)
    then show thesis using s by simp
  qed
qed

lemma negotiation_round_sound:
  assumes "rel_wf (ss_relations st)" "negotiation_round client srv st = (r, st')"
  shows "rel_wf (ss_relations st') \<and> grows (ss_relations st) (ss_relations st') \<and> (\<forall>q. r = Some q \<longrightarrow> \<not> is_panic q)"
  using assms(1) [unfolded ss_relations_def]
proof (cases rule: completeAndUpdate_cases
    [where client = client and env = "fetch_of srv (ss_world st)" and attributes = "ss_attributes st"])
  case (ok fe')
  then show ?thesis
    using assms(2) by (auto simp: negotiation_round_def ss_relations_def split: prod.splits process_error.splits)
next
  case (err e fe')
  then show ?thesis using assms(2) by (auto simp: negotiation_round_def ss_relations_def)
qed

lemma negotiate_sound:
  fixes client :: "'j notify_client" and srv :: "('w, 'j) server"
  assumes "negotiate client srv st = Some (r, st')" "rel_wf (ss_relations st)"
  shows "rel_wf (ss_relations st') \<and> grows (ss_relations st) (ss_relations st') \<and> \<not> is_panic r"
proof -
  let ?P = "\<lambda>(c :: 'j notify_client) (s :: ('w, 'j) server) st (q :: (string, unit) outcome \<times> ('w, 'j) submission_state).
    rel_wf (ss_relations st) \<longrightarrow>
      rel_wf (ss_relations (snd q)) \<and> grows (ss_relations st) (ss_relations (snd q)) \<and> \<not> is_panic (fst q)"
  have "?P client srv st (r, st')"
  proof (rule negotiate.raw_induct [where P = ?P, OF _ assms(1)], intro impI, goal_cases)
    case (1 neg c s st q)
    obtain r1 st1 where round: "negotiation_round c s st = (r1, st1)" by force
    note s1 = negotiation_round_sound [OF 1(3) round]
    show ?case
    proof (cases r1)
      case None
      then have "neg c s st1 = Some q" using 1(2) round by simp
      then have "rel_wf (ss_relations (snd q)) \<and> grows (ss_relations st1) (ss_relations (snd q)) \<and> \<not> is_panic (fst q)"
        using 1(1) s1 by blast
      then show ?thesis using s1 grows_trans by blast
    next
      case (Some a)
      then show ?thesis using 1(2) round s1 by auto
    qed
  qed
  then show ?thesis using assms(2) by simp
qed

lemma missing_less:
  assumes "grows rel rel'" "k \<in> set (completeRelations rel')" "k \<notin> set (completeRelations rel)" "rel_wf rel'"
  shows "missing rel' < missing rel"
  unfolding missing_def
proof (rule psubset_card_mono)
  show "finite (set known_relations - set (completeRelations rel))" by simp
  show "set known_relations - set (completeRelations rel') \<subset> set known_relations - set (completeRelations rel)"
    using assms by (auto simp: grows_def rel_wf_def base_wf_def)
qed

lemma negotiation_progress:
  assumes "rel_wf (ss_relations st)" "useful client (ss_attributes st) (completeRelations (ss_relations st))"
    "negotiation_round client srv st = (None, st')"
  shows "missing (ss_relations st') < missing (ss_relations st)"
  using assms(1) [unfolded ss_relations_def]
proof (cases rule: completeAndUpdate_cases
    [where client = client and env = "fetch_of srv (ss_world st)" and attributes = "ss_attributes st"])
  case (ok fe')
  have st': "ss_relations st' = fe_relations fe'"
    using assms(3) ok(1) by (auto simp: negotiation_round_def ss_relations_def split: prod.splits process_error.splits)
  obtain k where k: "k \<in> set (concat (map (promised client) (ss_attributes st)))"
      "k \<notin> set (completeRelations (ss_relations st))"
    using assms(2) by (auto simp: useful_def)
  show ?thesis
    unfolding st' using ok(2,3,5) k by (intro missing_less [of _ _ k]) (auto simp: ss_relations_def)
next
  case (err e fe')
  then show ?thesis using assms(3) by (auto simp: negotiation_round_def)
qed

lemma after_rounds_simps [simp]:
  "after_rounds client srv 0 st = st"
  "after_rounds client srv (Suc n) st = after_rounds client srv n (snd (negotiation_round client srv st))"
  by (simp_all add: after_rounds_def funpow_Suc_right del: funpow.simps(2))

definition useful_server :: "'j notify_client \<Rightarrow> ('w, 'j) server \<Rightarrow> bool" where
  "useful_server client srv \<longleftrightarrow> (\<forall>w ev w' attributes. process srv w ev = (w', attributes, ErrAttrsNegotiation) \<longrightarrow>
     useful client attributes (ev_CompleteRelations ev))"

lemma round_asks_useful:
  assumes "useful_server client srv" "rel_wf (ss_relations st)" "negotiation_round client srv st = (None, st')"
  shows "useful client (ss_attributes st') (completeRelations (ss_relations st'))"
  using assms(2) [unfolded ss_relations_def]
proof (cases rule: completeAndUpdate_cases
    [where client = client and env = "fetch_of srv (ss_world st)" and attributes = "ss_attributes st"])
  case (ok fe')
  obtain w' attributes err where p: "process srv (ss_world st) (fe_Event fe') = (w', attributes, err)"
    by (cases "process srv (ss_world st) (fe_Event fe')") auto
  have err: "err = ErrAttrsNegotiation" and st': "st' = \<lparr>ss_event = fe', ss_attributes = attributes, ss_world = w'\<rparr>"
    using assms(3) ok(1) p by (auto simp: negotiation_round_def split: process_error.splits)
  have "useful client attributes (ev_CompleteRelations (fe_Event fe'))"
    using assms(1) p err by (auto simp: useful_server_def)
  then show ?thesis using st' ok(4) by (simp add: ss_relations_def)
next
  case (err e fe')
  then show ?thesis using assms(3) by (simp add: negotiation_round_def)
qed

lemma negotiation_from_useful:
  assumes "useful_server client srv" "rel_wf (ss_relations st)"
    "useful client (ss_attributes st) (completeRelations (ss_relations st))"
  shows "\<exists>n\<le>missing (ss_relations st). \<exists>r st'.
    negotiation_round client srv (after_rounds client srv n st) = (Some r, st') \<and> negotiate client srv st = Some (r, st')"
  using assms(2,3)
proof (induction "missing (ss_relations st)" arbitrary: st rule: less_induct)
  case less
  obtain r st1 where round: "negotiation_round client srv st = (r, st1)" by force
  show ?case
  proof (cases r)
    case (Some q)
    then show ?thesis using round by (intro exI [of _ 0]) (auto simp: negotiate.simps)
  next
    case None
    then have r1: "negotiation_round client srv st = (None, st1)" using round by simp
    have wf: "rel_wf (ss_relations st1)" using negotiation_round_sound [OF less.prems(1) r1] by simp
    have m: "missing (ss_relations st1) < missing (ss_relations st)"
      by (rule negotiation_progress [OF less.prems r1])
    obtain n q st' where n: "n \<le> missing (ss_relations st1)"
        "negotiation_round client srv (after_rounds client srv n st1) = (Some q, st')"
        "negotiate client srv st1 = Some (q, st')"
      using less.hyps [OF m wf round_asks_useful [OF assms(1) less.prems(1) r1]] by blast
    then show ?thesis
      using r1 m by (intro exI [of _ "Suc n"] conjI exI [of _ q] exI [of _ st']) (auto simp: negotiate.simps)
  qed
qed

lemma missing_bound: "rel_wf rel \<Longrightarrow> missing rel \<le> 10"
proof -
  assume "rel_wf rel"
  then have "''object.type'' \<in> set (completeRelations rel)"
    by (simp add: rel_wf_def base_wf_def is_complete_def)
  then have "set known_relations - set (completeRelations rel) \<subseteq> set (tl known_relations)"
    by (auto simp: known_relations_def)
  then have "missing rel \<le> card (set (tl known_relations))"
    unfolding missing_def by (intro card_mono) auto
  also have "\<dots> \<le> length (tl known_relations)" by (rule card_length)
  finally show ?thesis by (simp add: known_relations_def)
qed

lemma negotiation_bounded:
  assumes "useful_server client srv" "rel_wf (ss_relations st)"
  shows "\<exists>n\<le>11. \<exists>r st'. negotiation_round client srv (after_rounds client srv n st) = (Some r, st') \<and>
    negotiate client srv st = Some (r, st')"
proof -
  obtain r st1 where round: "negotiation_round client srv st = (r, st1)" by force
  show ?thesis
  proof (cases r)
    case (Some q)
    then show ?thesis using round by (intro exI [of _ 0]) (auto simp: negotiate.simps)
  next
    case None
    then have r1: "negotiation_round client srv st = (None, st1)" using round by simp
    have wf: "rel_wf (ss_relations st1)" using negotiation_round_sound [OF assms(2) r1] by simp
    obtain n q st' where n: "n \<le> missing (ss_relations st1)"
        "negotiation_round client srv (after_rounds client srv n st1) = (Some q, st')"
        "negotiate client srv st1 = Some (q, st')"
      using negotiation_from_useful [OF assms(1) wf round_asks_useful [OF assms r1]] by blast
    then show ?thesis
      using r1 missing_bound [OF wf]
      by (intro exI [of _ "Suc n"] conjI exI [of _ q] exI [of _ st']) (auto simp: negotiate.simps)
  qed
qed

section \<open>A negotiation that never ends\<close>

text \<open>
  Custom variables of groups are never complete: a request for them adds nothing to the relations, and
  asking again starts over at once.
\<close>

lemma group_vars_never_complete:
  assumes "rel_wf rel" "parse client attribute = Inr [[quoted ''hostgroups''], [wildcard], [quoted ''vars'']]"
    "sql_fails env (QGroups ''hostgroup'' (hostId rel) False) = None"
  shows "\<exists>rel'. complete_attribute client env attribute rel = (Ok (), rel') \<and>
    completeRelations rel' = completeRelations rel \<and> rel_wf rel' \<and> hostId rel' = hostId rel"
proof -
  obtain r rel' where run: "complete_attribute client env attribute rel = (r, rel')" by force
  have s: "rel_wf rel' \<and> grows rel rel'"
    using complete_attribute_sound [OF assms(1), of client env attribute] run by (simp add: sound_step_def)
  have "r = Ok () \<and> completeRelations rel' = completeRelations rel"
    using run assms(2,3)
    by (auto simp: complete_attribute_def rel_complete_def relationsProvider_def provide_selector_def wanted_def
        scan_selector_def provide_hostgroups_def fetchGroupsFromSql_def fetchObjectFromSql_def wildcard_def
        updateCompleteRelations_def newRelations_def quoted_def Let_def split: if_splits)
  then show ?thesis using run s by (simp add: grows_def)
qed

definition group_vars_query :: "'j notify_client \<Rightarrow> string \<Rightarrow> bool" where
  "group_vars_query client attribute \<longleftrightarrow>
     parse client attribute = Inr [[quoted ''hostgroups''], [wildcard], [quoted ''vars'']]"

text \<open>A server that asks for the custom variables of the host groups as long as they are not complete.\<close>

definition insisting_server :: "('w, 'j) server \<Rightarrow> string \<Rightarrow> bool" where
  "insisting_server srv attribute \<longleftrightarrow>
     (\<forall>w ev. ''hostgroups[*].vars'' \<notin> set (ev_CompleteRelations ev) \<longrightarrow>
        snd (process srv w ev) = ([attribute], ErrAttrsNegotiation)) \<and>
     (\<forall>w h. sql_fails (fetch_of srv w) (QGroups ''hostgroup'' h False) = None)"

lemma insisting_round:
  assumes "insisting_server srv attribute" "group_vars_query client attribute" "rel_wf (ss_relations st)"
    "ss_attributes st \<in> {[], [attribute]}"
  shows "\<exists>st'. negotiation_round client srv st = (None, st') \<and> rel_wf (ss_relations st') \<and> ss_attributes st' = [attribute]"
proof -
  let ?env = "fetch_of srv (ss_world st)"
  obtain rel' where "until_error (complete_attribute client ?env) (ss_attributes st) (ss_relations st) = (Ok (), rel')"
      and wf: "rel_wf rel'"
  proof (cases "ss_attributes st = []")
    case True
    then show thesis using assms(3) by (intro that [of "ss_relations st"]) auto
  next
    case False
    then have a: "ss_attributes st = [attribute]" using assms(4) by simp
    obtain rel' where "complete_attribute client ?env attribute (ss_relations st) = (Ok (), rel')" "rel_wf rel'"
      using group_vars_never_complete [OF assms(3), of client attribute ?env] assms(1,2)
      by (auto simp: insisting_server_def group_vars_query_def)
    then show thesis using a by (intro that [of rel']) auto
  qed
  then obtain fe where fe: "completeAndUpdate client ?env (ss_attributes st) (ss_event st) = (Ok (), fe)"
      "fe_relations fe = rel'" "ev_CompleteRelations (fe_Event fe) = completeRelations rel'"
    by (auto simp: completeAndUpdate_def ss_relations_def)
  have "''hostgroups[*].vars'' \<notin> set (completeRelations rel')"
    using wf by (auto simp: rel_wf_def base_wf_def known_relations_def)
  then have "snd (process srv (ss_world st) (fe_Event fe)) = ([attribute], ErrAttrsNegotiation)"
    using assms(1) fe(3) by (simp add: insisting_server_def)
  then obtain w' where "process srv (ss_world st) (fe_Event fe) = (w', [attribute], ErrAttrsNegotiation)"
    by (cases "process srv (ss_world st) (fe_Event fe)") auto
  then show ?thesis using fe wf by (simp add: negotiation_round_def ss_relations_def)
qed

lemma insisting_never_ends:
  fixes client :: "'j notify_client" and srv :: "('w, 'j) server"
  assumes "insisting_server srv attribute" "group_vars_query client attribute" "rel_wf (ss_relations st)"
    "ss_attributes st \<in> {[], [attribute]}"
  shows "negotiate client srv st = None"
proof (rule ccontr)
  assume "negotiate client srv st \<noteq> None"
  then obtain q where q: "negotiate client srv st = Some q" by auto
  let ?P = "\<lambda>(c :: 'j notify_client) (s :: ('w, 'j) server) st (q :: (string, unit) outcome \<times> ('w, 'j) submission_state).
    insisting_server s attribute \<longrightarrow> group_vars_query c attribute \<longrightarrow> rel_wf (ss_relations st) \<longrightarrow>
    ss_attributes st \<in> {[], [attribute]} \<longrightarrow> False"
  have "?P client srv st q"
  proof (rule negotiate.raw_induct [where P = ?P, OF _ q], intro impI, goal_cases)
    case (1 neg c s st q)
    then show ?case using insisting_round [OF 1(3-6)] by fastforce
  qed
  then show False using assms by simp
qed

section \<open>Events of states\<close>

lemma common_event_fields [simp]:
  "fe_relations (common_event client rel name url tags) = rel"
  "ev_Tags (fe_Event (common_event client rel name url tags)) = tags"
  "ev_Close (fe_Event (common_event client rel name url tags)) = null_bool"
  "ev_Notify (fe_Event (common_event client rel name url tags)) = null_bool"
  by (simp_all add: common_event_def)

lemma buildCommonEvent_Ok:
  assumes "buildCommonEvent client env h s = Ok fe"
  obtains (host) host rel where "s = None" "fetchHostServiceData env (parse client) h s = Ok rel" "Host rel = Some host"
      "fe = common_event client rel (DisplayName host) (''/icingadb/host?name='' @ RawUrlEncode client (Name host))
         [''host'' \<mapsto> Name host]"
  | (service) host rel service others where "s \<noteq> None" "fetchHostServiceData env (parse client) h s = Ok rel"
      "Host rel = Some host" "Services rel = service # others"
      "fe = common_event client rel (DisplayName host @ '': '' @ DisplayName service)
         (''/icingadb/service?name='' @ RawUrlEncode client (Name service) @
          ''&host.name='' @ RawUrlEncode client (Name host))
         [''host'' \<mapsto> Name host, ''service'' \<mapsto> Name service]"
proof -
  obtain rel where rel: "fetchHostServiceData env (parse client) h s = Ok rel"
    using assms by (auto simp: buildCommonEvent_def bind_outcome_Ok_iff)
  then obtain host' where h': "Host rel = Some host'"
    using assms by (cases "Host rel") (simp_all add: buildCommonEvent_def)
  show thesis
  proof (cases "s = None")
    case True
    then show thesis using assms rel h' by (intro host) (auto simp: buildCommonEvent_def)
  next
    case False
    obtain s' others where "Services rel = s' # others"
      using assms rel h' False by (cases "Services rel") (simp_all add: buildCommonEvent_def)
    then show thesis using assms rel h' False by (intro service) (auto simp: buildCommonEvent_def)
  qed
qed

lemma buildCommonEvent_wf:
  assumes "buildCommonEvent client env h s = Ok fe"
  shows "rel_wf (fe_relations fe) \<and> hostId (fe_relations fe) = h \<and> serviceId (fe_relations fe) = s \<and>
    Host (fe_relations fe) \<noteq> None \<and> (s \<noteq> None \<longrightarrow> Services (fe_relations fe) \<noteq> [])"
  using assms
proof (cases rule: buildCommonEvent_Ok)
  case (host h' rel)
  then show ?thesis using fetchHostServiceData_sound [where env = env and parse = "parse client" and h = h and s = s] by simp
next
  case (service h' rel s' others)
  then show ?thesis using fetchHostServiceData_sound [where env = env and parse = "parse client" and h = h and s = s] by simp
qed

lemma buildCommonEvent_no_panic: "\<not> is_panic (buildCommonEvent client env h s)"
  using fetchHostServiceData_sound [where env = env and parse = "parse client" and h = h and s = s]
  by (cases "fetchHostServiceData env (parse client) h s")
     (auto simp: buildCommonEvent_def split: option.splits list.splits)

lemma StateToSeverity_no_panic [simp]: "\<not> is_panic (StateToSeverity s isService)"
  by (simp add: StateToSeverity_def)

lemma checkable_volatile_no_panic:
  assumes "buildCommonEvent client env h s = Ok fe"
  shows "\<not> is_panic (checkable_volatile (fe_relations fe) s)"
  using buildCommonEvent_wf [OF assms] by (auto simp: checkable_volatile_def split: option.splits list.splits)

lemma map_error_panic [simp]: "map_error f m = Panic p \<longleftrightarrow> m = Panic p"
  by (cases m) auto

lemma buildStateEvent_no_panic: "\<not> is_panic (buildStateEvent client env s h service)"
  by (auto simp: buildStateEvent_def is_panic_bind buildCommonEvent_no_panic Let_def
      dest: checkable_volatile_no_panic)

text \<open>What the event of a state is, in one fact.\<close>

lemma buildStateEvent_Ok:
  assumes "buildStateEvent client env s h service = Ok fe"
  obtains fe0 volatile sev where "buildCommonEvent client env h service = Ok fe0"
    "checkable_volatile (fe_relations fe0) service = Ok volatile" "StateType s = ''hard'' \<or> volatile"
    "StateToSeverity s (service \<noteq> None) = Ok sev"
    "fe = fe0\<lparr>fe_Event := state_flags s ((fe_Event fe0)\<lparr>
       ev_Tags := (ev_Tags (fe_Event fe0))(''environment'' \<mapsto> Binary_String (s_EnvironmentId s)),
       ev_Message := state_message s, ev_Severity := sev,
       ev_Muted := MakeBool (bool_true (InDowntime s) \<or> bool_true (IsAcknowledged s) \<or> bool_true (IsFlapping s)),
       ev_MutedReason := mutedReason (bool_true (InDowntime s)) (bool_true (IsAcknowledged s)) (bool_true (IsFlapping s))\<rparr>)\<rparr>"
  using assms
  by (simp add: buildStateEvent_def bind_outcome_Ok_iff Let_def split: if_splits) blast+

lemma buildStateEvent_wf: "buildStateEvent client env s h service = Ok fe \<Longrightarrow> rel_wf (fe_relations fe)"
  by (erule buildStateEvent_Ok) (simp add: buildCommonEvent_wf)

definition state_muted :: "v1_state \<Rightarrow> bool" where
  "state_muted s \<longleftrightarrow> bool_true (InDowntime s) \<or> bool_true (IsAcknowledged s) \<or> bool_true (IsFlapping s)"

lemma StateToSeverity_OK_iff: "StateToSeverity s isService = Ok sev \<Longrightarrow> sev = SeverityOK \<longleftrightarrow> HardState s = 0"
  by (auto simp: StateToSeverity_def split: if_splits)

lemma state_flags_fields [simp]:
  "ev_Severity (state_flags s ev) = ev_Severity ev" "IsMuted (state_flags s ev) = IsMuted ev"
  "ev_Tags (state_flags s ev) = ev_Tags ev" "ev_Muted (state_flags s ev) = ev_Muted ev" "ev_Message (state_flags s ev) = ev_Message ev"
  by (simp_all add: state_flags_def Let_def IsMuted_def)

section \<open>Submissions\<close>

lemma retry_submit_sound:
  "retry_submit client srv n st sig = Some (r, st', sig') \<Longrightarrow> rel_wf (ss_relations st) \<Longrightarrow> \<not> is_panic r"
proof (induction n arbitrary: st sig)
  case 0
  then show ?case by auto
next
  case (Suc n)
  obtain q st1 where neg: "negotiate client srv st = Some (q, st1)"
    using Suc.prems(1) by (auto split: option.splits)
  note s = negotiate_sound [OF neg Suc.prems(2)]
  show ?case
  proof (cases q)
    case (Ok u)
    then show ?thesis using Suc.prems(1) neg by auto
  next
    case (Err e)
    have "rel_wf (ss_relations (st1\<lparr>ss_world := backoff_wait srv (ss_world st1)\<rparr>))"
      using s by (simp add: ss_relations_def)
    then show ?thesis using Suc.IH Suc.prems(1) neg Err by simp
  next
    case (Panic p)
    then show ?thesis using s by simp
  qed
qed

lemma event_of_state:
  assumes "state_of e = Some x" "event_of client env show_float e = Some m"
  shows "\<not> is_panic m \<and> (\<forall>fe. m = Ok fe \<longrightarrow> rel_wf (fe_relations fe))"
  using assms by (cases e) (auto simp: buildStateEvent_no_panic buildStateEvent_wf split: if_splits)

lemma Submit_state_sound:
  assumes "state_of e = Some x" "Submit client srv show_float n e w sig = Some (r, w', sig')"
  shows "\<not> is_panic r"
proof (cases "event_of client (fetch_of srv w) show_float e")
  case None
  then show ?thesis using assms(2) by (auto simp: Submit_def)
next
  case (Some m)
  note s = event_of_state [OF assms(1) Some]
  show ?thesis
  proof (cases m)
    case (Ok fe)
    then show ?thesis
      using assms(2) Some s
      by (auto simp: Submit_def ss_relations_def split: if_splits dest!: retry_submit_sound)
  qed (use assms(2) Some s in \<open>auto simp: Submit_def\<close>)
qed

lemma Submit_history_panics:
  "\<exists>p. Submit client srv show_float n (NAcknowledgement a) w sig = Some (Panic p, w, sig)"
  "\<exists>p. Submit client srv show_float n (NDowntime d) w sig = Some (Panic p, w, sig)"
  "\<exists>p. Submit client srv show_float n (NFlapping f) w sig = Some (Panic p, w, sig)"
  by (simp_all add: Submit_def buildAcknowledgementHistoryEvent_def buildDowntimeHistoryMetaEvent_def
      buildFlappingHistoryEvent_def)

section \<open>Deltas and incidents\<close>

text \<open>An incident agrees with an entity where the code finds that both have the same state.\<close>

definition agrees :: "incidents \<Rightarrow> notify_entity \<Rightarrow> bool" where
  "agrees known e \<longleftrightarrow> (case map_of known (entity_key e) of
     None \<Rightarrow> False | Some inc \<Rightarrow> HaveSameState inc e = Ok True)"

definition comparable :: "incidents \<Rightarrow> notify_entity \<Rightarrow> bool" where
  "comparable known e \<longleftrightarrow> (case map_of known (entity_key e) of
     None \<Rightarrow> True | Some inc \<Rightarrow> (\<exists>b. HaveSameState inc e = Ok b))"

definition submits :: "'w submitter \<Rightarrow> bool" where
  "submits submit \<longleftrightarrow> (\<forall>e w sig. \<exists>r w' sig'. submit e w sig = Some (r, w', sig') \<and> \<not> is_panic r)"

lemma submitsE:
  assumes "submits submit"
  obtains (ok) u w' sig' where "submit e w sig = Some (Ok u, w', sig')"
    | (err) m w' sig' where "submit e w sig = Some (Err m, w', sig')"
proof -
  obtain r w' sig' where "submit e w sig = Some (r, w', sig')" "\<not> is_panic r"
    using assms unfolding submits_def by blast
  then show thesis using ok err by (cases r) auto
qed

lemma apply_entities_sends:
  assumes "submits submit" "list_all (comparable known) entities"
  shows "\<exists>w' sig'. apply_entities submit known entities w sig sent =
    Some (Ok (), sent @ List.filter (\<lambda>e. \<not> agrees known e) entities, w', sig')"
  using assms(2)
proof (induction entities arbitrary: w sig sent)
  case Nil
  then show ?case by simp
next
  case (Cons e es)
  let ?same = "case map_of known (entity_key e) of None \<Rightarrow> Ok False | Some inc \<Rightarrow> HaveSameState inc e"
  obtain b where b: "?same = Ok b" using Cons.prems by (auto simp: comparable_def split: option.splits)
  have agrees: "agrees known e = b" using b by (auto simp: agrees_def split: option.splits)
  show ?case
  proof (cases b)
    case True
    then show ?thesis using Cons b agrees by simp
  next
    case False
    show ?thesis
    proof (cases e w sig rule: submitsE [OF assms(1), case_names ok err])
      case (ok u w' sig')
      then show ?thesis using Cons.IH [of w' sig' "sent @ [e]"] Cons.prems b agrees False by simp
    next
      case (err m w' sig')
      then show ?thesis using Cons.IH [of w' sig' "sent @ [e]"] Cons.prems b agrees False by simp
    qed
  qed
qed


lemma HaveSameState_no_panic: "HaveSameState inc e \<noteq> Panic p"
  by (auto simp: HaveSameState_def StateToSeverity_def split: option.splits)

lemma apply_entities_fails:
  assumes "submits submit" "e \<in> set entities" "\<not> comparable known e"
  shows "\<exists>m sent' w' sig'. apply_entities submit known entities w sig sent = Some (Err m, sent', w', sig')"
  using assms(2)
proof (induction entities arbitrary: w sig sent)
  case Nil
  then show ?case by simp
next
  case (Cons x xs)
  let ?same = "case map_of known (entity_key x) of None \<Rightarrow> Ok False | Some inc \<Rightarrow> HaveSameState inc x"
  show ?case
  proof (cases ?same)
    case (Err m)
    then show ?thesis by simp
  next
    case (Panic p)
    then show ?thesis by (auto simp: HaveSameState_no_panic split: option.splits)
  next
    case (Ok b)
    then have "comparable known x" by (auto simp: comparable_def split: option.splits)
    then have e: "e \<in> set xs" using assms(3) Cons.prems by auto
    show ?thesis
    proof (cases b)
      case True
      then show ?thesis using Cons.IH [OF e, of w sig sent] Ok by simp
    next
      case False
      show ?thesis
      proof (cases x w sig rule: submitsE [OF assms(1), case_names ok err])
        case (ok u w' sig')
        then show ?thesis using Cons.IH [OF e, of w' sig' "sent @ [x]"] Ok False by simp
      next
        case (err m w' sig')
        then show ?thesis using Cons.IH [OF e, of w' sig' "sent @ [x]"] Ok False by simp
      qed
    qed
  qed
qed

lemma ApplyDelta_known:
  assumes "incidentsByObjId cache = Some known" "known \<noteq> []" "kind \<noteq> OtherEntities"
    "apply_entities submit known entities w sig [] = Some (r, sent, w', sig')"
  shows "client_ApplyDelta submit retrieved kind d entities stream_error cache w sig = Some \<lparr>
     ap_error = (case (r, stream_error) of (Ok u, Some e) \<Rightarrow> Err e | _ \<Rightarrow> r), ap_sent = sent,
     ap_closed = (if close_filter kind d known = [] then None else Some (close_filter kind d known)),
     ap_cache = cache, ap_world = w', ap_signals = sig'\<rparr>"
  using assms by (cases cache) (simp add: client_ApplyDelta_def Let_def)

section \<open>Check outputs\<close>

definition previous_tick :: "time \<Rightarrow> outputs_tick list \<Rightarrow> nat \<Rightarrow> time" where
  "previous_tick lastSync ticks k = (if k = 0 then lastSync else tick_at (ticks ! (k - 1)))"

definition object_state :: "outputs_tick \<Rightarrow> incident \<Rightarrow> bytes \<rightharpoonup> v1_state" where
  "object_state tick inc =
     (if ObjectTags inc ''service'' = None then tick_host_states tick else tick_service_states tick)"

lemma SyncCheckOutputs_nth:
  "k < length ticks \<Longrightarrow> SyncCheckOutputs lastSync ticks ! k =
    tick_requests (previous_tick lastSync ticks k) (ticks ! k)"
proof (induction lastSync ticks arbitrary: k rule: SyncCheckOutputs.induct)
  case (2 lastSync tick later)
  then show ?case by (cases k; cases "k - 1") (auto simp: previous_tick_def)
qed simp

text \<open>The states whose output is to be sent, and the requests due for an incident: one, or none.\<close>

definition fresh_output :: "time \<Rightarrow> v1_state \<Rightarrow> bool" where
  "fresh_output lastSync s \<longleftrightarrow> str_valid (Output s) \<and> lastSync \<le> LastUpdate s"

definition due_requests :: "time \<Rightarrow> outputs_tick \<Rightarrow> bytes \<times> incident \<Rightarrow> (string \<times> tag_filter) list" where
  "due_requests lastSync tick known =
     (case object_state tick (snd known) (fst known) of
        None \<Rightarrow> []
      | Some s \<Rightarrow>
          if fresh_output lastSync s
          then [(if str_valid (LongOutput s) then str_val (Output s) @ [CHR 0x0A] @ str_val (LongOutput s) else str_val (Output s),
                 \<lambda>tag. if tag = ''service'' \<and> ObjectTags (snd known) tag = None then Some None
                        else map_option Some (ObjectTags (snd known) tag))]
          else [])"

lemma modify_due:
  "modify lastSync s tags =
     (if fresh_output lastSync s
      then Some (if str_valid (LongOutput s) then str_val (Output s) @ [CHR 0x0A] @ str_val (LongOutput s) else str_val (Output s),
                 \<lambda>tag. if tag = ''service'' \<and> tags tag = None then Some None else map_option Some (tags tag))
      else None)"
  by (auto simp: modify_def fresh_output_def output_message_def output_filter_def Let_def)

lemma output_requests_due:
  assumes "distinct (map fst known)" "\<And>p. p \<in> set known \<Longrightarrow> object_state tick (snd p) = found"
  shows "output_requests lastSync known (states_of known found) = concat (map (due_requests lastSync tick) known)"
proof -
  define tags where "tags = (\<lambda>i. case map_of known i of None \<Rightarrow> Map.empty | Some incident \<Rightarrow> ObjectTags incident)"
  have "List.map_filter (\<lambda>(i, s). modify lastSync s (tags i)) (states_of ps found) = concat (map (due_requests lastSync tick) ps)"
    if "set ps \<subseteq> set known" for ps
    using that
  proof (induction ps)
    case (Cons p ps)
    have "map_of known (fst p) = Some (snd p)" using Cons.prems assms(1) by simp
    then have "tags (fst p) = ObjectTags (snd p)" by (simp add: tags_def)
    then show ?case
      using Cons assms(2) [of p]
      by (cases "found (fst p)") (auto simp: states_of_def List.map_filter_simps due_requests_def modify_due cong: if_cong)
  qed (simp add: states_of_def List.map_filter_simps)
  from this [of known] show ?thesis by (simp add: output_requests_def tags_def)
qed

lemma mset_concat_split:
  "mset (concat (map f (List.filter P xs))) + mset (concat (map f (List.filter (\<lambda>x. \<not> P x) xs))) = mset (concat (map f xs))"
  by (induction xs) simp_all

lemma tick_requests_due:
  assumes "distinct (map fst (tick_incidents tick))"
  shows "mset (tick_requests lastSync tick) = mset (concat (map (due_requests lastSync tick) (tick_incidents tick)))"
proof -
  have d: "distinct (map fst (List.filter P (tick_incidents tick)))" for P
    using assms by (rule distinct_map_filter)
  let ?host = "\<lambda>p. ObjectTags (snd p) ''service'' = None"
  let ?hosts = "List.filter ?host (tick_incidents tick)"
  let ?services = "List.filter (\<lambda>p. \<not> ?host p) (tick_incidents tick)"
  have "output_requests lastSync ?hosts (states_of ?hosts (tick_host_states tick)) = concat (map (due_requests lastSync tick) ?hosts)"
    by (rule output_requests_due [OF d]) (simp add: object_state_def)
  moreover have "output_requests lastSync ?services (states_of ?services (tick_service_states tick)) =
      concat (map (due_requests lastSync tick) ?services)"
    by (rule output_requests_due [OF d]) (auto simp: object_state_def)
  ultimately show ?thesis
    using mset_concat_split [of "due_requests lastSync tick" ?host "tick_incidents tick"]
    by (simp add: tick_requests_def split_incidents_def)
qed

lemma collect_incidents_distinct:
  "distinct (map fst known) \<Longrightarrow> distinct (map fst (collect_incidents pack sha1 environment incs hashed known))"
  by (induction incs arbitrary: hashed known) (auto simp: distinct_update split: prod.splits)

section \<open>Retries\<close>

text \<open>The signals of a submission while the HA component listens: one for each attempt.\<close>

lemma retry_submit_signals:
  assumes "retry_submit client srv n st sig = Some (r, st', sig')" "hb_ready sig = replicate m True" "n \<le> m" "\<not> is_panic r"
  shows "\<exists>k. k + (if is_ok r then 1 else 0) \<le> n \<and>
    hb_sent sig' = hb_sent sig @ replicate k False @ (if is_ok r then [True] else []) \<and>
    NotificationSync sig' = NotificationSync sig + (if is_ok r then 1 else 0)"
  using assms(1-3)
proof (induction n arbitrary: st sig m)
  case 0
  then show ?case by auto
next
  case (Suc n)
  obtain m' where m: "m = Suc m'" "n \<le> m'" using Suc.prems(3) by (cases m) auto
  have send: "hb_sent (sendHeartbeat a sig) = hb_sent sig @ [a]" "hb_ready (sendHeartbeat a sig) = replicate m' True"
    "NotificationSync (sendHeartbeat a sig) = NotificationSync sig" for a
    using Suc.prems(2) m by (simp_all add: sendHeartbeat_def)
  obtain q st1 where neg: "negotiate client srv st = Some (q, st1)"
    using Suc.prems(1) by (auto split: option.splits)
  show ?case
  proof (cases q)
    case (Ok u)
    then show ?thesis using Suc.prems(1) neg send by (intro exI [of _ 0]) auto
  next
    case (Err e)
    obtain k where "k + (if is_ok r then 1 else 0) \<le> n"
        "hb_sent sig' = (hb_sent sig @ [False]) @ replicate k False @ (if is_ok r then [True] else [])"
        "NotificationSync sig' = NotificationSync sig + (if is_ok r then 1 else 0)"
      using Suc.IH [of "st1\<lparr>ss_world := backoff_wait srv (ss_world st1)\<rparr>" "sendHeartbeat False sig" m'] Suc.prems(1) neg Err
        send m by auto
    then show ?thesis by (intro exI [of _ "Suc k"]) auto
  next
    case (Panic p)
    then show ?thesis using Suc.prems(1) neg assms(4) by auto
  qed
qed

section \<open>The properties\<close>

text \<open>C7. Type soundness of the relations of an event: whatever attributes the server asks for and
  whatever the queries give, completing them keeps the relations well-formed, with the shape their readers
  rely on; what is listed as complete is there, with the content of Redis and the tables at one of the two
  moments of fetching (host, services, their custom variables, host and service groups); what was complete stays
  complete; and nothing panics.\<close>

theorem relations_type_safe:
  assumes "fetchHostServiceData env (parse client) h s = Ok rel"
    "until_error (complete_attribute client env') attributes rel = (r, rel')"
  shows "rel_wf rel' \<and> rel_content {env, env'} rel' \<and> grows rel rel' \<and> \<not> is_panic r"
proof -
  have wf: "rel_wf rel"
    using fetchHostServiceData_sound [where env = env and parse = "parse client" and h = h and s = s] assms(1) by simp
  have "sound_step rel (until_error (complete_attribute client env') attributes rel)"
    by (rule until_error_sound [where f = "complete_attribute client env'" and xs = attributes,
          OF complete_attribute_sound wf])
  moreover have "rel_content {env, env'} rel"
    by (rule rel_content_mono [OF fetchHostServiceData_content [OF assms(1)]]) simp
  then have "rel_content {env, env'} (snd (until_error (complete_attribute client env') attributes rel))"
    by (intro until_error_content complete_attribute_sound complete_attribute_content wf) simp_all
  ultimately show ?thesis using assms(2) by (simp add: sound_step_def)
qed

text \<open>C16. The negotiation with a server whose requests are useful ends: after at most twelve rounds the
  server has accepted or refused the event, or a query has failed.\<close>

theorem negotiation_terminates:
  assumes "useful_server client srv" "rel_wf (ss_relations st)"
  shows "\<exists>n\<le>11. \<exists>r st'. negotiation_round client srv (after_rounds client srv n st) = (Some r, st') \<and>
    negotiate client srv st = Some (r, st')"
  using assms by (rule negotiation_bounded)

text \<open>With a server that insists on the custom variables of the host groups, which the source does
  not provide, the negotiation never ends; there is no delay between its rounds.\<close>

theorem negotiation_forever:
  assumes "insisting_server srv attribute" "group_vars_query client attribute" "rel_wf (ss_relations st)"
    "ss_attributes st \<in> {[], [attribute]}"
  shows "negotiate client srv st = None"
  using assms by (rule insisting_never_ends)

text \<open>Submitting a host or service state never panics.\<close>

theorem Submit_state_no_panic:
  assumes "state_of e = Some x" "Submit client srv show_float n e w sig = Some (r, w', sig')"
  shows "\<not> is_panic r"
  using assms by (rule Submit_state_sound)

text \<open>C17. The flags of the event of a state: it is muted exactly for a downtime, an acknowledgement or
  flapping, it closes the incident exactly when the state is OK and not muted, and else notifies exactly
  when the hard state is the previous one. That includes an OK state that is muted.\<close>

theorem buildStateEvent_flags:
  assumes "buildStateEvent client env s h service = Ok fe"
  shows "IsMuted (fe_Event fe) = state_muted s \<and>
    bool_true (ev_Close (fe_Event fe)) = (HardState s = 0 \<and> \<not> state_muted s) \<and>
    bool_true (ev_Notify (fe_Event fe)) =
      (PreviousHardState s = HardState s \<and> (HardState s \<noteq> 0 \<or> state_muted s)) \<and>
    bool_true (ev_Incident (fe_Event fe))"
  using assms
proof (rule buildStateEvent_Ok)
  fix fe0 volatile sev
  assume b: "buildCommonEvent client env h service = Ok fe0" and sev: "StateToSeverity s (service \<noteq> None) = Ok sev"
    and fe: "fe = fe0\<lparr>fe_Event := state_flags s ((fe_Event fe0)\<lparr>
       ev_Tags := (ev_Tags (fe_Event fe0))(''environment'' \<mapsto> Binary_String (s_EnvironmentId s)),
       ev_Message := state_message s, ev_Severity := sev,
       ev_Muted := MakeBool (bool_true (InDowntime s) \<or> bool_true (IsAcknowledged s) \<or> bool_true (IsFlapping s)),
       ev_MutedReason := mutedReason (bool_true (InDowntime s)) (bool_true (IsAcknowledged s)) (bool_true (IsFlapping s))\<rparr>)\<rparr>"
  have "ev_Close (fe_Event fe0) = null_bool \<and> ev_Notify (fe_Event fe0) = null_bool"
    using b by (rule buildCommonEvent_Ok) simp_all
  then show ?thesis
    using StateToSeverity_OK_iff [OF sev] unfolding fe
    by (auto simp: state_flags_def Let_def IsMuted_def state_muted_def)
qed

text \<open>The comparison of an incident with a state is the one with the event the state would lead to:
  severity and mutedness are the same.\<close>

theorem HaveSameState_event:
  assumes "buildStateEvent client env s h service = Ok fe" "state_of e = Some (s, service \<noteq> None)"
  shows "HaveSameState inc e =
    Ok (in_Severity inc = ev_Severity (fe_Event fe) \<and> in_IsMuted inc = IsMuted (fe_Event fe))"
  using assms(1)
  by (rule buildStateEvent_Ok) (simp add: HaveSameState_def assms(2) IsMuted_def)

text \<open>A delta of states leads to the submission of exactly the entities no incident agrees with, in
  the order Redis gives them, provided that there is an incident at all and none belongs to an object
  whose state has no severity.\<close>

theorem ApplyDelta_sends:
  assumes "submits submit" "incidentsByObjId cache = Some known" "known \<noteq> []" "kind \<noteq> OtherEntities"
    "list_all (comparable known) entities"
  shows "\<exists>res. client_ApplyDelta submit retrieved kind d entities None cache w sig = Some res \<and>
    ap_error res = Ok () \<and> ap_sent res = List.filter (\<lambda>e. \<not> agrees known e) entities"
  using apply_entities_sends [OF assms(1,5), of w sig "[]"] ApplyDelta_known [OF assms(2-4)] by fastforce

text \<open>A state without severity (PENDING, for one) whose object has an incident makes the whole delta
  fail, though nothing is wrong with Redis or the context.\<close>

theorem ApplyDelta_pending_fails:
  assumes "submits submit" "incidentsByObjId cache = Some known" "kind \<noteq> OtherEntities" "e \<in> set entities"
    "map_of known (entity_key e) = Some inc" "state_of e = Some (s, isService)" "HardState s = 99"
  shows "\<exists>res m. client_ApplyDelta submit retrieved kind d entities None cache w sig = Some res \<and> ap_error res = Err m"
proof -
  have "\<not> comparable known e"
    using assms(5-7) by (auto simp: comparable_def HaveSameState_def StateToSeverity_def)
  then obtain m sent' w' sig' where "apply_entities submit known entities w sig [] = Some (Err m, sent', w', sig')"
    using apply_entities_fails [OF assms(1,4)] by blast
  moreover have "known \<noteq> []" using assms(5) by auto
  ultimately show ?thesis using ApplyDelta_known [OF assms(2) _ assms(3)] by fastforce
qed

text \<open>C18. The incidents a delta closes are those whose object Redis does not have any more: deleted from
  the database by this delta, or unknown to it and of the kind the delta is about.\<close>

theorem ApplyDelta_closes:
  assumes "submits submit" "incidentsByObjId cache = Some known" "known \<noteq> []" "kind \<noteq> OtherEntities"
    "client_ApplyDelta submit retrieved kind (delta_spec subj A D) entities stream_error cache w sig = Some res"
  shows "(case ap_closed res of None \<Rightarrow> [] | Some tags \<Rightarrow> tags) =
    map (\<lambda>p. ObjectTags (snd p)) (List.filter (\<lambda>(i, inc). i \<notin> dom D \<and>
      (i \<in> dom A \<or> (kind = ServiceStates) = (ObjectTags inc ''service'' \<noteq> None))) known)"
proof -
  have obsolete: "is_obsolete kind (delta_spec subj A D) = (\<lambda>(i, inc). i \<notin> dom D \<and>
      (i \<in> dom A \<or> (kind = ServiceStates) = (ObjectTags inc ''service'' \<noteq> None)))"
    by (auto simp: is_obsolete_def delta_spec_def restrict_map_def Let_def fun_eq_iff)
  obtain r sent w' sig' where run: "apply_entities submit known entities w sig [] = Some (r, sent, w', sig')"
    using assms(2-5) by (cases "apply_entities submit known entities w sig []") (auto simp: client_ApplyDelta_def Let_def)
  have "ap_closed res = (let closed = close_filter kind (delta_spec subj A D) known
      in if closed = [] then None else Some closed)"
    using ApplyDelta_known [OF assms(2-4) run] assms(5) by (auto simp: Let_def)
  then show ?thesis by (auto simp: Let_def close_filter_def obsolete)
qed

text \<open>C19. The requests of a tick are, with their multiplicity, one for each incident whose object has a valid
  output updated no earlier than the tick before, and none for the others: its message is the output, a newline
  and the long output, if there is one; its filter requires each tag of the incident and, for a host, the
  absence of a service.\<close>

theorem SyncCheckOutputs_requests:
  assumes "k < length ticks" "distinct (map fst (tick_incidents (ticks ! k)))"
  shows "mset (SyncCheckOutputs lastSync ticks ! k) =
    mset (concat (map (due_requests (previous_tick lastSync ticks k) (ticks ! k)) (tick_incidents (ticks ! k))))"
  by (simp only: SyncCheckOutputs_nth [OF assms(1)] tick_requests_due [OF assms(2)])

text \<open>While the HA component listens, a submission that ends without a panic signals one failure for
  each failed attempt and then the success, if there was one; only a success is counted.\<close>

theorem retry_signals:
  assumes "retry_submit client srv n st sig = Some (r, st', sig')" "hb_ready sig = replicate m True" "n \<le> m" "\<not> is_panic r"
  shows "\<exists>k. k + (if is_ok r then 1 else 0) \<le> n \<and>
    hb_sent sig' = hb_sent sig @ replicate k False @ (if is_ok r then [True] else []) \<and>
    NotificationSync sig' = NotificationSync sig + (if is_ok r then 1 else 0)"
  using assms by (rule retry_submit_signals)

end
