(* ===== verification/Notify_Examples.thy ===== *)
theory Notify_Examples
  imports Notify_Props
begin

text \<open>
  The properties of \<open>Notify_Props\<close> at concrete inputs: a parser for the queries used here, a Redis that
  knows every host and service by its name, an empty database, and two servers.
\<close>

definition example_parse :: "string \<Rightarrow> string + string list list" where
  "example_parse q =
     (if q = ''$.host.name'' then Inr [[quoted ''host''], [quoted ''name'']]
      else if q = ''$.services[*].name'' then Inr [[quoted ''services''], [wildcard], [quoted ''name'']]
      else if q = ''$.hostgroups[*].name'' then Inr [[quoted ''hostgroups''], [wildcard], [quoted ''name'']]
      else if q = ''$.hostgroups[*].vars'' then Inr [[quoted ''hostgroups''], [wildcard], [quoted ''vars'']]
      else Inl ''unknown query'')"

definition example_client :: "unit notify_client" where
  "example_client = \<lparr>parse = example_parse, RawUrlEncode = (\<lambda>s. s), Validate = (\<lambda>ev. None), now_milli = 1,
     DefaultRelations = []\<rparr>"

definition example_object :: "string \<Rightarrow> unit icingaObject" where
  "example_object v = \<lparr>Name = v, DisplayName = v, Vars = None, IsVolatile = null_bool, isVolatile = False\<rparr>"

definition example_env :: "unit fetch_env" where
  "example_env = \<lparr>redis_hash = (\<lambda>key i. Some key), redis_fails = (\<lambda>key ids. None),
     json_object = (\<lambda>v. Inr (example_object v)), json_value = (\<lambda>v. Inl ''no value''), range_order = (\<lambda>ids. ids),
     sql_fails = (\<lambda>q. None), service_rows = [], group_rows = (\<lambda>t. []), member_rows = (\<lambda>t. []),
     customvar_rows = [], object_customvar_rows = (\<lambda>t. [])\<rparr>"

definition example_rel :: "unit relations" where
  "example_rel = \<lparr>hostId = Some [1], serviceId = None,
     completeRelations = [''object.type'', ''host.name'', ''host.display_name''], ObjectType = ''host'',
     Host = Some (example_object ''icinga:host''), Services = [], Hostgroups = [], Servicegroups = []\<rparr>"

lemmas provider_defs = rel_complete_def relationsProvider_def provide_selector_def wanted_def scan_selector_def
  provide_host_def provide_hostgroups_def single_flags_def fetch_single_def fetchObjectFromRedis_def
  fetchObjectsFromRedis_def streamRedisHashObjects_def hmget_pairs_def collect_object_def is_complete_def
  updateCompleteRelations_def newRelations_def append_new_def panicForInvalidType_def fetchGroupsFromSql_def
  fetchObjectFromSql_def groups_rows_def wildcard_def Let_def

lemma example_fetch: "fetchHostServiceData example_env (parse example_client) (Some [1]) None = Ok example_rel"
  by (simp add: fetchHostServiceData_def start_relations_def populateObject_def provider_defs example_client_def
      example_parse_def example_env_def example_rel_def example_object_def quoted_def bytes_of_def
      map_filter_simps null_bool_def bool_true_def)

definition example_groups_env :: "unit fetch_env" where
  "example_groups_env = example_env\<lparr>group_rows := (\<lambda>t. [([5], ''linux'', ''Linux''), ([6], ''bsd'', ''BSD'')]), member_rows := (\<lambda>t. [([5], [1])])\<rparr>"

lemma example_groups_fetch:
  "fetchHostServiceData example_groups_env (parse example_client) (Some [1]) None = Ok example_rel"
  by (simp add: fetchHostServiceData_def start_relations_def populateObject_def provider_defs example_client_def
      example_parse_def example_groups_env_def example_env_def example_rel_def example_object_def quoted_def bytes_of_def
      map_filter_simps null_bool_def bool_true_def)

text \<open>The host is a member of one of the two groups, and the server asks for the names of its groups.\<close>

theorem relations_type_safe_witness:
  "\<exists>rel'. until_error (complete_attribute example_client example_groups_env) [''$.hostgroups[*].name''] example_rel = (Ok (), rel') \<and>
     is_complete ''hostgroups[*].name'' rel' \<and> names_of (Hostgroups rel') = [(''linux'', ''Linux'')] \<and> grows example_rel rel'"
proof -
  obtain rel' where run:
    "until_error (complete_attribute example_client example_groups_env) [''$.hostgroups[*].name''] example_rel = (Ok (), rel')"
    "is_complete ''hostgroups[*].name'' rel'" "hostId rel' = Some [1]"
    by (simp add: complete_attribute_def provider_defs example_client_def example_parse_def example_groups_env_def
        example_env_def example_rel_def quoted_def)
  note safe = relations_type_safe [OF example_groups_fetch run(1)]
  then have "distinct (names_of (Hostgroups rel')) \<and>
      set (names_of (Hostgroups rel')) = groups_of example_groups_env ''hostgroup'' (set_option (hostId rel'))"
    using run(2) by (auto simp: rel_content_def groups_content_def)
  moreover have "groups_of example_groups_env ''hostgroup'' {[1]} = {(''linux'', ''Linux'')}"
    by (auto simp: groups_of_def example_groups_env_def)
  ultimately have "distinct (names_of (Hostgroups rel')) \<and> set (names_of (Hostgroups rel')) = {(''linux'', ''Linux'')}"
    using run(3) by simp
  then have "names_of (Hostgroups rel') = [(''linux'', ''Linux'')]"
    by (cases "names_of (Hostgroups rel')"; cases "tl (names_of (Hostgroups rel'))") auto
  then show ?thesis using run safe by blast
qed

lemma example_rel_wf: "rel_wf example_rel"
  using fetchHostServiceData_sound
    [where env = example_env and parse = "parse example_client" and h = "Some [1]" and s = None] example_fetch by simp

definition example_event :: "unit fetchableEvent" where
  "example_event = common_event example_client example_rel ''web'' ''/icingadb/host?name=web'' [''host'' \<mapsto> ''web'']"

definition example_submission :: "(unit, unit) submission_state" where
  "example_submission = \<lparr>ss_event = example_event, ss_attributes = [], ss_world = ()\<rparr>"

text \<open>A server that wants the services once, and one that insists on the variables of the host groups.\<close>

definition asking_server :: "(unit, unit) server" where
  "asking_server = \<lparr>process = (\<lambda>w ev. if ''services[*].name'' \<in> set (ev_CompleteRelations ev) then (w, [], NoError)
       else (w, [''$.services[*].name''], ErrAttrsNegotiation)),
     backoff_wait = (\<lambda>w. w), fetch_of = (\<lambda>w. example_env)\<rparr>"

definition stubborn_server :: "(unit, unit) server" where
  "stubborn_server = \<lparr>process = (\<lambda>w ev. (w, [''$.hostgroups[*].vars''], ErrAttrsNegotiation)),
     backoff_wait = (\<lambda>w. w), fetch_of = (\<lambda>w. example_env)\<rparr>"

lemma example_submission_wf: "rel_wf (ss_relations example_submission)"
  by (simp add: example_submission_def ss_relations_def example_event_def example_rel_wf)

lemma asking_server_useful: "useful_server example_client asking_server"
  by (auto simp: useful_server_def asking_server_def useful_def promised_def promised_by_def example_client_def
      example_parse_def wanted_def scan_selector_def quoted_def is_new_def wildcard_def
      split: if_splits)

theorem negotiation_terminates_witness:
  "\<exists>n\<le>11. \<exists>r st'. negotiation_round example_client asking_server
       (after_rounds example_client asking_server n example_submission) = (Some r, st') \<and>
     negotiate example_client asking_server example_submission = Some (r, st')"
  by (rule negotiation_terminates [OF asking_server_useful example_submission_wf])

theorem negotiation_forever_witness: "negotiate example_client stubborn_server example_submission = None"
  by (rule negotiation_forever [where attribute = "''$.hostgroups[*].vars''"])
     (simp_all add: insisting_server_def stubborn_server_def group_vars_query_def example_client_def example_parse_def
       example_env_def example_submission_wf, simp add: example_submission_def)

definition example_state :: "8 word \<Rightarrow> v1_state" where
  "example_state n = \<lparr>s_EnvironmentId = Some [], HardState = n, PreviousHardState = 0, StateType = ''hard'',
     InDowntime = MakeBool True, IsAcknowledged = null_bool, IsFlapping = null_bool, LastUpdate = 0,
     Output = MakeString ''out'', LongOutput = null_string\<rparr>"

lemma example_common:
  "buildCommonEvent example_client example_env (Some [1]) None =
     Ok (common_event example_client example_rel (DisplayName (example_object ''icinga:host''))
       (''/icingadb/host?name='' @ RawUrlEncode example_client (Name (example_object ''icinga:host'')))
       [''host'' \<mapsto> Name (example_object ''icinga:host'')])"
  unfolding buildCommonEvent_def example_fetch by (simp add: example_rel_def)

lemma example_build:
  "\<exists>fe. buildStateEvent example_client example_env (example_state 1) (Some [1]) None = Ok fe"
  unfolding buildStateEvent_def example_common
  by (simp add: checkable_volatile_def example_rel_def example_state_def StateToSeverity_def Let_def)

theorem buildStateEvent_flags_witness:
  "\<exists>fe. buildStateEvent example_client example_env (example_state 1) (Some [1]) None = Ok fe \<and>
     IsMuted (fe_Event fe) = state_muted (example_state 1) \<and>
     bool_true (ev_Close (fe_Event fe)) = (HardState (example_state 1) = 0 \<and> \<not> state_muted (example_state 1))"
proof -
  obtain fe where fe: "buildStateEvent example_client example_env (example_state 1) (Some [1]) None = Ok fe"
    using example_build by blast
  show ?thesis using buildStateEvent_flags [OF fe] fe by blast
qed

theorem HaveSameState_event_witness:
  "\<exists>fe :: unit fetchableEvent. HaveSameState \<lparr>ObjectTags = Map.empty, in_Severity = SeverityOK, in_IsMuted = True\<rparr>
       (NHostState (Some [1]) (Some [1]) (example_state 1)) =
     Ok (SeverityOK = ev_Severity (fe_Event fe) \<and> True = IsMuted (fe_Event fe))"
proof -
  obtain fe where fe: "buildStateEvent example_client example_env (example_state 1) (Some [1]) None = Ok fe"
    using example_build by blast
  have "HaveSameState \<lparr>ObjectTags = Map.empty, in_Severity = SeverityOK, in_IsMuted = True\<rparr>
       (NHostState (Some [1]) (Some [1]) (example_state 1)) =
     Ok (SeverityOK = ev_Severity (fe_Event fe) \<and> True = IsMuted (fe_Event fe))"
    by (subst HaveSameState_event [OF fe]) simp_all
  then show ?thesis by (rule exI)
qed

theorem Submit_state_no_panic_witness:
  "Submit example_client stubborn_server (\<lambda>x. []) 2 (NHostState (Some [1]) (Some [1]) (example_state 99)) ()
       \<lparr>hb_sent = [], hb_ready = [], NotificationSync = 0\<rparr> =
     Some (Ok (), (), \<lparr>hb_sent = [], hb_ready = [], NotificationSync = 0\<rparr>) \<and> \<not> is_panic (Ok () :: (string, unit) outcome)"
  (is "?run \<and> _")
proof
  show run: ?run by (simp add: Submit_def canIgnoreStateUpdate_def example_state_def)
  show "\<not> is_panic (Ok () :: (string, unit) outcome)"
    by (rule Submit_state_no_panic [OF _ run]) simp
qed

text \<open>A submitter that always succeeds, and a cache with the incident of a host.\<close>

definition example_submit :: "unit submitter" where
  "example_submit e w sig = Some (Ok (), w, sig)"

definition example_incident :: incident where
  "example_incident = \<lparr>ObjectTags = [''host'' \<mapsto> ''web''], in_Severity = SeverityCrit, in_IsMuted = True\<rparr>"

definition example_cache :: incident_cache where
  "example_cache = \<lparr>incidentsByObjId = Some [([1], example_incident)]\<rparr>"

definition no_signals :: signals where
  "no_signals = \<lparr>hb_sent = [], hb_ready = [True, True], NotificationSync = 0\<rparr>"

lemma example_submits: "submits example_submit"
  by (simp add: submits_def example_submit_def)

definition example_states :: "notify_entity list" where
  "example_states = [NHostState (Some [1]) (Some [1]) (example_state 1), NHostState (Some [2]) (Some [2]) (example_state 0)]"

lemma example_states_comparable:
  "list_all (comparable [([1], example_incident)]) example_states"
  "List.filter (\<lambda>e. \<not> agrees [([1], example_incident)] e) example_states =
     [NHostState (Some [2]) (Some [2]) (example_state 0)]"
  by (auto simp: example_states_def comparable_def agrees_def HaveSameState_def StateToSeverity_def example_state_def
      example_incident_def bytes_of_def)

theorem ApplyDelta_sends_witness:
  "\<exists>res. client_ApplyDelta example_submit (\<lambda>sig. ([], sig)) HostStates
       (delta_spec (NewSyncSubject (EWithoutChecksum None [])) Map.empty Map.empty)
       example_states None example_cache () no_signals = Some res \<and> ap_error res = Ok () \<and>
     ap_sent res = [NHostState (Some [2]) (Some [2]) (example_state 0)]"
  unfolding example_states_comparable(2) [symmetric]
  by (rule ApplyDelta_sends [OF example_submits, where known = "[([1], example_incident)]"])
     (simp_all add: example_cache_def example_states_comparable)

theorem ApplyDelta_pending_fails_witness:
  "\<exists>res m. client_ApplyDelta example_submit (\<lambda>sig. ([], sig)) HostStates
       (delta_spec (NewSyncSubject (EWithoutChecksum None [])) Map.empty Map.empty)
       [NHostState (Some [1]) (Some [1]) (example_state 99)] None example_cache () no_signals = Some res \<and>
     ap_error res = Err m"
  by (rule ApplyDelta_pending_fails [OF example_submits, where known = "[([1], example_incident)]"
      and e = "NHostState (Some [1]) (Some [1]) (example_state 99)" and inc = example_incident and isService = False
      and s = "example_state 99"])
     (simp_all add: example_cache_def example_state_def bytes_of_def)

theorem ApplyDelta_closes_witness:
  "\<exists>res. client_ApplyDelta example_submit (\<lambda>sig. ([], sig)) HostStates
       (delta_spec (NewSyncSubject (EWithoutChecksum None [])) Map.empty Map.empty) [] None
       example_cache () no_signals = Some res \<and>
     (case ap_closed res of None \<Rightarrow> [] | Some tags \<Rightarrow> tags) = [ObjectTags example_incident]"
proof -
  let ?d = "delta_spec (NewSyncSubject (EWithoutChecksum None [])) Map.empty Map.empty"
  obtain res where res: "client_ApplyDelta example_submit (\<lambda>sig. ([], sig)) HostStates ?d [] None example_cache () no_signals = Some res"
    by (simp add: client_ApplyDelta_def example_cache_def Let_def)
  show ?thesis
    using ApplyDelta_closes [OF example_submits _ _ _ res, of "[([1], example_incident)]"] res
    by (simp add: example_cache_def example_incident_def)
qed

definition example_tick :: outputs_tick where
  "example_tick = \<lparr>tick_at = 300, tick_incidents = [([1], example_incident), ([2], example_incident)],
     tick_host_states = [[1] \<mapsto> (example_state 1)\<lparr>LastUpdate := 10\<rparr>, [2] \<mapsto> (example_state 1)\<lparr>LastUpdate := 4\<rparr>], tick_service_states = Map.empty\<rparr>"

text \<open>Of the first incident the output is sent, once; the object of the second has not changed since.\<close>

theorem SyncCheckOutputs_requests_witness:
  "mset (SyncCheckOutputs 5 [example_tick] ! 0) = {#(''out'', [''host'' \<mapsto> Some ''web'', ''service'' \<mapsto> None])#}"
proof -
  have "(\<lambda>tag. if tag = ''service'' \<and> ObjectTags example_incident tag = None then Some None
      else map_option Some (ObjectTags example_incident tag)) = [''host'' \<mapsto> Some ''web'', ''service'' \<mapsto> None]"
    by (auto simp: example_incident_def)
  moreover have "ObjectTags example_incident ''service'' = None" by (simp add: example_incident_def)
  ultimately show ?thesis
    using SyncCheckOutputs_requests [of 0 "[example_tick]" 5]
    by (simp add: example_tick_def object_state_def fresh_output_def previous_tick_def due_requests_def
        example_state_def MakeString_def null_string_def cong: if_cong)
qed

theorem retry_signals_witness:
  "\<exists>k. k + 0 \<le> 0 \<and> hb_sent no_signals = hb_sent no_signals @ replicate k False @ [] \<and>
     NotificationSync no_signals = NotificationSync no_signals + 0"
  using retry_signals [of example_client stubborn_server 0 example_submission no_signals
      "Err ''context ended''" example_submission no_signals 2]
  by (simp add: no_signals_def numeral_2_eq_2)

end
