(* ===== verification/Main_Loop.thy ===== *)
theory Main_Loop
  imports Idb_Prelude
begin

text \<open>
  The main loop of the daemon (\<open>run\<close> in \<open>cmd/icingadb/main.go\<close>): one synchronisation session with its
  goroutines, wait groups and error group, the loop of sessions that a takeover starts, and the
  \<open>select\<close> over the signals of the HA component and of the operating system.

  What a goroutine synchronises is the subject of the other theories; here it runs, returns, with or
  without an error, and may be cancelled. The goroutines of a session are started by one step: the
  waiting ones are started last, so that what an earlier one does before the others are started could
  as well happen after.
\<close>

section \<open>A session\<close>

datatype gor_result = NoErr | CtxCanceled | Failed string

text \<open>
  A goroutine of the error group is blocked in front of its work, at work, has returned from its
  function (its deferred calls included), or the error group has taken note of its result.
\<close>

datatype gor_phase = Blocked | Working | Returned gor_result | Ended gor_result

datatype gor =
    Listen
  | WatchDump
  | OverdueSync
  | ConfigWorker nat
  | StateWorker nat
  | CustomvarSync
  | ConfigReport
  | StateReport
  | ConfigRuntime
  | StateRuntime
  | RetentionRun
  | OutputsSync

record session_setup =
  configFactories :: nat
  stateFactories :: nat
  notificationsSource :: bool

definition goroutines :: "session_setup \<Rightarrow> gor list" where
  "goroutines cfg = [Listen, WatchDump, OverdueSync] @ map ConfigWorker [0..<configFactories cfg] @
     map StateWorker [0..<stateFactories cfg] @
     [CustomvarSync, ConfigReport, StateReport, ConfigRuntime, StateRuntime, RetentionRun] @
     (if notificationsSource cfg then [OutputsSync] else [])"

text \<open>
  The state of a session: the phases, whether \<open>synctx\<close> is alive and the error of the group, the counters
  of the two wait groups and of the state workers, whether the incidents were cleared, and what is
  stored for the telemetry.
\<close>

record session =
  phase :: "gor \<Rightarrow> gor_phase"
  synctx_alive :: bool
  group_error :: "gor_result option"
  configInitSync :: nat
  stateInitSync :: nat
  stateSyncWorkers :: int
  cleared_incidents :: bool
  sync_recorded :: bool
  ongoing_sync :: bool

fun starts_at_work :: "gor \<Rightarrow> bool" where
  "starts_at_work Listen = True"
| "starts_at_work OverdueSync = True"
| "starts_at_work (ConfigWorker i) = True"
| "starts_at_work (StateWorker i) = True"
| "starts_at_work WatchDump = False"
| "starts_at_work CustomvarSync = False"
| "starts_at_work ConfigReport = False"
| "starts_at_work StateReport = False"
| "starts_at_work ConfigRuntime = False"
| "starts_at_work StateRuntime = False"
| "starts_at_work RetentionRun = False"
| "starts_at_work OutputsSync = False"

definition start_session :: "session_setup \<Rightarrow> session" where
  "start_session cfg = \<lparr>phase = (\<lambda>g. if starts_at_work g then Working else Blocked), synctx_alive = True,
     group_error = None, configInitSync = configFactories cfg + 1, stateInitSync = stateFactories cfg,
     stateSyncWorkers = int (stateFactories cfg), cleared_incidents = False, sync_recorded = False,
     ongoing_sync = True\<rparr>"

text \<open>The deferred calls of a worker, in the order they run.\<close>

fun deferred :: "session_setup \<Rightarrow> gor \<Rightarrow> session \<Rightarrow> session" where
  "deferred cfg (ConfigWorker i) s = s\<lparr>configInitSync := configInitSync s - 1\<rparr>"
| "deferred cfg CustomvarSync s = s\<lparr>configInitSync := configInitSync s - 1\<rparr>"
| "deferred cfg (StateWorker i) s =
     (let s' = (if notificationsSource cfg
                then s\<lparr>stateSyncWorkers := stateSyncWorkers s - 1,
                       cleared_incidents := cleared_incidents s \<or> stateSyncWorkers s - 1 = 0\<rparr>
                else s)
      in s'\<lparr>stateInitSync := stateInitSync s' - 1\<rparr>)"
| "deferred cfg Listen s = s"
| "deferred cfg WatchDump s = s"
| "deferred cfg OverdueSync s = s"
| "deferred cfg ConfigReport s = s"
| "deferred cfg StateReport s = s"
| "deferred cfg ConfigRuntime s = s"
| "deferred cfg StateRuntime s = s"
| "deferred cfg RetentionRun s = s"
| "deferred cfg OutputsSync s = s"

definition set_phase :: "gor \<Rightarrow> gor_phase \<Rightarrow> session \<Rightarrow> session" where
  "set_phase g p s = s\<lparr>phase := (phase s)(g := p)\<rparr>"

definition return_from :: "session_setup \<Rightarrow> gor \<Rightarrow> gor_result \<Rightarrow> session \<Rightarrow> session" where
  "return_from cfg g r s = set_phase g (Returned r) (deferred cfg g s)"

text \<open>What a blocked goroutine waits for.\<close>

fun may_proceed :: "gor \<Rightarrow> session \<Rightarrow> bool" where
  "may_proceed WatchDump s = True"
| "may_proceed CustomvarSync s = True"
| "may_proceed ConfigReport s = (configInitSync s = 0)"
| "may_proceed ConfigRuntime s = (configInitSync s = 0)"
| "may_proceed StateReport s = (stateInitSync s = 0)"
| "may_proceed StateRuntime s = (stateInitSync s = 0)"
| "may_proceed OutputsSync s = (stateInitSync s = 0)"
| "may_proceed RetentionRun s = (configInitSync s = 0 \<and> stateInitSync s = 0)"
| "may_proceed Listen s = False"
| "may_proceed OverdueSync s = False"
| "may_proceed (ConfigWorker i) s = False"
| "may_proceed (StateWorker i) s = False"

text \<open>
  What it does then. The two \<open>select\<close>s prefer neither of their cases: with a dead context the dump
  signals may be seen all the same, hence the flag \<open>by_signal\<close>.
\<close>

fun proceed :: "session_setup \<Rightarrow> gor \<Rightarrow> bool \<Rightarrow> session \<Rightarrow> session option" where
  "proceed cfg WatchDump by_signal s =
     (if by_signal then Some (return_from cfg WatchDump NoErr (s\<lparr>synctx_alive := False\<rparr>))
      else if synctx_alive s then None else Some (return_from cfg WatchDump CtxCanceled s))"
| "proceed cfg CustomvarSync by_signal s =
     (if by_signal then Some (set_phase CustomvarSync Working s)
      else if synctx_alive s then None else Some (return_from cfg CustomvarSync CtxCanceled s))"
| "proceed cfg ConfigReport by_signal s =
     Some (return_from cfg ConfigReport NoErr
       (s\<lparr>ongoing_sync := False, sync_recorded := sync_recorded s \<or> synctx_alive s\<rparr>))"
| "proceed cfg StateReport by_signal s = Some (return_from cfg StateReport NoErr s)"
| "proceed cfg g by_signal s =
     Some (if synctx_alive s then set_phase g Working s else return_from cfg g CtxCanceled s)"

text \<open>The error group: the first error is kept and cancels the context.\<close>

definition take_note :: "gor \<Rightarrow> gor_result \<Rightarrow> session \<Rightarrow> session" where
  "take_note g r s =
     (let s' = set_phase g (Ended r) s
      in if r \<noteq> NoErr \<and> group_error s = None then s'\<lparr>group_error := Some r, synctx_alive := False\<rparr> else s')"

datatype session_act = Proceed gor bool | Finish gor gor_result | TakeNote gor | CancelHactx

fun session_step :: "session_setup \<Rightarrow> session_act \<Rightarrow> session \<Rightarrow> session option" where
  "session_step cfg (Proceed g by_signal) s =
     (if g \<in> set (goroutines cfg) \<and> phase s g = Blocked \<and> may_proceed g s then proceed cfg g by_signal s else None)"
| "session_step cfg (Finish g r) s =
     (if g \<in> set (goroutines cfg) \<and> phase s g = Working \<and> (r = CtxCanceled \<longrightarrow> \<not> synctx_alive s)
      then Some (return_from cfg g r s) else None)"
| "session_step cfg (TakeNote g) s =
     (case phase s g of
        Returned r \<Rightarrow> if g \<in> set (goroutines cfg) then Some (take_note g r s) else None
      | _ \<Rightarrow> None)"
| "session_step cfg CancelHactx s = Some (s\<lparr>synctx_alive := False\<rparr>)"

fun session_run :: "session_setup \<Rightarrow> session_act list \<Rightarrow> session \<Rightarrow> session option" where
  "session_run cfg [] s = Some s"
| "session_run cfg (a # as) s =
     (case session_step cfg a s of None \<Rightarrow> None | Some s' \<Rightarrow> session_run cfg as s')"

fun has_ended :: "gor_phase \<Rightarrow> bool" where
  "has_ended (Ended r) = True"
| "has_ended (Returned r) = False"
| "has_ended Working = False"
| "has_ended Blocked = False"

fun has_returned :: "gor_phase \<Rightarrow> bool" where
  "has_returned (Ended r) = True"
| "has_returned (Returned r) = True"
| "has_returned Working = False"
| "has_returned Blocked = False"

text \<open>\<open>g.Wait\<close> returns when every goroutine has ended; another error than a cancelled context is fatal.\<close>

definition session_over :: "session_setup \<Rightarrow> session \<Rightarrow> bool" where
  "session_over cfg s \<longleftrightarrow> list_all (\<lambda>g. has_ended (phase s g)) (goroutines cfg)"

definition session_fatal :: "session \<Rightarrow> string option" where
  "session_fatal s = (case group_error s of Some (Failed e) \<Rightarrow> Some e | _ \<Rightarrow> None)"

section \<open>The loops around it\<close>

text \<open>
  The goroutine that a takeover starts: at the check of its \<open>hactx\<close>, clearing the streams, in a session,
  or gone. \<open>hactx\<close> is alive while its number is the current one.
\<close>

datatype sync_loop = AtCheck | Clearing | InSession session | Gone

datatype process_state = Running | ExitSuccess | Fatal string

record main_state =
  proc :: process_state
  hactx :: nat
  loops :: "(nat \<times> sync_loop) list"

definition start_main :: main_state where
  "start_main = \<lparr>proc = Running, hactx = 0, loops = []\<rparr>"

definition hactx_alive :: "main_state \<Rightarrow> nat \<Rightarrow> bool" where
  "hactx_alive m n \<longleftrightarrow> n = hactx m"

text \<open>
  The steps: the cases of the \<open>select\<close>, and those of the goroutine at an index. \<open>ha.Done\<close> comes with
  the error of the HA component, if it has one; the main context is never cancelled before \<open>run\<close> ends.
\<close>

datatype main_act =
    RecvTakeover
  | RecvHandover
  | HaDone "string option"
  | OsSignal
  | LoopCheck nat
  | ClearStreams nat "gor_result"
  | SessionAct nat session_act
  | GroupWait nat

definition set_loop :: "nat \<Rightarrow> sync_loop \<Rightarrow> main_state \<Rightarrow> main_state" where
  "set_loop i l m = m\<lparr>loops := (loops m)[i := (fst (loops m ! i), l)]\<rparr>"

definition loop_at :: "main_state \<Rightarrow> nat \<Rightarrow> (nat \<times> sync_loop) option" where
  "loop_at m i = (if i < length (loops m) then Some (loops m ! i) else None)"

fun main_step :: "session_setup \<Rightarrow> main_act \<Rightarrow> main_state \<Rightarrow> main_state option" where
  "main_step cfg RecvTakeover m = Some (m\<lparr>loops := loops m @ [(hactx m, AtCheck)]\<rparr>)"
| "main_step cfg RecvHandover m = Some (m\<lparr>hactx := hactx m + 1\<rparr>)"
| "main_step cfg (HaDone err) m =
     Some (m\<lparr>proc := Fatal (case err of
        Some e \<Rightarrow> ''HA exited with an error'' @ e
      | None \<Rightarrow> ''HA exited without an error but main context is not cancelled'')\<rparr>)"
| "main_step cfg OsSignal m = Some (m\<lparr>proc := ExitSuccess, hactx := hactx m + 1\<rparr>)"
| "main_step cfg (LoopCheck i) m =
     (case loop_at m i of
        Some (n, AtCheck) \<Rightarrow> Some (set_loop i (if hactx_alive m n then Clearing else Gone) m)
      | _ \<Rightarrow> None)"
| "main_step cfg (ClearStreams i r) m =
     (case loop_at m i of
        Some (n, Clearing) \<Rightarrow>
          (case r of
             NoErr \<Rightarrow> Some (set_loop i (InSession (start_session cfg)) m)
           | CtxCanceled \<Rightarrow> if hactx_alive m n then None else Some (m\<lparr>proc := Fatal ''context canceled''\<rparr>)
           | Failed e \<Rightarrow> Some (m\<lparr>proc := Fatal e\<rparr>))
      | _ \<Rightarrow> None)"
| "main_step cfg (SessionAct i a) m =
     (case loop_at m i of
        Some (n, InSession s) \<Rightarrow>
          if a = CancelHactx \<and> hactx_alive m n then None
          else map_option (\<lambda>s'. set_loop i (InSession s') m) (session_step cfg a s)
      | _ \<Rightarrow> None)"
| "main_step cfg (GroupWait i) m =
     (case loop_at m i of
        Some (n, InSession s) \<Rightarrow>
          if session_over cfg s then
            Some (case session_fatal s of Some e \<Rightarrow> m\<lparr>proc := Fatal e\<rparr> | None \<Rightarrow> set_loop i AtCheck m)
          else None
      | _ \<Rightarrow> None)"

text \<open>A run of the process: nothing happens once it has ended.\<close>

fun main_run :: "session_setup \<Rightarrow> main_act list \<Rightarrow> main_state \<Rightarrow> main_state option" where
  "main_run cfg [] m = Some m"
| "main_run cfg (a # as) m =
     (if proc m \<noteq> Running then None
      else (case main_step cfg a m of None \<Rightarrow> None | Some m' \<Rightarrow> main_run cfg as m'))"

end
