(* ===== verification/Main_Props.thy ===== *)
theory Main_Props
  imports Main_Loop
begin

text \<open>
  Properties of the main loop: what has happened before the runtime updates start, how a session ends,
  and how many sessions there are.
\<close>

section \<open>Counting the goroutines that have not returned\<close>

fun is_config :: "gor \<Rightarrow> bool" where
  "is_config (ConfigWorker i) = True"
| "is_config CustomvarSync = True"
| "is_config _ = False"

fun is_state :: "gor \<Rightarrow> bool" where
  "is_state (StateWorker i) = True"
| "is_state _ = False"

definition unreturned :: "session_setup \<Rightarrow> (gor \<Rightarrow> bool) \<Rightarrow> session \<Rightarrow> gor set" where
  "unreturned cfg P s = {g \<in> set (goroutines cfg). P g \<and> \<not> has_returned (phase s g)}"

lemma finite_unreturned [simp]: "finite (unreturned cfg P s)"
  by (simp add: unreturned_def)

lemma phase_set_phase [simp]: "phase (set_phase g p s) = (phase s)(g := p)"
  by (simp add: set_phase_def)

lemma deferred_phase [simp]: "phase (deferred cfg g s) = phase s"
  by (cases g) (simp_all add: Let_def)

lemma deferred_fields [simp]:
  "synctx_alive (deferred cfg g s) = synctx_alive s" "group_error (deferred cfg g s) = group_error s"
  "sync_recorded (deferred cfg g s) = sync_recorded s"
  "configInitSync (deferred cfg g s) = configInitSync s - (if is_config g then 1 else 0)"
  "stateInitSync (deferred cfg g s) = stateInitSync s - (if is_state g then 1 else 0)"
  "stateSyncWorkers (deferred cfg g s) = stateSyncWorkers s - (if is_state g \<and> notificationsSource cfg then 1 else 0)"
  "cleared_incidents (deferred cfg g s) \<longleftrightarrow> cleared_incidents s \<or>
     is_state g \<and> notificationsSource cfg \<and> stateSyncWorkers s - 1 = 0"
  by (cases g; simp add: Let_def)+

lemma set_phase_fields [simp]:
  "synctx_alive (set_phase g p s) = synctx_alive s" "group_error (set_phase g p s) = group_error s"
  "configInitSync (set_phase g p s) = configInitSync s" "stateInitSync (set_phase g p s) = stateInitSync s"
  "stateSyncWorkers (set_phase g p s) = stateSyncWorkers s" "cleared_incidents (set_phase g p s) = cleared_incidents s"
  "sync_recorded (set_phase g p s) = sync_recorded s"
  by (simp_all add: set_phase_def)

lemma unreturned_set_phase:
  "has_returned p = has_returned (phase s g) \<Longrightarrow> unreturned cfg P (set_phase g p s) = unreturned cfg P s"
  by (auto simp: unreturned_def)

lemma unreturned_cong: "phase s' = phase s \<Longrightarrow> unreturned cfg P s' = unreturned cfg P s"
  by (simp add: unreturned_def)

lemma unreturned_return:
  "g \<in> set (goroutines cfg) \<Longrightarrow> unreturned cfg P (return_from cfg g r s) = unreturned cfg P s - {g}"
  by (auto simp: unreturned_def return_from_def)

lemma card_return:
  assumes "g \<in> set (goroutines cfg)" "\<not> has_returned (phase s g)"
  shows "card (unreturned cfg P (return_from cfg g r s)) = card (unreturned cfg P s) - (if P g then 1 else 0)"
    and "P g \<Longrightarrow> 0 < card (unreturned cfg P s)"
proof -
  have g: "g \<in> unreturned cfg P s \<longleftrightarrow> P g" using assms by (simp add: unreturned_def)
  show "card (unreturned cfg P (return_from cfg g r s)) = card (unreturned cfg P s) - (if P g then 1 else 0)"
    by (simp add: unreturned_return [OF assms(1)] card_Diff_singleton_if g)
  show "0 < card (unreturned cfg P s)" if "P g"
    using g that by (auto simp: card_gt_0_iff)
qed

section \<open>The invariant of a session\<close>

definition waits :: "gor \<Rightarrow> bool" where
  "waits g \<longleftrightarrow> g \<in> {ConfigReport, StateReport, ConfigRuntime, StateRuntime, RetentionRun, OutputsSync}"

definition session_inv :: "session_setup \<Rightarrow> session \<Rightarrow> bool" where
  "session_inv cfg s \<longleftrightarrow>
     configInitSync s = card (unreturned cfg is_config s) \<and>
     stateInitSync s = card (unreturned cfg is_state s) \<and>
     (notificationsSource cfg \<longrightarrow> stateSyncWorkers s = int (stateInitSync s)) \<and>
     (cleared_incidents s \<longleftrightarrow> notificationsSource cfg \<and> 0 < stateFactories cfg \<and> stateInitSync s = 0) \<and>
     (\<forall>g. waits g \<and> phase s g \<noteq> Blocked \<longrightarrow> may_proceed g s) \<and>
     (\<forall>g. starts_at_work g \<longrightarrow> phase s g \<noteq> Blocked)"

lemma start_unreturned:
  "unreturned cfg is_config (start_session cfg) = insert CustomvarSync (ConfigWorker ` {..<configFactories cfg})"
  "unreturned cfg is_state (start_session cfg) = StateWorker ` {..<stateFactories cfg}"
  by (auto simp: unreturned_def start_session_def goroutines_def)

lemma start_session_inv: "session_inv cfg (start_session cfg)"
proof -
  have "card (unreturned cfg is_config (start_session cfg)) = configFactories cfg + 1"
    "card (unreturned cfg is_state (start_session cfg)) = stateFactories cfg"
    by (simp_all add: start_unreturned card_insert_if card_image inj_on_def image_iff)
  then show ?thesis by (auto simp: session_inv_def start_session_def waits_def)
qed

lemma may_proceed_mono:
  assumes "may_proceed h s" "waits h"
    "configInitSync s = 0 \<Longrightarrow> configInitSync s' = 0" "stateInitSync s = 0 \<Longrightarrow> stateInitSync s' = 0"
  shows "may_proceed h s'"
  using assms by (auto simp: waits_def)

lemma return_from_fields [simp]:
  "phase (return_from cfg g r s) = (phase s)(g := Returned r)"
  "synctx_alive (return_from cfg g r s) = synctx_alive s" "group_error (return_from cfg g r s) = group_error s"
  "sync_recorded (return_from cfg g r s) = sync_recorded s"
  "configInitSync (return_from cfg g r s) = configInitSync s - (if is_config g then 1 else 0)"
  "stateInitSync (return_from cfg g r s) = stateInitSync s - (if is_state g then 1 else 0)"
  "stateSyncWorkers (return_from cfg g r s) =
     stateSyncWorkers s - (if is_state g \<and> notificationsSource cfg then 1 else 0)"
  "cleared_incidents (return_from cfg g r s) \<longleftrightarrow> cleared_incidents s \<or>
     is_state g \<and> notificationsSource cfg \<and> stateSyncWorkers s - 1 = 0"
  by (simp_all add: return_from_def)

lemma is_state_waits: "is_state g \<Longrightarrow> \<not> waits g" "is_config g \<Longrightarrow> \<not> waits g"
  by (cases g; simp add: waits_def)+

lemma return_inv:
  assumes inv: "session_inv cfg s" and g: "g \<in> set (goroutines cfg)" "\<not> has_returned (phase s g)"
    and may: "waits g \<Longrightarrow> may_proceed g s"
  shows "session_inv cfg (return_from cfg g r s)"
proof -
  let ?s' = "return_from cfg g r s"
  have pos: "is_state g \<Longrightarrow> 0 < stateInitSync s"
    using card_return(2) [OF g, of is_state] inv by (simp add: session_inv_def)
  have state_pos: "is_state g \<Longrightarrow> 0 < stateFactories cfg"
    using g(1) by (cases g) (auto simp: goroutines_def split: if_splits)
  have "waits h \<Longrightarrow> phase ?s' h \<noteq> Blocked \<Longrightarrow> may_proceed h ?s'" for h
    using inv may by (cases "h = g") (auto simp: session_inv_def intro: may_proceed_mono)
  moreover have "cleared_incidents ?s' \<longleftrightarrow> notificationsSource cfg \<and> 0 < stateFactories cfg \<and> stateInitSync ?s' = 0"
    using inv pos state_pos by (auto simp: session_inv_def)
  moreover have "notificationsSource cfg \<longrightarrow> stateSyncWorkers ?s' = int (stateInitSync ?s')"
    using inv pos by (auto simp: session_inv_def of_nat_diff)
  ultimately show ?thesis
    using inv card_return(1) [OF g] by (simp add: session_inv_def)
qed

lemma set_phase_inv:
  assumes inv: "session_inv cfg s" and p: "has_returned p = has_returned (phase s g)" "p \<noteq> Blocked"
    and may: "waits g \<Longrightarrow> may_proceed g s"
  shows "session_inv cfg (set_phase g p s)"
proof -
  have "waits h \<Longrightarrow> phase (set_phase g p s) h \<noteq> Blocked \<Longrightarrow> may_proceed h (set_phase g p s)" for h
    using inv may by (cases "h = g") (auto simp: session_inv_def intro: may_proceed_mono)
  then show ?thesis using inv p(2) by (simp add: session_inv_def unreturned_set_phase [OF p(1)])
qed

lemma session_inv_flags:
  assumes "session_inv cfg s" "phase s' = phase s" "configInitSync s' = configInitSync s"
    "stateInitSync s' = stateInitSync s" "stateSyncWorkers s' = stateSyncWorkers s"
    "cleared_incidents s' = cleared_incidents s"
  shows "session_inv cfg s'"
  using assms unreturned_cong [OF assms(2)]
  by (auto simp: session_inv_def intro: may_proceed_mono [of _ s])

lemma take_note_inv:
  assumes "session_inv cfg s" "phase s g = Returned r"
  shows "session_inv cfg (take_note g r s)"
proof -
  have "session_inv cfg (set_phase g (Ended r) s)"
    using assms by (intro set_phase_inv) (auto simp: session_inv_def)
  then show ?thesis by (auto simp: take_note_def Let_def intro: session_inv_flags)
qed

lemma proceed_inv:
  assumes "session_inv cfg s" "g \<in> set (goroutines cfg)" "phase s g = Blocked" "may_proceed g s"
    "proceed cfg g by_signal s = Some s'"
  shows "session_inv cfg s'"
proof -
  have ret: "session_inv cfg t \<Longrightarrow> phase t = phase s \<Longrightarrow> may_proceed g t \<Longrightarrow> session_inv cfg (return_from cfg g r t)" for r t
    using assms(2,3) by (intro return_inv) auto
  have wrk: "session_inv cfg (set_phase g Working s)"
    using assms by (intro set_phase_inv) auto
  have flags: "session_inv cfg (s\<lparr>synctx_alive := b\<rparr>)"
    "session_inv cfg (s\<lparr>ongoing_sync := False, sync_recorded := b\<rparr>)" for b
    using assms(1) by (auto intro: session_inv_flags)
  show ?thesis
    using assms ret [OF assms(1)] ret [OF flags(1)] ret [OF flags(2)] wrk
    by (cases g) (auto split: if_splits)
qed

lemma session_step_inv:
  assumes "session_inv cfg s" "session_step cfg a s = Some s'"
  shows "session_inv cfg s'"
proof (cases a)
  case (Proceed g by_signal)
  then have "g \<in> set (goroutines cfg)" "phase s g = Blocked" "may_proceed g s" "proceed cfg g by_signal s = Some s'"
    using assms(2) by (simp_all split: if_split_asm)
  then show ?thesis by (rule proceed_inv [OF assms(1)])
next
  case (Finish g r)
  then have g: "g \<in> set (goroutines cfg)" "phase s g = Working" "s' = return_from cfg g r s"
    using assms(2) by (simp_all split: if_split_asm)
  have "waits g \<Longrightarrow> may_proceed g s" using assms(1) g(2) by (simp add: session_inv_def)
  then show ?thesis unfolding g(3) using g by (intro return_inv [OF assms(1)]) simp_all
next
  case (TakeNote g)
  then obtain r where "phase s g = Returned r" "s' = take_note g r s"
    using assms(2) by (cases "phase s g") (simp_all split: if_split_asm)
  then show ?thesis using take_note_inv [OF assms(1)] by simp
next
  case CancelHactx
  then have "s' = s\<lparr>synctx_alive := False\<rparr>" using assms(2) by simp
  then show ?thesis by (intro session_inv_flags [OF assms(1)]) simp_all
qed

lemma session_run_inv: "session_inv cfg s \<Longrightarrow> session_run cfg as s = Some s' \<Longrightarrow> session_inv cfg s'"
  by (induction as arbitrary: s) (auto split: option.splits intro: session_step_inv)

lemma reachable_inv: "session_run cfg as (start_session cfg) = Some s \<Longrightarrow> session_inv cfg s"
  by (rule session_run_inv [OF start_session_inv])

lemma counter_zero:
  assumes "session_inv cfg s"
  shows "configInitSync s = 0 \<longleftrightarrow> (\<forall>w\<in>set (goroutines cfg). is_config w \<longrightarrow> has_returned (phase s w))"
    and "stateInitSync s = 0 \<longleftrightarrow> (\<forall>w\<in>set (goroutines cfg). is_state w \<longrightarrow> has_returned (phase s w))"
  using assms by (auto simp: session_inv_def card_eq_0_iff) (auto simp: unreturned_def)

section \<open>How a session ends\<close>

fun cancels :: "session_act \<Rightarrow> bool" where
  "cancels CancelHactx = True"
| "cancels (Proceed g by_signal) = (g = WatchDump \<and> by_signal)"
| "cancels (Finish g r) = False"
| "cancels (TakeNote g) = False"

text \<open>Nothing has failed yet, or a failure is on record; it belongs to a goroutine that has ended with it.\<close>

definition untroubled :: "session \<Rightarrow> bool" where
  "untroubled s \<longleftrightarrow> synctx_alive s \<and> group_error s = None \<and>
     (\<forall>g. phase s g \<noteq> Returned CtxCanceled) \<and> (\<forall>g r. phase s g = Ended r \<longrightarrow> r = NoErr)"

definition failed_session :: "session_setup \<Rightarrow> session \<Rightarrow> bool" where
  "failed_session cfg s \<longleftrightarrow>
     (\<exists>g\<in>set (goroutines cfg). \<exists>e. group_error s = Some (Failed e) \<and> phase s g = Ended (Failed e))"

lemma start_untroubled: "untroubled (start_session cfg)"
  by (auto simp: untroubled_def start_session_def)

lemma take_note_fields [simp]:
  "phase (take_note g r s) = (phase s)(g := Ended r)"
  "synctx_alive (take_note g r s) \<longleftrightarrow> synctx_alive s \<and> \<not> (r \<noteq> NoErr \<and> group_error s = None)"
  "group_error (take_note g r s) = (if r \<noteq> NoErr \<and> group_error s = None then Some r else group_error s)"
  by (simp_all add: take_note_def Let_def)

lemma failed_session_step:
  assumes "failed_session cfg s" "group_error s' = group_error s" "\<And>h. has_ended (phase s h) \<Longrightarrow> phase s' h = phase s h"
  shows "failed_session cfg s'"
proof -
  obtain g e where g: "g \<in> set (goroutines cfg)" "group_error s = Some (Failed e)" "phase s g = Ended (Failed e)"
    using assms(1) by (auto simp: failed_session_def)
  then have "phase s' g = Ended (Failed e)" using assms(3) [of g] by simp
  then show ?thesis using g assms(2) by (auto simp: failed_session_def)
qed

lemma proceed_untroubled:
  assumes "untroubled s" "proceed cfg g by_signal s = Some s'" "\<not> (g = WatchDump \<and> by_signal)"
  shows "untroubled s'"
  using assms by (cases g) (auto simp: untroubled_def split: if_splits)

lemma proceed_other:
  assumes "proceed cfg g by_signal s = Some s'" "h \<noteq> g"
  shows "phase s' h = phase s h \<and> group_error s' = group_error s"
  using assms by (cases g) (auto split: if_splits)

lemma proceed_group_error: "proceed cfg g by_signal s = Some s' \<Longrightarrow> group_error s' = group_error s"
  by (cases g) (auto split: if_splits)

lemma session_step_failed:
  assumes "failed_session cfg s" "session_step cfg a s = Some s'"
  shows "failed_session cfg s'"
proof (cases a)
  case (Proceed g by_signal)
  then have p: "phase s g = Blocked" "proceed cfg g by_signal s = Some s'"
    using assms(2) by (simp_all split: if_split_asm)
  show ?thesis
  proof (rule failed_session_step [OF assms(1)])
    show "phase s' h = phase s h" if "has_ended (phase s h)" for h
      using that p(1) proceed_other [OF p(2), of h] by (cases "h = g") auto
  qed (rule proceed_group_error [OF p(2)])
next
  case (Finish g r)
  then have "phase s g = Working" "s' = return_from cfg g r s"
    using assms(2) by (simp_all split: if_split_asm)
  then show ?thesis by (intro failed_session_step [OF assms(1)]) auto
next
  case (TakeNote g)
  then obtain r where "phase s g = Returned r" "s' = take_note g r s"
    using assms(2) by (cases "phase s g") (simp_all split: if_split_asm)
  then show ?thesis using assms(1) by (intro failed_session_step [OF assms(1)]) (auto simp: failed_session_def)
next
  case CancelHactx
  then show ?thesis using assms by (auto simp: failed_session_def)
qed

lemma session_step_trouble:
  assumes "untroubled s" "session_step cfg a s = Some s'" "\<not> cancels a"
  shows "untroubled s' \<or> failed_session cfg s'"
proof (cases a)
  case (Proceed g by_signal)
  then have "proceed cfg g by_signal s = Some s'" using assms(2) by (simp split: if_split_asm)
  then show ?thesis using proceed_untroubled [OF assms(1)] assms(3) Proceed by simp
next
  case (Finish g r)
  then have "phase s g = Working" "s' = return_from cfg g r s" "r = CtxCanceled \<longrightarrow> \<not> synctx_alive s"
    using assms(2) by (simp_all split: if_split_asm)
  then show ?thesis using assms(1) by (auto simp: untroubled_def)
next
  case (TakeNote g)
  then obtain r where g: "phase s g = Returned r" "g \<in> set (goroutines cfg)" "s' = take_note g r s"
    using assms(2) by (cases "phase s g") (simp_all split: if_split_asm)
  then show ?thesis using assms(1) by (cases r) (auto simp: untroubled_def failed_session_def)
next
  case CancelHactx
  then show ?thesis using assms(3) by simp
qed

lemma session_run_trouble:
  assumes "session_run cfg as s = Some s'" "list_all (\<lambda>a. \<not> cancels a) as" "untroubled s \<or> failed_session cfg s"
  shows "untroubled s' \<or> failed_session cfg s'"
  using assms
proof (induction as arbitrary: s)
  case (Cons a as)
  then obtain s1 where s1: "session_step cfg a s = Some s1" "session_run cfg as s1 = Some s'"
    by (auto split: option.splits)
  have "untroubled s1 \<or> failed_session cfg s1"
    using session_step_trouble [OF _ s1(1)] session_step_failed [OF _ s1(1)] Cons.prems(2,3) by auto
  then show ?case using Cons.IH [OF s1(2)] Cons.prems(2) by simp
qed simp

section \<open>A cancelled session comes to its end\<close>

fun weight :: "gor_phase \<Rightarrow> nat" where
  "weight Blocked = 3"
| "weight Working = 2"
| "weight (Returned r) = 1"
| "weight (Ended r) = 0"

definition work_left :: "session_setup \<Rightarrow> session \<Rightarrow> nat" where
  "work_left cfg s = (\<Sum>g\<in>set (goroutines cfg). weight (phase s g))"

lemma work_left_less:
  assumes "g \<in> set (goroutines cfg)" "phase s' = (phase s)(g := p)" "weight p < weight (phase s g)"
  shows "work_left cfg s' < work_left cfg s"
  unfolding work_left_def
  by (rule sum_strict_mono_ex1) (use assms in auto)

lemma not_over:
  "\<not> session_over cfg s \<longleftrightarrow> (\<exists>g\<in>set (goroutines cfg). \<not> has_ended (phase s g))"
  by (auto simp: session_over_def list_all_iff)

lemma ended_returned: "has_ended p \<Longrightarrow> has_returned p"
  by (cases p) auto

lemma some_goroutine_moves:
  assumes inv: "session_inv cfg s" and dead: "\<not> synctx_alive s" and over: "\<not> session_over cfg s"
  shows "\<exists>a s'. session_step cfg a s = Some s' \<and> work_left cfg s' < work_left cfg s \<and> \<not> synctx_alive s' \<and> \<not> cancels a"
proof -
  let ?G = "set (goroutines cfg)"
  consider (returned) g r where "g \<in> ?G" "phase s g = Returned r"
    | (working) g where "g \<in> ?G" "phase s g = Working"
    | (blocked) "\<forall>g\<in>?G. phase s g = Blocked \<or> has_ended (phase s g)"
    by (metis gor_phase.exhaust has_ended.simps(1))
  then show ?thesis
  proof cases
    case returned
    show ?thesis
      using returned dead by (intro exI [of _ "TakeNote g"] exI [of _ "take_note g r s"])
        (auto intro!: work_left_less [of g])
  next
    case working
    show ?thesis
      using working dead by (intro exI [of _ "Finish g NoErr"] exI [of _ "return_from cfg g NoErr s"])
        (auto intro!: work_left_less [of g])
  next
    case blocked
    obtain g where g: "g \<in> ?G" "phase s g = Blocked" "may_proceed g s"
    proof (cases "phase s WatchDump = Blocked \<or> phase s CustomvarSync = Blocked")
      case True
      then show thesis using that [of WatchDump] that [of CustomvarSync] by (auto simp: goroutines_def)
    next
      case False
      have started: "has_returned (phase s w)" if "w \<in> ?G" "starts_at_work w \<or> w = CustomvarSync" for w
        using blocked that False inv ended_returned by (fastforce simp: session_inv_def)
      have "configInitSync s = 0" unfolding counter_zero(1) [OF inv]
        using started by (metis is_config.elims(2) starts_at_work.simps(3))
      moreover have "stateInitSync s = 0" unfolding counter_zero(2) [OF inv]
        using started by (metis is_state.elims(2) starts_at_work.simps(4))
      moreover obtain g where "g \<in> ?G" "\<not> has_ended (phase s g)" using over by (auto simp: not_over)
      moreover then have b: "phase s g = Blocked" using blocked by auto
      moreover have "\<not> starts_at_work g" using b inv by (auto simp: session_inv_def)
      ultimately show thesis using that [of g] False by (cases g) auto
    qed
    obtain s' r where s': "proceed cfg g False s = Some s'" "phase s' = (phase s)(g := Returned r)" "\<not> synctx_alive s'"
      using g(3) dead by (cases g) auto
    show ?thesis
      using g s' by (intro exI [of _ "Proceed g False"] exI [of _ s']) (auto intro!: work_left_less [of g])
  qed
qed

lemma session_can_end:
  assumes "session_inv cfg s" "\<not> synctx_alive s"
  shows "\<exists>as s'. session_run cfg as s = Some s' \<and> session_over cfg s' \<and> list_all (\<lambda>a. \<not> cancels a) as"
  using assms
proof (induction "work_left cfg s" arbitrary: s rule: less_induct)
  case less
  show ?case
  proof (cases "session_over cfg s")
    case True
    then show ?thesis by (intro exI [of _ "[]"]) auto
  next
    case False
    obtain a s1 where s1: "session_step cfg a s = Some s1" "work_left cfg s1 < work_left cfg s" "\<not> synctx_alive s1" "\<not> cancels a"
      using some_goroutine_moves [OF less.prems False] by blast
    obtain as s' where "session_run cfg as s1 = Some s'" "session_over cfg s'" "list_all (\<lambda>a. \<not> cancels a) as"
      using less.hyps [OF s1(2) session_step_inv [OF less.prems(1) s1(1)] s1(3)] by blast
    then show ?thesis using s1(1,4) by (intro exI [of _ "a # as"]) auto
  qed
qed

section \<open>Takeovers\<close>

text \<open>
  The HA component signals a takeover only when it is not responsible, and hands over before the next
  one: \<open>responsible\<close> says whether the last signal was a takeover.
\<close>

fun alternating :: "bool \<Rightarrow> main_act list \<Rightarrow> bool" where
  "alternating responsible [] = True"
| "alternating responsible (RecvTakeover # as) = (\<not> responsible \<and> alternating True as)"
| "alternating responsible (RecvHandover # as) = (responsible \<and> alternating False as)"
| "alternating responsible (HaDone e # as) = alternating responsible as"
| "alternating responsible (OsSignal # as) = alternating responsible as"
| "alternating responsible (LoopCheck i # as) = alternating responsible as"
| "alternating responsible (ClearStreams i r # as) = alternating responsible as"
| "alternating responsible (SessionAct i a # as) = alternating responsible as"
| "alternating responsible (GroupWait i # as) = alternating responsible as"

definition live_loops :: "main_state \<Rightarrow> nat" where
  "live_loops m = length (List.filter (\<lambda>p. fst p = hactx m) (loops m))"

definition loops_inv :: "bool \<Rightarrow> main_state \<Rightarrow> bool" where
  "loops_inv responsible m \<longleftrightarrow> list_all (\<lambda>p. fst p \<le> hactx m) (loops m) \<and>
     live_loops m \<le> (if responsible then 1 else 0)"

lemma filter_fst_update:
  "i < length xs \<Longrightarrow> length (List.filter (\<lambda>p. fst p = n) (xs[i := (fst (xs ! i), l)])) = length (List.filter (\<lambda>p. fst p = n) xs)"
  by (induction xs arbitrary: i) (auto split: nat.splits simp: nth_Cons)

lemma list_all_fst_update:
  "i < length xs \<Longrightarrow> list_all (\<lambda>p. fst p \<le> n) (xs[i := (fst (xs ! i), l)]) = list_all (\<lambda>p. fst p \<le> n) xs"
  by (induction xs arbitrary: i) (auto split: nat.splits simp: nth_Cons)

lemma set_loop_inv [simp]: "i < length (loops m) \<Longrightarrow> loops_inv r (set_loop i l m) = loops_inv r m"
  by (simp add: loops_inv_def live_loops_def set_loop_def filter_fst_update list_all_fst_update)

lemma loop_at_Some: "loop_at m i = Some p \<Longrightarrow> i < length (loops m)"
  by (simp add: loop_at_def split: if_split_asm)

lemma set_loop_at_inv [simp]: "loop_at m i = Some p \<Longrightarrow> loops_inv r (set_loop i l m) = loops_inv r m"
  by (auto dest: loop_at_Some)

lemma proc_inv [simp]: "loops_inv r (m\<lparr>proc := p\<rparr>) = loops_inv r m"
  by (simp add: loops_inv_def live_loops_def)

lemma no_live_after: "list_all (\<lambda>p. fst p \<le> n) xs \<Longrightarrow> List.filter (\<lambda>p. fst p = Suc n) xs = []"
  by (induction xs) auto

lemma next_hactx_inv: "loops_inv r m \<Longrightarrow> loops_inv r' (m\<lparr>hactx := hactx m + 1\<rparr>)"
  by (auto simp: loops_inv_def live_loops_def no_live_after list_all_iff)

fun next_responsible :: "bool \<Rightarrow> main_act \<Rightarrow> bool" where
  "next_responsible responsible RecvTakeover = True"
| "next_responsible responsible RecvHandover = False"
| "next_responsible responsible _ = responsible"

lemma alternating_Cons: "alternating r (a # as) \<Longrightarrow> alternating (next_responsible r a) as \<and> (a = RecvTakeover \<longrightarrow> \<not> r)"
  by (cases a) auto

lemma main_step_inv:
  assumes "loops_inv r m" "main_step cfg a m = Some m'" "a = RecvTakeover \<longrightarrow> \<not> r"
  shows "loops_inv (next_responsible r a) m'"
proof (cases a)
  case RecvTakeover
  then show ?thesis using assms by (auto simp: loops_inv_def live_loops_def)
next
  case RecvHandover
  then show ?thesis using assms next_hactx_inv by auto
next
  case OsSignal
  then have "m' = m\<lparr>proc := ExitSuccess, hactx := hactx m + 1\<rparr>" using assms(2) by simp
  then have "loops_inv r m' = loops_inv r (m\<lparr>hactx := hactx m + 1\<rparr>)" by (simp add: loops_inv_def live_loops_def)
  then show ?thesis using next_hactx_inv [OF assms(1)] OsSignal by simp
qed (use assms in \<open>auto split: option.splits sync_loop.splits gor_result.splits if_splits\<close>)

lemma main_run_inv:
  assumes "main_run cfg as m = Some m'" "alternating r as" "loops_inv r m"
  shows "\<exists>r'. loops_inv r' m'"
  using assms
proof (induction as arbitrary: m r)
  case (Cons a as)
  obtain m1 where m1: "main_step cfg a m = Some m1" "main_run cfg as m1 = Some m'"
    using Cons.prems(1) by (auto split: if_splits option.splits)
  show ?case
    using Cons.IH [OF m1(2)] alternating_Cons [OF Cons.prems(2)] main_step_inv [OF Cons.prems(3) m1(1)] by blast
qed auto

section \<open>The properties\<close>

text \<open>C8. The runtime updates, the retention and the sync of check outputs of a session start only after
  the initial synchronisations they depend on have returned.\<close>

theorem runtime_after_initial_sync:
  assumes "session_run cfg as (start_session cfg) = Some s" "phase s g \<noteq> Blocked" "w \<in> set (goroutines cfg)"
    "is_config w \<and> g \<in> {ConfigRuntime, RetentionRun} \<or> is_state w \<and> g \<in> {StateRuntime, RetentionRun, OutputsSync}"
  shows "has_returned (phase s w)"
proof -
  have inv: "session_inv cfg s" by (rule reachable_inv [OF assms(1)])
  then have "waits g \<Longrightarrow> may_proceed g s" using assms(2) by (simp add: session_inv_def)
  then show ?thesis
    using assms(3,4) counter_zero [OF inv] by (auto simp: waits_def)
qed

text \<open>The cached incidents are cleared exactly when the last initial synchronisation of states has
  returned, so that no \<open>ApplyDelta\<close> of the session is still running.\<close>

theorem incidents_cleared_last:
  assumes "session_run cfg as (start_session cfg) = Some s" "notificationsSource cfg" "0 < stateFactories cfg"
  shows "cleared_incidents s \<longleftrightarrow> list_all (\<lambda>w. is_state w \<longrightarrow> has_returned (phase s w)) (goroutines cfg)"
proof -
  have inv: "session_inv cfg s" by (rule reachable_inv [OF assms(1)])
  then have "cleared_incidents s \<longleftrightarrow> stateInitSync s = 0" using assms(2,3) by (simp add: session_inv_def)
  then show ?thesis by (simp only: counter_zero(2) [OF inv] list_all_iff)
qed

text \<open>C21. A session that neither a new dump nor a handover cancelled lets the process go on exactly when
  every goroutine succeeded.\<close>

theorem session_errors_fatal:
  assumes "session_run cfg as (start_session cfg) = Some s" "list_all (\<lambda>a. \<not> cancels a) as" "session_over cfg s"
  shows "session_fatal s = None \<longleftrightarrow> list_all (\<lambda>g. phase s g = Ended NoErr) (goroutines cfg)"
proof -
  consider "untroubled s" | "failed_session cfg s"
    using session_run_trouble [OF assms(1,2)] start_untroubled by blast
  then show ?thesis
  proof cases
    case 1
    have "phase s g = Ended NoErr" if "g \<in> set (goroutines cfg)" for g
      using 1 assms(3) that by (cases "phase s g") (auto simp: untroubled_def session_over_def list_all_iff)
    then show ?thesis using 1 by (simp add: session_fatal_def untroubled_def list_all_iff)
  next
    case 2
    then show ?thesis by (auto simp: failed_session_def session_fatal_def list_all_iff)
  qed
qed

text \<open>C22. A session whose context has ended can always come to its end: its wait groups block nobody.\<close>

theorem cancelled_session_can_end:
  assumes "session_run cfg as (start_session cfg) = Some s" "\<not> synctx_alive s"
  shows "\<exists>as' s'. session_run cfg as' s = Some s' \<and> session_over cfg s'"
  using session_can_end [OF reachable_inv [OF assms(1)] assms(2)] by blast

text \<open>The takeover that started the goroutine at an index, and whether a handover came after it.\<close>

fun handover_after :: "nat \<Rightarrow> main_act list \<Rightarrow> bool" where
  "handover_after i [] = False"
| "handover_after i (a # as) =
     (if a = RecvTakeover then (if i = 0 then RecvHandover \<in> set as else handover_after (i - 1) as)
      else handover_after i as)"

definition takeovers :: "main_act list \<Rightarrow> nat" where
  "takeovers as = length (filter (\<lambda>a. a = RecvTakeover) as)"

lemma takeovers_snoc: "takeovers (as @ [a]) = takeovers as + (if a = RecvTakeover then 1 else 0)"
  by (simp add: takeovers_def)

lemma handover_after_snoc:
  "handover_after i (as @ [a]) \<longleftrightarrow> handover_after i as \<or> a = RecvHandover \<and> i < takeovers as"
  by (induction i as rule: handover_after.induct) (auto simp: takeovers_def)

lemma handover_after_takeovers: "handover_after i as \<Longrightarrow> i < takeovers as"
  by (induction i as rule: handover_after.induct) (auto simp: takeovers_def split: if_splits)

lemma main_run_snoc:
  "main_run cfg (as @ [a]) m = Some m' \<longleftrightarrow> (\<exists>m1. main_run cfg as m = Some m1 \<and> proc m1 = Running \<and> main_step cfg a m1 = Some m')"
  by (induction as arbitrary: m) (auto split: option.splits)

text \<open>The context of a goroutine is the current one until a handover comes after its takeover.\<close>

definition contexts_ok :: "main_act list \<Rightarrow> main_state \<Rightarrow> bool" where
  "contexts_ok as m \<longleftrightarrow> length (loops m) = takeovers as \<and>
     (proc m = Running \<longrightarrow> (\<forall>i < length (loops m). fst (loops m ! i) \<le> hactx m \<and>
        (fst (loops m ! i) = hactx m \<longleftrightarrow> \<not> handover_after i as)))"

lemma set_loop_contexts [simp]:
  "length (loops (set_loop i l m)) = length (loops m)" "hactx (set_loop i l m) = hactx m" "proc (set_loop i l m) = proc m"
  "k < length (loops m) \<Longrightarrow> fst (loops (set_loop i l m) ! k) = fst (loops m ! k)"
  by (cases "k = i"; simp add: set_loop_def)+

lemma contexts_ok_same:
  assumes "contexts_ok as m" "a \<noteq> RecvTakeover" "a \<noteq> RecvHandover" "length (loops m') = length (loops m)"
    "proc m' = Running \<Longrightarrow> proc m = Running \<and> hactx m' = hactx m \<and> (\<forall>k < length (loops m). fst (loops m' ! k) = fst (loops m ! k))"
  shows "contexts_ok (as @ [a]) m'"
  using assms by (auto simp: contexts_ok_def takeovers_snoc handover_after_snoc)

lemma main_step_contexts:
  assumes "contexts_ok as m" "proc m = Running" "main_step cfg a m = Some m'"
  shows "contexts_ok (as @ [a]) m'"
proof (cases a)
  case RecvTakeover
  have "\<not> handover_after (length (loops m)) as"
    using assms(1) handover_after_takeovers [of "length (loops m)" as] by (auto simp: contexts_ok_def)
  then show ?thesis
    using assms RecvTakeover by (auto simp: contexts_ok_def takeovers_snoc handover_after_snoc nth_append less_Suc_eq)
next
  case RecvHandover
  then show ?thesis
    using assms by (auto simp: contexts_ok_def takeovers_snoc handover_after_snoc le_Suc_eq)
qed (use assms in \<open>auto intro!: contexts_ok_same [OF assms(1)] split: option.splits prod.splits sync_loop.splits
      gor_result.splits if_splits\<close>)

lemma main_run_contexts: "main_run cfg as start_main = Some m \<Longrightarrow> contexts_ok as m"
proof (induction as arbitrary: m rule: rev_induct)
  case Nil
  then show ?case by (auto simp: contexts_ok_def start_main_def takeovers_def)
next
  case (snoc a as)
  then show ?case using main_step_contexts by (auto simp: main_run_snoc)
qed

lemma loop_context:
  assumes "main_run cfg as start_main = Some m" "proc m = Running" "loop_at m i = Some (n, l)"
  shows "n = hactx m \<longleftrightarrow> \<not> handover_after i as"
  using main_run_contexts [OF assms(1)] assms(2,3) by (auto simp: contexts_ok_def loop_at_def split: if_splits)

text \<open>As long as takeovers and handovers alternate, there is at most one synchronisation loop whose context
  is alive.\<close>

lemma live_loops_le:
  assumes "main_run cfg as start_main = Some m" "alternating False as"
  shows "live_loops m \<le> 1"
proof -
  have "loops_inv False start_main" by (simp add: loops_inv_def start_main_def live_loops_def)
  then obtain r where "loops_inv r m" using main_run_inv [OF assms] by blast
  then show ?thesis by (simp add: loops_inv_def split: if_splits)
qed

text \<open>C39. A handover can end the process while the streams are being cleared. In every state that a running daemon can
  reach, clearing the streams for a takeover can fail with the error of the cancelled context exactly if a handover
  came after this takeover, and then that error is fatal. At the end of a session it is not: a session that ends
  with the same error leads back to the check of the context.\<close>

theorem handover_while_clearing_is_fatal:
  assumes "main_run cfg as start_main = Some m" "proc m = Running" "loop_at m i = Some (n, Clearing)"
  shows "main_step cfg (ClearStreams i CtxCanceled) m =
      (if handover_after i as then Some (m\<lparr>proc := Fatal ''context canceled''\<rparr>) else None) \<and>
    (loop_at m j = Some (n', InSession s) \<and> session_over cfg s \<and> group_error s = Some CtxCanceled \<longrightarrow>
      main_step cfg (GroupWait j) m = Some (set_loop j AtCheck m))"
  using assms loop_context [OF assms(1,2,3)] by (simp add: hactx_alive_def session_fatal_def)

text \<open>A failed initial synchronisation can be recorded as successful and be followed by runtime updates:
  the wait group is released before the error group cancels the context.\<close>

theorem failed_sync_recorded:
  "map_option (\<lambda>s. (sync_recorded s, phase s ConfigRuntime, phase s CustomvarSync))
     (session_run \<lparr>configFactories = 1, stateFactories = 0, notificationsSource = False\<rparr>
       [Finish (ConfigWorker 0) NoErr, Proceed CustomvarSync True, Finish CustomvarSync (Failed e),
        Proceed ConfigReport False, Proceed ConfigRuntime False]
       (start_session \<lparr>configFactories = 1, stateFactories = 0, notificationsSource = False\<rparr>)) =
   Some (True, Working, Returned (Failed e))"
  by (simp add: goroutines_def start_session_def return_from_def set_phase_def)

section \<open>Witnesses\<close>

definition small_setup :: session_setup where
  "small_setup = \<lparr>configFactories = 1, stateFactories = 1, notificationsSource = True\<rparr>"

text \<open>The streams are being cleared for the second takeover; a handover came before it, and one after.\<close>

theorem handover_while_clearing_is_fatal_witness:
  "\<exists>m. main_run small_setup [RecvTakeover, RecvHandover, RecvTakeover, LoopCheck 1] start_main = Some m \<and>
      main_step small_setup (ClearStreams 1 CtxCanceled) m = None \<and>
    (\<exists>m'. main_run small_setup [RecvTakeover, RecvHandover, RecvTakeover, LoopCheck 1, RecvHandover] start_main = Some m' \<and>
      main_step small_setup (ClearStreams 1 CtxCanceled) m' = Some (m'\<lparr>proc := Fatal ''context canceled''\<rparr>))"
proof -
  let ?as = "[RecvTakeover, RecvHandover, RecvTakeover, LoopCheck 1]"
  obtain m where m: "main_run small_setup ?as start_main = Some m" "proc m = Running" "loop_at m 1 = Some (1, Clearing)"
    by (simp add: start_main_def loop_at_def set_loop_def hactx_alive_def)
  obtain m' where m': "main_run small_setup (?as @ [RecvHandover]) start_main = Some m'" "proc m' = Running"
      "loop_at m' 1 = Some (1, Clearing)"
    by (simp add: start_main_def loop_at_def set_loop_def hactx_alive_def)
  have "main_step small_setup (ClearStreams 1 CtxCanceled) m = None"
    using handover_while_clearing_is_fatal [OF m] by simp
  moreover have "main_step small_setup (ClearStreams 1 CtxCanceled) m' = Some (m'\<lparr>proc := Fatal ''context canceled''\<rparr>)"
    using handover_while_clearing_is_fatal [OF m'] by simp
  ultimately show ?thesis using m(1) m'(1) by auto
qed

definition small_run :: "session_act list" where
  "small_run = [Finish (ConfigWorker 0) NoErr, Proceed CustomvarSync True, Finish CustomvarSync NoErr,
     Finish (StateWorker 0) NoErr, Proceed ConfigRuntime False]"

definition small_end :: session where
  "small_end = the (session_run small_setup small_run (start_session small_setup))"

lemma small_run_checks:
  "case session_run small_setup small_run (start_session small_setup) of
     None \<Rightarrow> False | Some s \<Rightarrow> phase s ConfigRuntime = Working"
  by code_simp

lemma small_run_Some: "session_run small_setup small_run (start_session small_setup) = Some small_end"
  and small_end_phase: "phase small_end ConfigRuntime = Working"
  using small_run_checks by (auto simp: small_end_def split: option.splits)

lemma small_goroutines: "CustomvarSync \<in> set (goroutines small_setup)"
  by (simp add: goroutines_def)

theorem runtime_after_initial_sync_witness: "has_returned (phase small_end CustomvarSync)"
  by (rule runtime_after_initial_sync [OF small_run_Some _ small_goroutines, where g = ConfigRuntime])
     (simp_all add: small_end_phase)

theorem incidents_cleared_last_witness:
  "cleared_incidents small_end = list_all (\<lambda>w. \<not> is_state w \<or> has_returned (phase small_end w)) (goroutines small_setup)"
proof -
  have "notificationsSource small_setup" "0 < stateFactories small_setup" by (simp_all add: small_setup_def)
  then have "cleared_incidents small_end =
      list_all (\<lambda>w. is_state w \<longrightarrow> has_returned (phase small_end w)) (goroutines small_setup)"
    by (rule incidents_cleared_last [OF small_run_Some])
  then show ?thesis by (simp only: imp_conv_disj)
qed

text \<open>A session in which listening for dump signals fails at once.\<close>

definition failing_run :: "session_act list" where
  "failing_run = [Finish Listen (Failed ''redis''), TakeNote Listen]"

definition failing_end :: session where
  "failing_end = the (session_run small_setup failing_run (start_session small_setup))"

lemma failing_run_checks:
  "case session_run small_setup failing_run (start_session small_setup) of
     None \<Rightarrow> False | Some s \<Rightarrow> \<not> synctx_alive s"
  by (simp add: failing_run_def small_setup_def goroutines_def start_session_def)

lemma failing_run_Some: "session_run small_setup failing_run (start_session small_setup) = Some failing_end"
  and failing_end_dead: "\<not> synctx_alive failing_end"
  using failing_run_checks by (auto simp: failing_end_def split: option.splits)

lemma session_run_append:
  "session_run cfg as s = Some s1 \<Longrightarrow> session_run cfg (as @ bs) s = session_run cfg bs s1"
  by (induction as arbitrary: s) (auto split: option.splits)

theorem session_errors_fatal_witness:
  "\<exists>s. session_over small_setup s \<and>
     (session_fatal s = None) = list_all (\<lambda>g. phase s g = Ended NoErr) (goroutines small_setup)"
proof -
  obtain bs s where s: "session_run small_setup bs failing_end = Some s" "session_over small_setup s"
      "list_all (\<lambda>a. \<not> cancels a) bs"
    using session_can_end [OF reachable_inv [OF failing_run_Some] failing_end_dead] by blast
  have run: "session_run small_setup (failing_run @ bs) (start_session small_setup) = Some s"
    by (simp only: session_run_append [OF failing_run_Some] s(1))
  have "list_all (\<lambda>a. \<not> cancels a) (failing_run @ bs)" using s(3) by (simp add: failing_run_def)
  then have "(session_fatal s = None) = list_all (\<lambda>g. phase s g = Ended NoErr) (goroutines small_setup)"
    by (rule session_errors_fatal [OF run _ s(2)])
  then show ?thesis using s(2) by (intro exI [of _ s] conjI)
qed

theorem cancelled_session_can_end_witness:
  "\<exists>as' s'. session_run small_setup as' failing_end = Some s' \<and> session_over small_setup s'"
  by (rule cancelled_session_can_end [OF failing_run_Some failing_end_dead])

end
