(* ===== verification/Ha_State.thy ===== *)
theory Ha_State
  imports Ha_Props
begin

text \<open>
  What holds of the state of every running HA component: a contract for predicates over its signals, its
  responsibility and the state it reports, with two instances. The signals alternate, and the state that
  \<open>State\<close> returns to the telemetry is at every moment the responsibility the daemon was told, except while
  a signal is about to be sent.
\<close>

section \<open>The contract\<close>

locale ha_predicate =
  fixes P :: "ha \<Rightarrow> bool"
  assumes P_new: "P (NewHA i)"
    and P_handover: "P h \<Longrightarrow> P (signalHandover now rcv reason h)"
    and P_takeover: "P h \<Longrightarrow> P (signalTakeover now rcv reason h)"
    and P_other: "P h \<Longrightarrow> P (store_state ((ha_state h)\<lparr>st_otherResponsible := True\<rparr>) h)"
    and P_frame: "P h \<Longrightarrow> signals h' = signals h \<Longrightarrow> responsible h' = responsible h \<Longrightarrow> ha_state h' = ha_state h \<Longrightarrow>
      ha_history h' = ha_history h \<Longrightarrow> (cancelled h \<longrightarrow> cancelled h') \<Longrightarrow> P h'"
begin

lemma P_abort: "P h \<Longrightarrow> P (ha_abort e h)"
  by (rule P_frame [of h]) (simp_all add: ha_abort_def)

lemma P_notifications: "P h \<Longrightarrow> P (notifications_heartbeat now good h)"
  by (rule P_frame [of h]) (simp_all add: notifications_heartbeat_def Let_def)

lemma P_fields:
  "P h \<Longrightarrow> P (h\<lparr>environment := en\<rparr>)" "P h \<Longrightarrow> P (h\<lparr>oldInstancesRemoved := o'\<rparr>)" "P h \<Longrightarrow> P (h\<lparr>notifications := n\<rparr>)"
  "P h \<Longrightarrow> P (h\<lparr>cancelled := True\<rparr>)"
  by (rule P_frame [of h]; simp)+

lemma P_probe: "P h \<Longrightarrow> P (snd (probeNotificationsSocketPath clean obs h))"
  by (rule P_frame [of h]) (simp_all add: probeNotificationsSocketPath_def Let_def)

lemma P_after_commit: "P h \<Longrightarrow> P (after_commit obs takeover other h)"
  by (auto simp: after_commit_def Let_def P_handover P_takeover P_other split: option.splits)

lemma P_realize:
  assumes "P h" "realize clean obs s envId h db = (err, h', db')"
  shows "P h'"
proof -
  obtain sock h1 where p: "probeNotificationsSocketPath clean (ro_socket obs) h = (sock, h1)" by force
  have h1: "P h1" using P_probe [OF assms(1), of clean "ro_socket obs"] p by simp
  obtain takeover other db1 where tx: "realize_tx (ro_now obs) s envId (ro_lastMessage obs) sock h1 db = (takeover, other, db1)"
    by (rule prod_cases3)
  show ?thesis
    using assms h1 by (auto simp: realize_def p tx P_after_commit split: tx_result.splits)
qed

lemma P_check_environment: "P h \<Longrightarrow> check_environment obs h = Ok h' \<Longrightarrow> P h'"
  by (auto simp: check_environment_def Let_def P_fields P_abort split: sum.splits if_splits)

lemma P_ha_realize:
  assumes "P h" "ha_realize clean obs h db = Ok (h', db')"
  shows "P h'"
proof (cases "ho_status obs")
  case (Inl e)
  then show ?thesis
    using assms by (auto simp: ha_realize_def bind_outcome_Ok_iff P_abort P_fields dest!: P_check_environment [rotated])
next
  case (Inr s)
  then obtain h1 where h1: "check_environment obs h = Ok h1"
    using assms(2) by (auto simp: ha_realize_def bind_outcome_Ok_iff)
  obtain err h2 db2 where r: "realize clean (ho_realize obs) s (the (environment h1)) h1 db = (err, h2, db2)"
    by (rule prod_cases3)
  have "P h2" by (rule P_realize [OF P_check_environment [OF assms(1) h1] r])
  then show ?thesis
    using assms(2)
    by (auto simp: ha_realize_def Inr h1 r Let_def P_handover P_abort P_fields split: if_splits option.splits)
qed

lemma P_verify:
  assumes "P h" "verifyNotificationsState d now rcv c u h db = Ok (b, h', db')"
  shows "P h'"
  using assms by (auto simp: verifyNotificationsState_def Let_def P_handover P_fields split: if_splits)

lemma P_heartbeat:
  assumes "P h" "ha_heartbeat d clean obs h db = Ok (h', db')"
  shows "P h'"
proof (cases "ho_time obs")
  case (Inl e)
  then show ?thesis using assms(2) by (simp add: ha_heartbeat_def)
next
  case (Inr tt)
  show ?thesis
  proof (cases "tt < ho_now obs - peerTimeout")
    case True
    then show ?thesis using assms Inr by (auto simp: ha_heartbeat_def Let_def P_handover)
  next
    case False
    then obtain b h1 db1 where v:
      "verifyNotificationsState d (ho_now obs) (ho_rcv obs) (ho_count_ok obs) (ho_update_ok obs) h db = Ok (b, h1, db1)"
      "(if b then Ok (h1, db1) else ha_realize clean obs h1 db1) = Ok (h', db')"
      using assms(2) Inr by (auto simp: ha_heartbeat_def bind_outcome_Ok_iff)
    have "P h1" by (rule P_verify [OF assms(1) v(1)])
    then show ?thesis using v(2) P_ha_realize by (auto split: if_splits)
  qed
qed

lemma P_reach:
  assumes "ha_reach d clean envId ok s" "running s i = Some h"
  shows "P h"
  using assms
proof (induction arbitrary: i h)
  case init
  then show ?case by simp
next
  case (step s s')
  note IH = step.IH
  from step.hyps(2) step.prems show ?case
  proof cases
    case (start j)
    then show ?thesis using step.prems IH by (auto simp: P_new split: if_splits)
  next
    case (heartbeat j h0 obs h' db')
    have "P h'" by (rule P_heartbeat [OF IH [OF heartbeat(2)] heartbeat(5)])
    then show ?thesis using step.prems IH heartbeat(1) by (auto split: if_splits)
  next
    case (lost j h0 now rcv upd h' db')
    then show ?thesis using step.prems IH by (auto simp: ha_lost_def Let_def P_handover split: if_splits)
  qed (use step.prems IH in \<open>auto simp: P_notifications P_fields P_abort split: if_splits\<close>)
qed

end

section \<open>Alternating signals\<close>

fun is_takeover :: "ha_signal \<Rightarrow> bool" where
  "is_takeover (Takeover r) = True"
| "is_takeover (Handover r) = False"

text \<open>Following signals from a state of responsibility: each has to change it.\<close>

fun follow :: "bool \<Rightarrow> bool list \<Rightarrow> bool option" where
  "follow r [] = Some r"
| "follow r (t # ts) = (if t = r then None else follow t ts)"

lemma follow_snoc: "follow r ts = Some q \<Longrightarrow> follow r (ts @ [t]) = (if t = q then None else Some t)"
  by (induction r ts rule: follow.induct) (auto split: if_splits)

lemma follow_None: "follow r ts = None \<Longrightarrow> follow r (ts @ us) = None"
proof (induction r ts rule: follow.induct)
  case (2 r t ts)
  then show ?case by (cases "t = r") simp_all
qed simp

lemma follow_prefix: "follow r (ts @ us) \<noteq> None \<Longrightarrow> follow r ts \<noteq> None"
  by (rule contrapos_nn [OF _ follow_None])

definition signals_ok :: "ha \<Rightarrow> bool" where
  "signals_ok h \<longleftrightarrow> follow False (map is_takeover (signals h)) = Some (responsible h)"

interpretation alternate: ha_predicate signals_ok
  by unfold_locales
    (auto simp: signals_ok_def NewHA_def signalHandover_def signalTakeover_def Let_def follow_snoc)

section \<open>The reported state\<close>

definition ha_State :: "ha \<Rightarrow> int \<times> bool \<times> bool" where
  "ha_State h = (responsibleTsMilli (ha_state h), st_responsible (ha_state h), st_otherResponsible (ha_state h))"

text \<open>
  The state is read by another goroutine, at any moment: also after a state was stored and before the daemon
  has received its signal. A moment is a prefix of the history; \<open>state_at\<close> is what is stored then, and
  \<open>sent_by\<close> what has been received on the channels.
\<close>

definition state_at :: "ha_event list \<Rightarrow> haState" where
  "state_at seen = fold (\<lambda>e st. case e of HaStored st' \<Rightarrow> st' | _ \<Rightarrow> st) seen
     \<lparr>responsibleTsMilli = 0, st_responsible = False, st_otherResponsible = False\<rparr>"

definition sent_by :: "ha_event list \<Rightarrow> ha_signal list" where
  "sent_by seen = List.map_filter (\<lambda>e. case e of HaSent sg \<Rightarrow> Some sg | _ \<Rightarrow> None) seen"

definition told :: "ha_signal list \<Rightarrow> bool" where
  "told sgs \<longleftrightarrow> sgs \<noteq> [] \<and> is_takeover (last sgs)"

text \<open>The signal whose send comes next, if a moment is between a store and its send.\<close>

definition about_to_send :: "ha_event list \<Rightarrow> ha_signal option" where
  "about_to_send later = (case later of HaSent sg # _ \<Rightarrow> Some sg | HaGaveUp sg # _ \<Rightarrow> Some sg | _ \<Rightarrow> None)"

definition given_up :: "ha_event list \<Rightarrow> bool" where
  "given_up seen \<longleftrightarrow> (\<exists>e \<in> set seen. case e of HaGaveUp sg \<Rightarrow> True | _ \<Rightarrow> False)"

lemma state_at_simps [simp]:
  "state_at [] = \<lparr>responsibleTsMilli = 0, st_responsible = False, st_otherResponsible = False\<rparr>"
  "state_at (es @ [HaStored st]) = st" "state_at (es @ [HaSent sg]) = state_at es" "state_at (es @ [HaGaveUp sg]) = state_at es"
  by (simp_all add: state_at_def)

lemma sent_by_simps [simp]:
  "sent_by [] = []" "sent_by (es @ [HaStored st]) = sent_by es" "sent_by (es @ [HaSent sg]) = sent_by es @ [sg]"
  "sent_by (es @ [HaGaveUp sg]) = sent_by es"
  by (simp_all add: sent_by_def List.map_filter_def)

lemma given_up_simps [simp]: "\<not> given_up []" "given_up (es @ [e]) \<longleftrightarrow> given_up es \<or> (\<exists>sg. e = HaGaveUp sg)"
  by (auto simp: given_up_def split: ha_event.splits)

lemma told_snoc [simp]: "\<not> told []" "told (sgs @ [sg]) = is_takeover sg"
  by (simp_all add: told_def)

text \<open>What is right at a moment, and at every moment of a history.\<close>

definition moment_ok :: "ha_event list \<Rightarrow> ha_event list \<Rightarrow> bool" where
  "moment_ok seen later \<longleftrightarrow> given_up seen \<or>
     st_responsible (state_at seen) =
       (case about_to_send later of None \<Rightarrow> told (sent_by seen) | Some sg \<Rightarrow> is_takeover sg)"

definition moments_ok :: "ha_event list \<Rightarrow> bool" where
  "moments_ok es \<longleftrightarrow> (\<forall>seen later. es = seen @ later \<longrightarrow> moment_ok seen later)"

lemma moments_ok_last: "moments_ok es \<Longrightarrow> moment_ok es []"
  by (simp add: moments_ok_def)

lemma moments_ok_stored:
  assumes "moments_ok es" "given_up es \<or> st_responsible st = told (sent_by es)"
  shows "moments_ok (es @ [HaStored st])"
  unfolding moments_ok_def
proof (intro allI impI)
  fix seen later
  assume "es @ [HaStored st] = seen @ later"
  then consider "seen = es @ [HaStored st]" "later = []" | l where "later = l @ [HaStored st]" "es = seen @ l"
    by (cases later rule: rev_cases) auto
  then show "moment_ok seen later"
  proof cases
    case (2 l)
    then have "moment_ok seen l" using assms(1) by (simp add: moments_ok_def)
    then show ?thesis using 2 by (cases l) (simp_all add: moment_ok_def about_to_send_def)
  qed (use assms(2) in \<open>simp add: moment_ok_def about_to_send_def\<close>)
qed

lemma moments_ok_signal:
  assumes "moments_ok es" "e = HaSent sg \<or> e = HaGaveUp sg" "st_responsible st = is_takeover sg"
  shows "moments_ok (es @ [HaStored st, e])"
  unfolding moments_ok_def
proof (intro allI impI)
  fix seen later
  assume split: "es @ [HaStored st, e] = seen @ later"
  consider "seen = es @ [HaStored st, e]" "later = []" | "seen = es @ [HaStored st]" "later = [e]"
    | l where "later = l @ [HaStored st, e]" "es = seen @ l"
  proof (cases later rule: rev_cases)
    case (snoc l' b)
    then show thesis using that split by (cases l' rule: rev_cases) auto
  qed (use that split in simp)
  then show "moment_ok seen later"
  proof cases
    case 1
    have s: "seen = (es @ [HaStored st]) @ [e]" using 1 by simp
    show ?thesis unfolding s using 1(2) assms(2,3) by (auto simp only: moment_ok_def about_to_send_def state_at_simps
        sent_by_simps given_up_simps told_snoc list.case option.case)
  next
    case 2
    then show ?thesis using assms(2,3) by (auto simp: moment_ok_def about_to_send_def)
  next
    case (3 l)
    then have "moment_ok seen l" using assms(1) by (simp add: moments_ok_def)
    then show ?thesis using 3 by (cases l) (simp_all add: moment_ok_def about_to_send_def)
  qed
qed

text \<open>The history agrees with the fields, a signal is given up only where the context is done, and every moment is right.\<close>

definition history_ok :: "ha \<Rightarrow> bool" where
  "history_ok h \<longleftrightarrow> state_at (ha_history h) = ha_state h \<and> sent_by (ha_history h) = signals h \<and>
     (given_up (ha_history h) \<longrightarrow> cancelled h) \<and> moments_ok (ha_history h)"

lemma history_store_signal:
  assumes "history_ok h" "ha_history h' = ha_history h @ [HaStored st, e]" "ha_state h' = st"
    "e = HaSent sg \<and> signals h' = signals h @ [sg] \<or> e = HaGaveUp sg \<and> signals h' = signals h \<and> cancelled h'"
    "st_responsible st = is_takeover sg" "cancelled h \<longrightarrow> cancelled h'"
  shows "history_ok h'"
proof -
  have h': "ha_history h' = (ha_history h @ [HaStored st]) @ [e]" using assms(2) by simp
  have "moments_ok (ha_history h')"
    unfolding assms(2) by (rule moments_ok_signal [where sg = sg]) (use assms in \<open>auto simp: history_ok_def\<close>)
  then show ?thesis
    using assms(1,3-6) unfolding history_ok_def h' by (auto simp only: state_at_simps sent_by_simps given_up_simps)
qed

lemma history_other:
  assumes "history_ok h"
  shows "history_ok (store_state ((ha_state h)\<lparr>st_otherResponsible := True\<rparr>) h)"
  using assms moments_ok_stored [of "ha_history h" "(ha_state h)\<lparr>st_otherResponsible := True\<rparr>"]
    moments_ok_last [of "ha_history h"]
  by (auto simp: history_ok_def moment_ok_def about_to_send_def)

lemma history_handover: "history_ok h \<Longrightarrow> history_ok (signalHandover now rcv reason h)"
  by (cases "responsible h")
    (auto simp: signalHandover_def Let_def intro: history_store_signal [where sg = "Handover reason"])

lemma history_takeover: "history_ok h \<Longrightarrow> history_ok (signalTakeover now rcv reason h)"
  by (cases "responsible h")
    (auto simp: signalTakeover_def Let_def intro: history_store_signal [where sg = "Takeover reason"])

lemma history_new: "history_ok (NewHA i)"
  by (simp add: history_ok_def NewHA_def moments_ok_def moment_ok_def about_to_send_def)

lemma history_frame:
  "history_ok h \<Longrightarrow> signals h' = signals h \<Longrightarrow> ha_state h' = ha_state h \<Longrightarrow> ha_history h' = ha_history h \<Longrightarrow>
   (cancelled h \<longrightarrow> cancelled h') \<Longrightarrow> history_ok h'"
  by (simp add: history_ok_def)

interpretation reported: ha_predicate history_ok
  by unfold_locales (simp_all add: history_new history_handover history_takeover history_other history_frame)

end
