(* ===== verification/Main_Ha.thy ===== *)
theory Main_Ha
  imports Main_Props Ha_State
begin

text \<open>
  The main loop fed by the HA component: the signals that a running instance has sent alternate, so that
  a daemon that receives them in order has at most one live synchronisation loop.
\<close>

section \<open>The daemon\<close>

fun received :: "main_act list \<Rightarrow> bool list" where
  "received [] = []"
| "received (RecvTakeover # as) = True # received as"
| "received (RecvHandover # as) = False # received as"
| "received (HaDone e # as) = received as"
| "received (OsSignal # as) = received as"
| "received (LoopCheck i # as) = received as"
| "received (ClearStreams i r # as) = received as"
| "received (SessionAct i a # as) = received as"
| "received (GroupWait i # as) = received as"

lemma follow_alternating: "follow r (received as) \<noteq> None \<Longrightarrow> alternating r as"
  by (induction r as rule: alternating.induct) (auto split: if_splits)

lemma ha_one_live_loop:
  assumes "ha_reach d clean envId ok s" "running s i = Some h"
    "map is_takeover (signals h) = received as @ later" "main_run cfg as start_main = Some m"
  shows "live_loops m \<le> 1"
proof -
  have "follow False (received as @ later) \<noteq> None"
    using alternate.P_reach [OF assms(1,2)] assms(3) by (simp add: signals_ok_def)
  then have "alternating False as" by (rule follow_alternating [OF follow_prefix])
  then show ?thesis using live_loops_le [OF assms(4)] by simp
qed

text \<open>C20. A daemon that receives the signals of its HA component in order has at most one synchronisation
  loop whose context is alive.\<close>

theorem daemon_one_live_loop:
  assumes "ha_reach d clean envId ok s" "running s i = Some h"
    "map is_takeover (signals h) = received as @ later" "main_run cfg as start_main = Some m"
  shows "live_loops m \<le> 1"
  using assms by (rule ha_one_live_loop)

theorem daemon_one_live_loop_witness:
  "\<exists>m. main_run small_setup [RecvTakeover, LoopCheck 0] start_main = Some m \<and> live_loops m \<le> 1"
proof -
  obtain m where m: "main_run small_setup [RecvTakeover, LoopCheck 0] start_main = Some m"
    by (simp add: start_main_def loop_at_def hactx_alive_def)
  have sent: "map is_takeover (signals (sample_node 1 1000 True)) = received [RecvTakeover, LoopCheck 0] @ []"
    by (simp add: sample_node_def)
  have "live_loops m \<le> 1"
    by (rule daemon_one_live_loop [OF sample_ha_reach _ sent m, where i = "[1]"]) simp
  then show ?thesis using m by blast
qed

end
