(* ===== verification/Migrate_Range.thy ===== *)
theory Migrate_Range
  imports Migrate_Props
begin

text \<open>
  What the history migration selects and how it counts: the history types (\<open>typesToMigrate\<close> of
  \<open>cmd/icingadb-migrate/misc.go\<close>), \<open>computeIdRange\<close> and \<open>computeProgress\<close> of
  \<open>cmd/icingadb-migrate/main.go\<close>.
\<close>

section \<open>The history types\<close>

text \<open>
  The columns a type is selected by. Its functions, the cache and the conversion, are those of the
  other theories: here only whether there is a cache and whether it limits the rows.
\<close>

record historyType =
  ht_name :: string
  idoTable :: string
  idoIdColumn :: string
  idoStartColumns :: "string list"
  idoEndColumns :: "string list"
  has_cache :: bool
  has_cache_limit :: bool

definition typesToMigrate :: "historyType list" where
  "typesToMigrate =
     [\<lparr>ht_name = ''ack & comment'', idoTable = ''icinga_commenthistory'', idoIdColumn = ''commenthistory_id'',
       idoStartColumns = [''entry_time''], idoEndColumns = [''deletion_time'', ''expiration_time''],
       has_cache = False, has_cache_limit = False\<rparr>,
      \<lparr>ht_name = ''downtime'', idoTable = ''icinga_downtimehistory'', idoIdColumn = ''downtimehistory_id'',
       idoStartColumns = [''actual_start_time'', ''scheduled_start_time''],
       idoEndColumns = [''actual_end_time'', ''scheduled_end_time''], has_cache = False, has_cache_limit = False\<rparr>,
      \<lparr>ht_name = ''flapping'', idoTable = ''icinga_flappinghistory'', idoIdColumn = ''flappinghistory_id'',
       idoStartColumns = [''event_time''], idoEndColumns = [''event_time''], has_cache = True, has_cache_limit = False\<rparr>,
      \<lparr>ht_name = ''notification'', idoTable = ''icinga_notifications'', idoIdColumn = ''notification_id'',
       idoStartColumns = [''start_time''], idoEndColumns = [''end_time''], has_cache = True, has_cache_limit = True\<rparr>,
      \<lparr>ht_name = ''state'', idoTable = ''icinga_statehistory'', idoIdColumn = ''statehistory_id'',
       idoStartColumns = [''state_time''], idoEndColumns = [''state_time''], has_cache = True, has_cache_limit = True\<rparr>]"

text \<open>
  A row of an IDO table: its ID, its columns of type \<open>DATETIME\<close> in seconds since 1970 and the object it
  is about. The objects are those of \<open>icinga_objects\<close>.
\<close>

record ido_row =
  ido_id :: nat
  ido_time :: "string \<Rightarrow> int option"
  ido_object :: nat

record ido_config =
  From :: int
  To :: int

section \<open>The range of IDs\<close>

text \<open>Two days after 1970 begins: whatever the time zone, an earlier time is a zero.\<close>

definition deZeroFied :: "int option \<Rightarrow> int option" where
  "deZeroFied c = (case c of None \<Rightarrow> None | Some t \<Rightarrow> if t < 172800 then None else Some t)"

fun coalesce :: "'a option list \<Rightarrow> 'a option" where
  "coalesce [] = None"
| "coalesce (Some x # cs) = Some x"
| "coalesce (None # cs) = coalesce cs"

definition timeExpr :: "string list \<Rightarrow> ido_row \<Rightarrow> int option" where
  "timeExpr timeColumns r = coalesce (map (\<lambda>c. deZeroFied (ido_time r c)) timeColumns)"

text \<open>
  The function \<open>FROM_UNIXTIME\<close> of the database is a parameter; it may be NULL. A comparison with NULL
  selects no row.
\<close>

definition border :: "(int \<Rightarrow> int option) \<Rightarrow> int \<Rightarrow> int \<Rightarrow> int option" where
  "border from_unixtime borderTime fallbackTime = coalesce [from_unixtime borderTime, from_unixtime fallbackTime]"

fun sql_compare :: "(int \<Rightarrow> int \<Rightarrow> bool) \<Rightarrow> int option \<Rightarrow> int option \<Rightarrow> bool" where
  "sql_compare compOperator (Some a) (Some b) = compOperator a b"
| "sql_compare compOperator None b = False"
| "sql_compare compOperator (Some a) None = False"

datatype sortOrder = ASC | DESC

definition ordered_by_id :: "sortOrder \<Rightarrow> ido_row list \<Rightarrow> ido_row list" where
  "ordered_by_id order rows = (case order of ASC \<Rightarrow> sort_key ido_id rows | DESC \<Rightarrow> rev (sort_key ido_id rows))"

definition getBorderId ::
    "(int \<Rightarrow> int option) \<Rightarrow> ido_row list \<Rightarrow> nat \<Rightarrow> string list \<Rightarrow> (int \<Rightarrow> int \<Rightarrow> bool) \<Rightarrow> int \<Rightarrow> int \<Rightarrow> sortOrder \<Rightarrow> nat" where
  "getBorderId from_unixtime rows ident timeColumns compOperator borderTime fallbackTime order =
     (case ordered_by_id order
         (filter (\<lambda>r. sql_compare compOperator (timeExpr timeColumns r) (border from_unixtime borderTime fallbackTime)) rows) of
        [] \<Rightarrow> ident
      | r # _ \<Rightarrow> ido_id r)"

definition computeIdRange :: "(int \<Rightarrow> int option) \<Rightarrow> ido_config \<Rightarrow> historyType \<Rightarrow> ido_row list \<Rightarrow> nat \<times> nat" where
  "computeIdRange from_unixtime c ht rows =
     (getBorderId from_unixtime rows (2 ^ 63 - 1) (idoEndColumns ht) (\<ge>) (From c) 1 ASC,
      getBorderId from_unixtime rows 0 (idoStartColumns ht) (\<le>) (To c) (2 ^ 31 - 1) DESC)"

section \<open>Progress\<close>

text \<open>
  The table \<open>ido_migration_progress\<close> by its primary key, and what is counted: the source of the cache,
  all events of the range and those of them up to the last ID.
\<close>

type_synonym progress_table = "string \<times> string \<times> int \<times> int \<Rightarrow> nat option"

record progress =
  pr_lastId :: nat
  pr_cacheTotal :: nat
  pr_total :: nat
  pr_done :: nat

definition joined :: "(nat \<Rightarrow> bool) \<Rightarrow> ido_row list \<Rightarrow> ido_row list" where
  "joined icinga_objects rows = filter (\<lambda>r. icinga_objects (ido_object r)) rows"

text \<open>
  What \<open>migrateOneType\<close> selects: the rows of the range whose object exists, for a type with a limit up to the
  largest ID in its cache of previous hard states (\<open>history_ids\<close>), 0 if that is empty.
\<close>

definition cache_limit :: "historyType \<Rightarrow> nat set \<Rightarrow> nat option" where
  "cache_limit ht history_ids =
     (if has_cache_limit ht then Some (if history_ids = {} then 0 else Max history_ids) else None)"

definition migration_query ::
    "(nat \<Rightarrow> bool) \<Rightarrow> historyType \<Rightarrow> nat \<Rightarrow> nat \<Rightarrow> nat set \<Rightarrow> ido_row list \<Rightarrow> ido_row list" where
  "migration_query icinga_objects ht fromId toId history_ids rows =
     migration_table ido_id fromId toId (cache_limit ht history_ids) (joined icinga_objects rows)"

text \<open>\<open>GROUP BY migrated\<close>: a group for each value that occurs.\<close>

definition migrated_groups :: "nat \<Rightarrow> ido_row list \<Rightarrow> (nat \<times> nat) list" where
  "migrated_groups lastI rows =
     (let yes = filter (\<lambda>r. ido_id r \<le> lastI) rows; no = filter (\<lambda>r. \<not> ido_id r \<le> lastI) rows
      in (if yes = [] then [] else [(1, length yes)]) @ (if no = [] then [] else [(0, length no)]))"

definition count_groups :: "(nat \<times> nat) list \<Rightarrow> nat \<times> nat" where
  "count_groups groups = fold (\<lambda>(migrated, cnt) (total, d). (total + cnt, if migrated = 1 then cnt else d)) groups (0, 0)"

definition computeProgress ::
    "(nat \<Rightarrow> bool) \<Rightarrow> ido_config \<Rightarrow> string \<Rightarrow> historyType \<Rightarrow> nat \<Rightarrow> nat \<Rightarrow> progress_table \<Rightarrow> ido_row list \<Rightarrow> progress" where
  "computeProgress icinga_objects c envIdHex ht fromId toId table rows =
     (let lastI = (case table (envIdHex, ht_name ht, From c, To c) of None \<Rightarrow> 0 | Some i \<Rightarrow> i);
          events = joined icinga_objects rows;
          (total, d) = count_groups (migrated_groups lastI (filter (\<lambda>r. fromId \<le> ido_id r \<and> ido_id r \<le> toId) events))
      in \<lparr>pr_lastId = lastI,
          pr_cacheTotal = (if has_cache ht then length (filter (\<lambda>r. ido_id r \<le> toId) events) else 0),
          pr_total = total, pr_done = d\<rparr>)"

section \<open>The range contains what it is to contain\<close>

lemma coalesce_None [simp]: "coalesce cs = None \<longleftrightarrow> list_all (\<lambda>c. c = None) cs"
  by (induction cs rule: coalesce.induct) simp_all

lemma coalesce_Some: "coalesce cs = Some x \<Longrightarrow> Some x \<in> set cs"
  by (induction cs rule: coalesce.induct) auto

lemma timeExpr_late: "timeExpr cols r = Some t \<Longrightarrow> 172800 \<le> t"
  by (auto simp: timeExpr_def deZeroFied_def dest!: coalesce_Some split: option.splits if_splits)

lemma getBorderId_empty:
  "filter (\<lambda>r. sql_compare cmp (timeExpr cols r) (border f t fb)) rows = [] \<Longrightarrow> getBorderId f rows ident cols cmp t fb order = ident"
  by (cases order) (simp_all add: getBorderId_def ordered_by_id_def)

lemma hd_sort_key_le:
  assumes "x \<in> set xs" "sort_key f xs = y # ys"
  shows "f y \<le> (f x :: nat)"
proof -
  have "sorted (map f (y # ys))" using sorted_sort_key [of f xs] assms(2) by simp
  moreover have "x \<in> set (y # ys)" using assms by (metis set_sort)
  ultimately show ?thesis by auto
qed

lemma last_sort_key_ge:
  assumes "x \<in> set xs" "rev (sort_key f xs) = y # ys"
  shows "(f x :: nat) \<le> f y"
proof -
  have s: "sort_key f xs = rev ys @ [y]" using assms(2) by (metis rev.simps(2) rev_rev_ident)
  have "sorted (map f (rev ys @ [y]))" using sorted_sort_key [of f xs] s by simp
  moreover have "x \<in> set (rev ys @ [y])" using assms(1) s by (metis set_sort)
  ultimately show ?thesis by (auto simp: sorted_append)
qed

lemma getBorderId_bound:
  assumes "r \<in> set rows" "timeExpr cols r = Some a" "border f t fb = Some b" "cmp a b"
  shows "getBorderId f rows ident cols cmp t fb ASC \<le> ido_id r"
    and "ido_id r \<le> getBorderId f rows ident cols cmp t fb DESC"
proof -
  let ?hits = "filter (\<lambda>r. sql_compare cmp (timeExpr cols r) (border f t fb)) rows"
  have r: "r \<in> set ?hits" using assms by simp
  then have ne: "sort_key ido_id ?hits \<noteq> []" by (metis empty_iff empty_set set_sort)
  show "getBorderId f rows ident cols cmp t fb ASC \<le> ido_id r"
    using hd_sort_key_le [OF r] ne by (auto simp: getBorderId_def ordered_by_id_def split: list.splits)
  show "ido_id r \<le> getBorderId f rows ident cols cmp t fb DESC"
    using last_sort_key_ge [OF r] ne by (auto simp: getBorderId_def ordered_by_id_def split: list.splits)
qed

lemma getBorderId_row:
  assumes "getBorderId f rows ident cols cmp t fb order \<noteq> ident"
  obtains r a b where "r \<in> set rows" "getBorderId f rows ident cols cmp t fb order = ido_id r" "timeExpr cols r = Some a"
    "border f t fb = Some b" "cmp a b"
proof -
  let ?hits = "filter (\<lambda>r. sql_compare cmp (timeExpr cols r) (border f t fb)) rows"
  obtain r rs where s: "ordered_by_id order ?hits = r # rs"
  proof (cases "ordered_by_id order ?hits")
    case Nil
    then show thesis using assms by (simp add: getBorderId_def)
  qed
  have "set (ordered_by_id order ?hits) = set ?hits" by (cases order) (simp_all add: ordered_by_id_def)
  then have r: "r \<in> set ?hits" using s by (metis list.set_intros(1))
  then obtain a b where "timeExpr cols r = Some a" "border f t fb = Some b" "cmp a b"
    by (cases "timeExpr cols r"; cases "border f t fb") simp_all
  then show thesis using that [of r a b] r s by (simp add: getBorderId_def)
qed

lemma computeIdRange_covers:
  assumes "r \<in> set rows" "computeIdRange f c ht rows = (fromId, toId)"
    "timeExpr (idoEndColumns ht) r = Some e" "border f (From c) 1 = Some b" "b \<le> e"
    "timeExpr (idoStartColumns ht) r = Some s" "border f (To c) (2 ^ 31 - 1) = Some b'" "s \<le> b'"
  shows "fromId \<le> ido_id r \<and> ido_id r \<le> toId"
  using getBorderId_bound(1) [OF assms(1,3,4), of "(\<ge>)" "2 ^ 63 - 1"]
    getBorderId_bound(2) [OF assms(1,6,7), of "(\<le>)" 0] assms(2,5,8)
  by (auto simp: computeIdRange_def)

lemma in_migration_query:
  assumes "r \<in> set rows" "0 < ido_id r" "finite history_ids" "fromId \<le> ido_id r" "ido_id r \<le> toId"
  shows "r \<in> set (migration_query icinga_objects ht fromId toId history_ids rows) \<longleftrightarrow>
    icinga_objects (ido_object r) \<and> (has_cache_limit ht \<longrightarrow> (\<exists>i\<in>history_ids. ido_id r \<le> i))"
  using assms Max_ge_iff [OF assms(3), of "ido_id r"]
  by (auto simp: migration_query_def migration_table_def joined_def cache_limit_def)

lemma fromId_has_end:
  assumes "computeIdRange f c ht rows = (fromId, toId)" "fromId \<noteq> 2 ^ 63 - 1"
  obtains r t where "r \<in> set rows" "ido_id r = fromId" "timeExpr (idoEndColumns ht) r = Some t"
proof -
  have g: "fromId = getBorderId f rows (2 ^ 63 - 1) (idoEndColumns ht) (\<ge>) (From c) 1 ASC"
    using assms(1) by (simp add: computeIdRange_def)
  then have "getBorderId f rows (2 ^ 63 - 1) (idoEndColumns ht) (\<ge>) (From c) 1 ASC \<noteq> 2 ^ 63 - 1"
    using assms(2) by simp
  then show thesis by (rule getBorderId_row) (use g that in simp)
qed

lemma without_end_excluded:
  assumes "list_all (\<lambda>r'. ido_id r' \<le> ido_id r \<longrightarrow> timeExpr (idoEndColumns ht) r' = None) rows" "ido_id r < 2 ^ 63 - 1"
    "computeIdRange f c ht rows = (fromId, toId)"
  shows "ido_id r < fromId"
proof (cases "fromId = 2 ^ 63 - 1")
  case False
  then obtain r' t where "r' \<in> set rows" "ido_id r' = fromId" "timeExpr (idoEndColumns ht) r' = Some t"
    using fromId_has_end [OF assms(3)] by metis
  then show ?thesis using assms(1) by (fastforce simp: list_all_iff)
qed (use assms(2) in simp)

section \<open>The counts\<close>

lemma length_filter_split: "length (filter P xs) + length (filter (\<lambda>x. \<not> P x) xs) = length xs"
  by (rule sum_length_filter_compl)

lemma count_migrated:
  "count_groups (migrated_groups n rows) = (length rows, length (filter (\<lambda>r. ido_id r \<le> n) rows))"
  using length_filter_split [of "\<lambda>r. ido_id r \<le> n" rows]
  by (auto simp: count_groups_def migrated_groups_def Let_def filter_empty_conv)

lemma computeProgress_counts:
  "pr_total (computeProgress objs c env ht fromId toId table rows) =
     length (migration_table ido_id fromId toId None (joined objs rows))"
  "pr_done (computeProgress objs c env ht fromId toId table rows) =
     length (filter (\<lambda>r. ido_id r \<le> pr_lastId (computeProgress objs c env ht fromId toId table rows))
       (migration_table ido_id fromId toId None (joined objs rows)))"
  by (simp_all add: computeProgress_def count_migrated migration_table_def Let_def)

section \<open>A finished migration\<close>

text \<open>If each bulk leaves the ID of its last row as the progress, nothing is left after the loop.\<close>

lemma slice_nothing_left:
  assumes step: "\<And>rows s cp s'. rows \<noteq> [] \<Longrightarrow> onRows rows s = Ok (cp, s') \<Longrightarrow> cp = Some (ident (last rows)) \<and> pos s' = ident (last rows)"
    and run: "sliceIdoHistory (select_bulk (<) ident bulk table) onRows cp s = Some (Ok s')"
    and start: "pos s = cp" and bulk: "0 < bulk"
  shows "filter (\<lambda>r. pos s' < ident r) table = []"
  using run start
proof (induction "length (filter (\<lambda>r. cp < ident r) table)" arbitrary: cp s rule: less_induct)
  case less
  let ?rows = "select_bulk (<) ident bulk table cp"
  let ?rest = "filter (\<lambda>r. cp < ident r) table"
  show ?case
  proof (cases "?rows = []")
    case True
    then have "s' = s" using less.prems(1) by (subst (asm) sliceIdoHistory.simps) (simp add: Let_def)
    moreover have "?rest = []" using True bulk by (simp add: select_bulk_def)
    ultimately show ?thesis using less.prems(2) by simp
  next
    case ne: False
    let ?c = "ident (last ?rows)"
    obtain s1 where on: "onRows ?rows s = Ok (Some ?c, s1)" "pos s1 = ?c"
      and rest: "sliceIdoHistory (select_bulk (<) ident bulk table) onRows ?c s1 = Some (Ok s')"
    proof (cases "onRows ?rows s")
      case (Ok r)
      obtain cp1 s1 where r: "r = (cp1, s1)" by force
      then have s: "cp1 = Some ?c" "pos s1 = ?c" using step [OF ne] Ok by auto
      then show thesis
        using that [of s1] Ok r ne less.prems(1) by (subst (asm) sliceIdoHistory.simps) (simp add: Let_def)
    qed (use ne less.prems(1) in \<open>subst (asm) sliceIdoHistory.simps, simp add: Let_def\<close>)+
    have l: "last ?rows \<in> set ?rest" using ne by (metis in_set_takeD last_in_set select_bulk_def)
    then have beyond: "filter (\<lambda>r. ?c < ident r) table = filter (\<lambda>r. ?c < ident r) ?rest"
      by (auto intro!: filter_cong)
    have "\<exists>x\<in>set ?rest. \<not> ?c < ident x" using l by blast
    then have "length (filter (\<lambda>r. ?c < ident r) ?rest) < length ?rest" using length_filter_less by metis
    then show ?thesis using less.hyps [OF _ rest on(2)] beyond by metis
  qed
qed

lemma migrateOneType_nothing_left:
  assumes last: "\<And>rows stages cp. rows \<noteq> [] \<Longrightarrow> convertRows rows = Ok (stages, cp) \<Longrightarrow> cp = Some (ident (last rows))"
    and "migrateOneType ident bulk convertRows table s = Some (Ok s')" "0 < bulk"
  shows "filter (\<lambda>r. lastId s' < ident r) table = []"
proof (rule slice_nothing_left [where pos = lastId])
  show "cp = Some (ident (last rows)) \<and> lastId t' = ident (last rows)"
    if "rows \<noteq> []" "migrate_rows convertRows rows t = Ok (cp, t')" for rows t cp t'
    using that last [OF that(1)] by (auto simp: migrate_rows_def bind_outcome_Ok_iff lastId_def Let_def)
qed (use assms(2,3) in \<open>simp_all add: migrateOneType_def\<close>)

section \<open>Properties\<close>

text \<open>C24. Of the rows whose start and end are known (of several columns the first that is neither NULL nor a zero
  counts), every one that ends no earlier than \<open>from\<close> and begins no later than \<open>to\<close> is in the range of
  IDs. So it is migrated exactly if its object still exists and, for notifications and states, its ID is not beyond
  the cache of previous hard states; and if that cache has been filled from the same history, it is never beyond.\<close>

theorem range_covers:
  assumes "r \<in> set rows" "0 < ido_id r" "finite history_ids" "computeIdRange f c ht rows = (fromId, toId)"
    "timeExpr (idoEndColumns ht) r = Some e" "border f (From c) 1 = Some b" "b \<le> e"
    "timeExpr (idoStartColumns ht) r = Some s" "border f (To c) (2 ^ 31 - 1) = Some b'" "s \<le> b'"
  shows "(r \<in> set (migration_query icinga_objects ht fromId toId history_ids rows) \<longleftrightarrow>
      icinga_objects (ido_object r) \<and> (has_cache_limit ht \<longrightarrow> (\<exists>i\<in>history_ids. ido_id r \<le> i))) \<and>
    (icinga_objects (ido_object r) \<longrightarrow>
      r \<in> set (migration_query icinga_objects ht fromId toId
        {ido_id x | x. x \<in> set rows \<and> icinga_objects (ido_object x) \<and> ido_id x \<le> toId} rows))"
proof -
  have range: "fromId \<le> ido_id r" "ido_id r \<le> toId"
    using computeIdRange_covers [OF assms(1,4,5-10)] by simp_all
  let ?filled = "{ido_id x | x. x \<in> set rows \<and> icinga_objects (ido_object x) \<and> ido_id x \<le> toId}"
  have fin: "finite ?filled" by simp
  have filled: "ido_id r \<in> ?filled" if "icinga_objects (ido_object r)" using that assms(1) range(2) by blast
  show ?thesis
    using in_migration_query [OF assms(1,2,3) range, of icinga_objects ht]
      in_migration_query [OF assms(1,2) fin range, of icinga_objects ht] filled by blast
qed

text \<open>A comment or acknowledgement that has not ended, like all with smaller IDs, is not migrated,
  not even where \<open>from\<close> is its default 0: its ID is below that of the first row with an end time.\<close>

theorem unended_comments_skipped:
  assumes "ht = hd typesToMigrate" "r \<in> set rows" "ido_id r < 2 ^ 63 - 1"
    "list_all (\<lambda>r'. ido_id r' \<le> ido_id r \<longrightarrow> ido_time r' ''deletion_time'' = None \<and> ido_time r' ''expiration_time'' = None) rows"
    "computeIdRange f c ht rows = (fromId, toId)"
  shows "r \<notin> set (migration_table ido_id fromId toId None rows)"
proof -
  have "list_all (\<lambda>r'. ido_id r' \<le> ido_id r \<longrightarrow> timeExpr (idoEndColumns ht) r' = None) rows"
    using assms(1,4) by (auto simp: list_all_iff typesToMigrate_def timeExpr_def deZeroFied_def)
  then have "ido_id r < fromId" by (rule without_end_excluded [OF _ assms(3,5)])
  then show ?thesis by (simp add: migration_table_def)
qed

text \<open>C37. After a migration of the downtimes has come to its end, the next run counts all of them as
  migrated: nothing is left of the range.\<close>

theorem finished_migration_counts:
  assumes "migrateOneType DowntimehistoryId bulk (\<lambda>rows. Ok (convertDowntimeRows m env envId rows)) table s = Some (Ok s')"
    "0 < bulk" "map DowntimehistoryId table = map ido_id (migration_table ido_id fromId toId None (joined objs rows))"
    "progress (envHex, ht_name ht, From c, To c) = last_ido_id s'"
  shows "pr_done (computeProgress objs c envHex ht fromId toId progress rows) =
     pr_total (computeProgress objs c envHex ht fromId toId progress rows)"
proof -
  let ?p = "computeProgress objs c envHex ht fromId toId progress rows"
  let ?events = "migration_table ido_id fromId toId None (joined objs rows)"
  have n: "pr_lastId ?p = lastId s'"
    using assms(4) by (simp add: computeProgress_def count_migrated lastId_def Let_def)
  have "filter (\<lambda>r. lastId s' < DowntimehistoryId r) table = []"
    by (rule migrateOneType_nothing_left [OF _ assms(1,2)]) (auto simp: convertDowntimeRows_def last_id_def Let_def)
  then have "\<forall>i\<in>set (map DowntimehistoryId table). i \<le> lastId s'" by (auto simp: filter_empty_conv)
  then have "\<forall>r\<in>set ?events. ido_id r \<le> lastId s'" unfolding assms(3) by simp
  then show ?thesis by (simp add: computeProgress_counts n filter_id_conv)
qed

section \<open>Witnesses\<close>

definition sample_row :: "nat \<Rightarrow> int option \<Rightarrow> ido_row" where
  "sample_row i ended =
     \<lparr>ido_id = i, ido_time = (\<lambda>_. None)(''entry_time'' := Some 1000000, ''deletion_time'' := ended), ido_object = 7\<rparr>"

definition unlimited :: ido_config where
  "unlimited = \<lparr>From = 0, To = 2 ^ 31 - 1\<rparr>"

lemma sample_range:
  "computeIdRange Some unlimited (hd typesToMigrate) [sample_row 1 None, sample_row 2 (Some 2000000)] = (2, 2)"
  by (simp add: computeIdRange_def getBorderId_def ordered_by_id_def timeExpr_def deZeroFied_def border_def unlimited_def
      typesToMigrate_def sample_row_def sort_key_def)

definition sample_state_row :: "nat \<Rightarrow> nat \<Rightarrow> ido_row" where
  "sample_state_row i obj = \<lparr>ido_id = i, ido_time = [''state_time'' \<mapsto> 1000000], ido_object = obj\<rparr>"

lemma sample_state_range:
  "computeIdRange Some unlimited (typesToMigrate ! 4) [sample_state_row 1 7, sample_state_row 2 8, sample_state_row 3 7] = (1, 3)"
  by (simp add: computeIdRange_def getBorderId_def ordered_by_id_def timeExpr_def deZeroFied_def border_def unlimited_def
      typesToMigrate_def sample_state_row_def sort_key_def)

text \<open>The cache ends at the second row: the first is migrated, the third is not; the object of the second is gone.\<close>

theorem range_covers_witness:
  "let rows = [sample_state_row 1 7, sample_state_row 2 8, sample_state_row 3 7];
       migrated = set (migration_query (\<lambda>i. i = 7) (typesToMigrate ! 4) 1 3 {1, 2} rows)
   in sample_state_row 1 7 \<in> migrated \<and> sample_state_row 2 8 \<notin> migrated \<and> sample_state_row 3 7 \<notin> migrated"
proof -
  let ?rows = "[sample_state_row 1 7, sample_state_row 2 8, sample_state_row 3 7]"
  have covers: "r \<in> set (migration_query (\<lambda>i. i = 7) (typesToMigrate ! 4) 1 3 {1, 2} ?rows) \<longleftrightarrow>
      ido_object r = 7 \<and> (\<exists>i\<in>{1, 2}. ido_id r \<le> i)" if r: "r \<in> set ?rows" for r
  proof -
    have t: "0 < ido_id r" "timeExpr (idoEndColumns (typesToMigrate ! 4)) r = Some 1000000"
      "timeExpr (idoStartColumns (typesToMigrate ! 4)) r = Some 1000000" "has_cache_limit (typesToMigrate ! 4)"
      using r by (auto simp: timeExpr_def deZeroFied_def typesToMigrate_def sample_state_row_def)
    have b: "border Some (From unlimited) 1 = Some 0" "border Some (To unlimited) (2 ^ 31 - 1) = Some (2 ^ 31 - 1)"
      by (simp_all add: border_def unlimited_def)
    show ?thesis
      using range_covers [OF r t(1) _ sample_state_range t(2) b(1) _ t(3) b(2), of "{1, 2}" "\<lambda>i. i = 7"] t(4) by simp
  qed
  show ?thesis
    using covers [of "sample_state_row 1 7"] covers [of "sample_state_row 2 8"] covers [of "sample_state_row 3 7"]
    by (simp add: Let_def sample_state_row_def)
qed

theorem unended_comments_skipped_witness:
  "sample_row 1 None \<notin> set (migration_table ido_id 2 2 None [sample_row 1 None, sample_row 2 (Some 2000000)])"
  by (rule unended_comments_skipped [OF refl _ _ _ sample_range]) (simp_all add: sample_row_def)

theorem finished_migration_counts_witness:
  "\<exists>s'. migrateOneType DowntimehistoryId 9 (\<lambda>rows. Ok (convertDowntimeRows sample_fns ''env'' (Some []) rows)) [sample_downtime 60]
      \<lparr>mig_db = Map.empty, last_ido_id = None\<rparr> = Some (Ok s') \<and>
    pr_done (computeProgress (\<lambda>_. True) unlimited ''env'' (typesToMigrate ! 1) 1 9 (\<lambda>_. last_ido_id s') [sample_row (DowntimehistoryId (sample_downtime 60)) None]) =
    pr_total (computeProgress (\<lambda>_. True) unlimited ''env'' (typesToMigrate ! 1) 1 9 (\<lambda>_. last_ido_id s') [sample_row (DowntimehistoryId (sample_downtime 60)) None])"
proof -
  have i: "1 \<le> DowntimehistoryId (sample_downtime 60)" "DowntimehistoryId (sample_downtime 60) \<le> 9"
    by (simp_all add: sample_downtime_def)
  have "\<exists>s'. migrateOneType DowntimehistoryId 9 (\<lambda>rows. Ok (convertDowntimeRows sample_fns ''env'' (Some []) rows)) [sample_downtime 60]
      \<lparr>mig_db = Map.empty, last_ido_id = None\<rparr> = Some (Ok s')"
    using i unfolding migrateOneType_def
    by (subst sliceIdoHistory.simps, subst sliceIdoHistory.simps)
      (auto simp: Let_def select_bulk_def lastId_def migrate_rows_def convertDowntimeRows_def last_id_def)
  then obtain s' where s': "migrateOneType DowntimehistoryId 9 (\<lambda>rows. Ok (convertDowntimeRows sample_fns ''env'' (Some []) rows)) [sample_downtime 60]
      \<lparr>mig_db = Map.empty, last_ido_id = None\<rparr> = Some (Ok s')" ..
  show ?thesis
    by (intro exI conjI, rule s', rule finished_migration_counts [OF s'])
      (use i in \<open>simp_all add: migration_table_def joined_def sample_row_def\<close>)
qed

end
