(* ===== verification/Customvars.thy ===== *)
theory Customvars
  imports Idb_Prelude
begin

text \<open>
  Custom variables: \<open>ExpandCustomvars\<close> of \<open>pkg/icingadb/v1/customvar.go\<close>, which forwards every custom
  variable and streams its flat ones, computed by as many workers as there are CPUs. It feeds both the
  initial synchronisation (\<open>SyncCustomvars\<close>) and the runtime updates (\<open>prepareCustomVarsForSync\<close>).

  The channels are unbuffered: a send and the receive are one step.
\<close>

section \<open>Custom variables and their flat ones\<close>

record Customvar =
  cv_Id :: binary
  cv_EnvironmentId :: binary
  cv_Name :: string
  cv_Value :: string

text \<open>An entity that is received, of the expected type or of another one.\<close>

datatype cv_entity = ACustomvar Customvar | OtherEntity

record CustomvarFlat =
  cvf_Id :: binary
  cvf_EnvironmentId :: binary
  CustomvarId :: binary
  Flatname :: string
  FlatnameChecksum :: binary
  Flatvalue :: go_string

text \<open>
  The library functions: \<open>types.UnmarshalJSON\<close>, \<open>flatten.Flatten\<close>, whose result is a map and here the
  list of its entries, \<open>utils.Checksum\<close> of a string and of the packed slice of environment, custom
  variable, name and value.
\<close>

record 'json cv_fns =
  UnmarshalJSON :: "string \<Rightarrow> string + 'json"
  Flatten :: "'json \<Rightarrow> string \<Rightarrow> (string \<times> go_string) list"
  Checksum :: "string \<Rightarrow> binary"
  PackChecksum :: "binary \<Rightarrow> binary \<Rightarrow> string \<Rightarrow> string option \<Rightarrow> binary"

definition flat_row :: "'json cv_fns \<Rightarrow> Customvar \<Rightarrow> string \<times> go_string \<Rightarrow> CustomvarFlat" where
  "flat_row fns customvar entry =
     (let (flatname, flatvalue) = entry;
          fv = (if str_valid flatvalue then Some (str_val flatvalue) else None)
      in \<lparr>cvf_Id = PackChecksum fns (cv_EnvironmentId customvar) (cv_Id customvar) flatname fv,
          cvf_EnvironmentId = cv_EnvironmentId customvar, CustomvarId = cv_Id customvar, Flatname = flatname,
          FlatnameChecksum = Checksum fns flatname, Flatvalue = flatvalue\<rparr>)"

text \<open>What a worker makes of an entity: the error it returns, or the entries to send.\<close>

definition flattened :: "'json cv_fns \<Rightarrow> cv_entity \<Rightarrow> string + (Customvar \<times> (string \<times> go_string) list)" where
  "flattened fns entity = (case entity of
      OtherEntity \<Rightarrow> Inl ''entity does not implement Customvar''
    | ACustomvar customvar \<Rightarrow>
        (case UnmarshalJSON fns (cv_Value customvar) of
           Inl e \<Rightarrow> Inl e
         | Inr json \<Rightarrow> Inr (customvar, Flatten fns json (cv_Name customvar))))"

section \<open>The goroutines\<close>

text \<open>
  The goroutine of \<open>multiplexCvs\<close> is at the receive, at one of its two sends, or has returned. A worker
  waits in its \<open>range\<close>, has entries left to send, or has returned.
\<close>

datatype multiplexer = Receiving | FirstSend cv_entity | SecondSend cv_entity | MuxReturned

datatype flat_worker = Ranging | Sending Customvar "(string \<times> go_string) list" | WorkerReturned

record expansion =
  cvs :: "cv_entity list"
  cvs_closed :: bool
  mux :: multiplexer
  customvars :: "cv_entity list"
  flat_workers :: "flat_worker list"
  flatCustomvars :: "CustomvarFlat list"
  inner_error :: "string option"
  flatten_returned :: bool
  outer_error :: "string option"
  ctx_alive :: bool

definition ExpandCustomvars :: "nat \<Rightarrow> expansion" where
  "ExpandCustomvars numCPU = \<lparr>cvs = [], cvs_closed = False, mux = Receiving, customvars = [],
     flat_workers = replicate numCPU Ranging, flatCustomvars = [], inner_error = None, flatten_returned = False,
     outer_error = None, ctx_alive = True\<rparr>"

text \<open>The first error of an error group is kept.\<close>

definition first_error :: "string option \<Rightarrow> string \<Rightarrow> string option" where
  "first_error err e = (case err of None \<Rightarrow> Some e | Some e' \<Rightarrow> Some e')"

text \<open>
  The steps: the sender of the input channel and the caller's context, the multiplexer, the receivers of
  the two outputs, the workers, and the end of the inner group. A \<open>select\<close> may take the case of a dead
  context even if the other one is ready.
\<close>

datatype expand_act =
    Arrive cv_entity
  | CloseCvs
  | CancelCtx
  | MuxReceive
  | MuxCancelled
  | ReceiveCustomvar
  | WorkerReceive nat
  | ReceiveFlat nat nat
  | WorkerCancelled nat
  | RangeEnds nat
  | InnerWait

definition send_all :: "Customvar \<Rightarrow> (string \<times> go_string) list \<Rightarrow> flat_worker" where
  "send_all customvar entries = (if entries = [] then Ranging else Sending customvar entries)"

definition drop_nth :: "nat \<Rightarrow> 'a list \<Rightarrow> 'a list" where
  "drop_nth i xs = take i xs @ drop (Suc i) xs"

definition worker_at :: "expansion \<Rightarrow> nat \<Rightarrow> flat_worker" where
  "worker_at s w = (if w < length (flat_workers s) then flat_workers s ! w else WorkerReturned)"

definition set_worker :: "nat \<Rightarrow> flat_worker \<Rightarrow> expansion \<Rightarrow> expansion" where
  "set_worker w p s = s\<lparr>flat_workers := (flat_workers s)[w := p]\<rparr>"

fun multiplex_step :: "expand_act \<Rightarrow> expansion \<Rightarrow> expansion option" where
  "multiplex_step MuxReceive s =
     (case mux s of
        Receiving \<Rightarrow>
          (case cvs s of
             cv # rest \<Rightarrow> Some (s\<lparr>cvs := rest, mux := FirstSend cv\<rparr>)
           | [] \<Rightarrow> if cvs_closed s then Some (s\<lparr>mux := MuxReturned\<rparr>) else None)
      | _ \<Rightarrow> None)"
| "multiplex_step MuxCancelled s =
     (if mux s \<noteq> MuxReturned \<and> \<not> ctx_alive s
      then Some (s\<lparr>mux := MuxReturned, outer_error := first_error (outer_error s) ''context canceled''\<rparr>) else None)"
| "multiplex_step ReceiveCustomvar s =
     (case mux s of
        FirstSend cv \<Rightarrow> Some (s\<lparr>customvars := customvars s @ [cv], mux := SecondSend cv\<rparr>)
      | _ \<Rightarrow> None)"
| "multiplex_step _ s = None"

fun flatten_step :: "'json cv_fns \<Rightarrow> expand_act \<Rightarrow> expansion \<Rightarrow> expansion option" where
  "flatten_step fns (WorkerReceive w) s =
     (case (mux s, worker_at s w) of
        (SecondSend cv, Ranging) \<Rightarrow>
          Some (case flattened fns cv of
             Inl e \<Rightarrow> set_worker w WorkerReturned (s\<lparr>mux := Receiving, inner_error := first_error (inner_error s) e\<rparr>)
           | Inr (customvar, entries) \<Rightarrow> set_worker w (send_all customvar entries) (s\<lparr>mux := Receiving\<rparr>))
      | _ \<Rightarrow> None)"
| "flatten_step fns (ReceiveFlat w i) s =
     (case worker_at s w of
        Sending customvar entries \<Rightarrow>
          if i < length entries then
            Some (set_worker w (send_all customvar (drop_nth i entries))
              (s\<lparr>flatCustomvars := flatCustomvars s @ [flat_row fns customvar (entries ! i)]\<rparr>))
          else None
      | _ \<Rightarrow> None)"
| "flatten_step fns (WorkerCancelled w) s =
     (case worker_at s w of
        Sending customvar entries \<Rightarrow>
          if inner_error s \<noteq> None \<or> \<not> ctx_alive s then
            Some (set_worker w WorkerReturned (s\<lparr>inner_error := first_error (inner_error s) ''context canceled''\<rparr>))
          else None
      | _ \<Rightarrow> None)"
| "flatten_step fns (RangeEnds w) s =
     (if worker_at s w = Ranging \<and> mux s = MuxReturned then Some (set_worker w WorkerReturned s) else None)"
| "flatten_step fns InnerWait s =
     (if \<not> flatten_returned s \<and> list_all (\<lambda>w. w = WorkerReturned) (flat_workers s) then
        Some (case inner_error s of
            None \<Rightarrow> s\<lparr>flatten_returned := True\<rparr>
          | Some e \<Rightarrow> s\<lparr>flatten_returned := True, outer_error := first_error (outer_error s) e, ctx_alive := False\<rparr>)
      else None)"
| "flatten_step fns _ s = None"

fun expand_step :: "'json cv_fns \<Rightarrow> expand_act \<Rightarrow> expansion \<Rightarrow> expansion option" where
  "expand_step fns (Arrive cv) s = (if cvs_closed s then None else Some (s\<lparr>cvs := cvs s @ [cv]\<rparr>))"
| "expand_step fns CloseCvs s = (if cvs_closed s then None else Some (s\<lparr>cvs_closed := True\<rparr>))"
| "expand_step fns CancelCtx s = Some (s\<lparr>ctx_alive := False\<rparr>)"
| "expand_step fns MuxReceive s = multiplex_step MuxReceive s"
| "expand_step fns MuxCancelled s = map_option (\<lambda>s'. s'\<lparr>ctx_alive := False\<rparr>) (multiplex_step MuxCancelled s)"
| "expand_step fns ReceiveCustomvar s = multiplex_step ReceiveCustomvar s"
| "expand_step fns (WorkerReceive w) s = flatten_step fns (WorkerReceive w) s"
| "expand_step fns (ReceiveFlat w i) s = flatten_step fns (ReceiveFlat w i) s"
| "expand_step fns (WorkerCancelled w) s = flatten_step fns (WorkerCancelled w) s"
| "expand_step fns (RangeEnds w) s = flatten_step fns (RangeEnds w) s"
| "expand_step fns InnerWait s = flatten_step fns InnerWait s"

fun expand_run :: "'json cv_fns \<Rightarrow> expand_act list \<Rightarrow> expansion \<Rightarrow> expansion option" where
  "expand_run fns [] s = Some s"
| "expand_run fns (a # as) s = (case expand_step fns a s of None \<Rightarrow> None | Some s' \<Rightarrow> expand_run fns as s')"

text \<open>Both goroutines of the outer group have returned: the channel of errors gets its error, if any.\<close>

definition expand_over :: "expansion \<Rightarrow> bool" where
  "expand_over s \<longleftrightarrow> mux s = MuxReturned \<and> flatten_returned s"

section \<open>The tables\<close>

text \<open>The upserts of the runtime updates, in the order of the channel.\<close>

definition upsert_flat :: "CustomvarFlat list \<Rightarrow> (binary \<rightharpoonup> CustomvarFlat) \<Rightarrow> (binary \<rightharpoonup> CustomvarFlat)" where
  "upsert_flat rows db = fold (\<lambda>r db. db(cvf_Id r \<mapsto> r)) rows db"

end
