(* ===== verification/Customvars_Props.thy ===== *)
theory Customvars_Props
  imports Customvars "HOL-Library.Sublist"
begin

text \<open>
  Properties of the expansion of custom variables: nothing is lost or made up, whatever the interleaving
  of the workers, and when an error gets out.
\<close>

section \<open>What is under way\<close>

definition flat_rows :: "'json cv_fns \<Rightarrow> cv_entity \<Rightarrow> CustomvarFlat list" where
  "flat_rows fns cv = (case flattened fns cv of Inl e \<Rightarrow> [] | Inr (customvar, entries) \<Rightarrow> map (flat_row fns customvar) entries)"

definition all_flat :: "'json cv_fns \<Rightarrow> cv_entity list \<Rightarrow> CustomvarFlat multiset" where
  "all_flat fns es = mset (concat (map (flat_rows fns) es))"

fun worker_rows :: "'json cv_fns \<Rightarrow> flat_worker \<Rightarrow> CustomvarFlat multiset" where
  "worker_rows fns (Sending customvar entries) = mset (map (flat_row fns customvar) entries)"
| "worker_rows fns Ranging = {#}"
| "worker_rows fns WorkerReturned = {#}"

definition workers_rows :: "'json cv_fns \<Rightarrow> expansion \<Rightarrow> CustomvarFlat multiset" where
  "workers_rows fns s = sum_list (map (worker_rows fns) (flat_workers s))"

fun first_pending :: "multiplexer \<Rightarrow> cv_entity list" where
  "first_pending (FirstSend cv) = [cv]"
| "first_pending (SecondSend cv) = []"
| "first_pending Receiving = []"
| "first_pending MuxReturned = []"

fun second_pending :: "multiplexer \<Rightarrow> cv_entity list" where
  "second_pending (SecondSend cv) = [cv]"
| "second_pending (FirstSend cv) = []"
| "second_pending Receiving = []"
| "second_pending MuxReturned = []"

fun arrivals :: "expand_act list \<Rightarrow> cv_entity list" where
  "arrivals [] = []"
| "arrivals (a # as) = (case a of Arrive cv \<Rightarrow> [cv] | _ \<Rightarrow> []) @ arrivals as"

lemma all_flat_simps [simp]:
  "all_flat fns [] = {#}" "all_flat fns (cv # rest) = mset (flat_rows fns cv) + all_flat fns rest"
  "all_flat fns (xs @ ys) = all_flat fns xs + all_flat fns ys"
  by (simp_all add: all_flat_def)

lemma sum_list_update_mset:
  fixes f :: "'a \<Rightarrow> 'b multiset"
  shows "i < length xs \<Longrightarrow> sum_list (map f (xs[i := y])) + f (xs ! i) = sum_list (map f xs) + f y"
proof (induction xs arbitrary: i)
  case (Cons x xs)
  then show ?case by (cases i) (simp_all add: ac_simps)
qed simp

lemma worker_at_less: "worker_at s w = p \<Longrightarrow> p \<noteq> WorkerReturned \<Longrightarrow> w < length (flat_workers s) \<and> flat_workers s ! w = p"
  by (auto simp: worker_at_def split: if_splits)

lemma workers_rows_set:
  assumes "worker_at s w = p" "p \<noteq> WorkerReturned" "flat_workers s' = flat_workers s"
  shows "workers_rows fns (set_worker w q s') + worker_rows fns p = workers_rows fns s + worker_rows fns q"
  using worker_at_less [OF assms(1,2)] sum_list_update_mset [of w "flat_workers s" "worker_rows fns" q] assms(3)
  by (simp add: workers_rows_def set_worker_def)

lemma set_worker_fields [simp]:
  "mux (set_worker w p s) = mux s" "cvs (set_worker w p s) = cvs s" "cvs_closed (set_worker w p s) = cvs_closed s"
  "customvars (set_worker w p s) = customvars s" "flatCustomvars (set_worker w p s) = flatCustomvars s"
  "inner_error (set_worker w p s) = inner_error s" "outer_error (set_worker w p s) = outer_error s"
  "flatten_returned (set_worker w p s) = flatten_returned s" "ctx_alive (set_worker w p s) = ctx_alive s"
  "flat_workers (set_worker w p s) = (flat_workers s)[w := p]"
  by (simp_all add: set_worker_def)

lemma worker_rows_send_all [simp]: "worker_rows fns (send_all cv entries) = mset (map (flat_row fns cv) entries)"
  by (simp add: send_all_def)

lemma mset_drop_nth:
  "i < length xs \<Longrightarrow> mset (map f xs) = {#f (xs ! i)#} + mset (map f (drop_nth i xs))"
  by (subst (1) id_take_nth_drop [of i xs]) (simp_all add: drop_nth_def)

lemma first_error_Some [simp]: "first_error err e \<noteq> None" "first_error None e = Some e"
  by (simp_all add: first_error_def split: option.splits)

section \<open>The invariant\<close>

definition clean :: "expansion \<Rightarrow> bool" where
  "clean s \<longleftrightarrow> outer_error s = None \<and> inner_error s = None"

text \<open>What the multiplexer has forwarded, what has become of it, and what the end of the inner group means.\<close>

definition mux_inv :: "cv_entity list \<Rightarrow> expansion \<Rightarrow> bool" where
  "mux_inv arrived s \<longleftrightarrow> prefix (customvars s) arrived \<and>
     (mux s \<noteq> MuxReturned \<or> clean s \<longrightarrow> customvars s @ first_pending (mux s) @ cvs s = arrived) \<and>
     (mux s = MuxReturned \<and> clean s \<longrightarrow> cvs s = [] \<and> cvs_closed s)"

definition in_flight :: "'json cv_fns \<Rightarrow> expansion \<Rightarrow> CustomvarFlat multiset" where
  "in_flight fns s = mset (flatCustomvars s) + workers_rows fns s + all_flat fns (second_pending (mux s))"

definition rows_inv :: "'json cv_fns \<Rightarrow> expansion \<Rightarrow> bool" where
  "rows_inv fns s \<longleftrightarrow> in_flight fns s \<subseteq># all_flat fns (customvars s) \<and>
     (clean s \<longrightarrow> in_flight fns s = all_flat fns (customvars s))"

definition end_inv :: "expansion \<Rightarrow> bool" where
  "end_inv s \<longleftrightarrow> (flatten_returned s \<and> outer_error s = None \<longrightarrow> inner_error s = None) \<and>
     (flatten_returned s \<longrightarrow> list_all (\<lambda>w. w = WorkerReturned) (flat_workers s))"

lemma start_inv: "mux_inv [] (ExpandCustomvars n)" "rows_inv fns (ExpandCustomvars n)" "end_inv (ExpandCustomvars n)"
proof -
  have "sum_list (map (worker_rows fns) (replicate n Ranging)) = {#}" by (induction n) simp_all
  then show "rows_inv fns (ExpandCustomvars n)"
    by (simp add: rows_inv_def in_flight_def ExpandCustomvars_def workers_rows_def)
qed (simp_all add: mux_inv_def end_inv_def ExpandCustomvars_def)

lemma workers_rows_frame: "flat_workers s' = flat_workers s \<Longrightarrow> workers_rows fns s' = workers_rows fns s"
  by (simp add: workers_rows_def)

text \<open>What the steps of the multiplexer and those of the flattening leave alone.\<close>

lemma flatten_step_cases:
  assumes "flatten_step fns a s = Some s'"
  shows "customvars s' = customvars s \<and> cvs s' = cvs s \<and> cvs_closed s' = cvs_closed s \<and>
    (mux s' = mux s \<or> (\<exists>cv. mux s = SecondSend cv) \<and> mux s' = Receiving) \<and> (clean s' \<longrightarrow> clean s)"
  using assms
  by (cases a) (auto simp: clean_def split: multiplexer.splits flat_worker.splits if_splits sum.splits option.splits)

lemma flatten_step_mux_inv:
  assumes "mux_inv arrived s" "flatten_step fns a s = Some s'"
  shows "mux_inv arrived s'"
  using assms(1) flatten_step_cases [OF assms(2)] by (auto simp: mux_inv_def)

lemma multiplex_step_mux_inv:
  assumes "mux_inv arrived s" "multiplex_step a s = Some s'"
  shows "mux_inv arrived s'"
proof (cases a)
  case MuxReceive
  then show ?thesis
    using assms by (auto simp: mux_inv_def clean_def split: multiplexer.splits list.splits if_splits)
next
  case MuxCancelled
  then have "mux s \<noteq> MuxReturned" "s' = s\<lparr>mux := MuxReturned, outer_error := first_error (outer_error s) ''context canceled''\<rparr>"
    using assms(2) by (auto split: if_splits)
  then show ?thesis using assms(1) by (simp add: mux_inv_def clean_def)
next
  case ReceiveCustomvar
  then obtain cv where cv: "mux s = FirstSend cv" "s' = s\<lparr>customvars := customvars s @ [cv], mux := SecondSend cv\<rparr>"
    using assms(2) by (auto split: multiplexer.splits)
  then have "arrived = (customvars s @ [cv]) @ cvs s" using assms(1) by (simp add: mux_inv_def)
  then show ?thesis using cv by (simp add: mux_inv_def)
qed (use assms in simp_all)

lemma multiplex_step_rows_inv:
  assumes "rows_inv fns s" "multiplex_step a s = Some s'"
  shows "rows_inv fns s'"
proof (cases a)
  case MuxReceive
  then have "in_flight fns s' = in_flight fns s \<and> customvars s' = customvars s \<and> clean s' = clean s"
    using assms(2) by (auto simp: in_flight_def workers_rows_def clean_def split: multiplexer.splits list.splits if_splits)
  then show ?thesis using assms(1) by (simp add: rows_inv_def)
next
  case MuxCancelled
  then have s': "s' = s\<lparr>mux := MuxReturned, outer_error := first_error (outer_error s) ''context canceled''\<rparr>"
    using assms(2) by (auto split: if_splits)
  have "in_flight fns s' \<subseteq># in_flight fns s" by (simp add: s' in_flight_def workers_rows_def)
  then show ?thesis using assms(1) subset_mset.order_trans by (auto simp: rows_inv_def clean_def s')
next
  case ReceiveCustomvar
  then obtain cv where cv: "mux s = FirstSend cv" "s' = s\<lparr>customvars := customvars s @ [cv], mux := SecondSend cv\<rparr>"
    using assms(2) by (auto split: multiplexer.splits)
  then have "in_flight fns s' = in_flight fns s + mset (flat_rows fns cv) \<and>
      all_flat fns (customvars s') = all_flat fns (customvars s) + mset (flat_rows fns cv) \<and> clean s' = clean s"
    by (simp add: in_flight_def workers_rows_def clean_def)
  then show ?thesis using assms(1) by (simp add: rows_inv_def subset_mset.add_right_mono)
qed (use assms in simp_all)

lemma flatten_step_rows:
  assumes "flatten_step fns a s = Some s'"
  shows "in_flight fns s' \<subseteq># in_flight fns s \<and> (clean s' \<longrightarrow> in_flight fns s' = in_flight fns s)"
  using assms
proof (cases a)
  case (WorkerReceive w)
  then obtain cv where cv: "mux s = SecondSend cv" "worker_at s w = Ranging"
    using assms by (auto split: multiplexer.splits flat_worker.splits)
  note rows = workers_rows_set [OF cv(2)]
  show ?thesis
  proof (cases "flattened fns cv")
    case (Inl e)
    then have s': "s' = set_worker w WorkerReturned (s\<lparr>mux := Receiving, inner_error := first_error (inner_error s) e\<rparr>)"
      using assms WorkerReceive cv by simp
    have "workers_rows fns s' = workers_rows fns s" unfolding s' using rows [of _ fns WorkerReturned] by simp
    then have "in_flight fns s' \<subseteq># in_flight fns s" by (simp add: in_flight_def s' cv)
    moreover have "\<not> clean s'" by (simp add: s' clean_def)
    ultimately show ?thesis by simp
  next
    case (Inr r)
    obtain customvar entries where r: "r = (customvar, entries)" by force
    have s': "s' = set_worker w (send_all customvar entries) (s\<lparr>mux := Receiving\<rparr>)"
      using assms WorkerReceive cv Inr r by simp
    have "workers_rows fns s' = workers_rows fns s + mset (flat_rows fns cv)"
      unfolding s' using rows [of _ fns "send_all customvar entries"] by (simp add: flat_rows_def Inr r)
    then show ?thesis by (simp add: in_flight_def s' cv)
  qed
next
  case (ReceiveFlat w i)
  then obtain customvar entries where w: "worker_at s w = Sending customvar entries" "i < length entries"
    and s': "s' = set_worker w (send_all customvar (drop_nth i entries))
      (s\<lparr>flatCustomvars := flatCustomvars s @ [flat_row fns customvar (entries ! i)]\<rparr>)"
    using assms by (auto split: flat_worker.splits if_splits)
  have "workers_rows fns s' + {#flat_row fns customvar (entries ! i)#} = workers_rows fns s"
    unfolding s' using workers_rows_set [OF w(1), of _ fns "send_all customvar (drop_nth i entries)"]
      mset_drop_nth [OF w(2), of "flat_row fns customvar"] by (simp add: ac_simps)
  then show ?thesis by (simp add: in_flight_def s' ac_simps)
next
  case (WorkerCancelled w)
  then obtain customvar entries where w: "worker_at s w = Sending customvar entries"
    and s': "s' = set_worker w WorkerReturned (s\<lparr>inner_error := first_error (inner_error s) ''context canceled''\<rparr>)"
    using assms by (auto split: flat_worker.splits if_splits)
  have "workers_rows fns s = workers_rows fns s' + worker_rows fns (Sending customvar entries)"
    unfolding s' using workers_rows_set [OF w, of "s\<lparr>inner_error := first_error (inner_error s) ''context canceled''\<rparr>" fns WorkerReturned]
    by simp
  then have "workers_rows fns s' \<subseteq># workers_rows fns s" by simp
  then show ?thesis by (simp add: in_flight_def s' clean_def)
next
  case (RangeEnds w)
  then have w: "worker_at s w = Ranging" "s' = set_worker w WorkerReturned s" using assms by (auto split: if_splits)
  have "workers_rows fns s' = workers_rows fns s"
    unfolding w(2) using workers_rows_set [OF w(1), of _ fns WorkerReturned] by simp
  then show ?thesis by (simp add: in_flight_def w(2))
next
  case InnerWait
  then show ?thesis using assms by (auto simp: in_flight_def workers_rows_def split: if_splits option.splits)
qed simp_all

lemma flatten_step_rows_inv:
  assumes "rows_inv fns s" "flatten_step fns a s = Some s'"
  shows "rows_inv fns s'"
  using assms(1) flatten_step_rows [OF assms(2)] flatten_step_cases [OF assms(2)] subset_mset.order_trans
  by (auto simp: rows_inv_def)

lemma worker_at_returned: "list_all (\<lambda>w. w = WorkerReturned) (flat_workers s) \<Longrightarrow> worker_at s w = WorkerReturned"
  by (auto simp: worker_at_def list_all_length)

lemma flatten_step_end_inv:
  assumes "end_inv s" "flatten_step fns a s = Some s'"
  shows "end_inv s'"
proof (cases "flatten_returned s")
  case True
  then have "worker_at s w = WorkerReturned" for w using assms(1) worker_at_returned by (simp add: end_inv_def)
  then show ?thesis using assms(2) True by (cases a) (auto split: multiplexer.splits)
next
  case False
  then show ?thesis
    using assms(2)
    by (cases a) (auto simp: end_inv_def split: multiplexer.splits flat_worker.splits if_splits sum.splits option.splits)
qed

lemma multiplex_step_end_inv: "end_inv s \<Longrightarrow> multiplex_step a s = Some s' \<Longrightarrow> end_inv s'"
  by (cases a) (auto simp: end_inv_def split: multiplexer.splits list.splits if_splits)

definition expand_inv :: "'json cv_fns \<Rightarrow> cv_entity list \<Rightarrow> expansion \<Rightarrow> bool" where
  "expand_inv fns arrived s \<longleftrightarrow> mux_inv arrived s \<and> rows_inv fns s \<and> end_inv s"

lemma expand_inv_frame:
  assumes "expand_inv fns arrived s" "mux s' = mux s" "cvs s' = cvs s" "customvars s' = customvars s"
    "flat_workers s' = flat_workers s" "flatCustomvars s' = flatCustomvars s" "inner_error s' = inner_error s"
    "flatten_returned s' = flatten_returned s" "outer_error s' = outer_error s" "cvs_closed s \<Longrightarrow> cvs_closed s'"
  shows "expand_inv fns arrived s'"
  using assms
  by (auto simp: expand_inv_def mux_inv_def rows_inv_def end_inv_def in_flight_def workers_rows_def clean_def)

lemma flatten_step_inv: "expand_inv fns arrived s \<Longrightarrow> flatten_step fns a s = Some s' \<Longrightarrow> expand_inv fns arrived s'"
  using flatten_step_mux_inv flatten_step_rows_inv flatten_step_end_inv unfolding expand_inv_def by blast

lemma multiplex_step_inv: "expand_inv fns arrived s \<Longrightarrow> multiplex_step a s = Some s' \<Longrightarrow> expand_inv fns arrived s'"
  using multiplex_step_mux_inv multiplex_step_rows_inv multiplex_step_end_inv unfolding expand_inv_def by blast

lemma expand_step_inv:
  assumes inv: "expand_inv fns arrived s" and step: "expand_step fns a s = Some s'"
  shows "expand_inv fns (arrived @ arrivals [a]) s'"
proof (cases a)
  case (Arrive cv)
  then have s': "s' = s\<lparr>cvs := cvs s @ [cv]\<rparr>" "\<not> cvs_closed s" using step by (auto split: if_splits)
  have "clean s' = clean s" by (simp add: s' clean_def)
  then show ?thesis
    using inv s'(2) Arrive
    by (auto simp: expand_inv_def mux_inv_def rows_inv_def end_inv_def in_flight_def workers_rows_def s'(1) intro: prefix_prefix)
next
  case MuxCancelled
  then obtain s1 where s1: "multiplex_step MuxCancelled s = Some s1" and s': "s' = s1\<lparr>ctx_alive := False\<rparr>"
    using step by (auto simp del: multiplex_step.simps)
  have "expand_inv fns arrived s'"
    unfolding s' by (rule expand_inv_frame [OF multiplex_step_inv [OF inv s1]]) simp_all
  then show ?thesis using MuxCancelled by simp
next
  case CloseCvs
  then have "s' = s\<lparr>cvs_closed := True\<rparr>" using step by (simp split: if_split_asm)
  then show ?thesis using expand_inv_frame [OF inv, of s'] CloseCvs by simp
next
  case CancelCtx
  then show ?thesis using expand_inv_frame [OF inv, of s'] step by auto
qed (use step multiplex_step_inv [OF inv] flatten_step_inv [OF inv] in
  \<open>simp_all del: multiplex_step.simps flatten_step.simps\<close>)

lemma expand_run_inv:
  "expand_inv fns arrived s \<Longrightarrow> expand_run fns as s = Some s' \<Longrightarrow> expand_inv fns (arrived @ arrivals as) s'"
proof (induction as arbitrary: arrived s)
  case (Cons a as)
  then obtain s1 where s1: "expand_step fns a s = Some s1" "expand_run fns as s1 = Some s'" by (auto split: option.splits)
  show ?case using Cons.IH [OF expand_step_inv [OF Cons.prems(1) s1(1)] s1(2)] by simp
qed simp

lemma reachable_expand_inv: "expand_run fns as (ExpandCustomvars n) = Some s \<Longrightarrow> expand_inv fns (arrivals as) s"
proof -
  have "expand_inv fns [] (ExpandCustomvars n)" by (simp add: expand_inv_def start_inv)
  then show "expand_run fns as (ExpandCustomvars n) = Some s \<Longrightarrow> expand_inv fns (arrivals as) s"
    by (drule expand_run_inv) simp_all
qed

lemma workers_rows_returned: "list_all (\<lambda>w. w = WorkerReturned) (flat_workers s) \<Longrightarrow> workers_rows fns s = {#}"
proof -
  have "list_all (\<lambda>w. w = WorkerReturned) ws \<Longrightarrow> sum_list (map (worker_rows fns) ws) = {#}" for ws
    by (induction ws) auto
  then show "list_all (\<lambda>w. w = WorkerReturned) (flat_workers s) \<Longrightarrow> workers_rows fns s = {#}"
    by (simp add: workers_rows_def)
qed

lemma expanded_all:
  assumes "expand_run fns as (ExpandCustomvars n) = Some s" "expand_over s" "outer_error s = None"
  shows "customvars s = arrivals as" "mset (flatCustomvars s) = all_flat fns (arrivals as)"
proof -
  have inv: "mux_inv (arrivals as) s" "rows_inv fns s" "end_inv s"
    using reachable_expand_inv [OF assms(1)] by (simp_all add: expand_inv_def)
  have over: "mux s = MuxReturned" "flatten_returned s" using assms(2) by (simp_all add: expand_over_def)
  then have clean: "clean s" using inv(3) assms(3) by (simp add: end_inv_def clean_def)
  show all: "customvars s = arrivals as" using inv(1) clean over by (auto simp: mux_inv_def)
  have "workers_rows fns s = {#}"
    by (rule workers_rows_returned) (use inv(3) over(2) in \<open>simp add: end_inv_def\<close>)
  then show "mset (flatCustomvars s) = all_flat fns (arrivals as)"
    using inv(2) clean over(1) all by (simp add: rows_inv_def in_flight_def)
qed

section \<open>The table of flat custom variables\<close>

lemma upsert_flat_Some: "upsert_flat rows db k = (case find (\<lambda>r. cvf_Id r = k) (rev rows) of None \<Rightarrow> db k | Some r \<Rightarrow> Some r)"
  by (induction rows rule: rev_induct) (simp_all add: upsert_flat_def)

lemma find_is: "find P xs = Some x \<Longrightarrow> x \<in> set xs \<and> P x"
  by (induction xs) (auto split: if_splits)

lemma find_unique:
  assumes "set xs = set ys" "\<And>x y. x \<in> set xs \<Longrightarrow> y \<in> set xs \<Longrightarrow> P x \<Longrightarrow> P y \<Longrightarrow> x = y"
  shows "find P xs = find P ys"
proof (cases "find P xs")
  case None
  then have "find P ys = None" using assms(1) by (simp add: find_None_iff)
  then show ?thesis using None by simp
next
  case (Some x)
  then have x: "x \<in> set xs" "P x" using find_is by metis+
  then have "find P ys \<noteq> None" using assms(1) by (auto simp: find_None_iff)
  then obtain y where y: "find P ys = Some y" by auto
  then have "y \<in> set xs" "P y" using assms(1) find_is by metis+
  then have "x = y" using assms(2) x by blast
  then show ?thesis using Some y by simp
qed

section \<open>Properties\<close>

text \<open>When the expansion of custom variables ends without an error, every custom variable has been
  forwarded, in order, and the table of flat ones contains exactly those of all of them, however the
  workers interleaved.\<close>

theorem customvars_expanded:
  assumes "expand_run fns as (ExpandCustomvars numCPU) = Some s" "expand_over s" "outer_error s = None"
    "inj_on cvf_Id (set (concat (map (flat_rows fns) (arrivals as))))"
  shows "customvars s = arrivals as \<and>
    upsert_flat (flatCustomvars s) Map.empty = (\<lambda>k. find (\<lambda>r. cvf_Id r = k) (concat (map (flat_rows fns) (arrivals as))))"
proof -
  let ?all = "concat (map (flat_rows fns) (arrivals as))"
  have "set (flatCustomvars s) = set ?all"
    by (rule mset_eq_setD) (simp only: expanded_all(2) [OF assms(1,2,3)] all_flat_def)
  then have rows: "set (rev (flatCustomvars s)) = set ?all" by (simp only: set_rev)
  have "find (\<lambda>r. cvf_Id r = k) (rev (flatCustomvars s)) = find (\<lambda>r. cvf_Id r = k) ?all" for k
  proof (rule find_unique [OF rows])
    show "x = y" if "x \<in> set (rev (flatCustomvars s))" "y \<in> set (rev (flatCustomvars s))" "cvf_Id x = k" "cvf_Id y = k" for x y
      by (rule inj_onD [OF assms(4)]) (use that in \<open>simp_all only: rows\<close>)
  qed
  then have "upsert_flat (flatCustomvars s) Map.empty k = find (\<lambda>r. cvf_Id r = k) ?all" for k
    by (simp add: upsert_flat_Some split: option.split)
  then show ?thesis using expanded_all(1) [OF assms(1,2,3)] by auto
qed

text \<open>At any time, errors and cancellation included, the custom variables forwarded are the first ones
  that arrived, and each flat one sent belongs to one that was forwarded before, none twice.\<close>

theorem flat_customvars_follow:
  assumes "expand_run fns as (ExpandCustomvars numCPU) = Some s"
  shows "prefix (customvars s) (arrivals as) \<and> mset (flatCustomvars s) \<subseteq># all_flat fns (customvars s)"
proof -
  have inv: "mux_inv (arrivals as) s" "rows_inv fns s"
    using reachable_expand_inv [OF assms] by (simp_all add: expand_inv_def)
  have "mset (flatCustomvars s) \<subseteq># in_flight fns s" by (simp add: in_flight_def)
  then show ?thesis
    using inv subset_mset.order_trans by (auto simp: mux_inv_def rows_inv_def)
qed

text \<open>The error of a worker, a value that is no JSON, does not get out as long as another worker waits
  for a custom variable: nothing happens until more of them arrive, the sender closes its channel or
  somebody else cancels.\<close>

theorem flatten_error_delayed:
  assumes "UnmarshalJSON fns (cv_Value cv) = Inl e"
  shows "\<exists>s. expand_run fns [Arrive (ACustomvar cv), MuxReceive, ReceiveCustomvar, WorkerReceive 0] (ExpandCustomvars (n + 2)) = Some s \<and>
    inner_error s = Some e \<and> outer_error s = None \<and> ctx_alive s \<and>
    (\<forall>a. expand_step fns a s = None \<or> a = CloseCvs \<or> a = CancelCtx \<or> (\<exists>cv'. a = Arrive cv'))"
proof -
  let ?s = "\<lparr>cvs = [], cvs_closed = False, mux = Receiving, customvars = [ACustomvar cv],
     flat_workers = WorkerReturned # replicate (n + 1) Ranging, flatCustomvars = [], inner_error = Some e,
     flatten_returned = False, outer_error = None, ctx_alive = True\<rparr>"
  have run: "expand_run fns [Arrive (ACustomvar cv), MuxReceive, ReceiveCustomvar, WorkerReceive 0] (ExpandCustomvars (n + 2)) = Some ?s"
    using assms by (simp add: ExpandCustomvars_def worker_at_def set_worker_def flattened_def)
  have w: "worker_at ?s w \<noteq> Sending customvar entries" for w customvar entries
    by (auto simp: worker_at_def nth_Cons split: nat.splits)
  have "expand_step fns a ?s = None \<or> a = CloseCvs \<or> a = CancelCtx \<or> (\<exists>cv'. a = Arrive cv')" for a
    using w by (cases a) (auto split: flat_worker.splits)
  then show ?thesis using run by auto
qed

section \<open>Witnesses\<close>

definition sample_cv_fns :: "string cv_fns" where
  "sample_cv_fns = \<lparr>UnmarshalJSON = (\<lambda>s. if s = [] then Inl ''bad'' else Inr s), Flatten = (\<lambda>v n. [(n, MakeString v)]),
     Checksum = (\<lambda>_. None), PackChecksum = (\<lambda>e i n v. i)\<rparr>"

definition sample_cv :: "8 word \<Rightarrow> string \<Rightarrow> Customvar" where
  "sample_cv i v = \<lparr>cv_Id = Some [i], cv_EnvironmentId = None, cv_Name = ''n'', cv_Value = v\<rparr>"

definition sample_run :: "expand_act list" where
  "sample_run = [Arrive (ACustomvar (sample_cv 1 ''a'')), MuxReceive, ReceiveCustomvar, WorkerReceive 0, ReceiveFlat 0 0,
     CloseCvs, MuxReceive, RangeEnds 0, InnerWait]"

lemma sample_run_over:
  "\<exists>s. expand_run sample_cv_fns sample_run (ExpandCustomvars 1) = Some s \<and> expand_over s \<and> outer_error s = None"
  by (simp add: sample_run_def ExpandCustomvars_def worker_at_def set_worker_def flattened_def sample_cv_fns_def sample_cv_def
      send_all_def drop_nth_def expand_over_def)

theorem customvars_expanded_witness:
  "\<exists>s. expand_run sample_cv_fns sample_run (ExpandCustomvars 1) = Some s \<and> customvars s = arrivals sample_run"
proof -
  obtain s where s: "expand_run sample_cv_fns sample_run (ExpandCustomvars 1) = Some s" "expand_over s" "outer_error s = None"
    using sample_run_over by auto
  have "inj_on cvf_Id (set (concat (map (flat_rows sample_cv_fns) (arrivals sample_run))))"
    by (simp add: sample_run_def flat_rows_def flattened_def sample_cv_fns_def sample_cv_def)
  then show ?thesis using customvars_expanded [OF s] s(1) by auto
qed

theorem flat_customvars_follow_witness:
  "\<exists>s. expand_run sample_cv_fns (take 5 sample_run) (ExpandCustomvars 1) = Some s \<and> prefix (customvars s) (arrivals (take 5 sample_run))"
proof -
  have "\<exists>s. expand_run sample_cv_fns (take 5 sample_run) (ExpandCustomvars 1) = Some s"
    by (simp add: sample_run_def ExpandCustomvars_def worker_at_def set_worker_def flattened_def sample_cv_fns_def sample_cv_def
        send_all_def drop_nth_def)
  then show ?thesis using flat_customvars_follow by blast
qed

theorem flatten_error_delayed_witness:
  "\<exists>s. expand_run sample_cv_fns [Arrive (ACustomvar (sample_cv 1 [])), MuxReceive, ReceiveCustomvar, WorkerReceive 0] (ExpandCustomvars 2) = Some s \<and>
    outer_error s = None"
proof -
  have "UnmarshalJSON sample_cv_fns (cv_Value (sample_cv 1 [])) = Inl ''bad''" by (simp add: sample_cv_fns_def sample_cv_def)
  from flatten_error_delayed [OF this, of 0] show ?thesis unfolding add_0 by blast
qed

end
