(* ===== verification/Customvars_Sync.thy ===== *)
theory Customvars_Sync
  imports Customvars_Props Config_Sync Runtime_Updates
begin

text \<open>
  Where the custom variables go: \<open>SyncCustomvars\<close> of \<open>pkg/icingadb/sync.go\<close>, which computes a delta for
  each of the two tables, and \<open>prepareCustomVarsForSync\<close> of \<open>pkg/icingadb/runtime_updates.go\<close>, which upserts
  what the stream brings. \<open>cvColumns\<close> and \<open>flatColumns\<close> stand for the columns of the rows apart from the ID.
\<close>

section \<open>The initial synchronisation\<close>

definition customvar_entity :: "(Customvar \<Rightarrow> string) \<Rightarrow> Customvar \<Rightarrow> entity" where
  "customvar_entity cvColumns cv = EWithoutChecksum (cv_Id cv) (cvColumns cv)"

definition flat_entity :: "(CustomvarFlat \<Rightarrow> string) \<Rightarrow> CustomvarFlat \<Rightarrow> entity" where
  "flat_entity flatColumns r = EWithoutChecksum (cvf_Id r) (flatColumns r)"

text \<open>\<open>NewSyncSubject(NewCustomvar)\<close> and \<open>NewSyncSubject(NewCustomvarFlat)\<close>.\<close>

definition customvar_subject :: SyncSubject where
  "customvar_subject = NewSyncSubject (EWithoutChecksum None [])"

text \<open>One delta with its statements, for the events of its two channels.\<close>

definition delta_statements where
  "delta_statements order hmyield unhex unjson subj es =
     (case delta_run subj es of
        Some (Ok d) \<Rightarrow> Some (ApplyDelta order hmyield unhex unjson subj d)
      | Some (Err e) \<Rightarrow> Some (Err e)
      | Some (Panic p) \<Rightarrow> Some (Panic p)
      | None \<Rightarrow> None)"

text \<open>
  The statements for both tables: \<open>cvEvents\<close> and \<open>flatEvents\<close> interleave the rows of the table with what the
  expansion sends.
\<close>

definition SyncCustomvars where
  "SyncCustomvars order hmyield unhex unjson cvEvents flatEvents =
     (delta_statements order hmyield unhex unjson customvar_subject cvEvents,
      delta_statements order hmyield unhex unjson customvar_subject flatEvents)"

section \<open>Tables of rows without a checksum\<close>

fun plain_row :: "entity \<Rightarrow> bool" where
  "plain_row (EWithoutChecksum i x) = (i \<noteq> None)"
| "plain_row (EWithChecksum i c x) = False"
| "plain_row (ERedundancygroupState r) = False"
| "plain_row (EDependencyEdgeState e) = False"

definition plain_table :: "(bytes \<rightharpoonup> entity) \<Rightarrow> bool" where
  "plain_table db \<longleftrightarrow> (\<forall>k e. db k = Some e \<longrightarrow> id_key e = k \<and> plain_row e)"

text \<open>The IDs of Redis: new rows are created, known ones stay as they are, the others are deleted.\<close>

definition plain_after :: "(bytes \<rightharpoonup> entity) \<Rightarrow> entity list \<Rightarrow> bytes \<rightharpoonup> entity" where
  "plain_after db ds = (\<lambda>k. case by_id ds k of None \<Rightarrow> None | Some e \<Rightarrow> (case db k of None \<Rightarrow> Some e | Some r \<Rightarrow> Some r))"

lemma subject_simps [simp]:
  "withChecksum customvar_subject = False" "wants_update customvar_subject = False"
  "Entity customvar_subject = EWithoutChecksum None []"
  by (simp_all add: customvar_subject_def NewSyncSubject_def wants_update_def)

lemma plain_subject: "plain_row e \<Longrightarrow> of_subject customvar_subject e"
  by (cases e) (simp_all add: of_subject_def)

lemma plain_row_ID:
  "plain_row (customvar_entity cvColumns cv) \<longleftrightarrow> ID (customvar_entity cvColumns cv) \<noteq> None"
  "plain_row (flat_entity flatColumns r) \<longleftrightarrow> ID (flat_entity flatColumns r) \<noteq> None"
  by (simp_all add: customvar_entity_def flat_entity_def)

lemma without_checksum_subject: "of_subject customvar_subject (EWithoutChecksum i x)"
  by (simp add: of_subject_def)

lemma ApplyDelta_plain:
  assumes "update d = None"
  shows "ApplyDelta order hmyield unhex unjson customvar_subject d = ApplyDelta order hmyield' unhex' unjson' customvar_subject d"
  using assms by (simp add: ApplyDelta_def create_entities_of_def)

definition plain_unjson :: "string \<Rightarrow> entity \<Rightarrow> entity option" where
  "plain_unjson v e = Some (EWithoutChecksum None v)"

definition columns_of :: "entity \<Rightarrow> string" where
  "columns_of e = (case e of EWithoutChecksum i x \<Rightarrow> x | _ \<Rightarrow> [])"

definition plain_objs :: "entity list \<Rightarrow> bytes \<rightharpoonup> string" where
  "plain_objs ds = (\<lambda>k. map_option columns_of (by_id ds k))"

lemma plain_row_of:
  assumes "\<forall>e\<in>set ds. plain_row e" "k \<in> dom (plain_objs ds)"
  shows "by_id ds k = Some (row_of plain_unjson customvar_subject (plain_objs ds) k)"
proof -
  obtain e where e: "by_id ds k = Some e" using assms(2) by (auto simp: plain_objs_def)
  then have m: "e \<in> set ds" "id_key e = k" using by_id_SomeD by blast+
  then have "plain_row e" using assms(1) by blast
  then obtain x where "e = EWithoutChecksum (Some k) x"
    using m(2) by (cases e) (auto simp: bytes_of_def)
  then show ?thesis using e by (simp add: row_of_def plain_objs_def columns_of_def plain_unjson_def)
qed

lemma plain_reads:
  fixes order :: "bytes set \<Rightarrow> bytes list"
  assumes "\<forall>S. finite S \<longrightarrow> set (order S) = S \<and> distinct (order S)"
  shows "\<exists>(hmyield :: bytes list \<Rightarrow> (string \<times> string) list) hex unhex. reads_hash order hmyield hex unhex plain_unjson customvar_subject (plain_objs ds)"
proof -
  have "\<forall>b. sample_unhex (sample_hex b) = Some b"
    using sample_reads unfolding reads_hash_def by blast
  then show ?thesis
    using assms
    by (intro exI [of _ "\<lambda>ks. List.map_filter (\<lambda>k. map_option (Pair (sample_hex k)) (plain_objs ds k)) ks"]
        exI [of _ sample_hex] exI [of _ sample_unhex])
      (auto simp: reads_hash_def plain_unjson_def intro: without_checksum_subject)
qed

text \<open>What the statements of one delta do to a table, whatever they do not depend on.\<close>

lemma plain_sync:
  assumes order: "\<forall>S. finite S \<longrightarrow> set (order S) = S \<and> distinct (order S)"
    and db: "plain_table db" "distinct (map id_key as)" "by_id as = (\<lambda>k. map_option fingerprint_row (db k))"
    and ds: "\<forall>e\<in>set ds. plain_row e" "distinct (map id_key ds)"
    and es: "es \<in> shuffles (map Actual as @ [EndActual]) (map Desired ds @ [EndDesired])"
  shows "\<exists>ops. delta_statements order hmyield unhex unjson customvar_subject es = Some (Ok ops) \<and>
    (\<forall>xs. mset xs = mset (creates ops @ upserts ops @ deletes ops) \<longrightarrow> run_ops xs db = Ok (plain_after db ds))"
proof -
  obtain hm' :: "bytes list \<Rightarrow> (string \<times> string) list" and hex' unhex' where rh: "reads_hash order hm' hex' unhex' plain_unjson customvar_subject (plain_objs ds)"
    using plain_reads [OF order] by blast
  have inp: "sync_inputs plain_unjson customvar_subject (plain_objs ds) db as ds"
    using db ds plain_subject plain_row_of [OF ds(1)]
    by (auto simp: sync_inputs_def plain_table_def plain_objs_def dom_def)
  obtain d ops where d: "delta_run customvar_subject es = Some (Ok d)"
    "ApplyDelta order hm' unhex' plain_unjson customvar_subject d = Ok ops"
    "\<forall>xs. mset xs = mset (creates ops @ upserts ops @ deletes ops) \<longrightarrow>
      run_ops xs db = Ok (after_sync plain_unjson customvar_subject (plain_objs ds) db ds)"
    using sync_run [OF rh inp es] by blast
  have "\<forall>e\<in>set as. of_subject customvar_subject e"
  proof
    fix e assume "e \<in> set as"
    then obtain r where "by_id as (id_key e) = Some e" using by_id_mem [OF db(2)] by blast
    then obtain r where "db (id_key e) = Some r" "e = fingerprint_row r" using db(3) by auto
    then show "of_subject customvar_subject e" using db(1) plain_subject by (auto simp: plain_table_def)
  qed
  then have "delta_run customvar_subject es = Some (Ok (delta_spec customvar_subject (by_id as) (by_id ds)))"
    using db(2) ds plain_subject es by (intro delta_run_spec) auto
  then have "update d = None" using d(1) by (simp add: delta_spec_def)
  then have st: "delta_statements order hmyield unhex unjson customvar_subject es = Some (Ok ops)"
    using ApplyDelta_plain [of d order hmyield unhex unjson hm' unhex' plain_unjson] d(1,2)
    by (simp add: delta_statements_def)
  have "after_sync plain_unjson customvar_subject (plain_objs ds) db ds k = plain_after db ds k" for k
  proof (cases "by_id ds k")
    case None
    then show ?thesis by (simp add: after_sync_def plain_after_def plain_objs_def dom_def)
  next
    case (Some e)
    then have "k \<in> dom (plain_objs ds)" by (auto simp: plain_objs_def)
    then show ?thesis
      using Some plain_row_of [OF ds(1), of k]
      by (cases "db k") (simp_all add: after_sync_def plain_after_def up_to_date_def redis_row_def dom_def)
  qed
  then have "after_sync plain_unjson customvar_subject (plain_objs ds) db ds = plain_after db ds" by (rule ext)
  then show ?thesis using st d(3) by auto
qed

section \<open>Runtime updates\<close>

text \<open>
  The messages of the lane: \<open>structifyStream\<close> with the factory of custom variables. A delete is received
  and ignored, apart from a message in the log.
\<close>

datatype cv_op = CvUpsert Customvar | CvDelete

definition structify_customvar :: "((string \<rightharpoonup> any) \<Rightarrow> (string, Customvar) outcome) \<Rightarrow> xmessage \<Rightarrow> (string, cv_op) outcome" where
  "structify_customvar structifier message =
     bind_outcome (structifier (msg_Values message))
       (\<lambda>cv.
          case msg_Values message ''runtime_type'' of
            None \<Rightarrow> Err ''stream message missing 'runtime_type' key''
          | Some runtimeType \<Rightarrow>
              if runtimeType = AString ''upsert'' then Ok (CvUpsert cv)
              else if runtimeType = AString ''delete'' then Ok CvDelete
              else Err ''invalid runtime type'')"

text \<open>What is sent to the expansion for messages, up to the first that is malformed.\<close>

fun prepareCustomVarsForSync :: "((string \<rightharpoonup> any) \<Rightarrow> (string, Customvar) outcome) \<Rightarrow> xmessage list \<Rightarrow> Customvar list" where
  "prepareCustomVarsForSync structifier [] = []"
| "prepareCustomVarsForSync structifier (m # ms) =
     (case structify_customvar structifier m of
        Ok (CvUpsert cv) \<Rightarrow> cv # prepareCustomVarsForSync structifier ms
      | Ok CvDelete \<Rightarrow> prepareCustomVarsForSync structifier ms
      | Err e \<Rightarrow> []
      | Panic p \<Rightarrow> [])"

definition upsert_customvars :: "Customvar list \<Rightarrow> (binary \<rightharpoonup> Customvar) \<Rightarrow> (binary \<rightharpoonup> Customvar)" where
  "upsert_customvars cs db = fold (\<lambda>cv db. db(cv_Id cv \<mapsto> cv)) cs db"

text \<open>
  What the messages say, read off their fields: the custom variables of the upserts among the messages before the
  first one that has no valid custom variable or neither of the two types.
\<close>

definition well_formed_update :: "((string \<rightharpoonup> any) \<Rightarrow> (string, Customvar) outcome) \<Rightarrow> xmessage \<Rightarrow> bool" where
  "well_formed_update structifier m \<longleftrightarrow>
     (case structifier (msg_Values m) of Ok cv \<Rightarrow> True | Err e \<Rightarrow> False | Panic p \<Rightarrow> False) \<and>
     (msg_Values m ''runtime_type'' = Some (AString ''upsert'') \<or> msg_Values m ''runtime_type'' = Some (AString ''delete''))"

definition upserted :: "((string \<rightharpoonup> any) \<Rightarrow> (string, Customvar) outcome) \<Rightarrow> xmessage list \<Rightarrow> Customvar list" where
  "upserted structifier ms =
     concat (map (\<lambda>m. case structifier (msg_Values m) of Ok cv \<Rightarrow> [cv] | Err e \<Rightarrow> [] | Panic p \<Rightarrow> [])
       (filter (\<lambda>m. msg_Values m ''runtime_type'' = Some (AString ''upsert'')) (takeWhile (well_formed_update structifier) ms)))"

lemma prepare_upserted: "prepareCustomVarsForSync structifier ms = upserted structifier ms"
proof (induction ms)
  case (Cons m ms)
  show ?case
  proof (cases "structifier (msg_Values m)")
    case (Ok cv)
    then show ?thesis
      using Cons.IH by (auto simp: structify_customvar_def upserted_def well_formed_update_def split: option.splits)
  qed (simp_all add: structify_customvar_def upserted_def well_formed_update_def)
qed (simp add: upserted_def)

lemma upsert_customvars_last: "upsert_customvars cs Map.empty k = find (\<lambda>cv. cv_Id cv = k) (rev cs)"
  by (induction cs rule: rev_induct) (auto simp: upsert_customvars_def)

text \<open>The custom variables that have come out of the expansion, and when nothing is under way.\<close>

definition received :: "expansion \<Rightarrow> Customvar list" where
  "received s = concat (map (\<lambda>e. case e of ACustomvar cv \<Rightarrow> [cv] | OtherEntity \<Rightarrow> []) (customvars s))"

definition quiescent :: "expansion \<Rightarrow> bool" where
  "quiescent s \<longleftrightarrow> clean s \<and> mux s = Receiving \<and> cvs s = [] \<and> list_all (\<lambda>w. w = Ranging) (flat_workers s)"

lemma received_all: "customvars s = map ACustomvar cs \<Longrightarrow> received s = cs"
proof -
  have "concat (map (\<lambda>e. case e of ACustomvar cv \<Rightarrow> [cv] | OtherEntity \<Rightarrow> []) (map ACustomvar cs)) = cs" by (induction cs) auto
  then show "customvars s = map ACustomvar cs \<Longrightarrow> received s = cs" by (simp only: received_def)
qed

lemma quiescent_all:
  assumes "expand_run fns as (ExpandCustomvars n) = Some s" "quiescent s"
  shows "customvars s = arrivals as" "mset (flatCustomvars s) = all_flat fns (arrivals as)"
proof -
  have inv: "mux_inv (arrivals as) s" "rows_inv fns s"
    using reachable_expand_inv [OF assms(1)] by (simp_all add: expand_inv_def)
  show all: "customvars s = arrivals as" using inv(1) assms(2) by (simp add: mux_inv_def quiescent_def)
  have "list_all (\<lambda>w. w = Ranging) ws \<Longrightarrow> sum_list (map (worker_rows fns) ws) = {#}" for ws by (induction ws) auto
  then have "workers_rows fns s = {#}" using assms(2) by (simp add: workers_rows_def quiescent_def)
  then show "mset (flatCustomvars s) = all_flat fns (arrivals as)"
    using inv(2) assms(2) all by (simp add: rows_inv_def in_flight_def quiescent_def)
qed

lemma flat_table:
  assumes "mset rows = mset all" "inj_on cvf_Id (set all)"
  shows "upsert_flat rows Map.empty = (\<lambda>k. find (\<lambda>r. cvf_Id r = k) all)"
proof
  fix k
  have rows: "set (rev rows) = set all" using mset_eq_setD [OF assms(1)] by simp
  have "find (\<lambda>r. cvf_Id r = k) (rev rows) = find (\<lambda>r. cvf_Id r = k) all"
  proof (rule find_unique [OF rows])
    show "x = y" if "x \<in> set (rev rows)" "y \<in> set (rev rows)" "cvf_Id x = k" "cvf_Id y = k" for x y
      by (rule inj_onD [OF assms(2)]) (use that in \<open>simp_all only: rows\<close>)
  qed
  then show "upsert_flat rows Map.empty k = find (\<lambda>r. cvf_Id r = k) all"
    by (simp add: upsert_flat_Some split: option.split)
qed

lemma by_id_mset:
  assumes "mset es = mset es'" "distinct (map id_key es')"
  shows "by_id es = by_id es'" "distinct (map id_key es)"
proof -
  show d: "distinct (map id_key es)" using assms by (metis mset_eq_imp_distinct_iff mset_map)
  have s: "set es = set es'" by (rule mset_eq_setD [OF assms(1)])
  show "by_id es = by_id es'"
  proof
    fix k
    show "by_id es k = by_id es' k"
      using by_id_mem [OF d] by_id_mem [OF assms(2)] by_id_SomeD [of es k] by_id_SomeD [of es' k] s
      by (metis not_Some_eq)
  qed
qed

section \<open>Properties\<close>

text \<open>C9. The initial synchronisation of custom variables brings both tables in line with Redis: one row for
  each custom variable and each of its flat ones, however the workers and the channels interleave and in
  whatever order the statements are executed.\<close>

theorem SyncCustomvars_converges:
  assumes "expand_run fns acts (ExpandCustomvars numCPU) = Some s" "expand_over s" "outer_error s = None"
    "arrivals acts = map ACustomvar cs" "flats = concat (map (flat_rows fns) (arrivals acts))"
    "\<forall>e \<in> set (map (customvar_entity cvColumns) cs @ map (flat_entity flatColumns) flats). ID e \<noteq> None"
    "distinct (map id_key (map (customvar_entity cvColumns) cs))" "distinct (map id_key (map (flat_entity flatColumns) flats))"
    "\<forall>S. finite S \<longrightarrow> set (order S) = S \<and> distinct (order S)"
    "plain_table cvDb \<and> distinct (map id_key cvAs) \<and> by_id cvAs = (\<lambda>k. map_option fingerprint_row (cvDb k))"
    "plain_table flatDb \<and> distinct (map id_key flatAs) \<and> by_id flatAs = (\<lambda>k. map_option fingerprint_row (flatDb k))"
    "cvEvents \<in> shuffles (map Actual cvAs @ [EndActual]) (map Desired (map (customvar_entity cvColumns) (received s)) @ [EndDesired])"
    "flatEvents \<in> shuffles (map Actual flatAs @ [EndActual]) (map Desired (map (flat_entity flatColumns) (flatCustomvars s)) @ [EndDesired])"
  shows "\<exists>cvOps flatOps. SyncCustomvars order hmyield unhex unjson cvEvents flatEvents = (Some (Ok cvOps), Some (Ok flatOps)) \<and>
    (\<forall>xs. mset xs = mset (creates cvOps @ upserts cvOps @ deletes cvOps) \<longrightarrow>
      run_ops xs cvDb = Ok (plain_after cvDb (map (customvar_entity cvColumns) cs))) \<and>
    (\<forall>xs. mset xs = mset (creates flatOps @ upserts flatOps @ deletes flatOps) \<longrightarrow>
      run_ops xs flatDb = Ok (plain_after flatDb (map (flat_entity flatColumns) flats)))"
proof -
  let ?cvs = "map (customvar_entity cvColumns) cs" and ?flats = "map (flat_entity flatColumns) flats"
  let ?sent = "map (flat_entity flatColumns) (flatCustomvars s)"
  note all = expanded_all [OF assms(1,2,3)]
  have cs: "received s = cs" by (rule received_all) (simp only: all(1) assms(4))
  have m: "mset ?sent = mset ?flats" using all(2) assms(5) by (simp add: all_flat_def)
  have "\<forall>e\<in>set ?flats. plain_row e" using assms(6) by (auto simp del: not_None_eq simp: plain_row_ID)
  then have plain: "\<forall>e\<in>set ?cvs. plain_row e" "\<forall>e\<in>set ?sent. plain_row e"
    using assms(6) unfolding mset_eq_setD [OF m] by (auto simp del: not_None_eq simp: plain_row_ID)
  note flat_ids = by_id_mset [OF m assms(8)]
  have "plain_after flatDb ?sent = plain_after flatDb ?flats" by (simp add: plain_after_def flat_ids(1))
  then show ?thesis
    using plain_sync [OF assms(9) conjunct1 [OF assms(10)] conjunct1 [OF conjunct2 [OF assms(10)]] conjunct2 [OF conjunct2 [OF assms(10)]]
        plain(1) assms(7) assms(12) [unfolded cs], of hmyield unhex unjson]
      plain_sync [OF assms(9) conjunct1 [OF assms(11)] conjunct1 [OF conjunct2 [OF assms(11)]] conjunct2 [OF conjunct2 [OF assms(11)]]
        plain(2) flat_ids(2) assms(13), of hmyield unhex unjson]
    unfolding SyncCustomvars_def by auto
qed

text \<open>C28. Once everything that was received is processed, the tables of the runtime updates contain exactly what
  the messages before the first malformed one upserted: for each ID the last custom variable upserted with it,
  whatever was deleted in between, and the flat rows of all of them; provided that flat rows with the same ID are
  equal, the ID being a hash of their content.\<close>

theorem customvar_updates_catch_up:
  assumes "expand_run fns acts (ExpandCustomvars numCPU) = Some s" "quiescent s"
    "arrivals acts = map ACustomvar (prepareCustomVarsForSync structifier ms)"
    "inj_on cvf_Id (set (concat (map (flat_rows fns) (arrivals acts))))"
  shows "upsert_customvars (received s) Map.empty = (\<lambda>k. find (\<lambda>cv. cv_Id cv = k) (rev (upserted structifier ms))) \<and>
    upsert_flat (flatCustomvars s) Map.empty =
      (\<lambda>k. find (\<lambda>r. cvf_Id r = k) (concat (map (\<lambda>cv. flat_rows fns (ACustomvar cv)) (upserted structifier ms))))"
proof -
  note all = quiescent_all [OF assms(1,2)]
  have "received s = upserted structifier ms" by (rule received_all) (simp only: all(1) assms(3) prepare_upserted)
  moreover have "mset (flatCustomvars s) = mset (concat (map (flat_rows fns) (arrivals acts)))"
    using all(2) by (simp add: all_flat_def)
  moreover have "concat (map (flat_rows fns) (arrivals acts)) = concat (map (\<lambda>cv. flat_rows fns (ACustomvar cv)) (upserted structifier ms))"
    by (simp add: assms(3) prepare_upserted comp_def)
  ultimately show ?thesis using flat_table [OF _ assms(4)] by (simp add: fun_eq_iff upsert_customvars_last)
qed

section \<open>Witnesses\<close>

lemma sample_run_reads:
  "arrivals sample_run = map ACustomvar [sample_cv 1 ''a'']"
  "concat (map (flat_rows sample_cv_fns) (arrivals sample_run)) = flat_rows sample_cv_fns (ACustomvar (sample_cv 1 ''a''))"
  by (simp_all add: sample_run_def)

text \<open>An upsert, a delete, a message without a type, and an upsert that comes too late.\<close>

definition cv_message :: "(string \<rightharpoonup> any) \<Rightarrow> xmessage" where
  "cv_message values = \<lparr>msg_ID = ''1-0'', msg_Values = values\<rparr>"

definition cv_messages :: "xmessage list" where
  "cv_messages = [cv_message [''runtime_type'' \<mapsto> AString ''upsert''], cv_message [''runtime_type'' \<mapsto> AString ''delete''],
     cv_message Map.empty, cv_message [''runtime_type'' \<mapsto> AString ''upsert'']]"

theorem customvar_updates_catch_up_witness:
  "\<exists>s. expand_run sample_cv_fns (take 5 sample_run) (ExpandCustomvars 1) = Some s \<and>
    upsert_customvars (received s) Map.empty = (\<lambda>k. if k = Some [1] then Some (sample_cv 1 ''a'') else None)"
proof -
  let ?st = "\<lambda>_. Ok (sample_cv 1 ''a'')"
  have run: "\<exists>s. expand_run sample_cv_fns (take 5 sample_run) (ExpandCustomvars 1) = Some s \<and> quiescent s"
    by (simp add: sample_run_def ExpandCustomvars_def worker_at_def set_worker_def flattened_def sample_cv_fns_def sample_cv_def
        send_all_def drop_nth_def quiescent_def clean_def)
  have msgs: "prepareCustomVarsForSync ?st cv_messages = [sample_cv 1 ''a'']"
    by (simp add: structify_customvar_def cv_messages_def cv_message_def)
  have up: "upserted ?st cv_messages = [sample_cv 1 ''a'']"
    by (simp add: upserted_def well_formed_update_def cv_messages_def cv_message_def)
  have "arrivals (take 5 sample_run) = map ACustomvar (prepareCustomVarsForSync ?st cv_messages)"
    unfolding msgs by (simp add: sample_run_def)
  moreover have "inj_on cvf_Id (set (concat (map (flat_rows sample_cv_fns) (arrivals (take 5 sample_run)))))"
    by (simp add: sample_run_def flat_rows_def flattened_def sample_cv_fns_def sample_cv_def)
  ultimately obtain s where s: "expand_run sample_cv_fns (take 5 sample_run) (ExpandCustomvars 1) = Some s"
    "upsert_customvars (received s) Map.empty = (\<lambda>k. find (\<lambda>cv. cv_Id cv = k) (rev (upserted ?st cv_messages)))"
    using run customvar_updates_catch_up [of sample_cv_fns "take 5 sample_run" 1 _ ?st cv_messages] by blast
  have "(\<lambda>k. find (\<lambda>cv. cv_Id cv = k) (rev (upserted ?st cv_messages))) = (\<lambda>k. if k = Some [1] then Some (sample_cv 1 ''a'') else None)"
    unfolding up by (auto simp: fun_eq_iff sample_cv_def)
  with s show ?thesis by simp
qed

theorem SyncCustomvars_converges_witness:
  "\<exists>s. expand_run sample_cv_fns sample_run (ExpandCustomvars 1) = Some s \<and>
    (\<exists>cvOps flatOps. SyncCustomvars sorted_list_of_set (\<lambda>_. []) (\<lambda>_. None) (\<lambda>_ _. None)
       (EndActual # map Desired (map (customvar_entity cv_Value) (received s)) @ [EndDesired])
       (EndActual # map Desired (map (flat_entity Flatname) (flatCustomvars s)) @ [EndDesired]) = (Some (Ok cvOps), Some (Ok flatOps)))"
proof -
  obtain s where s: "expand_run sample_cv_fns sample_run (ExpandCustomvars 1) = Some s" "expand_over s" "outer_error s = None"
    using sample_run_over by auto
  let ?c = "sample_cv 1 ''a''"
  let ?flats = "flat_rows sample_cv_fns (ACustomvar ?c)"
  have ids: "\<forall>e\<in>set (map (customvar_entity cv_Value) [?c] @ map (flat_entity Flatname) ?flats). ID e \<noteq> None"
    "distinct (map id_key (map (flat_entity Flatname) ?flats))"
    by (simp_all add: flat_rows_def flattened_def flat_row_def sample_cv_fns_def sample_cv_def customvar_entity_def flat_entity_def)
  have shuffle: "EndActual # ys \<in> shuffles (map Actual [] @ [EndActual]) ys" for ys :: "delta_event list"
    by (cases ys) auto
  have empty: "plain_table Map.empty \<and> distinct (map id_key []) \<and> by_id [] = (\<lambda>k. map_option fingerprint_row (Map.empty k))"
    by (simp add: plain_table_def by_id_def)
  have order: "\<forall>S. finite S \<longrightarrow> set (sorted_list_of_set S) = S \<and> distinct (sorted_list_of_set (S :: bytes set))" by simp
  have one: "distinct (map id_key (map (customvar_entity cv_Value) [?c]))" by simp
  note SyncCustomvars_converges [OF s sample_run_reads(1) sample_run_reads(2) [symmetric] ids(1) one ids(2) order empty empty shuffle shuffle]
  from this [of "\<lambda>_. []" "\<lambda>_. None" "\<lambda>_ _. None"] s(1) show ?thesis by blast
qed

end
