(* ===== verification/Telemetry.thy ===== *)
theory Telemetry
  imports Ha_State Heartbeat Retention
begin

text \<open>
  What the daemon reports to Icinga 2 through Redis (\<open>pkg/icingaredis/telemetry\<close>): the current error of
  the database connection, the heartbeat with its values and performance data, and the counters.
\<close>

section \<open>The error of the database connection\<close>

record currentDbConnErr =
  err_message :: string
  sinceMilli :: int

definition no_conn_err :: currentDbConnErr where
  "no_conn_err = \<lparr>err_message = [], sinceMilli = 0\<rparr>"

definition UpdateCurrentDbConnErr :: "int \<Rightarrow> string option \<Rightarrow> currentDbConnErr \<Rightarrow> currentDbConnErr" where
  "UpdateCurrentDbConnErr now err s =
     (if sinceMilli s \<ge> now then s
      else
        (let message = (case err of None \<Rightarrow> [] | Some e \<Rightarrow> e) in
         if err_message s = message then s
         else (if err_message s = [] \<or> message = [] then s\<lparr>sinceMilli := now\<rparr> else s)\<lparr>err_message := message\<rparr>))"

definition GetCurrentDbConnErr :: "currentDbConnErr \<Rightarrow> string \<times> int" where
  "GetCurrentDbConnErr s = (err_message s, sinceMilli s)"

section \<open>Performance data\<close>

datatype metric_kind = KindBad | KindUint64 | KindFloat64 | KindFloat64Histogram

datatype 'float metric_value = Uint64Value nat | Float64Value 'float | NoValue

record metric_description =
  md_Name :: string
  md_Kind :: metric_kind
  md_Cumulative :: bool

record goMetrics =
  gm_names :: "string list"
  gm_units :: "string list"
  gm_samples :: "string list"

definition metric_name :: "string \<Rightarrow> string" where
  "metric_name name = ''go_'' @ dropWhile (\<lambda>c. c = CHR ''_'') (map (\<lambda>c. if is_word c then c else CHR ''_'') name)"

definition metric_unit :: "metric_description \<Rightarrow> string" where
  "metric_unit d =
     (if has_suffix (md_Name d) '':bytes'' then ''B''
      else if has_suffix (md_Name d) '':seconds'' then ''s''
      else if md_Cumulative d then ''c'' else [])"

definition NewGoMetrics :: "metric_description list \<Rightarrow> goMetrics" where
  "NewGoMetrics all_metrics =
     (let known = filter (\<lambda>d. md_Kind d = KindUint64 \<or> md_Kind d = KindFloat64) all_metrics
      in \<lparr>gm_names = map (\<lambda>d. metric_name (md_Name d)) known, gm_units = map metric_unit known,
          gm_samples = map md_Name known\<rparr>)"

text \<open>\<open>metrics.Read\<close> and the format \<open>%f\<close> are parameters.\<close>

definition perf_entry :: "('float \<Rightarrow> string) \<Rightarrow> string \<Rightarrow> string \<Rightarrow> 'float metric_value \<Rightarrow> string" where
  "perf_entry format_float name unit value = (case value of
      Uint64Value n \<Rightarrow> name @ ''='' @ format_nat n @ unit
    | Float64Value x \<Rightarrow> name @ ''='' @ format_float x @ unit
    | NoValue \<Rightarrow> [])"

fun write_entries :: "bool \<Rightarrow> string list \<Rightarrow> string" where
  "write_entries first [] = []"
| "write_entries first (entry # entries) = (if first then [] else '' '') @ entry @ write_entries False entries"

definition perf_entries :: "('float \<Rightarrow> string) \<Rightarrow> (string \<Rightarrow> 'float metric_value) \<Rightarrow> goMetrics \<Rightarrow> string list" where
  "perf_entries format_float read g =
     map (\<lambda>(name, unit, sample). perf_entry format_float name unit (read sample))
       (zip (gm_names g) (zip (gm_units g) (gm_samples g)))"

definition PerformanceData :: "('float \<Rightarrow> string) \<Rightarrow> (string \<Rightarrow> 'float metric_value) \<Rightarrow> goMetrics \<Rightarrow> string" where
  "PerformanceData format_float read g = write_entries True (perf_entries format_float read g)"

section \<open>The heartbeat\<close>

record SuccessfulSync =
  FinishMilli :: int
  DurationMilli :: int

definition boolToStr :: "bool \<Rightarrow> string" where
  "boolToStr b = (if b then ''1'' else ''0'')"

definition heartbeat_values ::
    "string \<Rightarrow> int \<Rightarrow> string \<Rightarrow> time \<Rightarrow> heartbeat \<Rightarrow> ha \<Rightarrow> int \<Rightarrow> SuccessfulSync \<Rightarrow> currentDbConnErr \<Rightarrow> (string \<times> string) list" where
  "heartbeat_values version startTime perfdata now hb h ongoingSyncStart lastSync conn =
     (let (responsibleTs, weResponsible, otherResponsible) = ha_State h;
          (dbConnErr, dbConnErrSinceMilli) = GetCurrentDbConnErr conn
      in [(''version'', version), (''time'', FormatInt (unix_milli now)), (''start-time'', FormatInt startTime),
          (''error'', dbConnErr), (''error-since'', FormatInt dbConnErrSinceMilli), (''performance-data'', perfdata),
          (''last-heartbeat-received'', FormatInt (lastReceivedMs hb)), (''ha-responsible'', boolToStr weResponsible),
          (''ha-responsible-ts'', FormatInt responsibleTs), (''ha-other-responsible'', boolToStr otherResponsible),
          (''sync-ongoing-since'', FormatInt ongoingSyncStart), (''sync-success-finish'', FormatInt (FinishMilli lastSync)),
          (''sync-success-duration'', FormatInt (DurationMilli lastSync))])"

text \<open>
  One tick: the stream keeps its last entry only. A failure that is neither a cancelled context nor an
  exceeded deadline is logged, as a warning if the error is new or was not warned about for a minute.
\<close>

datatype xadd_result = Added | AddCancelled | AddFailed string

datatype log_level = LogDebug | LogWarn

record heartbeat_writer =
  hb_stream :: "(string \<times> string) list option"
  lastErr :: string
  silenceUntil :: time

definition StartHeartbeat :: heartbeat_writer where
  "StartHeartbeat = \<lparr>hb_stream = None, lastErr = [], silenceUntil = zero_time\<rparr>"

definition minute :: duration where
  "minute = 60 * second"

definition heartbeat_tick ::
    "time \<Rightarrow> (string \<times> string) list \<Rightarrow> xadd_result \<Rightarrow> heartbeat_writer \<Rightarrow> log_level option \<times> heartbeat_writer" where
  "heartbeat_tick now values result s = (case result of
      AddFailed currentErr \<Rightarrow>
        if currentErr \<noteq> lastErr s \<or> now > silenceUntil s
        then (Some LogWarn, s\<lparr>lastErr := currentErr, silenceUntil := now + minute\<rparr>)
        else (Some LogDebug, s)
    | Added \<Rightarrow> (None, s\<lparr>hb_stream := Some values, lastErr := [], silenceUntil := zero_time\<rparr>)
    | AddCancelled \<Rightarrow> (None, s\<lparr>lastErr := [], silenceUntil := zero_time\<rparr>))"

section \<open>The counters\<close>

text \<open>
  The counters by the name of their kind, and the entries of the stream, which is trimmed beyond what
  the reader needs. A tick resets the counters in the order in which Go iterates over the map.
\<close>

definition counter_kinds :: "string list" where
  "counter_kinds = [''config_sync'', ''state_sync'', ''history_sync'', ''overdue_sync'', ''history_cleanup'', ''notification_sync'']"

record stats_writer =
  counters :: "string \<Rightarrow> nat"
  stats_stream :: "(string \<times> string) list list"

definition start_stats :: stats_writer where
  "start_stats = \<lparr>counters = (\<lambda>_. 0), stats_stream = []\<rparr>"

fun reset_counters :: "string list \<Rightarrow> (string \<Rightarrow> nat) \<Rightarrow> (string \<times> string) list \<times> (string \<Rightarrow> nat)" where
  "reset_counters [] c = ([], c)"
| "reset_counters (kind # kinds) c =
     (let (data, c') = reset_counters kinds (c(kind := 0))
      in (if c kind > 0 then (kind, format_nat (c kind)) # data else data, c'))"

datatype stats_event = Count string nat | StatsTick "string list" xadd_result

fun stats_step :: "stats_event \<Rightarrow> stats_writer \<Rightarrow> stats_writer" where
  "stats_step (Count kind n) s = s\<lparr>counters := (counters s)(kind := counters s kind + n)\<rparr>"
| "stats_step (StatsTick order result) s =
     (let (data, c) = reset_counters order (counters s);
          s' = s\<lparr>counters := c\<rparr>
      in if data \<noteq> [] \<and> result = Added then s'\<lparr>stats_stream := stats_stream s' @ [data]\<rparr> else s')"

definition stats_run :: "stats_event list \<Rightarrow> stats_writer \<Rightarrow> stats_writer" where
  "stats_run es s = fold stats_step es s"

end
