(* ===== verification/Telemetry_Props.thy ===== *)
theory Telemetry_Props
  imports Telemetry
begin

text \<open>
  Properties of the telemetry: what is reported is what happened, except where an update of the
  connection error is dropped or an entry of the statistics cannot be written.
\<close>

section \<open>The error of the connection\<close>

text \<open>The time of the last change between OK and error, the state before the first update being OK.\<close>

fun last_change :: "bool \<Rightarrow> int \<Rightarrow> (int \<times> string option) list \<Rightarrow> int" where
  "last_change in_error since [] = since"
| "last_change in_error since ((t, e) # us) = last_change (e \<noteq> None) (if (e \<noteq> None) = in_error then since else t) us"

definition conn_run :: "(int \<times> string option) list \<Rightarrow> currentDbConnErr \<Rightarrow> currentDbConnErr" where
  "conn_run us s = fold (\<lambda>(t, e). UpdateCurrentDbConnErr t e) us s"

definition message_of :: "string option \<Rightarrow> string" where
  "message_of e = (case e of None \<Rightarrow> [] | Some m \<Rightarrow> m)"

lemma conn_run_tracks:
  assumes "sorted_wrt (\<lambda>u v. fst u < fst v) us" "list_all (\<lambda>u. sinceMilli s < fst u \<and> snd u \<noteq> Some []) us"
  shows "conn_run us s = \<lparr>err_message = (if us = [] then err_message s else message_of (snd (last us))),
     sinceMilli = last_change (err_message s \<noteq> []) (sinceMilli s) us\<rparr>"
  using assms
proof (induction us arbitrary: s)
  case Nil
  then show ?case by (simp add: conn_run_def)
next
  case (Cons u us)
  obtain t e where u: "u = (t, e)" by force
  let ?s = "UpdateCurrentDbConnErr t e s"
  have upd: "?s = \<lparr>err_message = message_of e, sinceMilli = (if (e \<noteq> None) = (err_message s \<noteq> []) then sinceMilli s else t)\<rparr>"
    using Cons.prems u by (auto simp: UpdateCurrentDbConnErr_def message_of_def Let_def split: option.splits)
  have "list_all (\<lambda>u. sinceMilli ?s < fst u \<and> snd u \<noteq> Some []) us"
    using Cons.prems u by (auto simp: upd list_all_iff)
  then have "conn_run us ?s = \<lparr>err_message = (if us = [] then err_message ?s else message_of (snd (last us))),
     sinceMilli = last_change (err_message ?s \<noteq> []) (sinceMilli ?s) us\<rparr>"
    using Cons.IH Cons.prems(1) by simp
  moreover have "err_message ?s \<noteq> [] \<longleftrightarrow> e \<noteq> None"
    using Cons.prems(2) u by (auto simp: upd message_of_def split: option.splits)
  ultimately show ?case using u by (simp add: conn_run_def upd)
qed

section \<open>Performance data\<close>

lemma split_written:
  "list_all (\<lambda>e. CHR '' '' \<notin> set e) (e # es) \<Longrightarrow> split_seq CHR '' '' (e @ write_entries False es) = e # es"
proof (induction es arbitrary: e)
  case (Cons e' es)
  then show ?case using split_seq_append [of "CHR '' ''" e "e' @ write_entries False es"] by simp
qed (simp add: split_seq_plain)

lemma metric_name_word: "c \<in> set (metric_name name) \<Longrightarrow> is_word c"
proof -
  have "c \<in> set (dropWhile (\<lambda>c. c = CHR ''_'') (map (\<lambda>c. if is_word c then c else CHR ''_'') name)) \<Longrightarrow> is_word c" for c
    by (auto dest!: set_dropWhileD simp: is_word_def)
  then show "c \<in> set (metric_name name) \<Longrightarrow> is_word c"
    by (auto simp: metric_name_def) (simp_all add: is_word_def)
qed

lemma format_nat_no_space: "CHR '' '' \<notin> set (format_nat n)"
  using format_nat_digits by (fastforce simp: is_digit_def)

lemma perf_entry_no_space:
  assumes "CHR '' '' \<notin> set (metric_name n)" "\<And>x. CHR '' '' \<notin> set (format_float x)"
  shows "CHR '' '' \<notin> set (perf_entry format_float (metric_name n) (metric_unit d) v)"
  using assms format_nat_no_space by (cases v) (auto simp: perf_entry_def metric_unit_def)

lemma name_no_space: "CHR '' '' \<notin> set (metric_name n)"
  using metric_name_word by (fastforce simp: is_word_def)

lemma perf_entries_no_space:
  assumes "\<And>x. CHR '' '' \<notin> set (format_float x)"
  shows "list_all (\<lambda>e. CHR '' '' \<notin> set e) (perf_entries format_float read (NewGoMetrics ds))"
proof -
  note entry = perf_entry_no_space [where format_float = format_float, OF name_no_space assms]
  show ?thesis
    using entry by (auto simp: perf_entries_def NewGoMetrics_def list_all_iff Let_def zip_map_map zip_same_conv_map)
qed

section \<open>The counters\<close>

fun counted :: "string \<Rightarrow> stats_event list \<Rightarrow> nat" where
  "counted kind [] = 0"
| "counted kind (e # es) = (case e of Count k n \<Rightarrow> if k = kind then n else 0 | StatsTick r x \<Rightarrow> 0) + counted kind es"

definition number_of :: "string \<Rightarrow> nat" where
  "number_of v = (case ParseUint 64 v of Inr n \<Rightarrow> n | Inl e \<Rightarrow> 0)"

definition reported :: "string \<Rightarrow> (string \<times> string) list list \<Rightarrow> nat" where
  "reported kind entries = sum_list (map (\<lambda>(k, v). if k = kind then number_of v else 0) (concat entries))"

lemma number_of_format: "n < 2 ^ 64 \<Longrightarrow> number_of (format_nat n) = n"
  by (simp add: number_of_def ParseUint_def parse_digits_format)

lemma reset_counters_counts:
  "snd (reset_counters order c) = (\<lambda>k. if k \<in> set order then 0 else c k)"
  "distinct order \<Longrightarrow> fst (reset_counters order c) = map (\<lambda>k. (k, format_nat (c k))) (filter (\<lambda>k. 0 < c k) order)"
proof -
  show "snd (reset_counters order c) = (\<lambda>k. if k \<in> set order then 0 else c k)"
    by (induction order arbitrary: c) (auto simp: Let_def case_prod_beta)
  show "distinct order \<Longrightarrow> fst (reset_counters order c) = map (\<lambda>k. (k, format_nat (c k))) (filter (\<lambda>k. 0 < c k) order)"
  proof (induction order arbitrary: c)
    case (Cons a order)
    have "filter (\<lambda>k. 0 < (c(a := 0)) k) order = filter (\<lambda>k. 0 < c k) order"
      using Cons.prems by (intro filter_cong) auto
    moreover have "map (\<lambda>k. (k, format_nat ((c(a := 0)) k))) (filter (\<lambda>k. 0 < c k) order) =
        map (\<lambda>k. (k, format_nat (c k))) (filter (\<lambda>k. 0 < c k) order)"
      using Cons.prems by (intro map_cong) auto
    ultimately have "fst (reset_counters order (c(a := 0))) = map (\<lambda>k. (k, format_nat (c k))) (filter (\<lambda>k. 0 < c k) order)"
      using Cons.IH [of "c(a := 0)"] Cons.prems by (metis distinct.simps(2))
    then show ?case by (simp add: Let_def case_prod_beta)
  qed simp
qed

lemma sum_one_kind:
  "distinct order \<Longrightarrow> sum_list (map (\<lambda>k. if k = kind then f k else 0) (filter Q order)) =
     (if kind \<in> set order \<and> Q kind then f kind else (0 :: nat))"
  by (induction order) auto

lemma reported_tick:
  assumes "distinct order" "kind \<in> set order" "c kind < 2 ^ 64"
  shows "reported kind [fst (reset_counters order c)] = c kind"
  using assms(2,3)
  by (simp add: reported_def reset_counters_counts(2) [OF assms(1)] comp_def sum_one_kind [OF assms(1), where f = "\<lambda>k. number_of (format_nat (c k))"] number_of_format)

lemma reported_append: "reported kind (xs @ ys) = reported kind xs + reported kind ys"
  by (simp add: reported_def)

text \<open>A tick that goes over all counters and writes its entry.\<close>

fun tick_ok :: "stats_event \<Rightarrow> bool" where
  "tick_ok (Count k n) = True"
| "tick_ok (StatsTick order result) = (distinct order \<and> set order = set counter_kinds \<and> result = Added)"

lemma stats_step_counts:
  assumes "tick_ok e" "kind \<in> set counter_kinds" "counters s kind < 2 ^ 64"
  shows "reported kind (stats_stream (stats_step e s)) + counters (stats_step e s) kind =
    reported kind (stats_stream s) + counters s kind + counted kind [e]"
proof (cases e)
  case (Count k n)
  then show ?thesis by simp
next
  case (StatsTick order result)
  then have o: "distinct order" "kind \<in> set order" "result = Added" using assms(1,2) by simp_all
  have tick: "reported kind [fst (reset_counters order (counters s))] = counters s kind"
    by (rule reported_tick) (use o assms(3) in simp_all)
  have "counters (stats_step e s) kind = 0"
    using o(2) StatsTick by (simp add: Let_def case_prod_beta reset_counters_counts(1))
  moreover have "reported kind (stats_stream (stats_step e s)) = reported kind (stats_stream s) + counters s kind"
    using o(3) StatsTick tick by (auto simp: Let_def case_prod_beta reported_append) (simp add: reported_def)
  ultimately show ?thesis using StatsTick by simp
qed

lemma counters_bound: "counters (stats_step e s) kind \<le> counters s kind + counted kind [e]"
  by (cases e) (auto simp: Let_def case_prod_beta reset_counters_counts(1))

lemma stats_run_counts:
  assumes "list_all tick_ok es" "kind \<in> set counter_kinds" "counters s kind + counted kind es < 2 ^ 64"
  shows "reported kind (stats_stream (stats_run es s)) + counters (stats_run es s) kind =
    reported kind (stats_stream s) + counters s kind + counted kind es"
  using assms
proof (induction es arbitrary: s)
  case (Cons e es)
  have "counters s kind < 2 ^ 64" using Cons.prems(3) by simp
  then have step: "reported kind (stats_stream (stats_step e s)) + counters (stats_step e s) kind =
    reported kind (stats_stream s) + counters s kind + counted kind [e]"
    using stats_step_counts [OF _ assms(2)] Cons.prems(1) by simp
  have "counters (stats_step e s) kind + counted kind es < 2 ^ 64"
    using counters_bound [of e s kind] Cons.prems(3) by simp
  then have "reported kind (stats_stream (stats_run es (stats_step e s))) + counters (stats_run es (stats_step e s)) kind =
    reported kind (stats_stream (stats_step e s)) + counters (stats_step e s) kind + counted kind es"
    using Cons.IH Cons.prems(1,2) by simp
  then show ?case using step by (simp add: stats_run_def)
qed (simp add: stats_run_def)

section \<open>Properties\<close>

text \<open>The reported error is the last one, and the reported time that of the last change between OK and
  error, as long as no two updates come in the same millisecond.\<close>

theorem conn_err_tracks:
  assumes "sorted_wrt (\<lambda>u v. fst u < fst v) us" "list_all (\<lambda>u. 0 < fst u \<and> snd u \<noteq> Some []) us" "us \<noteq> []"
  shows "GetCurrentDbConnErr (conn_run us no_conn_err) = (message_of (snd (last us)), last_change False 0 us)"
  using conn_run_tracks [of us no_conn_err] assms by (simp add: no_conn_err_def GetCurrentDbConnErr_def)

text \<open>A recovery in the millisecond of the error is dropped as if it were older: the error stays
  reported although the connection is fine.\<close>

theorem recovery_in_same_millisecond:
  assumes "0 < t" "e \<noteq> []"
  shows "GetCurrentDbConnErr (conn_run [(t, Some e), (t, None)] no_conn_err) = (e, t)"
  using assms by (auto simp: conn_run_def UpdateCurrentDbConnErr_def GetCurrentDbConnErr_def no_conn_err_def Let_def)

text \<open>C27. The performance data of a heartbeat splits at its spaces into exactly the entries of the metrics,
  whatever characters their names contain.\<close>

theorem PerformanceData_splits:
  assumes "\<And>x. CHR '' '' \<notin> set (format_float x)" "gm_samples (NewGoMetrics ds) \<noteq> []"
  shows "split_seq CHR '' '' (PerformanceData format_float read (NewGoMetrics ds)) = perf_entries format_float read (NewGoMetrics ds)"
proof -
  have "perf_entries format_float read (NewGoMetrics ds) \<noteq> []"
    using assms(2) by (auto simp: perf_entries_def NewGoMetrics_def Let_def)
  then obtain e es where e: "perf_entries format_float read (NewGoMetrics ds) = e # es" by (meson neq_Nil_conv)
  have "list_all (\<lambda>e. CHR '' '' \<notin> set e) (e # es)" using perf_entries_no_space [where format_float = format_float, OF assms(1)] e by metis
  from split_written [OF this] show ?thesis by (simp add: PerformanceData_def e)
qed

text \<open>While entries can be written, everything that is counted is reported or about to be.\<close>

theorem counts_reported:
  assumes "list_all tick_ok es" "kind \<in> set counter_kinds" "counted kind es < 2 ^ 64"
  shows "reported kind (stats_stream (stats_run es start_stats)) + counters (stats_run es start_stats) kind = counted kind es"
  using stats_run_counts [OF assms(1,2), of start_stats] assms(3) by (simp add: start_stats_def reported_def)

text \<open>Counts whose entry cannot be written are lost: the counters are reset before.\<close>

theorem counts_lost:
  "stats_run [Count ''history_sync'' n, StatsTick counter_kinds (AddFailed e), StatsTick counter_kinds Added] start_stats = start_stats"
  by (simp add: stats_run_def start_stats_def counter_kinds_def fun_eq_iff)

text \<open>C30. Whenever the telemetry reads the state of a running HA component, between any two of its stores and
  signals, the heartbeat says that this instance is responsible exactly when the last signal the daemon received
  was a takeover, except in the time between a store and the receipt of its signal, when it already says what the
  signal is about to say. This is so until a signal is given up, which happens only once the component is
  cancelled. The state after all stores and the signals are those of the component.\<close>

theorem heartbeat_reports_responsibility:
  assumes "ha_reach d clean envId ok s" "running s i = Some h" "ha_history h = seen @ later" "\<not> given_up seen"
  shows "map_of (heartbeat_values version startTime perfdata now hb (h\<lparr>ha_state := state_at seen\<rparr>) ongoing lastSync conn) ''ha-responsible'' =
      Some (boolToStr (case about_to_send later of None \<Rightarrow> told (sent_by seen) | Some sg \<Rightarrow> is_takeover sg)) \<and>
    state_at (ha_history h) = ha_state h \<and> sent_by (ha_history h) = signals h \<and> (given_up (ha_history h) \<longrightarrow> cancelled h)"
proof -
  have ok: "history_ok h" by (rule reported.P_reach [OF assms(1,2)])
  then have "moment_ok seen later" using assms(3) by (simp add: history_ok_def moments_ok_def)
  then show ?thesis
    using ok assms(4) by (simp add: heartbeat_values_def ha_State_def GetCurrentDbConnErr_def moment_ok_def history_ok_def)
qed

section \<open>Witnesses\<close>

theorem conn_err_tracks_witness:
  "GetCurrentDbConnErr (conn_run [(1, Some ''a''), (2, Some ''b''), (5, None)] no_conn_err) = ([], 5)"
  using conn_err_tracks [of "[(1, Some ''a''), (2, Some ''b''), (5, None)]"] by (simp add: message_of_def)

theorem recovery_in_same_millisecond_witness:
  "GetCurrentDbConnErr (conn_run [(1, Some ''a''), (1, None)] no_conn_err) = (''a'', 1)"
  by (rule recovery_in_same_millisecond) simp_all

definition sample_metrics :: "metric_description list" where
  "sample_metrics = [\<lparr>md_Name = ''/gc cycles:gc-cycles'', md_Kind = KindUint64, md_Cumulative = True\<rparr>,
     \<lparr>md_Name = ''/heap:bytes'', md_Kind = KindUint64, md_Cumulative = False\<rparr>]"

theorem PerformanceData_splits_witness:
  "split_seq CHR '' '' (PerformanceData (\<lambda>x :: nat. ''0.5'') (\<lambda>_. Uint64Value 7) (NewGoMetrics sample_metrics)) =
    perf_entries (\<lambda>x :: nat. ''0.5'') (\<lambda>_. Uint64Value 7) (NewGoMetrics sample_metrics)"
  by (rule PerformanceData_splits) (simp_all add: sample_metrics_def NewGoMetrics_def Let_def)

theorem counts_reported_witness:
  "reported ''state_sync'' (stats_stream (stats_run [Count ''state_sync'' 3, StatsTick counter_kinds Added, Count ''state_sync'' 4] start_stats)) +
    counters (stats_run [Count ''state_sync'' 3, StatsTick counter_kinds Added, Count ''state_sync'' 4] start_stats) ''state_sync'' = 7"
  using counts_reported [of "[Count ''state_sync'' 3, StatsTick counter_kinds Added, Count ''state_sync'' 4]" "''state_sync''"]
  by (simp add: counter_kinds_def)

text \<open>The first takeover: reported before the daemon has received it, and after.\<close>

theorem heartbeat_reports_responsibility_witness:
  "let h = sample_node 1 1000 True; values = (\<lambda>st. heartbeat_values ''v'' 0 [] 5 NewHeartbeat (h\<lparr>ha_state := st\<rparr>) 0
        \<lparr>FinishMilli = 0, DurationMilli = 0\<rparr> no_conn_err) in
    map_of (values (state_at [])) ''ha-responsible'' = Some ''0'' \<and>
    map_of (values (state_at (take 1 (ha_history h)))) ''ha-responsible'' = Some ''1'' \<and> sent_by (take 1 (ha_history h)) = [] \<and>
    map_of (values (ha_state h)) ''ha-responsible'' = Some ''1'' \<and> told (signals h)"
proof -
  let ?h = "sample_node 1 1000 True"
  let ?st = "HaStored \<lparr>responsibleTsMilli = 1000, st_responsible = True, st_otherResponsible = False\<rparr>"
  let ?sg = "HaSent (Takeover ''no other instance is active'')"
  have hist: "ha_history ?h = [] @ [?st, ?sg]" "ha_history ?h = [?st] @ [?sg]" "ha_history ?h = [?st, ?sg] @ []"
    by (simp_all add: sample_node_def)
  have alive: "\<not> given_up []" "\<not> given_up [?st]" "\<not> given_up [?st, ?sg]" by (simp_all add: given_up_def)
  have run: "running \<lparr>running = [[1] \<mapsto> ?h], table = \<lparr>instances = [sample_own_row 1 1000 True], environments = {[7]}\<rparr>\<rparr> [1] = Some ?h"
    by simp
  note r = heartbeat_reports_responsibility [OF sample_ha_reach run, where version = "''v''" and startTime = 0 and perfdata = "[]"
      and now = 5 and hb = NewHeartbeat and ongoing = 0 and lastSync = "\<lparr>FinishMilli = 0, DurationMilli = 0\<rparr>" and conn = no_conn_err]
  have t: "take (Suc 0) (ha_history ?h) = [?st]" using hist(2) by simp
  have sent: "sent_by [?st] = []" "sent_by [?st, ?sg] = [Takeover ''no other instance is active'']"
    by (simp_all add: sent_by_def List.map_filter_def)
  have full: "state_at [?st, ?sg] = ha_state ?h" "signals ?h = sent_by [?st, ?sg]" using r [OF hist(3) alive(3)] hist(3) by simp_all
  show ?thesis
    using r [OF hist(1) alive(1)] r [OF hist(2) alive(2)] r [OF hist(3) alive(3)]
    by (simp add: Let_def t full sent about_to_send_def boolToStr_def told_def sent_by_def)
qed

end
