(* ===== verification/Startup.thy ===== *)
theory Startup
  imports Schema_Check Retention Main_Ha
begin

text \<open>
  The start of the daemon up to its main loop, and its end: command line and configuration
  (\<open>internal/command/command.go\<close>, \<open>internal/config/config.go\<close>), the first part of \<open>run\<close> in
  \<open>cmd/icingadb/main.go\<close> and its deferred calls.
\<close>

section \<open>Configuration\<close>

record flags =
  Version :: bool
  Config :: string
  DatabaseAutoImport :: bool
  DatabaseSchemaDir :: string

definition DefaultConfigPath :: string where
  "DefaultConfigPath = ''/etc/icingadb/config.yml''"

definition GetConfigPath :: "flags \<Rightarrow> string" where
  "GetConfigPath f = (if Config f = [] then DefaultConfigPath else Config f)"

definition IsExplicitConfigPath :: "flags \<Rightarrow> bool" where
  "IsExplicitConfigPath f \<longleftrightarrow> Config f \<noteq> []"

text \<open>For the parts that belong to libraries, what their \<open>Validate\<close> returns.\<close>

record daemon_config =
  valid_Database :: "(string, unit) outcome"
  valid_Redis :: "(string, unit) outcome"
  valid_Logging :: "(string, unit) outcome"
  valid_Notifications :: "(string, unit) outcome"
  RedisPort :: nat
  cfg_Retention :: RetentionConfig
  NotificationsUrl :: string
  DefaultRelations :: "string list"

definition SetDefaults :: "daemon_config \<Rightarrow> daemon_config" where
  "SetDefaults c = (if RedisPort c = 0 then c\<lparr>RedisPort := 6380\<rparr> else c)"

fun wrap_with :: "string \<Rightarrow> (string, 'a) outcome \<Rightarrow> (string, 'a) outcome" where
  "wrap_with message (Ok a) = Ok a"
| "wrap_with message (Err e) = Err (message @ '': '' @ e)"
| "wrap_with message (Panic p) = Panic p"

fun check_relations :: "(string \<Rightarrow> (string, unit) outcome) \<Rightarrow> string list \<Rightarrow> (string, unit) outcome" where
  "check_relations parse [] = Ok ()"
| "check_relations parse (r # rs) =
     bind_outcome (wrap_with (''default relation '' @ r @ '' is not a valid JSONPath'') (parse r)) (\<lambda>_. check_relations parse rs)"

definition Config_Validate :: "(string \<Rightarrow> (string, unit) outcome) \<Rightarrow> daemon_config \<Rightarrow> (string, unit) outcome" where
  "Config_Validate parse c =
     bind_outcome (wrap_with ''invalid database configuration'' (valid_Database c)) (\<lambda>_.
     bind_outcome (wrap_with ''invalid redis configuration'' (valid_Redis c)) (\<lambda>_.
     bind_outcome (wrap_with ''invalid logging configuration'' (valid_Logging c)) (\<lambda>_.
     bind_outcome (wrap_with ''invalid retention configuration'' (RetentionConfig_Validate (cfg_Retention c))) (\<lambda>_.
     bind_outcome (wrap_with ''invalid notifications configuration'' (valid_Notifications c)) (\<lambda>_.
     check_relations parse (DefaultRelations c))))))"

text \<open>
  How the process may end before the daemon runs. Parsing the flags and loading the configuration are
  library functions; they tell a mistake of the program from one of the user.
\<close>

datatype early_exit = Exits nat string | Panics string

datatype library_error = ErrInvalidArgument | UserError string

definition New :: "(library_error, flags) outcome \<Rightarrow> (flags \<Rightarrow> (library_error, daemon_config) outcome) \<Rightarrow> early_exit + flags \<times> daemon_config" where
  "New parseFlags load =
     (case parseFlags of
        Err ErrInvalidArgument \<Rightarrow> Inl (Panics ''invalid argument'')
      | Err (UserError e) \<Rightarrow> Inl (Exits 2 e)
      | Panic p \<Rightarrow> Inl (Panics p)
      | Ok f \<Rightarrow>
          if Version f then Inl (Exits 0 ''Icinga DB'')
          else
            (case load f of
               Err ErrInvalidArgument \<Rightarrow> Inl (Panics ''invalid argument'')
             | Err (UserError e) \<Rightarrow> Inl (Exits 1 e)
             | Panic p \<Rightarrow> Inl (Panics p)
             | Ok c \<Rightarrow> Inr (f, c)))"

section \<open>Up to the main loop\<close>

text \<open>What the calls return, in their order; the database and the first message of the Redis schema.\<close>

record startup_env =
  se_logging :: "(string, unit) outcome"
  se_database :: "(string, unit) outcome"
  se_ping :: "(string, unit) outcome"
  se_schema :: schema_db
  se_import_database :: "(string, unit) outcome"
  se_import :: "string \<Rightarrow> schema_db \<Rightarrow> (string, schema_db) outcome"
  se_redis :: "(string, unit) outcome"
  se_redis_ping :: "(string, unit) outcome"
  se_redis_schema :: "(string, xmessage) outcome"
  se_heartbeat_redis :: "(string, unit) outcome"
  se_ha_database :: "(string, unit) outcome"
  se_notifications :: "(string, unit) outcome"

fun or_fatal :: "(string, 'a) outcome \<Rightarrow> ('a \<Rightarrow> early_exit + 'b) \<Rightarrow> early_exit + 'b" where
  "or_fatal (Ok a) f = f a"
| "or_fatal (Err e) f = Inl (Exits 1 e)"
| "or_fatal (Panic p) f = Inl (Panics p)"

definition needs_import :: "flags \<Rightarrow> schema_db \<Rightarrow> bool" where
  "needs_import f db \<longleftrightarrow> CheckSchema db = Err ErrSchemaNotExists \<and> DatabaseAutoImport f"

text \<open>The database, the position in the schema stream and whether notifications are configured.\<close>

definition run_startup :: "startup_env \<Rightarrow> flags \<Rightarrow> daemon_config \<Rightarrow> early_exit + schema_db \<times> string \<times> bool" where
  "run_startup env f c =
     or_fatal (se_logging env) (\<lambda>_.
     or_fatal (se_database env) (\<lambda>_.
     or_fatal (se_ping env) (\<lambda>_.
     or_fatal (if needs_import f (se_schema env) then se_import_database env else Ok ()) (\<lambda>_.
     or_fatal (start_schema (DatabaseAutoImport f) (se_import env (DatabaseSchemaDir f)) (se_schema env)) (\<lambda>db.
     or_fatal (se_redis env) (\<lambda>_.
     or_fatal (se_redis_ping env) (\<lambda>_.
     or_fatal (checkRedisSchema (se_redis_schema env)) (\<lambda>pos.
     or_fatal (se_heartbeat_redis env) (\<lambda>_.
     or_fatal (se_ha_database env) (\<lambda>_.
     or_fatal (if NotificationsUrl c \<noteq> [] then se_notifications env else Ok ()) (\<lambda>_.
       Inr (db, pos, NotificationsUrl c \<noteq> []))))))))))))"

section \<open>The end\<close>

text \<open>
  A fatal log message exits at once; only a return from \<open>run\<close> runs the deferred calls, of which
  \<open>HA.Close\<close> removes the row of the instance.
\<close>

fun exit_code :: "process_state \<Rightarrow> nat option" where
  "exit_code Running = None"
| "exit_code ExitSuccess = Some 0"
| "exit_code (Fatal e) = Some 1"

fun run_deferred :: "process_state \<Rightarrow> ha \<Rightarrow> ha_db \<Rightarrow> ha_db" where
  "run_deferred Running h db = db"
| "run_deferred ExitSuccess h db = removeInstance h db"
| "run_deferred (Fatal e) h db = db"

section \<open>Properties\<close>

lemma or_fatal_Inr [simp]: "or_fatal r f = Inr x \<longleftrightarrow> (\<exists>a. r = Ok a \<and> f a = Inr x)"
  by (cases r) simp_all

lemma start_schema_Ok:
  "start_schema autoImport importSchema db = Ok db' \<longleftrightarrow>
     CheckSchema db = Ok () \<and> db' = db \<or> CheckSchema db = Err ErrSchemaNotExists \<and> autoImport \<and> importSchema db = Ok db'"
  by (auto simp: start_schema_def split: outcome.splits)

lemma run_startup_Inr:
  assumes "run_startup env f c = Inr (db, pos, notify)"
  shows "start_schema (DatabaseAutoImport f) (se_import env (DatabaseSchemaDir f)) (se_schema env) = Ok db"
    "checkRedisSchema (se_redis_schema env) = Ok pos"
  using assms by (auto simp: run_startup_def)

lemma checkRedisSchema_Ok:
  "checkRedisSchema read = Ok pos \<longleftrightarrow>
     (\<exists>message. read = Ok message \<and> msg_Values message ''version'' = Some (AString ''6'') \<and> pos = msg_ID message)"
  by (cases read) (auto simp: checkRedisSchema_def)

text \<open>C23. The daemon gets to its main loop only if the Redis schema has the expected version and the
  database had a complete and current schema, or none and it was imported.\<close>

theorem startup_checked:
  assumes "run_startup env f c = Inr (db, pos, notify)"
  shows "(\<exists>message. se_redis_schema env = Ok message \<and> msg_Values message ''version'' = Some (AString ''6'') \<and> pos = msg_ID message) \<and>
    (CheckSchema (se_schema env) = Ok () \<and> db = se_schema env \<or>
     needs_import f (se_schema env) \<and> se_import env (DatabaseSchemaDir f) (se_schema env) = Ok db)"
  using run_startup_Inr [OF assms] by (auto simp: start_schema_Ok checkRedisSchema_Ok needs_import_def)

text \<open>The imported schema is not checked again: the daemon runs on whatever version the schema
  directory contains, which the next start refuses.\<close>

theorem imported_schema_unchecked:
  assumes "run_startup env f c = Inr (db, pos, notify)" "needs_import f (se_schema env)" "CheckSchema db = Err e" "e \<noteq> ErrSchemaNotExists"
  shows "\<nexists>started. run_startup (env\<lparr>se_schema := db\<rparr>) f c = Inr started"
proof
  assume "\<exists>started. run_startup (env\<lparr>se_schema := db\<rparr>) f c = Inr started"
  then obtain db' pos' notify' where "run_startup (env\<lparr>se_schema := db\<rparr>) f c = Inr (db', pos', notify')"
    by (metis surj_pair)
  from run_startup_Inr(1) [OF this] show False using assms(3,4) by (simp add: start_schema_Ok)
qed

text \<open>When the process ends by a fatal error, a responsible instance leaves its row in the table and
  goes on claiming the responsibility; when it ends by a signal the claim is gone.\<close>

theorem fatal_exit_keeps_claim:
  assumes "ha_reach d clean envId (all_fresh envId) s" "running s i = Some h" "responsible h"
  shows "i \<in> claims envId (run_deferred (Fatal e) h (table s)) \<and> i \<notin> claims envId (run_deferred ExitSuccess h (table s))"
proof -
  have "node_ok envId i h (table s)" using ha_reach_inv [OF assms(1)] assms(2) by (simp add: ha_inv_def)
  then show ?thesis using assms(3) by (auto simp: node_ok_def claims_mem removeInstance_def)
qed

section \<open>Witnesses\<close>

definition sample_env :: "schema_db \<Rightarrow> schema_db \<Rightarrow> startup_env" where
  "sample_env db imported = \<lparr>se_logging = Ok (), se_database = Ok (), se_ping = Ok (), se_schema = db,
     se_import_database = Ok (), se_import = (\<lambda>dir d. Ok imported), se_redis = Ok (), se_redis_ping = Ok (),
     se_redis_schema = Ok \<lparr>msg_ID = ''1-0'', msg_Values = [''version'' \<mapsto> AString ''6'']\<rparr>, se_heartbeat_redis = Ok (),
     se_ha_database = Ok (), se_notifications = Ok ()\<rparr>"

definition sample_flags :: flags where
  "sample_flags = \<lparr>Version = False, Config = [], DatabaseAutoImport = True, DatabaseSchemaDir = ''./schema/''\<rparr>"

definition sample_config :: daemon_config where
  "sample_config = \<lparr>valid_Database = Ok (), valid_Redis = Ok (), valid_Logging = Ok (), valid_Notifications = Ok (), RedisPort = 6380,
     cfg_Retention = \<lparr>rc_HistoryDays = 0, rc_SlaDays = 0, rc_Interval = 1, rc_Count = 1, rc_Options = Map.empty\<rparr>,
     NotificationsUrl = [], DefaultRelations = []\<rparr>"

definition no_schema :: schema_db where
  "no_schema = \<lparr>sc_driver = ''mysql'', sc_table = Ok False, sc_rows = Ok []\<rparr>"

lemma sample_check:
  "CheckSchema no_schema = Err ErrSchemaNotExists" "CheckSchema (sample_schema [6]) = Err (ErrSchemaMismatch (WrongVersion 6))"
  by (simp_all add: CheckSchema_def no_schema_def expectedSchemaVersion_def sample_schema_def check_versions_def)

lemma sample_startup:
  "run_startup (sample_env no_schema (sample_schema [6])) sample_flags sample_config = Inr (sample_schema [6], ''1-0'', False)"
  by (simp add: run_startup_def sample_env_def sample_flags_def sample_config_def needs_import_def sample_check(1)
      start_schema_def checkRedisSchema_def)

theorem startup_checked_witness:
  "needs_import sample_flags no_schema \<and> CheckSchema no_schema \<noteq> Ok ()"
  using startup_checked [OF sample_startup] by (auto simp: sample_check sample_env_def)

theorem imported_schema_unchecked_witness:
  "\<nexists>started. run_startup ((sample_env no_schema (sample_schema [6]))\<lparr>se_schema := sample_schema [6]\<rparr>) sample_flags sample_config = Inr started"
  by (rule imported_schema_unchecked [OF sample_startup _ sample_check(2)])
    (simp_all add: needs_import_def sample_flags_def sample_env_def sample_check)

theorem fatal_exit_keeps_claim_witness:
  "[1] \<in> claims [7] (run_deferred (Fatal ''context canceled'') (sample_node 1 1000 True) \<lparr>instances = [sample_own_row 1 1000 True], environments = {[7]}\<rparr>)"
  using fatal_exit_keeps_claim [OF sample_ha_reach, of "[1]" "sample_node 1 1000 True" "''context canceled''"]
  by (simp add: sample_node_def)

end
