(* ===== verification/Sync_Wait.thy ===== *)
theory Sync_Wait
  imports Dump_Signals
begin

text \<open>
  \<open>SyncAfterDump\<close> of \<open>pkg/icingadb/sync.go\<close>: a type is synchronised after its dump. Each iteration of the
  loop asks for the channel of the key again.
\<close>

section \<open>The loop\<close>





section \<open>It starts after the dump\<close>












end
