(* ===== verification/Migrate_Main.thy ===== *)
theory Migrate_Main
  imports Migrate_Range Schema_Check
begin

text \<open>
  The history migration as a whole: \<open>main\<close> of \<open>cmd/icingadb-migrate/main.go\<close> with its configuration, the
  files of the cache and the phases, each of which is performed for all history types in parallel.
\<close>

section \<open>Command line and configuration\<close>

record migrate_flags =
  mf_Config :: string
  mf_Cache :: string

record migrate_config =
  mc_ido :: ido_config
  mc_env :: string

text \<open>\<open>encoding/hex\<close>, as the environment ID is given and as it is stored with the progress.\<close>

fun hex_DecodeString :: "string \<Rightarrow> bytes option" where
  "hex_DecodeString [] = Some []"
| "hex_DecodeString [c] = None"
| "hex_DecodeString (c # d # cs) =
     (case (hex_value c, hex_value d, hex_DecodeString cs) of
        (Some x, Some y, Some bs) \<Rightarrow> Some (of_nat (16 * x + y) # bs)
      | _ \<Rightarrow> None)"

text \<open>
  \<open>defaults.Set\<close>, opening the file and decoding it are parameters; without a configuration there is an
  exit code.
\<close>

definition parseConfig ::
    "(string \<Rightarrow> 'f option) \<Rightarrow> (migrate_config \<Rightarrow> migrate_config option) \<Rightarrow> ('f \<Rightarrow> migrate_config \<Rightarrow> migrate_config option) \<Rightarrow>
     migrate_flags \<Rightarrow> migrate_config option \<times> int" where
  "parseConfig open_file set_defaults decode f =
     (case open_file (mf_Config f) of
        None \<Rightarrow> (None, 2)
      | Some cf \<Rightarrow>
          (case set_defaults \<lparr>mc_ido = \<lparr>From = 0, To = 0\<rparr>, mc_env = []\<rparr> of
             None \<Rightarrow> (None, 2)
           | Some c \<Rightarrow> (case decode cf c of None \<Rightarrow> (None, 2) | Some c' \<Rightarrow> (Some c', -1))))"

section \<open>The files of the cache\<close>

text \<open>\<open>ReplaceAllLiteralString\<close> with \<open>\W+\<close>: one underscore for each run of other characters.\<close>

fun replace_nonWords :: "bool \<Rightarrow> string \<Rightarrow> string" where
  "replace_nonWords inside [] = []"
| "replace_nonWords inside (c # cs) =
     (if is_word c then c # replace_nonWords False cs
      else if inside then replace_nonWords True cs else CHR ''_'' # replace_nonWords True cs)"

text \<open>The name within the directory of the cache.\<close>

definition cache_name :: "historyType \<Rightarrow> ido_config \<Rightarrow> string" where
  "cache_name ht c = replace_nonWords False (ht_name ht) @ ''_'' @ FormatInt (From c) @ ''-'' @ FormatInt (To c) @ ''.sqlite3''"

section \<open>The state and what the program meets\<close>

text \<open>
  What outlives the program are the files of the cache and the database of Icinga DB. The other fields are
  those of the history types, by their names; \<open>mi_completed\<close> are the progress bars that are complete.
\<close>

record ('c, 'db) migration_run =
  mi_files :: "string \<rightharpoonup> 'c"
  mi_db :: 'db
  mi_cacheFile :: "string \<rightharpoonup> string"
  mi_range :: "string \<Rightarrow> nat \<times> nat"
  mi_progress :: "string \<rightharpoonup> progress"
  mi_completed :: "string set"

text \<open>
  What the calls return. An operation of one history type gives the state that it leaves and whether it
  came to its end: the process ends with the first that does not, and the others stop where they are,
  which is an operation that does not end either. \<open>en_orders\<close> is the order of the types in a phase.
\<close>

record ('c, 'db) migration_env =
  en_orders :: "string \<Rightarrow> historyType list"
  en_connect_ido :: bool
  en_connect_idb :: bool
  en_schema :: "'db \<Rightarrow> schema_db"
  en_begin :: "historyType \<Rightarrow> bool"
  en_mkdir :: bool
  en_open :: "historyType \<Rightarrow> bool"
  en_ddl :: "historyType \<Rightarrow> 'c option \<Rightarrow> 'c \<times> bool"
  en_from_unixtime :: "int \<Rightarrow> int option"
  en_rows :: "historyType \<Rightarrow> ido_row list option"
  en_objects :: "nat \<Rightarrow> bool"
  en_create_progress :: "'db \<Rightarrow> 'db \<times> bool"
  en_progress :: "'db \<Rightarrow> progress_table option"
  en_fill :: "historyType \<Rightarrow> nat \<times> nat \<Rightarrow> 'c \<Rightarrow> 'c \<times> bool"
  en_migrate :: "historyType \<Rightarrow> nat \<times> nat \<Rightarrow> progress option \<Rightarrow> 'c option \<Rightarrow> 'db \<Rightarrow> 'db \<times> bool"
  en_glob :: bool
  en_remove :: "string \<Rightarrow> bool"

type_synonym ('c, 'db) phase = "('c, 'db) migration_run \<Rightarrow> ('c, 'db) migration_run \<times> bool"

definition forEach :: "historyType list \<Rightarrow> (historyType \<Rightarrow> ('c, 'db) phase) \<Rightarrow> ('c, 'db) phase" where
  "forEach order f s = fold (\<lambda>ht (s, ok). let (s', ok') = f ht s in (s', ok \<and> ok')) order (s, True)"

section \<open>The phases\<close>

definition connectAll :: "('c, 'db) migration_env \<Rightarrow> ('c, 'db) phase" where
  "connectAll env s = (s, en_connect_ido env \<and> en_connect_idb env)"

definition check_schema :: "('c, 'db) migration_env \<Rightarrow> ('c, 'db) phase" where
  "check_schema env s = (s, CheckSchema (en_schema env (mi_db s)) = Ok ())"

definition startIdoTx :: "('c, 'db) migration_env \<Rightarrow> ('c, 'db) phase" where
  "startIdoTx env = forEach (en_orders env ''startIdoTx'') (\<lambda>ht s. (s, en_begin env ht))"

definition make_cache :: "('c, 'db) migration_env \<Rightarrow> ido_config \<Rightarrow> historyType \<Rightarrow> ('c, 'db) phase" where
  "make_cache env c ht s =
     (if \<not> has_cache ht then (s, True)
      else if \<not> en_open env ht then (s, False)
      else
        let file = cache_name ht c; (content, ok) = en_ddl env ht (mi_files s file)
        in (s\<lparr>mi_files := (mi_files s)(file \<mapsto> content), mi_cacheFile := (mi_cacheFile s)(ht_name ht \<mapsto> file)\<rparr>, ok))"

definition mkCache :: "('c, 'db) migration_env \<Rightarrow> ido_config \<Rightarrow> ('c, 'db) phase" where
  "mkCache env c s = (if \<not> en_mkdir env then (s, False) else forEach (en_orders env ''mkCache'') (make_cache env c) s)"

definition id_range :: "('c, 'db) migration_env \<Rightarrow> ido_config \<Rightarrow> ('c, 'db) phase" where
  "id_range env c =
     forEach (en_orders env ''computeIdRange'')
       (\<lambda>ht s. case en_rows env ht of
          None \<Rightarrow> (s, False)
        | Some rows \<Rightarrow> (s\<lparr>mi_range := (mi_range s)(ht_name ht := computeIdRange (en_from_unixtime env) c ht rows)\<rparr>, True))"

definition type_progress :: "('c, 'db) migration_env \<Rightarrow> ido_config \<Rightarrow> string \<Rightarrow> historyType \<Rightarrow> ('c, 'db) phase" where
  "type_progress env c envIdHex ht s =
     (case (en_progress env (mi_db s), en_rows env ht) of
        (Some tbl, Some rows) \<Rightarrow>
          let (fromId, toId) = mi_range s (ht_name ht)
          in (s\<lparr>mi_progress := (mi_progress s)(ht_name ht \<mapsto> computeProgress (en_objects env) c envIdHex ht fromId toId tbl rows)\<rparr>, True)
      | _ \<Rightarrow> (s, False))"

definition all_progress :: "('c, 'db) migration_env \<Rightarrow> ido_config \<Rightarrow> string \<Rightarrow> ('c, 'db) phase" where
  "all_progress env c envIdHex s =
     (let (db, ok) = en_create_progress env (mi_db s); s' = s\<lparr>mi_db := db\<rparr>
      in if \<not> ok then (s', False) else forEach (en_orders env ''computeProgress'') (type_progress env c envIdHex) s')"

definition fill_type :: "('c, 'db) migration_env \<Rightarrow> historyType \<Rightarrow> ('c, 'db) phase" where
  "fill_type env ht s =
     (case mi_cacheFile s (ht_name ht) of
        None \<Rightarrow> (s, \<not> has_cache ht)
      | Some file \<Rightarrow>
          (case mi_files s file of
             None \<Rightarrow> (s, False)
           | Some content \<Rightarrow>
               let (content', ok) = en_fill env ht (mi_range s (ht_name ht)) content
               in (s\<lparr>mi_files := (mi_files s)(file \<mapsto> content')\<rparr>, ok)))"

definition fillCache :: "('c, 'db) migration_env \<Rightarrow> ('c, 'db) phase" where
  "fillCache env = forEach (filter has_cache (en_orders env ''fillCache'')) (fill_type env)"

text \<open>The bar of a type is complete when \<open>migrateOneType\<close> has come to its end.\<close>

definition migrate_type :: "('c, 'db) migration_env \<Rightarrow> historyType \<Rightarrow> ('c, 'db) phase" where
  "migrate_type env ht s =
     (let n = ht_name ht; cache = Option.bind (mi_cacheFile s n) (mi_files s);
          (db, ok) = en_migrate env ht (mi_range s n) (mi_progress s n) cache (mi_db s)
      in (s\<lparr>mi_db := db, mi_completed := (if ok then insert n (mi_completed s) else mi_completed s)\<rparr>, ok))"

definition migrate_all :: "('c, 'db) migration_env \<Rightarrow> ('c, 'db) phase" where
  "migrate_all env s = forEach (en_orders env ''migrate'') (migrate_type env) (s\<lparr>mi_completed := {}\<rparr>)"

text \<open>Files that cannot be closed, listed or removed are only mentioned in the log.\<close>

definition cleanupCache :: "('c, 'db) migration_env \<Rightarrow> ('c, 'db) phase" where
  "cleanupCache env s =
     (if en_glob env
      then (s\<lparr>mi_files := (\<lambda>n. if has_suffix n ''.sqlite3'' \<and> en_remove env n then None else mi_files s n)\<rparr>, True)
      else (s, True))"

datatype migrate_end = ExitCode nat | Finished

fun run_phases :: "('c, 'db) phase list \<Rightarrow> ('c, 'db) migration_run \<Rightarrow> migrate_end \<times> ('c, 'db) migration_run" where
  "run_phases [] s = (Finished, s)"
| "run_phases (p # ps) s = (let (s', ok) = p s in if ok then run_phases ps s' else (ExitCode 1, s'))"

definition migrate_main ::
    "migrate_flags option \<Rightarrow> (migrate_flags \<Rightarrow> migrate_config option \<times> int) \<Rightarrow> ('c, 'db) migration_env \<Rightarrow>
     ('c, 'db) migration_run \<Rightarrow> migrate_end \<times> ('c, 'db) migration_run" where
  "migrate_main parsed parse_config env s =
     (case parsed of
        None \<Rightarrow> (ExitCode 2, s)
      | Some f \<Rightarrow>
          (case parse_config f of
             (None, code) \<Rightarrow> (ExitCode (nat code), s)
           | (Some c, _) \<Rightarrow>
               (case hex_DecodeString (mc_env c) of
                  None \<Rightarrow> (ExitCode 2, s)
                | Some envId \<Rightarrow>
                    if length envId \<noteq> 20 then (ExitCode 2, s)
                    else run_phases
                      [connectAll env, check_schema env, startIdoTx env, mkCache env (mc_ido c), id_range env (mc_ido c),
                       all_progress env (mc_ido c) (hex_EncodeToString envId), fillCache env, migrate_all env, cleanupCache env] s)))"

section \<open>Hexadecimal IDs\<close>

lemma hex_Decode_Encode: "hex_DecodeString (hex_EncodeToString bs) = Some bs"
proof (induction bs)
  case (Cons b bs)
  have "unat b < 256" using unsigned_less [of b] by simp
  then have "hex_value (hex_digit (unat b div 16)) = Some (unat b div 16)" "hex_value (hex_digit (unat b mod 16)) = Some (unat b mod 16)"
    by (simp_all add: hex_value_digit)
  moreover have "of_nat (16 * (unat b div 16) + unat b mod 16) = b" by (simp only: mult_div_mod_eq) simp
  ultimately show ?case using Cons.IH by (simp add: hex_EncodeToString_def)
qed (simp add: hex_EncodeToString_def)

section \<open>Names of the files\<close>

lemma split_at_unique:
  assumes "xs @ c # ys = xs' @ c # ys'" "c \<notin> set xs" "c \<notin> set xs'"
  shows "xs = xs' \<and> ys = ys'"
proof -
  have "takeWhile (\<lambda>x. x \<noteq> c) (xs @ c # ys) = xs" "takeWhile (\<lambda>x. x \<noteq> c) (xs' @ c # ys') = xs'"
    using assms(2,3) by (auto simp: takeWhile_append)
  then show ?thesis using assms(1) by auto
qed

lemma FormatInt_prefix:
  assumes "FormatInt i @ CHR ''-'' # xs = FormatInt j @ CHR ''-'' # ys"
  shows "i = j \<and> xs = ys"
proof -
  have hd: "hd (FormatInt k @ zs) = CHR ''-'' \<longleftrightarrow> k < 0" for k zs
    using hd_format_nat by (auto simp: FormatInt_def hd_append)
  have sign: "i < 0 \<longleftrightarrow> j < 0" using hd [of i "CHR ''-'' # xs"] hd [of j "CHR ''-'' # ys"] assms by simp
  have "format_nat (nat \<bar>i\<bar>) @ CHR ''-'' # xs = format_nat (nat \<bar>j\<bar>) @ CHR ''-'' # ys"
    using assms sign by (auto simp: FormatInt_def split: if_splits)
  then have "format_nat (nat \<bar>i\<bar>) = format_nat (nat \<bar>j\<bar>) \<and> xs = ys"
    using dash_not_in_format by (intro split_at_unique) auto
  then show ?thesis using format_nat_inj sign by fastforce
qed

lemma FormatInt_inj: "FormatInt i = FormatInt j \<Longrightarrow> i = j"
  using FormatInt_prefix [of i "[]" j "[]"] by simp

lemma FormatInt_chars: "c \<in> set (FormatInt i) \<Longrightarrow> c = CHR ''-'' \<or> is_digit c"
  by (auto simp: FormatInt_def dest: format_nat_digits split: if_splits)

text \<open>What follows the last underscore but one of the name is the range.\<close>

definition range_name :: "ido_config \<Rightarrow> string" where
  "range_name c = FormatInt (From c) @ ''-'' @ FormatInt (To c)"

lemma range_name_inj: "range_name c = range_name c' \<Longrightarrow> c = c'"
  using FormatInt_prefix [of "From c" "FormatInt (To c)" "From c'" "FormatInt (To c')"] FormatInt_inj
  by (cases c; cases c') (auto simp: range_name_def)

lemma range_name_plain: "CHR ''_'' \<notin> set (range_name c)"
  using FormatInt_chars by (fastforce simp: range_name_def is_digit_def)

lemma cache_name_range: "cache_name ht c = (replace_nonWords False (ht_name ht) @ CHR ''_'' # range_name c) @ ''.sqlite3''"
  by (simp add: cache_name_def range_name_def)

lemma name_and_range:
  assumes "a @ CHR ''_'' # range_name c = b @ CHR ''_'' # range_name c'"
  shows "a = b \<and> c = c'"
proof -
  have "rev (range_name c) @ CHR ''_'' # rev a = rev (range_name c') @ CHR ''_'' # rev b"
    using arg_cong [OF assms, of rev] by simp
  then have "rev (range_name c) = rev (range_name c') \<and> rev a = rev b"
    using range_name_plain by (intro split_at_unique) auto
  then show ?thesis using range_name_inj by simp
qed

lemma type_names_apart: "inj_on (\<lambda>ht. replace_nonWords False (ht_name ht)) (set typesToMigrate)"
  by (simp add: typesToMigrate_def is_word_def)

lemma cache_name_inj:
  assumes "cache_name ht c = cache_name ht' c'" "ht \<in> set typesToMigrate" "ht' \<in> set typesToMigrate"
  shows "ht = ht' \<and> c = c'"
  using assms(1) name_and_range inj_onD [OF type_names_apart _ assms(2,3)]
  unfolding cache_name_range append_same_eq by blast

lemma cache_name_sqlite [simp]: "has_suffix (cache_name ht c) ''.sqlite3''"
  by (simp add: cache_name_range has_suffix_def del: append_assoc)

section \<open>Phases and what they keep\<close>

lemma forEach_Nil [simp]: "forEach [] f s = (s, True)"
  by (simp add: forEach_def)

lemma forEach_snoc:
  "forEach (hts @ [ht]) f s = (fst (f ht (fst (forEach hts f s))), snd (forEach hts f s) \<and> snd (f ht (fst (forEach hts f s))))"
  by (simp add: forEach_def split: prod.split)

lemma forEach_keeps:
  assumes "\<And>ht s. P s \<Longrightarrow> P (fst (f ht s))" "P s"
  shows "P (fst (forEach order f s))"
  using assms by (induction order rule: rev_induct) (simp_all add: forEach_snoc)

lemma run_phases_append:
  "run_phases (ps @ qs) s = (case run_phases ps s of (Finished, s') \<Rightarrow> run_phases qs s' | (ExitCode n, s') \<Rightarrow> (ExitCode n, s'))"
  by (induction ps arbitrary: s) (auto simp: Let_def split: prod.split)

lemma run_phases_keeps:
  assumes "\<And>p s. p \<in> set ps \<Longrightarrow> P s \<Longrightarrow> P (fst (p s))" "P s"
  shows "P (snd (run_phases ps s))"
  using assms
proof (induction ps arbitrary: s)
  case (Cons p ps)
  then have "P (fst (p s))" by simp
  then show ?case using Cons by (cases "p s") (simp add: Let_def)
qed simp

text \<open>No phase but the last removes a file.\<close>

definition keeps_files :: "('c, 'db) phase \<Rightarrow> bool" where
  "keeps_files p \<longleftrightarrow> (\<forall>s. dom (mi_files s) \<subseteq> dom (mi_files (fst (p s))))"

lemma forEach_keeps_files:
  assumes "\<And>ht. keeps_files (f ht)"
  shows "keeps_files (forEach order f)"
  unfolding keeps_files_def
proof
  fix s
  show "dom (mi_files s) \<subseteq> dom (mi_files (fst (forEach order f s)))"
    by (rule forEach_keeps) (use assms in \<open>unfold keeps_files_def, blast+\<close>)
qed

definition before_cleanup :: "('c, 'db) migration_env \<Rightarrow> ido_config \<Rightarrow> string \<Rightarrow> ('c, 'db) phase list" where
  "before_cleanup env c envIdHex =
     [connectAll env, check_schema env, startIdoTx env, mkCache env c, id_range env c, all_progress env c envIdHex, fillCache env]"

lemma phase_keeps_files:
  "keeps_files (connectAll env)" "keeps_files (check_schema env)" "keeps_files (startIdoTx env)" "keeps_files (mkCache env c)"
  "keeps_files (id_range env c)" "keeps_files (all_progress env c envIdHex)" "keeps_files (fillCache env)" "keeps_files (migrate_all env)"
proof -
  show "keeps_files (connectAll env)" "keeps_files (check_schema env)" by (simp_all add: keeps_files_def connectAll_def check_schema_def)
  show "keeps_files (startIdoTx env)" unfolding startIdoTx_def by (rule forEach_keeps_files) (simp add: keeps_files_def)
  have "keeps_files (make_cache env c ht)" for ht by (auto simp: keeps_files_def make_cache_def Let_def split: prod.split)
  then have "keeps_files (forEach (en_orders env ''mkCache'') (make_cache env c))" by (rule forEach_keeps_files)
  then show "keeps_files (mkCache env c)" by (simp add: keeps_files_def mkCache_def)
  show "keeps_files (id_range env c)"
    unfolding id_range_def by (rule forEach_keeps_files) (simp add: keeps_files_def split: option.split)
  have "keeps_files (type_progress env c envIdHex ht)" for ht
    by (simp add: keeps_files_def type_progress_def split: option.split prod.split)
  then have p: "keeps_files (forEach (en_orders env ''computeProgress'') (type_progress env c envIdHex))" by (rule forEach_keeps_files)
  show "keeps_files (all_progress env c envIdHex)"
    unfolding keeps_files_def
  proof (rule allI)
    show "dom (mi_files s) \<subseteq> dom (mi_files (fst (all_progress env c envIdHex s)))" for s
      using p [unfolded keeps_files_def, THEN spec, of "s\<lparr>mi_db := fst (en_create_progress env (mi_db s))\<rparr>"]
      by (cases "en_create_progress env (mi_db s)") (simp add: all_progress_def Let_def)
  qed
  have "keeps_files (fill_type env ht)" for ht
    by (auto simp: keeps_files_def fill_type_def Let_def split: option.split prod.split)
  then show "keeps_files (fillCache env)" unfolding fillCache_def by (rule forEach_keeps_files)
  have "keeps_files (migrate_type env ht)" for ht by (simp add: keeps_files_def migrate_type_def Let_def split: prod.split)
  then have m: "keeps_files (forEach (en_orders env ''migrate'') (migrate_type env))" by (rule forEach_keeps_files)
  show "keeps_files (migrate_all env)"
    unfolding keeps_files_def
  proof (rule allI)
    show "dom (mi_files s) \<subseteq> dom (mi_files (fst (migrate_all env s)))" for s
      using m [unfolded keeps_files_def, THEN spec, of "s\<lparr>mi_completed := {}\<rparr>"] by (simp add: migrate_all_def)
  qed
qed

lemma before_cleanup_keeps_files: "dom (mi_files s) \<subseteq> dom (mi_files (snd (run_phases (before_cleanup env c envIdHex) s)))"
proof (rule run_phases_keeps)
  show "dom (mi_files s) \<subseteq> dom (mi_files (fst (p t)))"
    if "p \<in> set (before_cleanup env c envIdHex)" "dom (mi_files s) \<subseteq> dom (mi_files t)" for p t
  proof -
    have "keeps_files p" using that(1) phase_keeps_files unfolding before_cleanup_def by auto
    then show ?thesis using that(2) unfolding keeps_files_def by (meson subset_trans)
  qed
qed simp

text \<open>A bar that is complete is that of a type whose migration came to its end.\<close>

lemma migrate_all_completed:
  assumes "snd (forEach order (migrate_type env) s)"
  shows "mi_completed (fst (forEach order (migrate_type env) s)) = mi_completed s \<union> ht_name ` set order"
  using assms
  by (induction order rule: rev_induct) (auto simp: forEach_snoc migrate_type_def Let_def split: prod.splits)

lemma cleanupCache_finishes [simp]: "snd (cleanupCache env s)"
  by (simp add: cleanupCache_def)

lemma cleanupCache_simps [simp]: "mi_completed (fst (cleanupCache env s)) = mi_completed s" "mi_db (fst (cleanupCache env s)) = mi_db s"
  by (simp_all add: cleanupCache_def)

lemma migrate_main_cases:
  obtains (stopped) n where "migrate_main parsed parse_config env s = (ExitCode n, s)"
  | (phases) c envIdHex where "migrate_main parsed parse_config env s =
      run_phases (before_cleanup env c envIdHex @ [migrate_all env, cleanupCache env]) s"
proof (cases parsed)
  case (Some f)
  obtain oc code where pc: "parse_config f = (oc, code)" by fastforce
  show thesis
  proof (cases "oc = None \<or> hex_DecodeString (mc_env (the oc)) = None \<or> length (the (hex_DecodeString (mc_env (the oc)))) \<noteq> 20")
    case True
    then have "\<exists>n. migrate_main parsed parse_config env s = (ExitCode n, s)"
      using Some pc by (auto simp: migrate_main_def simp del: run_phases.simps split: option.split)
    then show thesis using stopped by blast
  next
    case False
    then show thesis
      using phases Some pc by (auto simp: migrate_main_def before_cleanup_def simp del: run_phases.simps)
  qed
qed (use stopped in \<open>simp add: migrate_main_def\<close>)

section \<open>The types do not get in each other's way\<close>

lemma make_cache_simps:
  "\<not> has_cache ht \<Longrightarrow> make_cache env c ht s = (s, True)"
  "has_cache ht \<Longrightarrow> en_open env ht \<Longrightarrow> make_cache env c ht s =
     (s\<lparr>mi_files := (mi_files s)(cache_name ht c \<mapsto> fst (en_ddl env ht (mi_files s (cache_name ht c)))),
        mi_cacheFile := (mi_cacheFile s)(ht_name ht \<mapsto> cache_name ht c)\<rparr>, snd (en_ddl env ht (mi_files s (cache_name ht c))))"
  "has_cache ht \<Longrightarrow> \<not> en_open env ht \<Longrightarrow> make_cache env c ht s = (s, False)"
  by (simp_all add: make_cache_def Let_def split: prod.split)

lemma fill_type_simps:
  "mi_cacheFile s (ht_name ht) = Some file \<Longrightarrow> mi_files s file = Some content \<Longrightarrow> fill_type env ht s =
     (s\<lparr>mi_files := (mi_files s)(file \<mapsto> fst (en_fill env ht (mi_range s (ht_name ht)) content))\<rparr>,
      snd (en_fill env ht (mi_range s (ht_name ht)) content))"
  by (simp add: fill_type_def Let_def split: prod.split)

lemma fill_type_same: "mi_cacheFile (fst (fill_type env ht s)) = mi_cacheFile s" "mi_range (fst (fill_type env ht s)) = mi_range s"
  by (simp_all add: fill_type_def Let_def split: option.split prod.split)

lemma caches_made:
  assumes "snd (forEach hts (make_cache env c) s)" "distinct hts" "set hts \<subseteq> set typesToMigrate"
  shows "\<forall>ht\<in>set hts. has_cache ht \<longrightarrow>
      mi_cacheFile (fst (forEach hts (make_cache env c) s)) (ht_name ht) = Some (cache_name ht c) \<and>
      mi_files (fst (forEach hts (make_cache env c) s)) (cache_name ht c) = Some (fst (en_ddl env ht (mi_files s (cache_name ht c))))"
    and "\<forall>n. (\<forall>ht\<in>set hts. n \<noteq> cache_name ht c) \<longrightarrow> mi_files (fst (forEach hts (make_cache env c) s)) n = mi_files s n"
proof -
  let ?after = "\<lambda>hts. fst (forEach hts (make_cache env c) s)"
  have names: "ht_name ht = ht_name ht' \<Longrightarrow> ht = ht'" if "ht \<in> set typesToMigrate" "ht' \<in> set typesToMigrate" for ht ht'
    using inj_onD [OF type_names_apart _ that] by simp
  have "(\<forall>ht\<in>set hts. has_cache ht \<longrightarrow> mi_cacheFile (?after hts) (ht_name ht) = Some (cache_name ht c) \<and>
      mi_files (?after hts) (cache_name ht c) = Some (fst (en_ddl env ht (mi_files s (cache_name ht c))))) \<and>
    (\<forall>n. (\<forall>ht\<in>set hts. n \<noteq> cache_name ht c) \<longrightarrow> mi_files (?after hts) n = mi_files s n)"
    using assms
  proof (induction hts rule: rev_induct)
    case (snoc ht hts)
    let ?m = "?after hts"
    have IH: "\<And>t. t \<in> set hts \<Longrightarrow> has_cache t \<Longrightarrow> mi_cacheFile ?m (ht_name t) = Some (cache_name t c) \<and>
        mi_files ?m (cache_name t c) = Some (fst (en_ddl env t (mi_files s (cache_name t c))))"
      "\<And>n. (\<forall>t\<in>set hts. n \<noteq> cache_name t c) \<Longrightarrow> mi_files ?m n = mi_files s n"
      using snoc by (simp_all add: forEach_snoc)
    have others: "ht_name t \<noteq> ht_name ht" "cache_name t c \<noteq> cache_name ht c" if "t \<in> set hts" for t
      using that names [of t ht] cache_name_inj [of t c ht c] snoc.prems(2,3) by auto
    show ?case
    proof (cases "has_cache ht")
      case False
      then show ?thesis using IH by (auto simp: forEach_snoc make_cache_simps)
    next
      case True
      have "mi_files ?m (cache_name ht c) = mi_files s (cache_name ht c)" using others(2) by (intro IH(2)) metis
      moreover have "en_open env ht" using snoc.prems(1) True by (cases "en_open env ht") (simp_all add: forEach_snoc make_cache_simps)
      ultimately show ?thesis
        using True IH others by (auto simp: forEach_snoc make_cache_simps)
    qed
  qed simp
  then show "\<forall>ht\<in>set hts. has_cache ht \<longrightarrow> mi_cacheFile (?after hts) (ht_name ht) = Some (cache_name ht c) \<and>
      mi_files (?after hts) (cache_name ht c) = Some (fst (en_ddl env ht (mi_files s (cache_name ht c))))"
    "\<forall>n. (\<forall>ht\<in>set hts. n \<noteq> cache_name ht c) \<longrightarrow> mi_files (?after hts) n = mi_files s n"
    by blast+
qed

lemma caches_filled:
  assumes "distinct hts" "set hts \<subseteq> set typesToMigrate"
    "\<forall>ht\<in>set hts. mi_cacheFile s (ht_name ht) = Some (cache_name ht c) \<and> mi_files s (cache_name ht c) = Some (content ht)"
  shows "\<forall>ht\<in>set typesToMigrate. mi_files (fst (forEach hts (fill_type env) s)) (cache_name ht c) =
    (if ht \<in> set hts then Some (fst (en_fill env ht (mi_range s (ht_name ht)) (content ht))) else mi_files s (cache_name ht c))"
proof -
  let ?after = "\<lambda>hts. fst (forEach hts (fill_type env) s)"
  have same: "mi_cacheFile (?after hts) = mi_cacheFile s \<and> mi_range (?after hts) = mi_range s" for hts
    by (rule forEach_keeps) (simp_all add: fill_type_same)
  show ?thesis
    using assms
  proof (induction hts rule: rev_induct)
    case (snoc ht hts)
    have IH: "\<forall>t\<in>set typesToMigrate. mi_files (?after hts) (cache_name t c) =
        (if t \<in> set hts then Some (fst (en_fill env t (mi_range s (ht_name t)) (content t))) else mi_files s (cache_name t c))"
      using snoc by simp
    have h: "ht \<in> set typesToMigrate" "ht \<notin> set hts" "mi_cacheFile s (ht_name ht) = Some (cache_name ht c)"
      "mi_files s (cache_name ht c) = Some (content ht)" using snoc.prems by simp_all
    then have f: "mi_files (?after hts) (cache_name ht c) = Some (content ht)" using IH by simp
    show ?case
    proof
      fix t assume t: "t \<in> set typesToMigrate"
      have "cache_name t c = cache_name ht c \<longleftrightarrow> t = ht" using cache_name_inj [OF _ t h(1)] by auto
      then show "mi_files (?after (hts @ [ht])) (cache_name t c) =
          (if t \<in> set (hts @ [ht]) then Some (fst (en_fill env t (mi_range s (ht_name t)) (content t))) else mi_files s (cache_name t c))"
        using IH [rule_format, OF t] h f same [of hts]
        by (simp add: forEach_snoc fill_type_simps)
    qed
  qed simp
qed

section \<open>Properties\<close>

text \<open>C35. The files of the cache stay until all history is migrated: a run that ends in any other way removes
  none, so that the next one continues with them, and a run that comes to its end has migrated every type
  and leaves no SQLite database in the directory that can be removed.\<close>

theorem caches_kept_until_migrated:
  assumes "migrate_main parsed parse_config env s = (e, s')" "set (en_orders env ''migrate'') = set typesToMigrate"
  shows "(e \<noteq> Finished \<longrightarrow> dom (mi_files s) \<subseteq> dom (mi_files s')) \<and>
    (e = Finished \<longrightarrow> mi_completed s' = ht_name ` set typesToMigrate \<and>
      (en_glob env \<longrightarrow> (\<forall>n\<in>dom (mi_files s'). \<not> (has_suffix n ''.sqlite3'' \<and> en_remove env n))))"
proof (cases rule: migrate_main_cases [of parsed parse_config env s])
  case (stopped n)
  then show ?thesis using assms(1) by simp
next
  case (phases c envIdHex)
  then have run: "run_phases (before_cleanup env c envIdHex @ [migrate_all env, cleanupCache env]) s = (e, s')" using assms(1) by simp
  obtain e1 s1 where first: "run_phases (before_cleanup env c envIdHex) s = (e1, s1)" by fastforce
  have k1: "dom (mi_files s) \<subseteq> dom (mi_files s1)" using before_cleanup_keeps_files [of s env c envIdHex] by (simp add: first)
  show ?thesis
  proof (cases "e1 = Finished \<and> snd (migrate_all env s1)")
    case True
    let ?s2 = "fst (migrate_all env s1)"
    have "(e, s') = (Finished, fst (cleanupCache env ?s2))"
      using run True first by (simp add: run_phases_append Let_def case_prod_unfold)
    moreover have "mi_completed ?s2 = ht_name ` set typesToMigrate"
      using migrate_all_completed [of "en_orders env ''migrate''" env "s1\<lparr>mi_completed := {}\<rparr>"] True assms(2)
      by (simp add: migrate_all_def)
    ultimately show ?thesis by (auto simp: cleanupCache_def split: if_splits)
  next
    case False
    then have "e \<noteq> Finished \<and> (s' = s1 \<or> s' = fst (migrate_all env s1))"
      using run first by (auto simp: run_phases_append Let_def split: prod.splits migrate_end.splits)
    then show ?thesis using k1 phase_keeps_files(8) [of env] unfolding keeps_files_def by blast
  qed
qed

text \<open>C36. The caches of the history types are apart: after \<open>mkCache\<close> and \<open>fillCache\<close>, in whatever order the types
  were handled, each file is what the filler of its type makes of what the file held before, which no other
  type and no other range of time has touched.\<close>

theorem caches_filled_apart:
  assumes "mkCache env c s0 = (s1, True)" "mi_files s2 = mi_files s1 \<and> mi_cacheFile s2 = mi_cacheFile s1"
    "distinct (en_orders env ''mkCache'') \<and> set (en_orders env ''mkCache'') = set typesToMigrate"
    "distinct (en_orders env ''fillCache'') \<and> set (en_orders env ''fillCache'') = set typesToMigrate"
    "ht \<in> set typesToMigrate" "has_cache ht"
  shows "mi_files (fst (fillCache env s2)) (cache_name ht c) =
    Some (fst (en_fill env ht (mi_range s2 (ht_name ht)) (fst (en_ddl env ht (mi_files s0 (cache_name ht c)))))) \<and>
    (c' \<noteq> c \<longrightarrow> mi_files s1 (cache_name ht c') = mi_files s0 (cache_name ht c'))"
proof -
  let ?content = "\<lambda>ht. fst (en_ddl env ht (mi_files s0 (cache_name ht c)))"
  have s1: "fst (forEach (en_orders env ''mkCache'') (make_cache env c) s0) = s1" "snd (forEach (en_orders env ''mkCache'') (make_cache env c) s0)"
    using assms(1) by (auto simp: mkCache_def split: if_splits)
  note made = caches_made [OF s1(2), unfolded s1(1)]
  have "\<forall>t\<in>set typesToMigrate. mi_files (fst (fillCache env s2)) (cache_name t c) =
      (if t \<in> set (filter has_cache (en_orders env ''fillCache'')) then Some (fst (en_fill env t (mi_range s2 (ht_name t)) (?content t)))
       else mi_files s2 (cache_name t c))"
    unfolding fillCache_def by (rule caches_filled) (use assms made(1) in auto)
  moreover have "mi_files s1 (cache_name ht c') = mi_files s0 (cache_name ht c')" if "c' \<noteq> c"
    using made(2) assms(3,5) that cache_name_inj [of ht c' _ c] by auto
  ultimately show ?thesis using assms(4-6) by simp
qed

section \<open>Witnesses\<close>

text \<open>A run on a database with the expected schema, in which everything succeeds; the files hold a number.\<close>

definition sample_migration_env :: "schema_db \<Rightarrow> (nat, nat) migration_env" where
  "sample_migration_env db =
     \<lparr>en_orders = (\<lambda>_. typesToMigrate), en_connect_ido = True, en_connect_idb = True, en_schema = (\<lambda>_. db),
      en_begin = (\<lambda>_. True), en_mkdir = True, en_open = (\<lambda>_. True), en_ddl = (\<lambda>_ c. (case c of None \<Rightarrow> 0 | Some n \<Rightarrow> n, True)),
      en_from_unixtime = Some, en_rows = (\<lambda>_. Some []), en_objects = (\<lambda>_. True), en_create_progress = (\<lambda>n. (n, True)),
      en_progress = (\<lambda>_. Some Map.empty), en_fill = (\<lambda>_ _ n. (n + 1, True)), en_migrate = (\<lambda>_ _ _ _ n. (n + 1, True)),
      en_glob = True, en_remove = (\<lambda>_. True)\<rparr>"

definition sample_migration :: "(nat, nat) migration_run" where
  "sample_migration = \<lparr>mi_files = [''other.sqlite3'' \<mapsto> 5], mi_db = 0, mi_cacheFile = Map.empty, mi_range = (\<lambda>_. (0, 0)),
     mi_progress = Map.empty, mi_completed = {}\<rparr>"

definition sample_migration_db :: schema_db where
  "sample_migration_db = \<lparr>sc_driver = ''mysql'', sc_table = Ok True, sc_rows = Ok [7]\<rparr>"

definition sample_migrate_config :: migrate_config where
  "sample_migrate_config = \<lparr>mc_ido = unlimited, mc_env = replicate 40 (CHR ''a'')\<rparr>"

lemma sample_order [simp]: "en_orders (sample_migration_env db) phase = typesToMigrate"
  by (simp add: sample_migration_env_def)

lemma typesToMigrate_distinct [simp]: "distinct typesToMigrate"
  by (simp add: typesToMigrate_def)

lemma sample_caches_made: "snd (mkCache (sample_migration_env db) c s)"
proof -
  have "snd (make_cache (sample_migration_env db) c ht s)" for ht s
    by (simp add: make_cache_def sample_migration_env_def Let_def)
  then have "snd (forEach hts (make_cache (sample_migration_env db) c) s)" for hts s
    by (induction hts rule: rev_induct) (simp_all add: forEach_snoc)
  then show ?thesis by (simp add: mkCache_def sample_migration_env_def)
qed

theorem caches_kept_until_migrated_witness:
  "\<exists>e s'. migrate_main (Some \<lparr>mf_Config = [], mf_Cache = []\<rparr>) (\<lambda>_. (Some sample_migrate_config, -1))
      (sample_migration_env sample_migration_db) sample_migration = (e, s') \<and>
    (e \<noteq> Finished \<longrightarrow> ''other.sqlite3'' \<in> dom (mi_files s')) \<and> (e = Finished \<longrightarrow> ''state'' \<in> mi_completed s')"
proof -
  let ?env = "sample_migration_env sample_migration_db"
  obtain e s' where run: "migrate_main (Some \<lparr>mf_Config = [], mf_Cache = []\<rparr>) (\<lambda>_. (Some sample_migrate_config, -1)) ?env sample_migration = (e, s')"
    by fastforce
  have "set (en_orders ?env ''migrate'') = set typesToMigrate" by simp
  note kept = caches_kept_until_migrated [OF run this]
  have "''other.sqlite3'' \<in> dom (mi_files sample_migration)" by (simp add: sample_migration_def)
  moreover have "''state'' \<in> ht_name ` set typesToMigrate" by (simp add: typesToMigrate_def)
  ultimately show ?thesis using run kept by blast
qed

theorem caches_filled_apart_witness:
  "mi_files (fst (fillCache (sample_migration_env sample_migration_db) (fst (mkCache (sample_migration_env sample_migration_db) unlimited sample_migration))))
    (cache_name (typesToMigrate ! 2) unlimited) = Some 1"
proof -
  let ?env = "sample_migration_env sample_migration_db"
  obtain s1 where s1: "mkCache ?env unlimited sample_migration = (s1, True)"
    using sample_caches_made [of sample_migration_db unlimited sample_migration] by (metis prod.collapse)
  have "mi_files sample_migration (cache_name (typesToMigrate ! 2) unlimited) = None"
    by (simp add: sample_migration_def cache_name_def typesToMigrate_def is_word_def)
  moreover have "typesToMigrate ! 2 \<in> set typesToMigrate" "has_cache (typesToMigrate ! 2)" by (simp_all add: typesToMigrate_def)
  ultimately show ?thesis
    using caches_filled_apart [OF s1, of s1 "typesToMigrate ! 2"] s1 by (simp add: sample_migration_env_def)
qed

end
