(* ===== verification/Host_Address.thy ===== *)
theory Host_Address
  imports Stream_Id
begin

text \<open>
  The addresses of a host, \<open>Host\<close>, \<open>AddressBin\<close> and \<open>Address6Bin\<close> of \<open>pkg/icingadb/v1/host.go\<close>: what is written
  to the columns \<open>address_bin\<close> and \<open>address6_bin\<close>, with \<open>net.ParseIP\<close> and \<open>IP.To4\<close> of the Go library.
\<close>

section \<open>Parsing addresses\<close>

text \<open>
  The octets of an IPv4 address, \<open>parseIPv4Fields\<close>: \<open>octets\<close> are those that are complete, \<open>val\<close> and \<open>digLen\<close>
  belong to the current one. A field has at least one digit, no leading zero and a value below 256.
\<close>

fun parseIPv4Fields :: "nat list \<Rightarrow> nat \<Rightarrow> nat \<Rightarrow> string \<Rightarrow> bytes option" where
  "parseIPv4Fields octets val digLen [] =
     (if digLen = 0 \<or> length octets < 3 then None else Some (map of_nat (octets @ [val])))"
| "parseIPv4Fields octets val digLen (c # cs) =
     (if is_digit c then
        (if digLen = 1 \<and> val = 0 then None
         else if 255 < 10 * val + digit_val c then None
         else parseIPv4Fields octets (10 * val + digit_val c) (digLen + 1) cs)
      else if c = CHR ''.'' then
        (if digLen = 0 \<or> length octets = 3 then None else parseIPv4Fields (octets @ [val]) 0 0 cs)
      else None)"

definition parseIPv4 :: "string \<Rightarrow> bytes option" where
  "parseIPv4 s = parseIPv4Fields [] 0 0 s"

text \<open>The digits of a group: at most four of them; the value and the rest.\<close>

fun hex_group :: "nat \<Rightarrow> nat \<Rightarrow> string \<Rightarrow> (nat \<times> nat \<times> string) option" where
  "hex_group off acc [] = Some (off, acc, [])"
| "hex_group off acc (c # cs) =
     (case hex_value c of
        None \<Rightarrow> Some (off, acc, c # cs)
      | Some d \<Rightarrow> if 3 < off then None else hex_group (off + 1) (16 * acc + d) cs)"

lemma hex_group_length: "hex_group off acc s = Some (off', acc', rest) \<Longrightarrow> length rest + off' = length s + off"
  by (induction off acc s rule: hex_group.induct) (auto split: option.splits if_splits)

text \<open>
  The loop of \<open>parseIPv6\<close>: the bytes so far, where the omitted groups belong, and what is left of the string.
\<close>

function ipv6_groups :: "bytes \<Rightarrow> nat option \<Rightarrow> string \<Rightarrow> (bytes \<times> nat option \<times> string) option" where
  "ipv6_groups ip ellipsis s =
     (if 16 \<le> length ip then Some (ip, ellipsis, s)
      else
        (case hex_group 0 0 s of
           None \<Rightarrow> None
         | Some (off, acc, rest) \<Rightarrow>
             if off = 0 then None
             else if rest \<noteq> [] \<and> hd rest = CHR ''.'' then
               (if ellipsis = None \<and> length ip \<noteq> 12 \<or> 16 < length ip + 4 then None
                else map_option (\<lambda>octets. (ip @ octets, ellipsis, [])) (parseIPv4Fields [] 0 0 s))
             else
               (let ip' = ip @ [of_nat (acc div 256), of_nat (acc mod 256)] in
                if rest = [] then Some (ip', ellipsis, [])
                else if hd rest \<noteq> CHR '':'' \<or> tl rest = [] then None
                else
                  (let s' = tl rest in
                   if hd s' = CHR '':'' then
                     (if ellipsis \<noteq> None then None
                      else if tl s' = [] then Some (ip', Some (length ip'), [])
                      else ipv6_groups ip' (Some (length ip')) (tl s'))
                   else ipv6_groups ip' ellipsis s'))))"
  by pat_completeness auto

termination
  by (relation "measure (\<lambda>(ip, ellipsis, s). 16 - length ip)") auto

declare ipv6_groups.simps [simp del]

text \<open>The omitted groups are zeros, at least one of them.\<close>

definition expand_ellipsis :: "bytes \<times> nat option \<times> string \<Rightarrow> bytes option" where
  "expand_ellipsis r =
     (case r of (ip, ellipsis, s) \<Rightarrow>
        if s \<noteq> [] then None
        else
          (case ellipsis of
             None \<Rightarrow> if length ip < 16 then None else Some ip
           | Some e \<Rightarrow> if length ip < 16 then Some (take e ip @ replicate (16 - length ip) 0 @ drop e ip) else None))"

definition parseIPv6 :: "string \<Rightarrow> bytes option" where
  "parseIPv6 s =
     (case s of
        a # b # rest \<Rightarrow>
          if a = CHR '':'' \<and> b = CHR '':'' then
            (if rest = [] then Some (replicate 16 0) else Option.bind (ipv6_groups [] (Some 0) rest) expand_ellipsis)
          else Option.bind (ipv6_groups [] None s) expand_ellipsis
      | _ \<Rightarrow> Option.bind (ipv6_groups [] None s) expand_ellipsis)"

text \<open>
  \<open>net.ParseIP\<close>: the first dot or colon tells which kind of address it is; IPv4 addresses are mapped into IPv6.
  An address with a zone is none.
\<close>

definition As16 :: "bytes \<Rightarrow> bytes" where
  "As16 ip = replicate 10 0 @ [255, 255] @ ip"

definition ParseIP :: "string \<Rightarrow> bytes option" where
  "ParseIP s =
     (if CHR ''%'' \<in> set s then None
      else
        (case find (\<lambda>c. c = CHR ''.'' \<or> c = CHR '':'') s of
           None \<Rightarrow> None
         | Some c \<Rightarrow> if c = CHR ''.'' then map_option As16 (parseIPv4 s) else parseIPv6 s))"

definition To4 :: "bytes \<Rightarrow> bytes option" where
  "To4 ip =
     (if length ip = 4 then Some ip
      else if length ip = 16 \<and> take 12 ip = replicate 10 0 @ [255, 255] then Some (drop 12 ip) else None)"

section \<open>The columns\<close>

text \<open>
  A host with its two addresses. \<open>AddressBin\<close> and \<open>Address6Bin\<close> hold a pointer to the host, which \<open>Init\<close> sets:
  they are written from the address that the host has then.
\<close>

record host_addresses =
  Address :: string
  Address6 :: string
  AddressBin_set :: bool
  Address6Bin_set :: bool

definition new_host :: host_addresses where
  "new_host = \<lparr>Address = [], Address6 = [], AddressBin_set = False, Address6Bin_set = False\<rparr>"

definition Host_Init :: "host_addresses \<Rightarrow> host_addresses" where
  "Host_Init h = h\<lparr>AddressBin_set := True, Address6Bin_set := True\<rparr>"

definition AddressBin_Value :: "host_addresses \<Rightarrow> bytes option" where
  "AddressBin_Value h = (if \<not> AddressBin_set h then None else Option.bind (ParseIP (Address h)) To4)"

definition Address6Bin_Value :: "host_addresses \<Rightarrow> bytes option" where
  "Address6Bin_Value h = (if \<not> Address6Bin_set h then None else ParseIP (Address6 h))"

text \<open>A host as the synchronisation makes it: \<open>SafeInit\<close>, then the values of Redis.\<close>

definition read_host :: "string \<Rightarrow> string \<Rightarrow> host_addresses" where
  "read_host address address6 = (Host_Init new_host)\<lparr>Address := address, Address6 := address6\<rparr>"

lemma replicate_bytes:
  "replicate 8 x = [x, x, x, x, x, x, x, x]" "replicate 10 x = [x, x, x, x, x, x, x, x, x, x]"
  "replicate 12 x = [x, x, x, x, x, x, x, x, x, x, x, x]"
  by (simp_all add: eval_nat_numeral)

lemmas address_eval = replicate_bytes AddressBin_Value_def Address6Bin_Value_def read_host_def new_host_def Host_Init_def ParseIP_def To4_def As16_def
  parseIPv4_def parseIPv6_def ipv6_groups.simps expand_ellipsis_def hex_value_def is_digit_def digit_val_def Let_def

section \<open>The cases of \<open>host_test.go\<close>\<close>

lemma address_cases:
  "AddressBin_Value new_host = None" "AddressBin_Value (read_host ''invalid'' []) = None"
  "AddressBin_Value (read_host ''2001:db8::'' []) = None"
  "AddressBin_Value (read_host ''192.0.2.0'' []) = Some [192, 0, 2, 0]"
  "AddressBin_Value (read_host ''::ffff:192.0.2.0'' []) = Some [192, 0, 2, 0]"
  by (simp_all add: address_eval)

lemma address6_cases:
  "Address6Bin_Value new_host = None" "Address6Bin_Value (read_host [] ''invalid'') = None"
  "Address6Bin_Value (read_host [] ''2001:db8::'') = Some [32, 1, 13, 184, 0, 0, 0, 0, 0, 0, 0, 0, 0, 0, 0, 0]"
  "Address6Bin_Value (read_host [] ''192.0.2.0'') = Some [0, 0, 0, 0, 0, 0, 0, 0, 0, 0, 255, 255, 192, 0, 2, 0]"
  "Address6Bin_Value (read_host [] ''::ffff:192.0.2.0'') = Some [0, 0, 0, 0, 0, 0, 0, 0, 0, 0, 255, 255, 192, 0, 2, 0]"
  by (simp_all add: address_eval)

section \<open>Printed addresses\<close>

definition dotted :: "8 word \<Rightarrow> 8 word \<Rightarrow> 8 word \<Rightarrow> 8 word \<Rightarrow> string" where
  "dotted a b c d = format_nat (unat a) @ ''.'' @ format_nat (unat b) @ ''.'' @ format_nat (unat c) @ ''.'' @ format_nat (unat d)"

fun format_hex :: "nat \<Rightarrow> string" where
  "format_hex n = (if n < 16 then [hex_digit n] else format_hex (n div 16) @ [hex_digit (n mod 16)])"

declare format_hex.simps [simp del]

fun groups_string :: "16 word list \<Rightarrow> string" where
  "groups_string [] = []"
| "groups_string [g] = format_hex (unat g)"
| "groups_string (g # h # gs) = format_hex (unat g) @ CHR '':'' # groups_string (h # gs)"

definition group_bytes :: "16 word list \<Rightarrow> bytes" where
  "group_bytes gs = concat (map (\<lambda>g. [of_nat (unat g div 256), of_nat (unat g mod 256)]) gs)"

lemma length_group_bytes [simp]: "length (group_bytes gs) = 2 * length gs"
  by (induction gs) (simp_all add: group_bytes_def)

lemma group_bytes_Nil [simp]: "group_bytes [] = []"
  by (simp add: group_bytes_def)

lemma group_bytes_Cons: "group_bytes (g # gs) = [of_nat (unat g div 256), of_nat (unat g mod 256)] @ group_bytes gs"
  by (simp add: group_bytes_def)

lemma byte_bound [simp]: "unat (b :: 8 word) < 256" "unat (b :: 8 word) \<le> 255"
proof -
  show "unat b < 256" using unsigned_less [of b] by simp
  then show "unat b \<le> 255" by simp
qed

lemma group_bound [simp]: "unat (g :: 16 word) < 65536"
  using unsigned_less [of g] by simp

section \<open>Reading what is printed\<close>

lemma parse_octet:
  "n \<le> 255 \<Longrightarrow> parseIPv4Fields octets 0 0 (format_nat n @ rest) = parseIPv4Fields octets n (length (format_nat n)) rest"
proof (induction n arbitrary: rest rule: format_nat.induct)
  case (1 n)
  show ?case
  proof (cases "n < 10")
    case True
    then show ?thesis using 1 by (subst (1 2) format_nat.simps) simp
  next
    case False
    have "10 * (n div 10) + n mod 10 = n" by simp
    moreover have "n div 10 \<noteq> 0" using False by simp
    ultimately show ?thesis
      using 1 False by (subst (1 2) format_nat.simps) simp
  qed
qed

lemma parseIPv4_dotted: "parseIPv4 (dotted a b c d) = Some [a, b, c, d]"
  using parse_octet [of "unat d" "[unat a, unat b, unat c]" "[]"]
  by (simp add: parseIPv4_def dotted_def parse_octet is_digit_def)

lemma length_format_hex: "n < 16 ^ Suc k \<Longrightarrow> length (format_hex n) \<le> Suc k"
proof (induction k arbitrary: n)
  case (Suc k)
  show ?case
  proof (cases "n < 16")
    case False
    have "n div 16 < 16 ^ Suc k" using Suc.prems by (simp add: less_mult_imp_div_less mult.commute)
    then have "length (format_hex (n div 16)) \<le> Suc k" by (rule Suc.IH)
    then show ?thesis using False by (subst format_hex.simps) simp
  qed (subst format_hex.simps, simp)
qed (subst format_hex.simps, simp)

lemma format_hex_nonempty [simp]: "format_hex n \<noteq> []"
  by (subst format_hex.simps) simp

lemma format_hex_chars: "c \<in> set (format_hex n) \<Longrightarrow> \<exists>d<16. c = hex_digit d"
proof (induction n rule: format_hex.induct)
  case (1 n)
  have c: "c \<in> set (if n < 16 then [hex_digit n] else format_hex (n div 16) @ [hex_digit (n mod 16)])"
    using 1(2) by (subst (asm) format_hex.simps)
  show ?case
  proof (cases "n < 16")
    case False
    then consider "c \<in> set (format_hex (n div 16))" | "c = hex_digit (n mod 16)" using c by auto
    then show ?thesis using 1(1) False by cases (blast, metis mod_less_divisor zero_less_numeral)
  qed (use c in auto)
qed

lemma read_group:
  "n < 65536 \<Longrightarrow> hex_group 0 0 (format_hex n @ rest) = hex_group (length (format_hex n)) n rest"
proof (induction n arbitrary: rest rule: format_hex.induct)
  case (1 n)
  show ?case
  proof (cases "n < 16")
    case True
    then show ?thesis by (subst (1 2) format_hex.simps) (simp add: hex_value_digit)
  next
    case False
    have "n div 16 < 16 ^ Suc 2" using 1(2) by simp
    then have "length (format_hex (n div 16)) \<le> 3" using length_format_hex [of "n div 16" 2] by simp
    moreover have "16 * (n div 16) + n mod 16 = n" by simp
    ultimately show ?thesis using 1 False by (subst (1 2) format_hex.simps) (simp add: hex_value_digit)
  qed
qed

lemma colon_no_hex [simp]: "hex_value (CHR '':'') = None"
  by (simp add: hex_value_def)

lemma read_group_colon [simp]:
  "hex_group 0 0 (format_hex (unat (g :: 16 word))) = Some (length (format_hex (unat g)), unat g, [])"
  "hex_group 0 0 (format_hex (unat g) @ CHR '':'' # rest) = Some (length (format_hex (unat g)), unat g, CHR '':'' # rest)"
  using read_group [of "unat g" "[]"] read_group [of "unat g" "CHR '':'' # rest"] by simp_all

lemma hex_digit_no_colon: "d < 16 \<Longrightarrow> hex_digit d \<noteq> CHR '':'' \<and> hex_digit d \<noteq> CHR ''.'' \<and> hex_digit d \<noteq> CHR ''%''"
  using hex_value_digit [of d] by (auto simp: hex_value_def)

lemma format_hex_no_colon: "CHR '':'' \<notin> set (format_hex n)" "CHR ''.'' \<notin> set (format_hex n)" "CHR ''%'' \<notin> set (format_hex n)"
  using format_hex_chars hex_digit_no_colon by metis+

lemma groups_string_chars: "CHR ''.'' \<notin> set (groups_string gs)" "CHR ''%'' \<notin> set (groups_string gs)"
  by (induction gs rule: groups_string.induct) (auto simp: format_hex_no_colon)

lemma hd_groups_string: "gs \<noteq> [] \<Longrightarrow> hd (groups_string gs @ rest) \<noteq> CHR '':'' \<and> groups_string gs \<noteq> []"
  using format_hex_no_colon(1) by (cases gs rule: groups_string.cases) (auto simp: hd_append dest: hd_in_set, (metis format_hex_nonempty hd_in_set)+)

text \<open>A list of groups that fits is read as it is; before a second colon, it is followed by the omitted groups.\<close>

lemma read_groups:
  assumes "gs \<noteq> []" "length ip + 2 * length gs \<le> 16"
  shows "ipv6_groups ip e (groups_string gs) = Some (ip @ group_bytes gs, e, [])"
  using assms
proof (induction gs arbitrary: ip rule: groups_string.induct)
  case (2 g)
  then show ?case by (simp add: ipv6_groups.simps [of ip] group_bytes_def Let_def)
next
  case (3 g h gs)
  then show ?case
    using hd_groups_string [of "h # gs" "[]"] ipv6_groups.simps [of ip e "groups_string (g # h # gs)"]
    by (simp add: group_bytes_Cons Let_def)
qed simp

lemma read_groups_ellipsis:
  assumes "gs \<noteq> []" "length ip + 2 * length gs < 16" "length ip + 2 * length gs + 2 * length hs < 16"
  shows "ipv6_groups ip None (groups_string gs @ '':'' @ '':'' @ groups_string hs) =
    Some (ip @ group_bytes gs @ group_bytes hs, Some (length ip + 2 * length gs), [])"
  using assms
proof (induction gs arbitrary: ip rule: groups_string.induct)
  case (2 g)
  then show ?case
    using hd_groups_string [of hs "[]"] read_groups [of hs "ip @ group_bytes [g]" "Some (length ip + 2)"]
    by (cases "hs = []") (simp_all add: ipv6_groups.simps [of ip] group_bytes_def Let_def)
next
  case (3 g h gs)
  then show ?case
    using hd_groups_string [of "h # gs" "CHR '':'' # CHR '':'' # groups_string hs"] hd_groups_string [of "h # gs" "[]"]
      ipv6_groups.simps [of ip None "groups_string (g # h # gs) @ '':'' @ '':'' @ groups_string hs"]
    by (simp add: group_bytes_Cons Let_def)
qed simp

lemma ParseIP_dotted: "ParseIP (dotted a b c d) = Some (As16 [a, b, c, d])"
proof -
  have digits: "CHR ''%'' \<notin> set (format_nat n)" "CHR '':'' \<notin> set (format_nat n)" for n
    using format_nat_digits by (fastforce simp: is_digit_def)+
  have "find (\<lambda>x. x = CHR ''.'' \<or> x = CHR '':'') (format_nat n @ CHR ''.'' # rest) = Some (CHR ''.'')" for n rest
  proof -
    have "\<not> (x = CHR ''.'' \<or> x = CHR '':'')" if "x \<in> set (format_nat n)" for x
      using format_nat_digits [OF that] by (auto simp: is_digit_def)
    then have "find (\<lambda>x. x = CHR ''.'' \<or> x = CHR '':'') (xs @ CHR ''.'' # rest) = Some (CHR ''.'')"
      if "set xs \<subseteq> set (format_nat n)" for xs using that by (induction xs) auto
    then show ?thesis by blast
  qed
  then have "find (\<lambda>x. x = CHR ''.'' \<or> x = CHR '':'') (dotted a b c d) = Some (CHR ''.'')" by (simp add: dotted_def)
  moreover have "CHR ''%'' \<notin> set (dotted a b c d)" by (simp add: dotted_def digits)
  ultimately show ?thesis by (simp add: ParseIP_def parseIPv4_dotted)
qed

definition ipv6_string :: "16 word list \<Rightarrow> 16 word list \<Rightarrow> string" where
  "ipv6_string gs hs = (if length gs = 8 then groups_string gs else groups_string gs @ ''::'' @ groups_string hs)"

lemma find_colon: "CHR ''.'' \<notin> set xs \<Longrightarrow> CHR '':'' \<in> set xs \<Longrightarrow> find (\<lambda>x. x = CHR ''.'' \<or> x = CHR '':'') xs = Some (CHR '':'')"
  by (induction xs) auto

lemma parseIPv6_groups:
  assumes "hd s \<noteq> CHR '':''" "s \<noteq> []"
  shows "parseIPv6 s = Option.bind (ipv6_groups [] None s) expand_ellipsis"
  using assms by (cases s rule: list.exhaust; cases "tl s") (auto simp: parseIPv6_def)

lemma parseIPv6_string:
  "length gs = 8 \<Longrightarrow> parseIPv6 (groups_string gs) = Some (group_bytes gs)"
  "length gs + length hs < 8 \<Longrightarrow> parseIPv6 (groups_string gs @ ''::'' @ groups_string hs) =
     Some (group_bytes gs @ replicate (16 - 2 * (length gs + length hs)) 0 @ group_bytes hs)"
proof -
  assume g: "length gs = 8"
  then have "gs \<noteq> []" by auto
  then show "parseIPv6 (groups_string gs) = Some (group_bytes gs)"
    using g hd_groups_string [of gs "[]"] read_groups [of gs "[]" None] by (simp add: parseIPv6_groups expand_ellipsis_def)
next
  assume l: "length gs + length hs < 8"
  show "parseIPv6 (groups_string gs @ ''::'' @ groups_string hs) =
     Some (group_bytes gs @ replicate (16 - 2 * (length gs + length hs)) 0 @ group_bytes hs)"
  proof (cases "gs = []")
    case True
    then show ?thesis
      using l hd_groups_string [of hs "[]"] read_groups [of hs "[]" "Some 0"]
      by (cases "hs = []") (simp_all add: parseIPv6_def expand_ellipsis_def)
  next
    case False
    then show ?thesis
      using l hd_groups_string [of gs "''::'' @ groups_string hs"] hd_groups_string [of gs "[]"] read_groups_ellipsis [of gs "[]" hs]
        parseIPv6_groups [of "groups_string gs @ ''::'' @ groups_string hs"]
      by (simp add: expand_ellipsis_def)
  qed
qed

lemma ParseIP_ipv6:
  assumes "length gs = 8 \<and> hs = [] \<or> length gs + length hs < 8"
  shows "ParseIP (ipv6_string gs hs) = Some (group_bytes gs @ replicate (16 - 2 * (length gs + length hs)) 0 @ group_bytes hs)"
proof -
  have "CHR '':'' \<in> set (ipv6_string gs hs)"
    using assms by (cases gs rule: groups_string.cases) (auto simp: ipv6_string_def)
  moreover have "CHR ''.'' \<notin> set (ipv6_string gs hs)" "CHR ''%'' \<notin> set (ipv6_string gs hs)"
    by (auto simp: ipv6_string_def groups_string_chars)
  ultimately have "ParseIP (ipv6_string gs hs) = parseIPv6 (ipv6_string gs hs)" by (simp add: ParseIP_def find_colon)
  then show ?thesis using assms parseIPv6_string(2) [of gs hs] parseIPv6_string(1) [of gs]
    by (auto simp: ipv6_string_def)
qed

section \<open>What is accepted has the right length\<close>

lemma parseIPv4Fields_length: "length octets \<le> 3 \<Longrightarrow> parseIPv4Fields octets val digLen s = Some bs \<Longrightarrow> length bs = 4"
  by (induction octets val digLen s rule: parseIPv4Fields.induct) (auto split: if_splits)

lemma ipv6_groups_length:
  "ipv6_groups ip e s = Some (ip', e', s') \<Longrightarrow> even (length ip) \<Longrightarrow> length ip \<le> 16 \<Longrightarrow> (\<forall>n. e = Some n \<longrightarrow> n \<le> length ip) \<Longrightarrow>
   length ip' \<le> 16 \<and> (\<forall>n. e' = Some n \<longrightarrow> n \<le> length ip')"
proof (induction ip e s rule: ipv6_groups.induct)
  case (1 ip e s)
  show ?case
  proof (cases "16 \<le> length ip")
    case False
    then have room: "length ip + 2 \<le> 16" using 1(4) by presburger
    obtain off acc rest where g: "hex_group 0 0 s = Some (off, acc, rest)" "off \<noteq> 0"
      using 1(3) False by (subst (asm) ipv6_groups.simps) (auto split: option.splits if_splits)
    note unfolded = 1(3) [unfolded ipv6_groups.simps [of ip e s]]
    let ?ip = "ip @ [of_nat (acc div 256), of_nat (acc mod 256)]"
    show ?thesis
    proof (cases "rest \<noteq> [] \<and> hd rest = CHR ''.''")
      case True
      then obtain octets where "parseIPv4Fields [] 0 0 s = Some octets" "ip' = ip @ octets" "e' = e" "length ip + 4 \<le> 16"
        using unfolded False g by (auto split: if_splits)
      then show ?thesis using parseIPv4Fields_length [of "[]" 0 0 s octets] 1(6) by fastforce
    next
      case no_dot: False
      show ?thesis
      proof (cases "rest = []")
        case True
        then show ?thesis using unfolded False g room 1(6) by (auto simp: Let_def)
      next
        case more: False
        then have colon: "hd rest = CHR '':''" "tl rest \<noteq> []" using unfolded False g no_dot by (auto simp: Let_def split: if_splits)
        show ?thesis
        proof (cases "hd (tl rest) = CHR '':''")
          case True
          then show ?thesis
            using unfolded False g no_dot more colon room 1(4)
              1(1) [of "(off, acc, rest)" off "(acc, rest)" acc rest ?ip "tl rest"]
            by (auto simp: Let_def split: if_splits)
        next
          case nc: False
          have "\<forall>n. e = Some n \<longrightarrow> n \<le> Suc (Suc (length ip))" using 1(6) by (simp add: le_SucI)
          then show ?thesis
            using nc unfolded False g no_dot more colon room 1(4,6)
              1(2) [of "(off, acc, rest)" off "(acc, rest)" acc rest ?ip "tl rest"]
            by (auto simp: Let_def split: if_splits)
        qed
      qed
    qed
  qed (use 1(3-6) in \<open>simp add: ipv6_groups.simps\<close>)
qed

lemma expand_length:
  assumes "Option.bind (ipv6_groups [] e s) expand_ellipsis = Some bs" "\<forall>n. e = Some n \<longrightarrow> n = 0"
  shows "length bs = 16"
proof -
  obtain ip e' s' where g: "ipv6_groups [] e s = Some (ip, e', s')" "expand_ellipsis (ip, e', s') = Some bs"
    using assms(1) by (auto simp: bind_eq_Some_conv)
  then have "length ip \<le> 16" "\<forall>n. e' = Some n \<longrightarrow> n \<le> length ip" using ipv6_groups_length [OF g(1)] assms(2) by auto
  then show ?thesis using g(2) by (auto simp: expand_ellipsis_def split: if_splits option.splits)
qed

lemma parseIPv6_length: "parseIPv6 s = Some bs \<Longrightarrow> length bs = 16"
  unfolding parseIPv6_def by (auto split: list.splits if_splits intro: expand_length)

lemma ParseIP_length: "ParseIP s = Some ip \<Longrightarrow> length ip = 16"
  using parseIPv4Fields_length [of "[]" 0 0 s] parseIPv6_length [of s ip]
  by (auto simp: ParseIP_def parseIPv4_def As16_def split: if_splits option.splits)

lemma group_bytes_append: "group_bytes (gs @ hs) = group_bytes gs @ group_bytes hs"
  by (simp add: group_bytes_def)

section \<open>Properties\<close>

text \<open>C38. An IPv4 address is stored as its four bytes, and in the column for IPv6 addresses as the address that
  it is mapped to; an IPv6 address is stored as its groups, with zeros for the omitted ones.\<close>

theorem addresses_stored:
  assumes "length gs = 8 \<and> hs = [] \<or> length gs + length hs < 8"
  shows "AddressBin_Value (read_host (dotted a b c d) address6) = Some [a, b, c, d] \<and>
    Address6Bin_Value (read_host address (dotted a b c d)) = Some (replicate 10 0 @ [255, 255, a, b, c, d]) \<and>
    Address6Bin_Value (read_host address (ipv6_string gs hs)) =
      Some (group_bytes (gs @ replicate (8 - (length gs + length hs)) 0 @ hs))"
proof -
  have zeros: "group_bytes (replicate n 0) = replicate (2 * n) 0" for n by (induction n) (simp_all add: group_bytes_Cons)
  have "16 - 2 * (length gs + length hs) = 2 * (8 - (length gs + length hs))" by simp
  then show ?thesis
    using ParseIP_ipv6 [OF assms]
    by (simp add: AddressBin_Value_def Address6Bin_Value_def read_host_def Host_Init_def ParseIP_dotted To4_def As16_def
        group_bytes_append zeros)
qed

text \<open>Whatever the addresses are, the columns hold NULL or an address of the right length, 4 bytes and 16 bytes,
  and the one of a host without \<open>Init\<close> is NULL.\<close>

theorem address_columns_bounded:
  "(case AddressBin_Value h of None \<Rightarrow> True | Some bs \<Rightarrow> length bs = 4 \<and> AddressBin_set h) \<and>
   (case Address6Bin_Value h of None \<Rightarrow> True | Some bs \<Rightarrow> length bs = 16 \<and> Address6Bin_set h)"
proof -
  have "length bs = 4" if "ParseIP (Address h) = Some ip" "To4 ip = Some bs" for ip bs
    using that ParseIP_length [OF that(1)] by (auto simp: To4_def split: if_splits)
  then show ?thesis
    by (auto simp: AddressBin_Value_def Address6Bin_Value_def bind_eq_Some_conv dest: ParseIP_length split: option.split)
qed

theorem addresses_stored_witness:
  "Address6Bin_Value (read_host [] (ipv6_string [8193, 3512] [1])) = Some (group_bytes [8193, 3512, 0, 0, 0, 0, 0, 1])"
  using addresses_stored [of "[8193, 3512]" "[1]"] by (simp add: eval_nat_numeral)

end
