(* ===== verification/Config_Types.thy ===== *)
theory Config_Types
  imports Delta
begin

text \<open>
  The configuration and state types of \<open>pkg/icingadb/v1\<close> that are synchronised: their fields with the keys by which
  the values of Redis are found, the lists \<open>ConfigFactories\<close> and \<open>StateFactories\<close> of \<open>v1.go\<close>, and how \<open>Init\<close> prepares
  a value. A field is its name, its type and its key, \<open>-\<close> for one that has none; the fields of an embedded
  struct are fields of the type.
\<close>

section \<open>Fields and embedded structs\<close>

text \<open>The types of the Icinga Go library may be null; those in lower case are Go's.\<close>

datatype go_type =
    Binary_T | Bool_T | Int_T | Float_T | String_T | UnixMilli_T
  | string_T | float64_T | uint8_T | uint16_T | uint32_T | uint64_T | string_ptr_T
  | AddressBin_T | Address6Bin_T

type_synonym go_field = "string \<times> go_type \<times> string"

definition IdMeta_fields :: "go_field list" where
  "IdMeta_fields =
     [(''Id'', Binary_T, ''id'')]"

definition ChecksumMeta_fields :: "go_field list" where
  "ChecksumMeta_fields =
     [(''PropertiesChecksum'', Binary_T, ''checksum'')]"

definition EntityWithoutChecksum_fields :: "go_field list" where
  "EntityWithoutChecksum_fields =
     IdMeta_fields"

definition EntityWithChecksum_fields :: "go_field list" where
  "EntityWithChecksum_fields =
     EntityWithoutChecksum_fields @ ChecksumMeta_fields"

definition EnvironmentMeta_fields :: "go_field list" where
  "EnvironmentMeta_fields =
     [(''EnvironmentId'', Binary_T, ''environment_id'')]"

definition NameMeta_fields :: "go_field list" where
  "NameMeta_fields =
     [(''Name'', string_T, ''name''), (''NameChecksum'', Binary_T, ''name_checksum'')]"

definition NameCiMeta_fields :: "go_field list" where
  "NameCiMeta_fields =
     NameMeta_fields @
     [(''NameCi'', string_ptr_T, ''-'')]"

definition CustomvarMeta_fields :: "go_field list" where
  "CustomvarMeta_fields =
     EntityWithoutChecksum_fields @ EnvironmentMeta_fields @
     [(''CustomvarId'', Binary_T, ''customvar_id'')]"

definition GroupMeta_fields :: "go_field list" where
  "GroupMeta_fields =
     EntityWithChecksum_fields @ EnvironmentMeta_fields @ NameCiMeta_fields @
     [(''DisplayName'', string_T, ''display_name''), (''ZoneId'', Binary_T, ''zone_id'')]"

definition MemberMeta_fields :: "go_field list" where
  "MemberMeta_fields =
     EntityWithoutChecksum_fields @ EnvironmentMeta_fields"

section \<open>Commands\<close>

definition Command_fields :: "go_field list" where
  "Command_fields =
     EntityWithChecksum_fields @ EnvironmentMeta_fields @ NameCiMeta_fields @
     [(''ZoneId'', Binary_T, ''zone_id''), (''Command'', string_T, ''command''),
      (''Timeout'', uint32_T, ''timeout'')]"

definition CommandArgument_fields :: "go_field list" where
  "CommandArgument_fields =
     EntityWithChecksum_fields @ EnvironmentMeta_fields @
     [(''ArgumentKey'', string_T, ''argument_key''), (''ArgumentValue'', String_T, ''value''),
      (''ArgumentOrder'', Int_T, ''order''), (''Description'', String_T, ''description''),
      (''ArgumentKeyOverride'', String_T, ''key''), (''RepeatKey'', Bool_T, ''repeat_key''),
      (''Required'', Bool_T, ''required''), (''SetIf'', String_T, ''set_if''),
      (''Separator'', String_T, ''separator''), (''SkipKey'', Bool_T, ''skip_key'')]"

definition CommandEnvvar_fields :: "go_field list" where
  "CommandEnvvar_fields =
     EntityWithChecksum_fields @ EnvironmentMeta_fields @
     [(''EnvvarKey'', string_T, ''envvar_key''), (''EnvvarValue'', string_T, ''value'')]"

definition Checkcommand_fields :: "go_field list" where
  "Checkcommand_fields =
     Command_fields"

definition CheckcommandArgument_fields :: "go_field list" where
  "CheckcommandArgument_fields =
     CommandArgument_fields @
     [(''CheckcommandId'', Binary_T, ''checkcommand_id'')]"

definition CheckcommandEnvvar_fields :: "go_field list" where
  "CheckcommandEnvvar_fields =
     CommandEnvvar_fields @
     [(''CheckcommandId'', Binary_T, ''checkcommand_id'')]"

definition CheckcommandCustomvar_fields :: "go_field list" where
  "CheckcommandCustomvar_fields =
     CustomvarMeta_fields @
     [(''CheckcommandId'', Binary_T, ''checkcommand_id'')]"

definition Eventcommand_fields :: "go_field list" where
  "Eventcommand_fields =
     Command_fields"

definition EventcommandArgument_fields :: "go_field list" where
  "EventcommandArgument_fields =
     CommandArgument_fields @
     [(''EventcommandId'', Binary_T, ''eventcommand_id'')]"

definition EventcommandEnvvar_fields :: "go_field list" where
  "EventcommandEnvvar_fields =
     CommandEnvvar_fields @
     [(''EventcommandId'', Binary_T, ''eventcommand_id'')]"

definition EventcommandCustomvar_fields :: "go_field list" where
  "EventcommandCustomvar_fields =
     CustomvarMeta_fields @
     [(''EventcommandId'', Binary_T, ''eventcommand_id'')]"

definition Notificationcommand_fields :: "go_field list" where
  "Notificationcommand_fields =
     Command_fields"

definition NotificationcommandArgument_fields :: "go_field list" where
  "NotificationcommandArgument_fields =
     CommandArgument_fields @
     [(''NotificationcommandId'', Binary_T, ''notificationcommand_id'')]"

definition NotificationcommandEnvvar_fields :: "go_field list" where
  "NotificationcommandEnvvar_fields =
     CommandEnvvar_fields @
     [(''NotificationcommandId'', Binary_T, ''notificationcommand_id'')]"

definition NotificationcommandCustomvar_fields :: "go_field list" where
  "NotificationcommandCustomvar_fields =
     CustomvarMeta_fields @
     [(''NotificationcommandId'', Binary_T, ''notificationcommand_id'')]"

section \<open>Hosts and services\<close>

definition Checkable_fields :: "go_field list" where
  "Checkable_fields =
     EntityWithChecksum_fields @ EnvironmentMeta_fields @ NameCiMeta_fields @
     [(''ActionUrlId'', Binary_T, ''action_url_id''),
      (''ActiveChecksEnabled'', Bool_T, ''active_checks_enabled''),
      (''CheckInterval'', float64_T, ''check_interval''),
      (''CheckTimeperiodName'', string_T, ''check_timeperiod_name''),
      (''CheckTimeperiodId'', Binary_T, ''check_timeperiod_id''),
      (''CheckRetryInterval'', float64_T, ''check_retry_interval''),
      (''TotalChildren'', Int_T, ''total_children''), (''CheckTimeout'', Float_T, ''check_timeout''),
      (''CheckcommandName'', string_T, ''checkcommand_name''),
      (''CheckcommandId'', Binary_T, ''checkcommand_id''),
      (''CommandEndpointName'', string_T, ''command_endpoint_name''),
      (''CommandEndpointId'', Binary_T, ''command_endpoint_id''),
      (''DisplayName'', string_T, ''display_name''),
      (''EventHandlerEnabled'', Bool_T, ''event_handler_enabled''),
      (''EventcommandName'', string_T, ''eventcommand_name''),
      (''EventcommandId'', Binary_T, ''eventcommand_id''), (''FlappingEnabled'', Bool_T, ''flapping_enabled''),
      (''FlappingThresholdHigh'', float64_T, ''flapping_threshold_high''),
      (''FlappingThresholdLow'', float64_T, ''flapping_threshold_low''),
      (''IconImageAlt'', string_T, ''icon_image_alt''), (''IconImageId'', Binary_T, ''icon_image_id''),
      (''IsVolatile'', Bool_T, ''is_volatile''), (''MaxCheckAttempts'', uint32_T, ''max_check_attempts''),
      (''Notes'', string_T, ''notes''), (''NotesUrlId'', Binary_T, ''notes_url_id''),
      (''NotificationsEnabled'', Bool_T, ''notifications_enabled''),
      (''PassiveChecksEnabled'', Bool_T, ''passive_checks_enabled''),
      (''PerfdataEnabled'', Bool_T, ''perfdata_enabled''), (''ZoneName'', string_T, ''zone_name''),
      (''ZoneId'', Binary_T, ''zone_id'')]"

definition State_fields :: "go_field list" where
  "State_fields =
     EntityWithChecksum_fields @ EnvironmentMeta_fields @
     [(''AcknowledgementCommentId'', Binary_T, ''acknowledgement_comment_id''),
      (''LastCommentId'', Binary_T, ''last_comment_id''), (''CheckAttempt'', uint32_T, ''check_attempt''),
      (''CheckCommandline'', String_T, ''check_commandline''), (''CheckSource'', String_T, ''check_source''),
      (''SchedulingSource'', String_T, ''scheduling_source''),
      (''ExecutionTime'', Float_T, ''execution_time''), (''HardState'', uint8_T, ''hard_state''),
      (''InDowntime'', Bool_T, ''in_downtime''), (''AffectsChildren'', Bool_T, ''affects_children''),
      (''IsAcknowledged'', Bool_T, ''is_acknowledged''),
      (''IsStickyAcknowledgement'', Bool_T, ''is_sticky_acknowledgement''),
      (''IsFlapping'', Bool_T, ''is_flapping''), (''IsHandled'', Bool_T, ''is_handled''),
      (''IsProblem'', Bool_T, ''is_problem''), (''IsReachable'', Bool_T, ''is_reachable''),
      (''LastStateChange'', UnixMilli_T, ''last_state_change''),
      (''LastUpdate'', UnixMilli_T, ''last_update''), (''Latency'', Float_T, ''latency''),
      (''LongOutput'', String_T, ''long_output''), (''NextCheck'', UnixMilli_T, ''next_check''),
      (''NextUpdate'', UnixMilli_T, ''next_update''), (''Output'', String_T, ''output''),
      (''PerformanceData'', String_T, ''performance_data''),
      (''NormalizedPerformanceData'', String_T, ''normalized_performance_data''),
      (''PreviousSoftState'', uint8_T, ''previous_soft_state''),
      (''PreviousHardState'', uint8_T, ''previous_hard_state''), (''Severity'', uint16_T, ''severity''),
      (''SoftState'', uint8_T, ''soft_state''), (''StateType'', string_T, ''state_type''),
      (''CheckTimeout'', Float_T, ''check_timeout'')]"

definition Host_fields :: "go_field list" where
  "Host_fields =
     Checkable_fields @
     [(''Address'', string_T, ''address''), (''Address6'', string_T, ''address6''),
      (''AddressBin'', AddressBin_T, ''-''), (''Address6Bin'', Address6Bin_T, ''-'')]"

definition HostCustomvar_fields :: "go_field list" where
  "HostCustomvar_fields =
     CustomvarMeta_fields @
     [(''HostId'', Binary_T, ''host_id'')]"

definition HostState_fields :: "go_field list" where
  "HostState_fields =
     State_fields @
     [(''HostId'', Binary_T, ''host_id'')]"

definition Hostgroup_fields :: "go_field list" where
  "Hostgroup_fields =
     GroupMeta_fields"

definition HostgroupCustomvar_fields :: "go_field list" where
  "HostgroupCustomvar_fields =
     CustomvarMeta_fields @
     [(''HostgroupId'', Binary_T, ''hostgroup_id'')]"

definition HostgroupMember_fields :: "go_field list" where
  "HostgroupMember_fields =
     MemberMeta_fields @
     [(''HostId'', Binary_T, ''host_id''), (''HostgroupId'', Binary_T, ''hostgroup_id'')]"

definition Service_fields :: "go_field list" where
  "Service_fields =
     Checkable_fields @
     [(''HostId'', Binary_T, ''host_id'')]"

definition ServiceCustomvar_fields :: "go_field list" where
  "ServiceCustomvar_fields =
     CustomvarMeta_fields @
     [(''ServiceId'', Binary_T, ''service_id'')]"

definition ServiceState_fields :: "go_field list" where
  "ServiceState_fields =
     State_fields @
     [(''ServiceId'', Binary_T, ''service_id''), (''HostId'', Binary_T, ''host_id'')]"

definition Servicegroup_fields :: "go_field list" where
  "Servicegroup_fields =
     GroupMeta_fields"

definition ServicegroupCustomvar_fields :: "go_field list" where
  "ServicegroupCustomvar_fields =
     CustomvarMeta_fields @
     [(''ServicegroupId'', Binary_T, ''servicegroup_id'')]"

definition ServicegroupMember_fields :: "go_field list" where
  "ServicegroupMember_fields =
     MemberMeta_fields @
     [(''ServiceId'', Binary_T, ''service_id''), (''ServicegroupId'', Binary_T, ''servicegroup_id'')]"

section \<open>Comments, downtimes and URLs\<close>

definition Comment_fields :: "go_field list" where
  "Comment_fields =
     EntityWithChecksum_fields @ EnvironmentMeta_fields @ NameMeta_fields @
     [(''ObjectType'', string_T, ''object_type''), (''HostId'', Binary_T, ''host_id''),
      (''ServiceId'', Binary_T, ''service_id''), (''Author'', string_T, ''author''),
      (''Text'', string_T, ''text''), (''EntryType'', string_T, ''entry_type''),
      (''EntryTime'', UnixMilli_T, ''entry_time''), (''IsPersistent'', Bool_T, ''is_persistent''),
      (''IsSticky'', Bool_T, ''is_sticky''), (''ExpireTime'', UnixMilli_T, ''expire_time''),
      (''ZoneId'', Binary_T, ''zone_id'')]"

definition Downtime_fields :: "go_field list" where
  "Downtime_fields =
     EntityWithChecksum_fields @ EnvironmentMeta_fields @ NameMeta_fields @
     [(''TriggeredById'', Binary_T, ''triggered_by_id''), (''ParentId'', Binary_T, ''parent_id''),
      (''ObjectType'', string_T, ''object_type''), (''HostId'', Binary_T, ''host_id''),
      (''ServiceId'', Binary_T, ''service_id''), (''Author'', string_T, ''author''),
      (''Comment'', string_T, ''comment''), (''EntryTime'', UnixMilli_T, ''entry_time''),
      (''ScheduledStartTime'', UnixMilli_T, ''scheduled_start_time''),
      (''ScheduledEndTime'', UnixMilli_T, ''scheduled_end_time''),
      (''ScheduledDuration'', uint64_T, ''scheduled_duration''), (''IsFlexible'', Bool_T, ''is_flexible''),
      (''FlexibleDuration'', uint64_T, ''flexible_duration''), (''IsInEffect'', Bool_T, ''is_in_effect''),
      (''StartTime'', UnixMilli_T, ''start_time''), (''EndTime'', UnixMilli_T, ''end_time''),
      (''Duration'', uint64_T, ''duration''), (''ScheduledBy'', String_T, ''scheduled_by''),
      (''ZoneId'', Binary_T, ''zone_id'')]"

definition ActionUrl_fields :: "go_field list" where
  "ActionUrl_fields =
     EntityWithoutChecksum_fields @ EnvironmentMeta_fields @
     [(''ActionUrl'', string_T, ''action_url'')]"

definition NotesUrl_fields :: "go_field list" where
  "NotesUrl_fields =
     EntityWithoutChecksum_fields @ EnvironmentMeta_fields @
     [(''NotesUrl'', string_T, ''notes_url'')]"

definition IconImage_fields :: "go_field list" where
  "IconImage_fields =
     EntityWithoutChecksum_fields @ EnvironmentMeta_fields @
     [(''IconImage'', string_T, ''icon_image'')]"

section \<open>Notifications and users\<close>

definition Notification_fields :: "go_field list" where
  "Notification_fields =
     EntityWithChecksum_fields @ EnvironmentMeta_fields @ NameCiMeta_fields @
     [(''HostId'', Binary_T, ''host_id''), (''ServiceId'', Binary_T, ''service_id''),
      (''NotificationcommandId'', Binary_T, ''notificationcommand_id''),
      (''TimesBegin'', Int_T, ''times_begin''), (''TimesEnd'', Int_T, ''times_end''),
      (''NotificationInterval'', uint32_T, ''notification_interval''),
      (''TimeperiodId'', Binary_T, ''timeperiod_id''), (''States'', uint8_T, ''states''),
      (''Types'', uint16_T, ''types''), (''ZoneId'', Binary_T, ''zone_id'')]"

definition NotificationUser_fields :: "go_field list" where
  "NotificationUser_fields =
     EntityWithoutChecksum_fields @ EnvironmentMeta_fields @
     [(''NotificationId'', Binary_T, ''notification_id''), (''UserId'', Binary_T, ''user_id'')]"

definition NotificationUsergroup_fields :: "go_field list" where
  "NotificationUsergroup_fields =
     EntityWithoutChecksum_fields @ EnvironmentMeta_fields @
     [(''NotificationId'', Binary_T, ''notification_id''), (''UsergroupId'', Binary_T, ''usergroup_id'')]"

definition NotificationRecipient_fields :: "go_field list" where
  "NotificationRecipient_fields =
     EntityWithoutChecksum_fields @ EnvironmentMeta_fields @
     [(''NotificationId'', Binary_T, ''notification_id''), (''UserId'', Binary_T, ''user_id''),
      (''UsergroupId'', Binary_T, ''usergroup_id'')]"

definition NotificationCustomvar_fields :: "go_field list" where
  "NotificationCustomvar_fields =
     CustomvarMeta_fields @
     [(''NotificationId'', Binary_T, ''notification_id'')]"

definition User_fields :: "go_field list" where
  "User_fields =
     EntityWithChecksum_fields @ EnvironmentMeta_fields @ NameCiMeta_fields @
     [(''DisplayName'', string_T, ''display_name''), (''Email'', string_T, ''email''),
      (''Pager'', string_T, ''pager''), (''NotificationsEnabled'', Bool_T, ''notifications_enabled''),
      (''TimeperiodId'', Binary_T, ''timeperiod_id''), (''States'', uint8_T, ''states''),
      (''Types'', uint16_T, ''types''), (''ZoneId'', Binary_T, ''zone_id'')]"

definition UserCustomvar_fields :: "go_field list" where
  "UserCustomvar_fields =
     CustomvarMeta_fields @
     [(''UserId'', Binary_T, ''user_id'')]"

definition Usergroup_fields :: "go_field list" where
  "Usergroup_fields =
     GroupMeta_fields"

definition UsergroupCustomvar_fields :: "go_field list" where
  "UsergroupCustomvar_fields =
     CustomvarMeta_fields @
     [(''UsergroupId'', Binary_T, ''usergroup_id'')]"

definition UsergroupMember_fields :: "go_field list" where
  "UsergroupMember_fields =
     MemberMeta_fields @
     [(''UserId'', Binary_T, ''user_id''), (''UsergroupId'', Binary_T, ''usergroup_id'')]"

section \<open>Time periods, zones, dependencies and custom variables\<close>

definition Timeperiod_fields :: "go_field list" where
  "Timeperiod_fields =
     EntityWithChecksum_fields @ EnvironmentMeta_fields @ NameCiMeta_fields @
     [(''DisplayName'', string_T, ''display_name''), (''PreferIncludes'', Bool_T, ''prefer_includes''),
      (''ZoneId'', Binary_T, ''zone_id'')]"

definition TimeperiodRange_fields :: "go_field list" where
  "TimeperiodRange_fields =
     EntityWithoutChecksum_fields @ EnvironmentMeta_fields @
     [(''TimeperiodId'', Binary_T, ''timeperiod_id''), (''RangeKey'', string_T, ''range_key''),
      (''RangeValue'', string_T, ''range_value'')]"

definition TimeperiodOverrideInclude_fields :: "go_field list" where
  "TimeperiodOverrideInclude_fields =
     EntityWithoutChecksum_fields @ EnvironmentMeta_fields @
     [(''TimeperiodId'', Binary_T, ''timeperiod_id''), (''OverrideId'', Binary_T, ''include_id'')]"

definition TimeperiodOverrideExclude_fields :: "go_field list" where
  "TimeperiodOverrideExclude_fields =
     EntityWithoutChecksum_fields @ EnvironmentMeta_fields @
     [(''TimeperiodId'', Binary_T, ''timeperiod_id''), (''OverrideId'', Binary_T, ''exclude_id'')]"

definition TimeperiodCustomvar_fields :: "go_field list" where
  "TimeperiodCustomvar_fields =
     CustomvarMeta_fields @
     [(''TimeperiodId'', Binary_T, ''timeperiod_id'')]"

definition Endpoint_fields :: "go_field list" where
  "Endpoint_fields =
     EntityWithChecksum_fields @ EnvironmentMeta_fields @ NameCiMeta_fields @
     [(''ZoneId'', Binary_T, ''zone_id'')]"

definition Zone_fields :: "go_field list" where
  "Zone_fields =
     EntityWithChecksum_fields @ EnvironmentMeta_fields @ NameCiMeta_fields @
     [(''IsGlobal'', Bool_T, ''is_global''), (''ParentId'', Binary_T, ''parent_id''),
      (''Depth'', uint8_T, ''depth'')]"

definition Redundancygroup_fields :: "go_field list" where
  "Redundancygroup_fields =
     EntityWithoutChecksum_fields @ EnvironmentMeta_fields @
     [(''DisplayName'', string_T, ''display_name'')]"

definition RedundancygroupState_fields :: "go_field list" where
  "RedundancygroupState_fields =
     EntityWithoutChecksum_fields @ EnvironmentMeta_fields @
     [(''RedundancyGroupId'', Binary_T, ''redundancy_group_id''), (''Failed'', Bool_T, ''failed''),
      (''IsReachable'', Bool_T, ''is_reachable''), (''LastStateChange'', UnixMilli_T, ''last_state_change'')]"

definition DependencyNode_fields :: "go_field list" where
  "DependencyNode_fields =
     EntityWithoutChecksum_fields @ EnvironmentMeta_fields @
     [(''HostId'', Binary_T, ''host_id''), (''ServiceId'', Binary_T, ''service_id''),
      (''RedundancyGroupId'', Binary_T, ''redundancy_group_id'')]"

definition DependencyEdgeState_fields :: "go_field list" where
  "DependencyEdgeState_fields =
     EntityWithoutChecksum_fields @ EnvironmentMeta_fields @
     [(''Failed'', Bool_T, ''failed'')]"

definition DependencyEdge_fields :: "go_field list" where
  "DependencyEdge_fields =
     EntityWithoutChecksum_fields @ EnvironmentMeta_fields @
     [(''FromNodeId'', Binary_T, ''from_node_id''), (''ToNodeId'', Binary_T, ''to_node_id''),
      (''DependencyEdgeStateId'', Binary_T, ''dependency_edge_state_id''),
      (''DisplayName'', string_T, ''display_name'')]"

definition Customvar_fields :: "go_field list" where
  "Customvar_fields =
     EntityWithoutChecksum_fields @ EnvironmentMeta_fields @ NameMeta_fields @
     [(''Value'', string_T, ''value'')]"

definition CustomvarFlat_fields :: "go_field list" where
  "CustomvarFlat_fields =
     CustomvarMeta_fields @
     [(''Flatname'', string_T, ''flatname''), (''FlatnameChecksum'', Binary_T, ''flatname_checksum''),
      (''Flatvalue'', String_T, ''flatvalue'')]"

section \<open>The types that are synchronised\<close>

text \<open>The name of a type with its fields. The factories are the constructors \<open>New...\<close> of the types.\<close>

type_synonym entity_type = "string \<times> go_field list"

definition StateFactories :: "entity_type list" where
  "StateFactories =
     [(''HostState'', HostState_fields), (''ServiceState'', ServiceState_fields),
      (''DependencyEdgeState'', DependencyEdgeState_fields),
      (''RedundancygroupState'', RedundancygroupState_fields)]"

definition ConfigFactories :: "entity_type list" where
  "ConfigFactories =
     [(''ActionUrl'', ActionUrl_fields), (''Checkcommand'', Checkcommand_fields),
      (''CheckcommandArgument'', CheckcommandArgument_fields),
      (''CheckcommandCustomvar'', CheckcommandCustomvar_fields),
      (''CheckcommandEnvvar'', CheckcommandEnvvar_fields), (''Comment'', Comment_fields),
      (''Downtime'', Downtime_fields), (''Endpoint'', Endpoint_fields),
      (''Eventcommand'', Eventcommand_fields), (''EventcommandArgument'', EventcommandArgument_fields),
      (''EventcommandCustomvar'', EventcommandCustomvar_fields),
      (''EventcommandEnvvar'', EventcommandEnvvar_fields), (''Host'', Host_fields),
      (''HostCustomvar'', HostCustomvar_fields), (''Hostgroup'', Hostgroup_fields),
      (''HostgroupCustomvar'', HostgroupCustomvar_fields), (''HostgroupMember'', HostgroupMember_fields),
      (''IconImage'', IconImage_fields), (''NotesUrl'', NotesUrl_fields),
      (''Notification'', Notification_fields), (''Notificationcommand'', Notificationcommand_fields),
      (''NotificationcommandArgument'', NotificationcommandArgument_fields),
      (''NotificationcommandCustomvar'', NotificationcommandCustomvar_fields),
      (''NotificationcommandEnvvar'', NotificationcommandEnvvar_fields),
      (''NotificationCustomvar'', NotificationCustomvar_fields),
      (''NotificationRecipient'', NotificationRecipient_fields),
      (''NotificationUser'', NotificationUser_fields),
      (''NotificationUsergroup'', NotificationUsergroup_fields), (''Service'', Service_fields),
      (''ServiceCustomvar'', ServiceCustomvar_fields), (''Servicegroup'', Servicegroup_fields),
      (''ServicegroupCustomvar'', ServicegroupCustomvar_fields),
      (''ServicegroupMember'', ServicegroupMember_fields), (''Timeperiod'', Timeperiod_fields),
      (''TimeperiodCustomvar'', TimeperiodCustomvar_fields),
      (''TimeperiodOverrideExclude'', TimeperiodOverrideExclude_fields),
      (''TimeperiodOverrideInclude'', TimeperiodOverrideInclude_fields),
      (''TimeperiodRange'', TimeperiodRange_fields), (''User'', User_fields),
      (''UserCustomvar'', UserCustomvar_fields), (''Usergroup'', Usergroup_fields),
      (''UsergroupCustomvar'', UsergroupCustomvar_fields), (''UsergroupMember'', UsergroupMember_fields),
      (''Zone'', Zone_fields), (''Redundancygroup'', Redundancygroup_fields),
      (''DependencyNode'', DependencyNode_fields), (''DependencyEdge'', DependencyEdge_fields)]"

text \<open>All of them, with the two types of custom variables.\<close>

definition synced_types :: "entity_type list" where
  "synced_types = ConfigFactories @ StateFactories @ [(''Customvar'', Customvar_fields), (''CustomvarFlat'', CustomvarFlat_fields)]"

lemmas struct_defs =
  IdMeta_fields_def ChecksumMeta_fields_def EntityWithoutChecksum_fields_def EntityWithChecksum_fields_def
  EnvironmentMeta_fields_def NameMeta_fields_def NameCiMeta_fields_def CustomvarMeta_fields_def
  GroupMeta_fields_def MemberMeta_fields_def Command_fields_def CommandArgument_fields_def CommandEnvvar_fields_def
  Checkcommand_fields_def CheckcommandArgument_fields_def CheckcommandEnvvar_fields_def
  CheckcommandCustomvar_fields_def Eventcommand_fields_def EventcommandArgument_fields_def
  EventcommandEnvvar_fields_def EventcommandCustomvar_fields_def Notificationcommand_fields_def
  NotificationcommandArgument_fields_def NotificationcommandEnvvar_fields_def
  NotificationcommandCustomvar_fields_def Checkable_fields_def State_fields_def Host_fields_def
  HostCustomvar_fields_def HostState_fields_def Hostgroup_fields_def HostgroupCustomvar_fields_def
  HostgroupMember_fields_def Service_fields_def ServiceCustomvar_fields_def ServiceState_fields_def
  Servicegroup_fields_def ServicegroupCustomvar_fields_def ServicegroupMember_fields_def Comment_fields_def
  Downtime_fields_def ActionUrl_fields_def NotesUrl_fields_def IconImage_fields_def Notification_fields_def
  NotificationUser_fields_def NotificationUsergroup_fields_def NotificationRecipient_fields_def
  NotificationCustomvar_fields_def User_fields_def UserCustomvar_fields_def Usergroup_fields_def
  UsergroupCustomvar_fields_def UsergroupMember_fields_def Timeperiod_fields_def TimeperiodRange_fields_def
  TimeperiodOverrideInclude_fields_def TimeperiodOverrideExclude_fields_def TimeperiodCustomvar_fields_def
  Endpoint_fields_def Zone_fields_def Redundancygroup_fields_def RedundancygroupState_fields_def
  DependencyNode_fields_def DependencyEdgeState_fields_def DependencyEdge_fields_def Customvar_fields_def
  CustomvarFlat_fields_def

section \<open>Values of the types\<close>

text \<open>
  \<open>NameCi\<close> is a pointer to the name of the same value once \<open>Init\<close> has been called, so the column follows the
  name that is read afterwards; the arguments of a command have defaults for what Redis leaves out.
\<close>

record name_ci =
  nm_Name :: string
  nm_NameCi_set :: bool

definition NameCiMeta_Init :: "name_ci \<Rightarrow> name_ci" where
  "NameCiMeta_Init n = n\<lparr>nm_NameCi_set := True\<rparr>"

definition NameCi_column :: "name_ci \<Rightarrow> string option" where
  "NameCi_column n = (if nm_NameCi_set n then Some (nm_Name n) else None)"

record argument_flags =
  RepeatKey :: go_bool
  Required :: go_bool
  SkipKey :: go_bool

definition CommandArgument_Init :: "argument_flags \<Rightarrow> argument_flags" where
  "CommandArgument_Init ca = ca\<lparr>RepeatKey := MakeBool True, Required := MakeBool False, SkipKey := MakeBool False\<rparr>"

lemma name_ci_follows: "NameCi_column ((NameCiMeta_Init n)\<lparr>nm_Name := x\<rparr>) = Some x"
  by (simp add: NameCi_column_def NameCiMeta_Init_def)


text \<open>\<open>Redundancygroup\<close> and its state have table names of their own; the others follow from the name of the type.\<close>

definition TableName :: "(string \<Rightarrow> string) \<Rightarrow> string \<Rightarrow> string" where
  "TableName snake name =
     (if name = ''Redundancygroup'' then ''redundancy_group''
      else if name = ''RedundancygroupState'' then ''redundancy_group_state'' else snake name)"

text \<open>The counter of the telemetry that a type counts for.\<close>

definition getCounterForEntity :: "string \<Rightarrow> string" where
  "getCounterForEntity name = (if name = ''HostState'' \<or> name = ''ServiceState'' then ''state_sync'' else ''config_sync'')"

lemma dependency_states_counted_as_config:
  "map (\<lambda>t. getCounterForEntity (fst t)) StateFactories = [''state_sync'', ''state_sync'', ''config_sync'', ''config_sync'']"
  by (simp add: StateFactories_def getCounterForEntity_def)

section \<open>Properties\<close>

text \<open>The initial synchronisation reads the rows of the environment by its ID and tells them apart by theirs.\<close>

definition well_formed_type :: "entity_type \<Rightarrow> bool" where
  "well_formed_type t \<longleftrightarrow>
     (''Id'', Binary_T, ''id'') \<in> set (snd t) \<and> (''EnvironmentId'', Binary_T, ''environment_id'') \<in> set (snd t) \<and>
     distinct (map fst (snd t)) \<and> distinct (filter (\<lambda>k. k \<noteq> ''-'') (map (\<lambda>f. snd (snd f)) (snd t)))"

lemma lists_well_formed: "list_all well_formed_type ConfigFactories" "list_all well_formed_type StateFactories"
  by code_simp+

lemma type_names_distinct: "distinct (map fst synced_types)"
  by (simp add: synced_types_def ConfigFactories_def StateFactories_def)




text \<open>Every type that is synchronised has the columns by which its rows are selected and told apart, once
  each, no two of its fields are read from the same key, and no two types have the same name, by which the
  messages of the runtime updates find the lane of their type.\<close>

theorem synced_types_well_formed: "list_all well_formed_type synced_types \<and> distinct (map fst synced_types)"
  using lists_well_formed type_names_distinct by (simp add: synced_types_def well_formed_type_def struct_defs)



end
