(* ===== verification/Session.thy ===== *)
theory Session
  imports Config_Sync Config_Types Runtime_Updates
begin

text \<open>
  A synchronisation session of one type from its beginning to its end: what \<open>Config_Sync\<close> makes of the table
  and what \<open>Runtime_Updates\<close> makes of the result, in the order that \<open>Main_Loop\<close> keeps: the streams are cleared
  before anything is read from Redis, and the runtime updates start after the table is synchronised.
\<close>

section \<open>Setting up the runtime updates\<close>

text \<open>
  \<open>ClearStreams\<close>: the streams of the configuration and of the states, and what is left of the keys of Redis.
\<close>

definition ClearStreams :: "(string \<rightharpoonup> 'v) \<Rightarrow> string list \<times> string list \<times> (string \<rightharpoonup> 'v)" where
  "ClearStreams redis = ([''icinga:runtime''], [''icinga:runtime:state''], redis(''icinga:runtime'' := None, ''icinga:runtime:state'' := None))"

text \<open>The options of \<open>Sync\<close>; of the callback only whether there is one.\<close>

record ru_options =
  allowParallel :: bool
  upsertFn :: bool

definition WithAllowParallel :: "ru_options \<Rightarrow> ru_options" where
  "WithAllowParallel opts = opts\<lparr>allowParallel := True\<rparr>"

definition WithRUUpsert :: "ru_options \<Rightarrow> ru_options" where
  "WithRUUpsert opts = opts\<lparr>upsertFn := True\<rparr>"

text \<open>
  The keys of the lanes: one for each type, and that of the custom variables for the stream of the
  configuration. \<open>delimited\<close> is \<open>strcase.Delimited\<close> with a colon.
\<close>

definition type_key :: "(string \<Rightarrow> string) \<Rightarrow> string \<Rightarrow> string" where
  "type_key delimited name = ''icinga:'' @ delimited name"

definition lane_keys :: "(string \<Rightarrow> string) \<Rightarrow> entity_type list \<Rightarrow> string list \<Rightarrow> string list" where
  "lane_keys delimited types streams =
     map (\<lambda>t. type_key delimited (fst t)) types @
     (if ''icinga:runtime'' \<in> set streams then [type_key delimited ''Customvar''] else [])"


text \<open>If no two names have the same key, a message of a type that is synchronised finds its lane and no other.\<close>

lemma type_keys_apart:
  assumes "inj delimited" "t \<in> set synced_types" "u \<in> set synced_types" "type_key delimited (fst t) = type_key delimited (fst u)"
  shows "t = u"
proof -
  have "fst t = fst u" using assms(1,4) by (simp add: type_key_def inj_eq)
  then show ?thesis using type_names_distinct assms(2,3) by (metis distinct_map inj_onD)
qed

lemma message_finds_lane:
  assumes "t \<in> set types" "msg_Values m ''redis_key'' = Some (AString (type_key delimited (fst t)))"
  shows "message_channel (set (lane_keys delimited types streams)) m = Ok (type_key delimited (fst t))"
  using assms by (auto simp: message_channel_def lane_keys_def)

section \<open>From the dump to the runtime updates\<close>







end
