(* ===== verification/Spec2Isabelle.thy ===== *)
theory Spec2Isabelle
  imports Sorter_Props Config_Sync Dump_Signals Ha_Props History_Props
    Migrate_Cache Migrate_Props Retention Schema_Check Overdue Runtime_Updates Notify_Examples Main_Ha Migrate_Range
    Customvars_Sync Telemetry_Props Startup Sync_Wait Migrate_Main
    Host_Address Config_Types Session
begin

text \<open>
  Icinga DB in Isabelle/HOL: a model of the daemon that carries the state of Icinga 2 from Redis to an
  SQL database, of the source of Icinga Notifications inside it, and of the tool that migrates the
  history of the IDO. Paths are relative to the root of the repository.

  \<^bold>\<open>The program.\<close> Icinga 2 writes its configuration, the states of hosts and services, streams of changes to
  both (the runtime updates), streams of history events and a heartbeat to Redis. Several daemons may
  run on one database; the component for high availability picks the responsible one by the heartbeat
  and the table \<open>icingadb_instance\<close>, and signals takeovers and handovers to the main loop. A takeover
  starts a loop of synchronisation sessions. A session clears the streams of the runtime updates, waits
  for the dump of each type, brings the tables in line with Redis, and then applies the runtime updates;
  the retention deletes old history, and overdue objects are marked. History is written at all times, by
  every instance. A new dump cancels the session, and the next one begins. States that change are also
  events for Icinga Notifications, which may ask for more attributes of the objects before it accepts an
  event. Telemetry goes back to Icinga 2 through Redis.

  \<^bold>\<open>Shared.\<close> \<open>Idb_Prelude\<close> has what all theories use: the outcome of a call (a value, an error, a panic),
  nullable columns, byte strings, stream messages, instants, and lemmas on lists and maps. \<open>Stream_Id\<close> has
  decimal numbers as \<open>strconv\<close> reads and prints them, and the parser of stream IDs.

  \<^bold>\<open>High availability.\<close> \<open>Heartbeat\<close> is \<open>pkg/icingaredis/heartbeat.go\<close> with the messages of
  \<open>pkg/icingaredis/v1\<close>: when a heartbeat counts as lost, and what is sent to the receiver. \<open>Ha\<close> is
  \<open>pkg/icingadb/ha.go\<close>: the controller of one instance, the transaction on the table of instances, and
  the inductive relation \<open>ha_step\<close> of any number of instances on one table, with the invariant that at
  most one row claims responsibility and at most the instance of this row is responsible, as long as no instance
  that claims to be is taken for dead while it lives. The step of an instance handles a whole event; the record
  \<open>ha\<close> keeps the history of the states it stored and the signals it sent in between, which others can see one by
  one. \<open>Ha_Props\<close> has a run of two instances and what happens where the invariant fails. \<open>Ha_State\<close> has the
  contract \<open>ha_predicate\<close> for what every component's state keeps, interpreted twice: signals alternate, and at
  every moment of the history the state that is reported is the one that was signalled or is about to be.

  \<^bold>\<open>The main program.\<close> \<open>Schema_Check\<close> is \<open>pkg/icingadb/schema.go\<close> and the check of the Redis schema.
  \<open>Startup\<close> is \<open>internal/command\<close>, \<open>internal/config\<close> and the part of \<open>run\<close> in \<open>cmd/icingadb/main.go\<close> before
  the main loop, and its deferred calls. \<open>Main_Loop\<close> is the main loop: \<open>session_step\<close> moves the goroutines
  of one session with its wait groups and error group, \<open>main_step\<close> the loops of the takeovers. \<open>Main_Props\<close>
  shows what has returned before the runtime updates start, that a session ends, when its end is fatal,
  and which goroutines have lost their context; \<open>Main_Ha\<close> joins it with \<open>Ha\<close>: there is at most one live loop.

  \<^bold>\<open>Synchronisation.\<close> \<open>Dump_Signals\<close> and \<open>Sync_Wait\<close> are \<open>pkg/icingadb/dump_signals.go\<close> and
  \<open>SyncAfterDump\<close>. \<open>Delta\<close> is \<open>pkg/icingadb/delta.go\<close> with the entities and their comparison: the loop over
  the two channels refines the specification \<open>delta_spec\<close>. \<open>Config_Sync\<close> is \<open>Sync\<close> and \<open>ApplyDelta\<close> of
  \<open>pkg/icingadb/sync.go\<close> with \<open>pkg/icingaredis/utils.go\<close>: whatever the order of the statements, the table
  ends as Redis has it. \<open>Customvars\<close> and \<open>Customvars_Props\<close> are \<open>pkg/icingadb/v1/customvar.go\<close>: the
  multiplexer and the flattening workers, for any number of CPUs and any interleaving; \<open>Customvars_Sync\<close> is
  what \<open>SyncCustomvars\<close> and \<open>prepareCustomVarsForSync\<close> make of them in the two tables. \<open>Runtime_Updates\<close> is
  \<open>pkg/icingadb/runtime_updates.go\<close>: the readers of the streams, the lanes of the types with their
  serializers, and the deletion of what was processed. \<open>Session\<close> joins \<open>Config_Sync\<close> and \<open>Runtime_Updates\<close>: after a
  whole session a table is the content of Redis, although that has changed meanwhile. \<open>Overdue\<close> is \<open>pkg/icingadb/overdue\<close> with its Lua
  script, \<open>Cleanup\<close> and \<open>Retention\<close> are \<open>pkg/icingadb/cleanup.go\<close> and \<open>pkg/icingadb/history/retention.go\<close>.

  \<^bold>\<open>Rows.\<close> \<open>Config_Types\<close> has the configuration and state types of \<open>pkg/icingadb/v1\<close> with their fields and keys and
  the lists of the types that are synchronised, and shows which of them are ever updated; \<open>Host_Address\<close> is
  \<open>pkg/icingadb/v1/host.go\<close>: the binary forms of the addresses of a host, with \<open>net.ParseIP\<close>.

  \<^bold>\<open>History.\<close> \<open>History_Types\<close> and \<open>History_Tables\<close> are the rows of \<open>pkg/icingadb/v1/history\<close> and what an insert
  or upsert does to the tables. \<open>History_Stage\<close> states the contract of a stage of a pipeline (the locale
  \<open>history_stage\<close>), \<open>History_Sync\<close> and \<open>History_Pipelines\<close> interpret it for the stages of
  \<open>pkg/icingadb/history/sync.go\<close> and \<open>sla.go\<close>, and \<open>History_Props\<close> shows that an event leaves Redis only
  after all its rows are in the database.

  \<^bold>\<open>Notifications.\<close> \<open>Go_Heap\<close>, \<open>Stream_Sorter\<close>, \<open>Sorter_System\<close> and \<open>Sorter_Props\<close> are
  \<open>pkg/notifications/sorter.go\<close>, which orders the events of several pipelines by their stream IDs: no
  panic, nothing lost or sent twice, and the order. \<open>Notify_Fetch\<close> and \<open>Notify_Relations\<close> are
  \<open>pkg/notifications/fetch.go\<close>: the relations of an event and the invariant \<open>rel_wf\<close> that types them;
  \<open>Notify_Content\<close> has the invariant \<open>rel_content\<close>: what they list has the content of Redis and the database.
  \<open>Notify_Event\<close>, \<open>Notify_Submit\<close> and \<open>Notify_Sync\<close> are \<open>pkg/notifications/notifications.go\<close>: events,
  their submission with the negotiation of attributes, incidents and check outputs. \<open>Notify_Props\<close> and
  \<open>Notify_Examples\<close> have the properties and concrete runs.

  \<^bold>\<open>Telemetry.\<close> \<open>Telemetry\<close> and \<open>Telemetry_Props\<close> are \<open>pkg/icingaredis/telemetry\<close>.

  \<^bold>\<open>Migration.\<close> \<open>Migrate_Slice\<close> is the loop over the rows of an IDO table in bulks, with the contract of what
  is done per bulk (\<open>slice_consumer\<close>, \<open>row_consumer\<close>). \<open>Migrate_Cache\<close> is \<open>cmd/icingadb-migrate/cache.go\<close>,
  \<open>Migrate_Convert\<close> and \<open>Migrate_Events\<close> are \<open>convert.go\<close>, \<open>Migrate_Run\<close> is \<open>migrateOneType\<close> of \<open>main.go\<close> with
  the contract \<open>stage_migration\<close> of a conversion, \<open>Migrate_Types\<close> its interpretations, and \<open>Migrate_Range\<close>
  the selection of the rows and the counting of the progress. \<open>Migrate_Props\<close> shows that references
  between the rows are kept and that an interrupted run can be continued. \<open>Migrate_Main\<close> is the program as a
  whole: its phases one after the other, each for all types, and the files of the cache, which stay until
  everything is migrated.

  \<^bold>\<open>How state and concurrency are modelled.\<close> The state of a component is a record with the fields of its
  struct and the local variables that outlive a step. Goroutines are steps of a relation or of a function
  that takes the choice as an argument; a step is what happens between two points at which others can
  interfere: a channel operation, a statement, a call to Redis. A channel without buffer is one step for
  both sides. A \<open>select\<close> may take any case that is ready, also when the context has ended. Properties of
  runs hold for every list of choices.

  \<^bold>\<open>Parameters.\<close> What is not in the repository is an argument: parsing JSON and JSONPath, hashing and
  packing, flattening, the text form of IDs, the iteration order of maps and the scan order of the
  database, the local time zone, \<open>FROM_UNIXTIME\<close> of the IDO, the API client of Icinga Notifications, and
  what each call to Redis or the database returns. Where a property needs something of them, such as
  hashes without collisions, it is a hypothesis, and the witness shows a function that has it.

  \<^bold>\<open>Bounds and fuel.\<close> Loops that may run forever are partial functions into an option, and a property says
  that they return: the loop over the IDO rows, the cleanup loop, and the loop of the delta. The retries
  around a statement or a request are a list of what the attempts return, so they have no bound. The
  negotiation of attributes in \<open>Submit\<close> is a partial function as well: it ends with every server that asks for what
  the client can provide, and there is a server with which it does not end. Integers are kept at their
  width where it matters (\<open>uint8\<close>, \<open>uint16\<close> and \<open>uint64\<close> of the history and the schema version); row IDs,
  times and counters are unbounded, with a bound as a hypothesis where they are printed and parsed.

  \<^bold>\<open>Not modelled.\<close> Logging and the intervals at which it happens; creating clients and connection pools,
  parsing YAML and flags, which are library calls whose result is a parameter of \<open>Startup\<close> and \<open>Migrate_Main\<close>;
  the drawing of progress bars; the columns of the configuration types as values, which carry no behaviour
  but the comparison of entities that \<open>Delta\<close> has; the schema files and their upgrades, which are SQL; tests.
  Some definitions leave out a detail of the source: \<open>output_requests\<close> the requests that are repeated when a read
  of Redis is retried after some of its objects have been visited; \<open>submit\<close> the imprecision of the timer that
  guards the sorter; \<open>exec_cleanup\<close> the column by which PostgreSQL picks the rows of a batch; \<open>client_ApplyDelta\<close>
  that the request which closes incidents is cancelled when the other goroutine fails; \<open>migrate_rows\<close> the order
  in which the bulks of one stage are written.
\<close>

end
